(* ===== verification/Go_Prelude.thy ===== *)
theory Go_Prelude
  imports Main "HOL-Library.Word" "HOL-Library.Monad_Syntax" "HOL-Library.Sublist"
begin

text \<open>
  What the components share: the parts of Go and of its standard library that the sources
  under \<^verbatim>\<open>src/\<close> use, and the generic lemmas about them.

  \<^item> Bytes are 8-bit words, and so are the bytes of a Go string once converted with
    \<open>bytes_of\<close>/\<open>str_of\<close>.
  \<^item> A Go slice is a \<open>slice\<close> record: the backing array from the slice's first element up to
    its capacity, and its length. Indexing is checked against the length, reslicing against
    the capacity, as in Go.
  \<^item> A value of type \<open>'a option\<close> that stands for a call is \<open>None\<close> when the call does not
    return normally: it panics (a run-time bounds check fails) or it never returns. Errors
    that the code returns are values of type \<open>goerr\<close>.
  \<^item> An \<open>io.Reader\<close> is the list of the results that its \<open>Read\<close> calls will give (\<open>go_read\<close>);
    an \<open>io.Writer\<close> is a \<open>writer\<close> record with the bytes accepted so far and the limits and
    errors of its next \<open>Write\<close> calls (\<open>go_write\<close>).
\<close>

unbundle bit_operations_syntax

named_theorems slice_simps "evaluation of slice operations under their bounds"
named_theorems io_simps "evaluation of reads and writes"
named_theorems endian_simps "byte-order encodings"

section \<open>Bytes, strings, errors\<close>

type_synonym byte = "8 word"
type_synonym u16 = "16 word"
type_synonym u32 = "32 word"
type_synonym u64 = "64 word"

definition bytes_of :: "string \<Rightarrow> byte list" where
  "bytes_of s = map (\<lambda>c. of_char c) s"

definition str_of :: "byte list \<Rightarrow> string" where
  "str_of bs = map (\<lambda>b. char_of (unat b)) bs"

lemma length_bytes_of [simp]: "length (bytes_of s) = length s"
  by (simp add: bytes_of_def)

lemma length_str_of [simp]: "length (str_of bs) = length bs"
  by (simp add: str_of_def)

lemma bytes_of_Nil [simp]: "bytes_of [] = []" and bytes_of_Cons [simp]: "bytes_of (c # s) = of_char c # bytes_of s"
  by (simp_all add: bytes_of_def)

lemma bytes_of_append [simp]: "bytes_of (s @ t) = bytes_of s @ bytes_of t"
  by (simp add: bytes_of_def)

lemma str_of_append [simp]: "str_of (s @ t) = str_of s @ str_of t"
  by (simp add: str_of_def)

lemma unat_byte_less [simp]: "unat (b :: byte) < 256"
proof -
  have "unat b < 2 ^ LENGTH(8)" by (rule unsigned_less)
  then show ?thesis by simp
qed

lemma unat_of_char_byte: "unat (of_char c :: byte) = of_char c"
proof -
  have "(of_char c :: byte) = of_nat (of_char c)" by (rule of_nat_of_char [symmetric])
  moreover have "(of_char c :: nat) < 256" by (rule nat_of_char_less_256)
  ultimately show ?thesis by (simp add: unsigned_of_nat take_bit_nat_eq_self)
qed

lemma str_of_bytes_of [simp]: "str_of (bytes_of s) = s"
  by (induction s) (simp_all add: bytes_of_def str_of_def unat_of_char_byte)

lemma of_char_char_of_byte: "of_char (char_of (unat b)) = (b :: byte)"
proof -
  have "(of_char (char_of (unat b)) :: byte) = of_nat (of_char (char_of (unat b)))"
    by (rule of_nat_of_char [symmetric])
  then show ?thesis by (simp add: take_bit_nat_eq_self)
qed

lemma bytes_of_str_of [simp]: "bytes_of (str_of bs) = bs"
  by (simp add: bytes_of_def str_of_def comp_def of_char_char_of_byte)

text \<open>Error values: the sentinels that the code compares with, and errors known only by their text.\<close>

datatype goerr =
    EOF | ErrUnexpectedEOF | ErrShortWrite | ErrDeadlineExceeded | Canceled
  | OpErrorEPIPE \<comment> \<open>a \<open>*net.OpError\<close> whose \<open>Err\<close> is \<open>EPIPE\<close>\<close>
  | ErrMsg string

fun err_string :: "goerr \<Rightarrow> string" where
  "err_string EOF = ''EOF''"
| "err_string ErrUnexpectedEOF = ''unexpected EOF''"
| "err_string ErrShortWrite = ''short write''"
| "err_string ErrDeadlineExceeded = ''i/o timeout''"
| "err_string Canceled = ''context canceled''"
| "err_string OpErrorEPIPE = ''write: broken pipe''"
| "err_string (ErrMsg s) = s"

text \<open>\<open>strings.Contains\<close>.\<close>

definition str_contains :: "string \<Rightarrow> string \<Rightarrow> bool" where
  "str_contains s t = sublist t s"

lemma str_contains_eval [simp]:
  "str_contains [] t = (t = [])"
  "str_contains (c # s) t = (prefix t (c # s) \<or> str_contains s t)"
  by (auto simp: str_contains_def sublist_Cons_right)

text \<open>\<open>strings.Split(s, sep)\<close> for a separator of one character, and \<open>strings.Join\<close>.\<close>

fun split_on :: "char \<Rightarrow> string \<Rightarrow> string list" where
  "split_on sep [] = [[]]"
| "split_on sep (c # cs) = (if c = sep then [] # split_on sep cs
     else case split_on sep cs of x # xs \<Rightarrow> (c # x) # xs | [] \<Rightarrow> [[c]])"

fun join_with :: "string \<Rightarrow> string list \<Rightarrow> string" where
  "join_with sep [] = []"
| "join_with sep [x] = x"
| "join_with sep (x # y # xs) = x @ sep @ join_with sep (y # xs)"

text \<open>\<open>strings.TrimSpace\<close> on ASCII text.\<close>

definition is_white :: "char \<Rightarrow> bool" where
  "is_white c = (let n = of_char c :: nat in 9 \<le> n \<and> n \<le> 13 \<or> n = 32)"

definition trim_space :: "string \<Rightarrow> string" where
  "trim_space s = rev (dropWhile is_white (rev (dropWhile is_white s)))"

lemma split_on_ne [simp]: "split_on sep s \<noteq> []"
  by (induction s) (auto split: list.splits)

lemma split_on_single: "sep \<notin> set s \<Longrightarrow> split_on sep s = [s]"
  by (induction s) auto

lemma split_on_append: "sep \<notin> set a \<Longrightarrow> split_on sep (a @ sep # b) = a # split_on sep b"
  by (induction a) auto

section \<open>Partial calls\<close>

text \<open>\<open>sat P m\<close>: if the call \<open>m\<close> returns, its result satisfies \<open>P\<close>. The rules walk through a
  \<open>do\<close> block.\<close>

definition sat :: "('a \<Rightarrow> bool) \<Rightarrow> 'a option \<Rightarrow> bool" where
  "sat P m = (\<forall>x. m = Some x \<longrightarrow> P x)"

named_theorems sat_rules "rules for partial-correctness statements on do blocks"

lemma satD: "sat P m \<Longrightarrow> m = Some x \<Longrightarrow> P x"
  by (simp add: sat_def)

lemma sat_None [sat_rules]: "sat P None"
  and sat_Some [sat_rules]: "P x \<Longrightarrow> sat P (Some x)"
  and sat_bind [sat_rules]: "(\<And>x. m = Some x \<Longrightarrow> sat P (f x)) \<Longrightarrow> sat P (Option.bind m f)"
  and sat_if [sat_rules]: "(c \<Longrightarrow> sat P x') \<Longrightarrow> (\<not> c \<Longrightarrow> sat P y') \<Longrightarrow> sat P (if c then x' else y')"
  and sat_Let [sat_rules]: "sat P (g v) \<Longrightarrow> sat P (Let v g)"
  and sat_prod [sat_rules]: "(\<And>a b. u = (a, b) \<Longrightarrow> sat P (h a b)) \<Longrightarrow> sat P (case u of (a, b) \<Rightarrow> h a b)"
  and sat_prod2 [sat_rules]: "(\<And>a b. u = (a, b) \<Longrightarrow> sat P (k a b z)) \<Longrightarrow> sat P ((case u of (a, b) \<Rightarrow> k a b) z)"
  and sat_sum [sat_rules]: "(\<And>a. w = Inl a \<Longrightarrow> sat P (l a)) \<Longrightarrow> (\<And>b. w = Inr b \<Longrightarrow> sat P (r b)) \<Longrightarrow>
    sat P (case w of Inl a \<Rightarrow> l a | Inr b \<Rightarrow> r b)"
  and sat_option [sat_rules]: "(q = None \<Longrightarrow> sat P n) \<Longrightarrow> (\<And>a. q = Some a \<Longrightarrow> sat P (s a)) \<Longrightarrow>
    sat P (case q of None \<Rightarrow> n | Some a \<Rightarrow> s a)"
  by (auto simp: sat_def bind_eq_Some_conv split: prod.splits sum.splits option.splits)

section \<open>Slices\<close>

record slice =
  sarr :: "byte list"
  slen :: nat

definition scap :: "slice \<Rightarrow> nat" where
  "scap s = length (sarr s)"

definition wf_slice :: "slice \<Rightarrow> bool" where
  "wf_slice s \<longleftrightarrow> slen s \<le> scap s"

text \<open>\<open>make([]byte, n)\<close> and the slice of a given list of bytes.\<close>

definition make_slice :: "nat \<Rightarrow> slice" where
  "make_slice n = \<lparr>sarr = replicate n 0, slen = n\<rparr>"

text \<open>\<open>s[lo:hi]\<close>: bounds are checked against the capacity.\<close>

definition s_slice :: "slice \<Rightarrow> nat \<Rightarrow> nat \<Rightarrow> slice option" where
  "s_slice s lo hi = (if lo \<le> hi \<and> hi \<le> scap s
     then Some \<lparr>sarr = drop lo (sarr s), slen = hi - lo\<rparr> else None)"

text \<open>The elements of a slice, \<open>s[i]\<close>, and \<open>s[i] = v\<close>.\<close>

definition s_bytes :: "slice \<Rightarrow> byte list" where
  "s_bytes s = take (slen s) (sarr s)"

definition s_get :: "slice \<Rightarrow> nat \<Rightarrow> byte option" where
  "s_get s i = (if i < slen s then Some (sarr s ! i) else None)"

definition s_set :: "slice \<Rightarrow> nat \<Rightarrow> byte \<Rightarrow> slice option" where
  "s_set s i v = (if i < slen s then Some (s\<lparr>sarr := (sarr s)[i := v]\<rparr>) else None)"

text \<open>Overwriting a list from a position on, and \<open>copy(s[pos:], bs)\<close>, which copies as many
  bytes as fit before the length of \<open>s\<close>.\<close>

definition overwrite :: "'a list \<Rightarrow> nat \<Rightarrow> 'a list \<Rightarrow> 'a list" where
  "overwrite xs pos ys =
     take pos xs @ take (length xs - pos) ys @ drop (pos + length ys) xs"

definition s_copy_at :: "slice \<Rightarrow> nat \<Rightarrow> byte list \<Rightarrow> slice option" where
  "s_copy_at s pos bs = (if pos \<le> slen s
     then Some (s\<lparr>sarr := overwrite (sarr s) pos (take (slen s - pos) bs)\<rparr>) else None)"

text \<open>A fixed-width store \<open>binary.PutUint32(s[pos:], v)\<close>: it panics when the bytes do not fit
  before the length of the slice.\<close>

definition s_put_at :: "slice \<Rightarrow> nat \<Rightarrow> byte list \<Rightarrow> slice option" where
  "s_put_at s pos bs = (if pos + length bs \<le> slen s
     then Some (s\<lparr>sarr := overwrite (sarr s) pos bs\<rparr>) else None)"

lemma length_overwrite [simp]: "pos \<le> length xs \<Longrightarrow> length (overwrite xs pos ys) = length xs"
  by (auto simp: overwrite_def min_def)

lemma overwrite_Nil [simp]: "overwrite xs pos [] = xs"
  by (simp add: overwrite_def)

lemma take_overwrite_before: "n \<le> pos \<Longrightarrow> pos \<le> length xs \<Longrightarrow> take n (overwrite xs pos ys) = take n xs"
  by (simp add: overwrite_def min_def)

lemma take_overwrite_through:
  "pos + length ys \<le> length xs \<Longrightarrow> take (pos + length ys) (overwrite xs pos ys) = take pos xs @ ys"
  by (simp add: overwrite_def)

lemma overwrite_prefix: "n \<le> length xs \<Longrightarrow> length ys = n \<Longrightarrow> overwrite xs 0 ys = ys @ drop n xs"
  by (simp add: overwrite_def)

lemma scap_simps [simp]:
  "scap (s\<lparr>slen := n\<rparr>) = scap s"
  "scap \<lparr>sarr = xs, slen = n\<rparr> = length xs"
  "scap (make_slice n) = n"
  by (simp_all add: scap_def make_slice_def)

lemma make_slice_simps [simp]: "slen (make_slice n) = n" "sarr (make_slice n) = replicate n 0"
  by (simp_all add: make_slice_def)

lemma s_copy_at_cap: "s_copy_at s pos bs = Some s' \<Longrightarrow> wf_slice s \<Longrightarrow> scap s' = scap s \<and> slen s' = slen s"
  by (auto simp: s_copy_at_def scap_def wf_slice_def split: if_splits)

lemma s_slice_Some: "lo \<le> hi \<Longrightarrow> hi \<le> scap s \<Longrightarrow>
    s_slice s lo hi = Some \<lparr>sarr = drop lo (sarr s), slen = hi - lo\<rparr>"
  by (simp add: s_slice_def)

lemma s_copy_at_Some: "pos \<le> slen s \<Longrightarrow> length bs \<le> slen s - pos \<Longrightarrow>
    s_copy_at s pos bs = Some (s\<lparr>sarr := overwrite (sarr s) pos bs\<rparr>)"
  by (simp add: s_copy_at_def)

lemmas [slice_simps] = s_slice_Some s_copy_at_Some s_put_at_def s_get_def s_set_def s_bytes_def

section \<open>Byte orders (encoding/binary)\<close>

text \<open>\<open>int(b0)<<8 | int(b1)\<close>, the big-endian 16-bit length fields.\<close>

definition be16 :: "byte \<Rightarrow> byte \<Rightarrow> nat" where
  "be16 b0 b1 = (push_bit 8 (unat b0)) OR (unat b1)"

definition put_be16 :: "u16 \<Rightarrow> byte list" where
  "put_be16 v = [ucast (drop_bit 8 v), ucast v]"

definition le32_bytes :: "u32 \<Rightarrow> byte list" where
  "le32_bytes v = [ucast v, ucast (drop_bit 8 v), ucast (drop_bit 16 v), ucast (drop_bit 24 v)]"

definition be32_bytes :: "u32 \<Rightarrow> byte list" where
  "be32_bytes v = [ucast (drop_bit 24 v), ucast (drop_bit 16 v), ucast (drop_bit 8 v), ucast v]"

fun le32_val :: "byte list \<Rightarrow> u32 option" where
  "le32_val (a # b # c # d # _) =
     Some (ucast a OR push_bit 8 (ucast b) OR push_bit 16 (ucast c) OR push_bit 24 (ucast d))"
| "le32_val _ = None"

fun be32_val :: "byte list \<Rightarrow> u32 option" where
  "be32_val (a # b # c # d # _) =
     Some (ucast d OR push_bit 8 (ucast c) OR push_bit 16 (ucast b) OR push_bit 24 (ucast a))"
| "be32_val _ = None"

lemma not_bit_byte: "8 \<le> n \<Longrightarrow> \<not> bit (b :: byte) n"
  using bit_imp_le_length [of b n] by auto

lemma be16_eq: "be16 a b = unat a * 256 + unat b"
proof -
  have "push_bit 8 (unat a) AND unat b = 0"
    by (rule bit_eqI) (auto simp: bit_simps dest: not_bit_byte)
  then show ?thesis
    by (simp add: be16_def disjunctive_add_eq_or [symmetric] push_bit_eq_mult)
qed

lemma be16_less: "be16 a b < 65536"
proof -
  have "unat a \<le> 255" "unat b \<le> 255"
    using unat_byte_less [of a] unat_byte_less [of b] by linarith+
  then show ?thesis unfolding be16_eq by linarith
qed

lemma bit_quarters:
  fixes n :: nat
  assumes "n < 32"
  obtains "n < 8" | "8 \<le> n" "n < 16" | "16 \<le> n" "n < 24" | "24 \<le> n"
  using assms by fastforce

lemma le32_recombine:
  fixes v :: u32
  shows "ucast (ucast v :: byte) OR push_bit 8 (ucast (ucast (drop_bit 8 v) :: byte))
    OR push_bit 16 (ucast (ucast (drop_bit 16 v) :: byte))
    OR push_bit 24 (ucast (ucast (drop_bit 24 v) :: byte)) = v"
    (is "?w = v")
proof (rule bit_word_eqI)
  fix n :: nat
  assume "n < LENGTH(32)"
  then have n: "n < 32" by simp
  then show "bit ?w n = bit v n"
    by (cases rule: bit_quarters) (use n in \<open>auto simp: bit_simps\<close>)
qed

lemma le32_roundtrip [endian_simps]: "le32_val (le32_bytes v @ xs) = Some v"
  by (simp add: le32_bytes_def le32_recombine)

lemma be32_roundtrip [endian_simps]: "be32_val (be32_bytes v @ xs) = Some v"
  by (simp add: be32_bytes_def le32_recombine)

lemma be16_roundtrip [endian_simps]:
  "be16 (ucast (drop_bit 8 v)) (ucast (v :: u16)) = unat v"
proof -
  have "be16 (ucast (drop_bit 8 v)) (ucast v) = unat v"
    unfolding be16_def by (rule bit_eqI) (auto simp: bit_simps dest: bit_imp_le_length)
  then show ?thesis .
qed

lemma length_endian [simp]: "length (le32_bytes v) = 4" "length (be32_bytes v) = 4" "length (put_be16 w) = 2"
  by (simp_all add: le32_bytes_def be32_bytes_def put_be16_def)

section \<open>Readers and writers (io)\<close>

text \<open>
  A reader is the list of the results that its next \<open>Read\<close> calls give: each is a run of bytes
  and the error returned with it. A call with room for \<open>n\<close> bytes takes at most \<open>n\<close> of them;
  when the run is longer the rest stays for the next call and no error is returned yet. Once
  the list is used up every call returns \<open>0, io.EOF\<close>.
\<close>

type_synonym reader = "(byte list \<times> goerr option) list"

fun go_read :: "nat \<Rightarrow> reader \<Rightarrow> byte list \<times> goerr option \<times> reader" where
  "go_read n [] = ([], Some EOF, [])"
| "go_read n ((bs, e) # r) =
     (if n < length bs then (take n bs, None, (drop n bs, e) # r) else (bs, e, r))"

text \<open>All bytes that a reader can still deliver.\<close>

definition reader_bytes :: "reader \<Rightarrow> byte list" where
  "reader_bytes r = concat (map fst r)"

lemma reader_bytes_simps [io_simps]:
  "reader_bytes [] = []" "reader_bytes ((bs, e) # r) = bs @ reader_bytes r"
  by (simp_all add: reader_bytes_def)

lemma go_read_bytes: "go_read n r = (bs, e, r') \<Longrightarrow> reader_bytes r = bs @ reader_bytes r'"
  by (cases r) (auto simp: io_simps split: if_splits)

lemma go_read_length: "go_read n r = (bs, e, r') \<Longrightarrow> length bs \<le> n"
  by (cases r) (auto split: if_splits)

text \<open>What a loop over a reader consumes: pending bytes and pending results.\<close>

definition reader_size :: "reader \<Rightarrow> nat" where
  "reader_size r = length (reader_bytes r) + length r"

lemma reader_size_simps [io_simps]:
  "reader_size [] = 0" "reader_size ((bs, e) # r) = Suc (length bs + reader_size r)"
  by (simp_all add: reader_size_def io_simps)

lemma go_read_size: "go_read n r = (bs, None, r') \<Longrightarrow> 0 < n \<Longrightarrow> reader_size r' < reader_size r"
  by (cases r) (auto simp: io_simps split: if_splits)

text \<open>A reader whose only error is the end of the stream.\<close>

definition plain_reader :: "reader \<Rightarrow> bool" where
  "plain_reader r = list_all (\<lambda>x. snd x = None) r"

lemma go_read_plain:
  assumes "plain_reader r" "go_read n r = (bs, e, r')"
  shows "plain_reader r' \<and> (e \<noteq> None \<longrightarrow> bs = [] \<and> reader_bytes r = [] \<and> reader_bytes r' = [])"
  using assms by (cases r) (auto simp: plain_reader_def io_simps split: if_splits)

text \<open>
  A writer: the bytes it has accepted, and for each of the next \<open>Write\<close> calls how many bytes it
  accepts at most and the error it returns. When the list is used up every call is accepted in
  full. As \<open>io.Writer\<close> allows, a call that accepts less than it was given may return an error
  or not (the code checks for both).
\<close>

record writer =
  w_out :: "byte list"
  w_next :: "(nat \<times> goerr option) list"

definition go_write :: "byte list \<Rightarrow> writer \<Rightarrow> nat \<times> goerr option \<times> writer" where
  "go_write bs w = (case w_next w of
       [] \<Rightarrow> (length bs, None, w\<lparr>w_out := w_out w @ bs\<rparr>)
     | (k, e) # ws \<Rightarrow> (min k (length bs), e, \<lparr>w_out = w_out w @ take k bs, w_next = ws\<rparr>))"

lemma go_write_out: "go_write bs w = (n, e, w') \<Longrightarrow> w_out w' = w_out w @ take n bs \<and> n \<le> length bs"
  by (auto simp: go_write_def min_def split: list.splits prod.splits)

text \<open>\<open>io.Copy\<close>: reads of 32K until the end of the stream, every run of bytes written at once.\<close>

definition ioCopySize :: nat where
  "ioCopySize = 32 * 1024"

function io_copy :: "reader \<Rightarrow> writer \<Rightarrow> nat \<times> goerr option \<times> reader \<times> writer" where
  "io_copy r w =
     (let (bs, er, r') = go_read ioCopySize r;
          (nw, ew, w') = (if bs = [] then (0, None, w) else go_write bs w)
      in if ew \<noteq> None then (nw, ew, r', w')
         else if nw \<noteq> length bs then (nw, Some ErrShortWrite, r', w')
         else case er of
           Some e \<Rightarrow> (nw, if e = EOF then None else Some e, r', w')
         | None \<Rightarrow> let (n, e, r'', w'') = io_copy r' w' in (nw + n, e, r'', w''))"
  by pat_completeness auto
termination
  by (relation "measure (\<lambda>(r, w). reader_size r)")
    (auto simp: ioCopySize_def dest!: sym [of "(_, _, _)" "go_read _ _"] go_read_size)

declare io_copy.simps [simp del]

lemma io_copy_prefix:
  assumes "io_copy r w = (n, e, r', w')"
  shows "w_out w' = w_out w @ take n (reader_bytes r) \<and> n \<le> length (reader_bytes r)"
  using assms
proof (induction r w arbitrary: n e r' w' rule: io_copy.induct)
  case (1 r w)
  obtain bs er r1 where rd: "go_read ioCopySize r = (bs, er, r1)" by (metis prod_cases3)
  obtain nw ew w1 where wr: "(if bs = [] then (0, None, w) else go_write bs w) = (nw, ew, w1)" by (metis prod_cases3)
  have w1: "w_out w1 = w_out w @ take nw bs \<and> nw \<le> length bs"
    using wr by (auto split: if_splits dest: go_write_out)
  have bytes: "reader_bytes r = bs @ reader_bytes r1" by (rule go_read_bytes [OF rd])
  show ?case
  proof (cases "ew \<noteq> None \<or> nw \<noteq> length bs \<or> er \<noteq> None")
    case True
    with "1.prems" have "n = nw" "w' = w1" by (auto simp: io_copy.simps [of r w] rd wr split: if_splits option.splits prod.splits)
    with w1 bytes show ?thesis by simp
  next
    case False
    then obtain m where m: "io_copy r1 w1 = (m, e, r', w')" "n = nw + m"
      using "1.prems" by (auto simp: io_copy.simps [of r w] rd wr split: prod.splits)
    note IH = "1.IH" [OF rd [symmetric] refl refl wr [symmetric] refl refl]
    from IH [OF _ _ _ m(1)] False w1 bytes m(2) show ?thesis by simp
  qed
qed

lemma io_copy_complete:
  assumes "plain_reader r" "w_next w = []"
  shows "\<exists>r'. io_copy r w = (length (reader_bytes r), None, r', w\<lparr>w_out := w_out w @ reader_bytes r\<rparr>)"
  using assms
proof (induction "reader_size r" arbitrary: r w rule: less_induct)
  case less
  obtain bs er r1 where rd: "go_read ioCopySize r = (bs, er, r1)" by (metis prod_cases3)
  note plain = go_read_plain [OF less.prems(1) rd]
  have bytes: "reader_bytes r = bs @ reader_bytes r1" by (rule go_read_bytes [OF rd])
  let ?w = "w\<lparr>w_out := w_out w @ bs\<rparr>"
  have wr: "(if bs = [] then (0, None, w) else go_write bs w) = (length bs, None, ?w)"
    using less.prems(2) by (simp add: go_write_def)
  show ?case
  proof (cases er)
    case None
    then have "reader_size r1 < reader_size r" using go_read_size [of ioCopySize r bs r1] rd by (simp add: ioCopySize_def)
    then obtain r' where "io_copy r1 ?w = (length (reader_bytes r1), None, r', ?w\<lparr>w_out := w_out ?w @ reader_bytes r1\<rparr>)"
      using less.hyps [of r1 ?w] plain less.prems(2) by auto
    with None bytes show ?thesis by (simp add: io_copy.simps [of r w] rd wr)
  next
    case (Some e)
    then have "e = EOF" using rd less.prems(1) by (cases r) (auto simp: plain_reader_def split: if_splits)
    with Some bytes plain show ?thesis by (simp add: io_copy.simps [of r w] rd wr)
  qed
qed

section \<open>Numbers as text (strconv)\<close>

fun nat_digits :: "nat \<Rightarrow> string" where
  "nat_digits n = (if n < 10 then [char_of (48 + n)] else nat_digits (n div 10) @ [char_of (48 + n mod 10)])"

declare nat_digits.simps [simp del]

text \<open>\<open>strconv.Itoa\<close> and \<open>strconv.Atoi\<close> of a number without a sign.\<close>

definition itoa :: "int \<Rightarrow> string" where
  "itoa i = (if i < 0 then CHR ''-'' # nat_digits (nat (- i)) else nat_digits (nat i))"

definition is_digit :: "char \<Rightarrow> bool" where
  "is_digit c = (48 \<le> (of_char c :: nat) \<and> of_char c \<le> (57 :: nat))"

definition digits_val :: "string \<Rightarrow> nat" where
  "digits_val s = foldl (\<lambda>n c. 10 * n + (of_char c - 48)) 0 s"

lemma digits_val_snoc [simp]: "digits_val (s @ [c]) = 10 * digits_val s + (of_char c - 48)"
  by (simp add: digits_val_def)

lemma digits_val_nat_digits: "digits_val (nat_digits n) = n"
proof (induction n rule: nat_digits.induct)
  case (1 n)
  have c: "(of_char (char_of (48 + n mod 10) :: char) :: nat) = 48 + n mod 10"
    by (simp add: of_char_of take_bit_nat_eq_self)
  show ?case
  proof (cases "n < 10")
    case True
    with c show ?thesis by (simp add: nat_digits.simps [of n] digits_val_def)
  next
    case False
    with 1 c show ?thesis by (simp add: nat_digits.simps [of n])
  qed
qed

lemma nat_digits_digits: "list_all is_digit (nat_digits n) \<and> nat_digits n \<noteq> []"
proof (induction n rule: nat_digits.induct)
  case (1 n)
  have "is_digit (char_of (48 + n mod 10))"
    by (simp add: is_digit_def of_char_of take_bit_nat_eq_self)
  then show ?case using 1 by (auto simp: nat_digits.simps [of n])
qed

end
