(* ===== verification/Nio_RecvBuf.thy ===== *)
theory Nio_RecvBuf
  imports Go_Prelude
begin

text \<open>
  \<^verbatim>\<open>src/nio/recvbuf.go\<close>: the unbounded receive buffer between the frame-reading goroutine (\<open>Put\<close>)
  and the reader of a stream (\<open>Recv\<close>, \<open>RecvNB\<close>, \<open>Read\<close>): a channel of capacity one in front of a
  backlog.

  A \<open>*bytes.Buffer\<close> is the list of its unread bytes. A call is \<open>None\<close> when it panics, blocks for
  ever or loops for ever in the given state. The blocking \<open>select\<close> statements take the branch
  given by the argument \<open>pick\<close>, and only when that branch is ready; the state they are applied to
  is the one at the moment the branch is taken. Two goroutines are interleaved by \<open>rb_step\<close>.
\<close>

record recvMsg =
  m_buf :: "byte list option"
  m_err :: "goerr option"

definition zeroMsg :: recvMsg where
  "zeroMsg = \<lparr>m_buf = None, m_err = None\<rparr>"

text \<open>\<open>chan\<close> is the content of the channel \<open>c\<close> (made with capacity 1), \<open>chanClosed\<close> whether it was
  closed; \<open>recycleSet\<close> and \<open>closeStreamSet\<close> say whether the two callbacks were given, \<open>recycled\<close> and
  \<open>streamErrs\<close> record the calls made to them.\<close>

record recvBuffer =
  chan :: "recvMsg list"
  chanClosed :: bool
  backlog :: "recvMsg list"
  Err :: "goerr option"
  last :: "byte list option"
  recycleSet :: bool
  closeStreamSet :: bool
  recycled :: nat
  streamErrs :: "goerr list"

definition NewRecvBuffer :: "bool \<Rightarrow> bool \<Rightarrow> recvBuffer" where
  "NewRecvBuffer rset cset = \<lparr>chan = [], chanClosed = False, backlog = [], Err = None, last = None,
     recycleSet = rset, closeStreamSet = cset, recycled = 0, streamErrs = []\<rparr>"

definition Put :: "recvMsg \<Rightarrow> recvBuffer \<Rightarrow> recvBuffer" where
  "Put r b =
     (if Err b \<noteq> None then b
      else (let b = (if m_err r \<noteq> None then b\<lparr>Err := m_err r\<rparr> else b) in
            if length (backlog b) = 0 \<and> length (chan b) < 1
            then (let b = b\<lparr>chan := chan b @ [r]\<rparr> in
                  if Err b \<noteq> None then b\<lparr>chanClosed := True\<rparr> else b)
            else b\<lparr>backlog := backlog b @ [r]\<rparr>))"

text \<open>A send on a closed channel panics, also inside a \<open>select\<close>.\<close>

definition reloadChannel :: "recvBuffer \<Rightarrow> recvBuffer option" where
  "reloadChannel b =
     (if length (backlog b) > 0 then
        if chanClosed b then None
        else if length (chan b) < 1
        then Some (b\<lparr>chan := chan b @ [hd (backlog b)], backlog := tl (backlog b)\<rparr>)
        else Some b
      else Some b)"

text \<open>\<open><-r.c\<close>: the next message, the zero message of a closed and empty channel, or not ready.\<close>

definition chanRecv :: "recvBuffer \<Rightarrow> (recvMsg \<times> recvBuffer) option" where
  "chanRecv b = (case chan b of
       m # ms \<Rightarrow> Some (m, b\<lparr>chan := ms\<rparr>)
     | [] \<Rightarrow> if chanClosed b then Some (zeroMsg, b) else None)"

text \<open>\<open>case m := <-r.c: r.reloadChannel()\<close>.\<close>

definition nextMsg :: "recvBuffer \<Rightarrow> (recvMsg \<times> recvBuffer) option" where
  "nextMsg b = do { (m, b) \<leftarrow> chanRecv b; b \<leftarrow> reloadChannel b; Some (m, b) }"

datatype sel = SelMsg | SelCtx | SelTimer

text \<open>What a blocking call sees of its environment: whether the context is done, whether a read
  deadline is set, and whether it has passed when the call starts.\<close>

record recvEnv =
  ctxDone :: bool
  deadlineSet :: bool
  deadlineBefore :: bool

text \<open>The common first part of \<open>Recv\<close> and \<open>RecvNB\<close>: data left by a previous \<open>Read\<close>, or a lasting
  error.\<close>

definition recvLast :: "recvBuffer \<Rightarrow> ((byte list option \<times> goerr option) option) \<times> recvBuffer" where
  "recvLast b =
     (let (ret, b) = (case last b of
            Some l \<Rightarrow> if length l = 0 then (None, b\<lparr>last := None\<rparr>) else (Some (Some l, None), b)
          | None \<Rightarrow> (None, b))
      in case ret of
           Some x \<Rightarrow> (Some x, b)
         | None \<Rightarrow> if Err b \<noteq> None \<and> Err b \<noteq> Some EOF then (Some (None, Err b), b) else (None, b))"

definition RecvNB :: "sel \<Rightarrow> recvEnv \<Rightarrow> recvBuffer \<Rightarrow> ((byte list option \<times> goerr option) \<times> recvBuffer) option" where
  "RecvNB pick env b =
     (let (ret, b) = recvLast b in
      case ret of
        Some x \<Rightarrow> Some (x, b)
      | None \<Rightarrow>
          if chanRecv b = None \<and> \<not> ctxDone env then Some ((None, None), b)
          else (case pick of
              SelCtx \<Rightarrow> if ctxDone env then Some ((None, Some Canceled), b) else None
            | SelMsg \<Rightarrow> do { (m, b) \<leftarrow> nextMsg b; Some ((m_buf m, m_err m), b) }
            | SelTimer \<Rightarrow> None))"

definition Recv :: "sel \<Rightarrow> recvEnv \<Rightarrow> recvMsg list \<Rightarrow> recvBuffer \<Rightarrow> ((byte list option \<times> goerr option) \<times> recvBuffer) option" where
  "Recv pick env puts b =
     (let (ret, b) = recvLast b in
      case ret of
        Some x \<Rightarrow> Some (x, b)
      | None \<Rightarrow>
          if deadlineSet env \<and> deadlineBefore env then Some ((None, Some ErrDeadlineExceeded), b)
          else (let b = fold Put puts b in
            case pick of
              SelTimer \<Rightarrow> if deadlineSet env then Some ((None, Some ErrDeadlineExceeded), b) else None
            | SelCtx \<Rightarrow> if ctxDone env then Some ((None, Some Canceled), b) else None
            | SelMsg \<Rightarrow> do { (m, b) \<leftarrow> nextMsg b; Some ((m_buf m, m_err m), b) }))"

text \<open>\<open>r.recycleBuffer(b)\<close>: calling a nil function panics.\<close>

definition recycleBuffer :: "recvBuffer \<Rightarrow> recvBuffer option" where
  "recycleBuffer b = (if recycleSet b then Some (b\<lparr>recycled := Suc (recycled b)\<rparr>) else None)"

text \<open>Copying from a frame into \<open>n\<close> free bytes: the bytes copied, and the frame kept in \<open>last\<close> or
  recycled (\<open>m.Buffer.Read(p)\<close> and the \<open>if\<close> after it).\<close>

definition takeFrame :: "byte list \<Rightarrow> nat \<Rightarrow> recvBuffer \<Rightarrow> (byte list \<times> recvBuffer) option" where
  "takeFrame fr n b =
     (if length (drop n fr) = 0
      then do { b \<leftarrow> recycleBuffer b; Some (take n fr, b\<lparr>last := None\<rparr>) }
      else Some (take n fr, b\<lparr>last := Some (drop n fr)\<rparr>))"

definition readAdditional :: "recvMsg \<Rightarrow> nat \<Rightarrow> recvBuffer \<Rightarrow> ((byte list \<times> goerr option) \<times> recvBuffer) option" where
  "readAdditional m n b = (case m_buf m of
       Some fr \<Rightarrow> do { (bs, b) \<leftarrow> takeFrame fr n b; Some ((bs, m_err m), b) }
     | None \<Rightarrow> if m_err m = None then Some (([], Some ErrDeadlineExceeded), b)
               else Some (([], m_err m), b))"

definition readBlocking :: "sel \<Rightarrow> recvEnv \<Rightarrow> recvMsg list \<Rightarrow> nat \<Rightarrow> recvBuffer \<Rightarrow> ((byte list \<times> goerr option) \<times> recvBuffer) option" where
  "readBlocking pick env puts n b =
     (if deadlineSet env \<and> deadlineBefore env then Some (([], Some ErrDeadlineExceeded), b)
      else (let b = fold Put puts b in
        case pick of
          SelTimer \<Rightarrow> if deadlineSet env then Some (([], Some ErrDeadlineExceeded), b) else None
        | SelCtx \<Rightarrow> if ctxDone env then Some (([], Some Canceled), b) else None
        | SelMsg \<Rightarrow> do { (m, b) \<leftarrow> nextMsg b; readAdditional m n b }))"

text \<open>The non-blocking loop of \<open>Read\<close> over the messages that are ready; \<open>acc\<close> holds the bytes
  copied so far. \<open>Inl\<close> is a \<open>return\<close> inside the loop, \<open>Inr\<close> the bytes at its end.\<close>

type_synonym loop_result = "((byte list \<times> goerr option) + byte list) \<times> recvBuffer"

partial_function (option) readLoop :: "nat \<Rightarrow> byte list \<Rightarrow> recvBuffer \<Rightarrow> loop_result option" where
  "readLoop n acc b =
     (if length acc < n \<and> (Err b = None \<or> Err b = Some EOF) then
        if chanRecv b = None then Some (Inr acc, b)
        else Option.bind (nextMsg b) (\<lambda>x.
          case m_buf (fst x) of
            Some fr \<Rightarrow> Option.bind (takeFrame fr (n - length acc) (snd x)) (\<lambda>y.
              if length (drop (n - length acc) fr) \<noteq> 0 then readLoop n (acc @ fst y) (snd y)
              else if length (acc @ fst y) = n then Some (Inl (acc @ fst y, None), snd y)
              else if m_err (fst x) \<noteq> None then Some (Inl (acc @ fst y, m_err (fst x)), snd y)
              else readLoop n (acc @ fst y) (snd y))
          | None \<Rightarrow>
              if m_err (fst x) \<noteq> None then Some (Inl (acc, m_err (fst x)), snd x)
              else readLoop n acc (snd x))
      else Some (Inr acc, b))"

text \<open>The part of \<open>Read\<close> after the blocking read, with \<open>copied + n\<close> bytes \<open>bs\<close>.\<close>

definition readFinish :: "byte list \<Rightarrow> goerr option \<Rightarrow> recvBuffer \<Rightarrow> (byte list \<times> goerr option) \<times> recvBuffer" where
  "readFinish bs err b =
     (if err = Some ErrDeadlineExceeded then ((bs, err), b)
      else (let b = (if err \<noteq> None \<and> Err b = None then b\<lparr>Err := err\<rparr> else b) in
        if Err b = Some EOF \<and> length bs > 0 then ((bs, None), b)
        else if Err b = Some EOF then (([], Some EOF), b)
        else (let b = (if Err b \<noteq> None \<and> closeStreamSet b then b\<lparr>streamErrs := streamErrs b @ [the (Err b)]\<rparr> else b) in
          if length bs > 0 then ((bs, None), b) else (([], Err b), b))))"

definition Read :: "sel \<Rightarrow> recvEnv \<Rightarrow> recvMsg list \<Rightarrow> nat \<Rightarrow> recvBuffer \<Rightarrow> ((byte list \<times> goerr option) \<times> recvBuffer) option" where
  "Read pick env puts n b = do {
     (full, copied, b) \<leftarrow> (case last b of
         None \<Rightarrow> Some (False, [], b)
       | Some l \<Rightarrow> do { (bs, b) \<leftarrow> takeFrame l n b; Some (length bs = n, bs, b) });
     if full then Some ((copied, None), b)
     else do {
       (res, b) \<leftarrow> readLoop n copied b;
       case res of
         Inl ret \<Rightarrow> Some (ret, b)
       | Inr acc \<Rightarrow>
           if length acc > 0 \<or> length acc = n then Some ((acc, None), b)
           else if Err b \<noteq> None \<and> Err b \<noteq> Some EOF then Some (([], Err b), b)
           else do {
             ((bs, err), b) \<leftarrow> readBlocking pick env puts (n - length acc) b;
             Some (readFinish (acc @ bs) err b) } } }"

section \<open>The message queue\<close>

text \<open>
  What the reading side relies on: a queue of messages with an abstraction \<open>items\<close>. An accepted
  message goes to the end, the next message comes from the front, and both keep the invariant.
\<close>

locale msg_queue =
  fixes inv :: "'q \<Rightarrow> bool"
    and items :: "'q \<Rightarrow> 'm list"
    and accepting :: "'q \<Rightarrow> bool"
    and put :: "'m \<Rightarrow> 'q \<Rightarrow> 'q"
    and next_msg :: "'q \<Rightarrow> ('m \<times> 'q) option"
  assumes put_inv: "inv q \<Longrightarrow> inv (put m q)"
    and put_items: "inv q \<Longrightarrow> accepting q \<Longrightarrow> items (put m q) = items q @ [m]"
    and put_refused: "inv q \<Longrightarrow> \<not> accepting q \<Longrightarrow> put m q = q"
    and next_items: "inv q \<Longrightarrow> items q = m # ms \<Longrightarrow>
          \<exists>q'. next_msg q = Some (m, q') \<and> inv q' \<and> items q' = ms \<and> accepting q' = accepting q"
begin

lemma fold_put_inv: "inv q \<Longrightarrow> inv (fold put ms q)"
  by (induction ms arbitrary: q) (auto intro: put_inv)

text \<open>Taking messages one by one gives them in the order in which they were put.\<close>

lemma next_prefix:
  assumes "inv q" "items q = ms @ rest"
  shows "\<exists>q'. ((\<lambda>(out, q). case next_msg q of Some (m, q') \<Rightarrow> (out @ [m], q') | None \<Rightarrow> (out, q)) ^^ length ms) (pre, q)
     = (pre @ ms, q') \<and> inv q' \<and> items q' = rest"
  using assms
proof (induction ms arbitrary: q pre)
  case (Cons m ms)
  then obtain q' where q': "next_msg q = Some (m, q')" "inv q'" "items q' = ms @ rest"
    using next_items [of q m "ms @ rest"] by auto
  from Cons.IH [OF q'(2,3), of "pre @ [m]"] q'(1) show ?case
    by (simp add: funpow_Suc_right del: funpow.simps)
qed simp

end

definition items :: "recvBuffer \<Rightarrow> recvMsg list" where
  "items b = chan b @ backlog b"

text \<open>The invariant between calls: the channel holds at most one message, it is closed only when an
  error was put and nothing is left behind it, and a backlog is never stranded behind an empty
  channel.\<close>

definition rb_inv :: "recvBuffer \<Rightarrow> bool" where
  "rb_inv b \<longleftrightarrow> length (chan b) \<le> 1 \<and> (chanClosed b \<longrightarrow> backlog b = [] \<and> Err b \<noteq> None)
     \<and> (backlog b \<noteq> [] \<longrightarrow> chan b \<noteq> [])"

lemma rb_inv_new: "rb_inv (NewRecvBuffer r c)"
  by (simp add: rb_inv_def NewRecvBuffer_def)

lemma Put_inv: "rb_inv b \<Longrightarrow> rb_inv (Put r b)"
  by (auto simp: rb_inv_def Put_def Let_def)

lemma Put_items: "rb_inv b \<Longrightarrow> Err b = None \<Longrightarrow> items (Put r b) = items b @ [r]"
  by (auto simp: rb_inv_def Put_def Let_def items_def)

lemma Put_refused: "Err b \<noteq> None \<Longrightarrow> Put r b = b"
  by (simp add: Put_def)

lemma Put_frame: "Err (Put r b) = (if Err b = None then m_err r else Err b)" "last (Put r b) = last b"
    "recycleSet (Put r b) = recycleSet b"
  by (auto simp: Put_def Let_def)

lemma nextMsg_items:
  assumes "rb_inv b" "items b = m # ms"
  obtains b' where "nextMsg b = Some (m, b')" "rb_inv b'" "items b' = ms" "Err b' = Err b" "last b' = last b"
    "recycleSet b' = recycleSet b" "chanClosed b' = chanClosed b"
proof -
  have ch: "chan b = [m]" using assms by (cases "chan b") (auto simp: rb_inv_def items_def)
  show ?thesis
  proof (cases "backlog b")
    case Nil
    with ch assms that [of "b\<lparr>chan := []\<rparr>"] show ?thesis
      by (auto simp: nextMsg_def chanRecv_def reloadChannel_def items_def rb_inv_def)
  next
    case (Cons x xs)
    with ch assms that [of "b\<lparr>chan := [x], backlog := xs\<rparr>"] show ?thesis
      by (auto simp: nextMsg_def chanRecv_def reloadChannel_def items_def rb_inv_def)
  qed
qed

interpretation rq: msg_queue rb_inv items "\<lambda>b. Err b = None" Put nextMsg
  by unfold_locales (auto intro: Put_inv Put_items Put_refused elim: nextMsg_items)

lemma rb_inv_frame [simp]:
  "rb_inv (b\<lparr>last := l\<rparr>) = rb_inv b" "rb_inv (b\<lparr>recycled := k\<rparr>) = rb_inv b"
  "rb_inv (b\<lparr>streamErrs := es\<rparr>) = rb_inv b" "items (b\<lparr>last := l\<rparr>) = items b"
  "items (b\<lparr>recycled := k\<rparr>) = items b" "items (b\<lparr>streamErrs := es\<rparr>) = items b"
  by (simp_all add: rb_inv_def items_def)

lemma chanRecv_None: "rb_inv b \<Longrightarrow> chanRecv b = None \<longleftrightarrow> items b = [] \<and> \<not> chanClosed b"
  by (auto simp: chanRecv_def items_def rb_inv_def split: list.splits)

section \<open>What a Read delivers\<close>

definition msgBytes :: "recvMsg list \<Rightarrow> byte list" where
  "msgBytes ms = concat (map (\<lambda>m. case m_buf m of Some fr \<Rightarrow> fr | None \<Rightarrow> []) ms)"

definition available :: "recvBuffer \<Rightarrow> byte list" where
  "available b = (case last b of Some l \<Rightarrow> l | None \<Rightarrow> []) @ msgBytes (items b)"

text \<open>The messages of a sequence of puts that are accepted: those up to the first error.\<close>

fun accepted :: "goerr option \<Rightarrow> recvMsg list \<Rightarrow> recvMsg list" where
  "accepted err [] = []"
| "accepted None (m # ms) = m # accepted (m_err m) ms"
| "accepted (Some e) ms = []"

lemma msgBytes_simps [simp]:
  "msgBytes [] = []" "msgBytes (m # ms) = (case m_buf m of Some fr \<Rightarrow> fr | None \<Rightarrow> []) @ msgBytes ms"
  "msgBytes (ms @ ns) = msgBytes ms @ msgBytes ns"
  by (simp_all add: msgBytes_def)

lemma fold_Put_refused: "Err b \<noteq> None \<Longrightarrow> fold Put ps b = b"
  by (induction ps) (simp_all add: Put_refused)

lemma accepted_Some [simp]: "accepted (Some e) ms = []"
  by (cases ms) simp_all

lemma fold_Put_items: "rb_inv b \<Longrightarrow> rb_inv (fold Put ps b) \<and> items (fold Put ps b) = items b @ accepted (Err b) ps \<and> last (fold Put ps b) = last b"
proof (induction ps arbitrary: b)
  case (Cons p ps)
  show ?case
  proof (cases "Err b")
    case None
    with Cons.IH [OF Put_inv [OF Cons.prems], of p] Put_items [OF Cons.prems, of p] show ?thesis
      by (simp add: Put_frame)
  next
    case (Some e)
    with Cons.prems fold_Put_refused [of b "p # ps"] show ?thesis by simp
  qed
qed simp

lemma takeFrame_spec:
  assumes "takeFrame fr n b = Some (bs, b')"
  shows "bs = take n fr \<and> Err b' = Err b \<and> items b' = items b \<and> rb_inv b' = rb_inv b \<and> chanClosed b' = chanClosed b
    \<and> last b' = (if drop n fr = [] then None else Some (drop n fr))"
  using assms by (auto simp: takeFrame_def recycleBuffer_def split: if_splits bind_splits)

lemma takeFrame_runs:
  assumes "recycleSet b"
  obtains b2 where "takeFrame fr n b = Some (take n fr, b2)" "recycleSet b2" "items b2 = items b"
    "last b2 = None \<or> length (take n fr) = n"
proof (cases "length fr \<le> n")
  case True
  with assms show ?thesis
    by (intro that [of "b\<lparr>recycled := Suc (recycled b), last := None\<rparr>"])
      (simp_all add: takeFrame_def recycleBuffer_def items_def)
next
  case False
  with assms show ?thesis
    by (intro that [of "b\<lparr>last := Some (drop n fr)\<rparr>"]) (simp_all add: takeFrame_def items_def)
qed

definition loopOut :: "(byte list \<times> goerr option) + byte list \<Rightarrow> byte list" where
  "loopOut res = (case res of Inl x \<Rightarrow> fst x | Inr acc \<Rightarrow> acc)"

lemma takeFrame_available:
  assumes "takeFrame fr (n - length acc) b = Some y" "rb_inv b" "last b = None" "length acc < n"
  shows "rb_inv (snd y)" "Err (snd y) = Err b" "fr @ available b = fst y @ available (snd y)"
    "last (snd y) = None \<or> length (acc @ fst y) = n"
proof -
  note tf = takeFrame_spec [of fr "n - length acc" b "fst y" "snd y"]
  have y: "fst y = take (n - length acc) fr" "items (snd y) = items b"
    "last (snd y) = (if drop (n - length acc) fr = [] then None else Some (drop (n - length acc) fr))"
    using tf assms by simp_all
  show "rb_inv (snd y)" "Err (snd y) = Err b" using tf assms by simp_all
  show "fr @ available b = fst y @ available (snd y)" using y assms(3) by (auto simp: available_def)
  show "last (snd y) = None \<or> length (acc @ fst y) = n" using y assms(4) by auto
qed

lemma readLoop_conserves:
  assumes "readLoop n acc b = Some res" "rb_inv b" "last b = None \<or> length acc = n"
  shows "acc @ available b = loopOut (fst res) @ available (snd res) \<and> rb_inv (snd res)
    \<and> Err (snd res) = Err b \<and> (\<forall>out. fst res = Inr out \<longrightarrow> out = [] \<longrightarrow> last (snd res) = None \<or> n = 0)"
  using assms(2,3)
proof (induction rule: readLoop.raw_induct [OF _ assms(1)])
  case (1 f n acc b res)
  show ?case
  proof (cases "length acc < n \<and> (Err b = None \<or> Err b = Some EOF) \<and> chanRecv b \<noteq> None")
    case False
    with 1(2,3,4) show ?thesis by (auto simp: loopOut_def split: if_splits)
  next
    case True
    then have l: "last b = None" using 1(4) by auto
    show ?thesis
    proof (cases "items b")
      case Nil
      then have closed: "nextMsg b = Some (zeroMsg, b)"
        using True 1(3) by (auto simp: chanRecv_def nextMsg_def reloadChannel_def items_def rb_inv_def split: if_splits)
      then have "f n acc b = Some res" using 1(2) True by (simp add: zeroMsg_def)
      from 1(1) [OF this 1(3,4)] show ?thesis .
    next
      case (Cons m ms)
      obtain b1 where b1: "nextMsg b = Some (m, b1)" "rb_inv b1" "items b1 = ms" "Err b1 = Err b" "last b1 = last b"
        by (rule nextMsg_items [OF 1(3) Cons])
      have av: "available b = (case m_buf m of Some fr \<Rightarrow> fr | None \<Rightarrow> []) @ available b1"
        using Cons b1 l by (simp add: available_def)
      show ?thesis
      proof (cases "m_buf m")
        case None
        with 1(2) True b1(1) consider "m_err m \<noteq> None" "res = (Inl (acc, m_err m), b1)" | "f n acc b1 = Some res"
          by (auto split: if_splits)
        then show ?thesis
        proof cases
          case 1
          with b1 av None show ?thesis by (simp add: loopOut_def)
        next
          case 2
          from "1.IH" [OF this b1(2)] b1 l av None show ?thesis by simp
        qed
      next
        case (Some fr)
        with 1(2) True b1(1) obtain y where y: "takeFrame fr (n - length acc) b1 = Some y"
          by (auto split: bind_splits)
        have "last b1 = None" "length acc < n" using b1(5) l True by simp_all
        note tf = takeFrame_available [OF y b1(2) this]
        have av2: "acc @ available b = (acc @ fst y) @ available (snd y)" using av Some tf(3) by simp
        from 1(2) True b1(1) Some y consider
            (ret) e where "res = (Inl (acc @ fst y, e), snd y)" | (rec) "f n (acc @ fst y) (snd y) = Some res"
          by (auto split: if_splits)
        then show ?thesis
        proof cases
          case ret
          with av2 tf b1(4) show ?thesis by (simp add: loopOut_def)
        next
          case rec
          from 1(1) [OF this tf(1,4)] av2 tf(2) b1(4) show ?thesis by simp
        qed
      qed
    qed
  qed
qed

lemma readFinish_spec:
  assumes "readFinish bs err b = ((out, e), b')" "rb_inv b"
  shows "out = bs \<and> available b' = available b \<and> rb_inv b'"
proof -
  let ?c = "if err \<noteq> None \<and> Err b = None then b\<lparr>Err := err\<rparr> else b"
  have "available ?c = available b" "rb_inv ?c"
    using assms(2) by (auto simp: available_def items_def rb_inv_def)
  moreover have "available (c\<lparr>streamErrs := es\<rparr>) = available c" for c es by (simp add: available_def)
  ultimately show ?thesis
    using assms unfolding readFinish_def Let_def by (auto split: if_splits simp del: not_None_eq)
qed

lemma nextMsg_available:
  assumes "rb_inv b" "nextMsg b = Some (m, b')" "last b = None"
  shows "rb_inv b' \<and> last b' = None \<and> available b = (case m_buf m of Some fr \<Rightarrow> fr | None \<Rightarrow> []) @ available b'"
proof (cases "items b")
  case Nil
  with assms show ?thesis
    by (auto simp: nextMsg_def chanRecv_def reloadChannel_def items_def rb_inv_def available_def zeroMsg_def split: if_splits list.splits)
next
  case (Cons x xs)
  obtain b1 where "nextMsg b = Some (x, b1)" "rb_inv b1" "items b1 = xs" "last b1 = last b"
    by (rule nextMsg_items [OF assms(1) Cons])
  with assms Cons show ?thesis by (simp add: available_def)
qed

lemma readAdditional_available:
  assumes "readAdditional m n b = Some ((bs, e), b')" "rb_inv b" "last b = None"
  shows "rb_inv b' \<and> (case m_buf m of Some fr \<Rightarrow> fr | None \<Rightarrow> []) @ available b = bs @ available b'"
proof (cases "m_buf m")
  case None
  with assms show ?thesis by (auto simp: readAdditional_def split: if_splits)
next
  case (Some fr)
  with assms(1) have tf: "takeFrame fr n b = Some (bs, b')"
    by (auto simp: readAdditional_def bind_eq_Some_conv)
  from takeFrame_spec [OF tf] Some assms(2,3) show ?thesis by (auto simp: available_def)
qed

lemma readBlocking_available:
  assumes "readBlocking pick env puts n b = Some ((bs, e), b')" "rb_inv b" "last b = None"
  shows "rb_inv b' \<and> (available b = bs @ available b' \<or> available b @ msgBytes (accepted (Err b) puts) = bs @ available b')"
proof (cases "deadlineSet env \<and> deadlineBefore env")
  case True
  with assms show ?thesis by (simp add: readBlocking_def)
next
  case False
  let ?c = "fold Put puts b"
  have c: "rb_inv ?c" "last ?c = None" "available ?c = available b @ msgBytes (accepted (Err b) puts)"
    using fold_Put_items [OF assms(2), of puts] assms(3) by (simp_all add: available_def)
  show ?thesis
  proof (cases pick)
    case SelMsg
    with False assms(1) obtain m d where m: "nextMsg ?c = Some (m, d)" "readAdditional m n d = Some ((bs, e), b')"
      by (auto simp: readBlocking_def Let_def bind_eq_Some_conv)
    from nextMsg_available [OF c(1) m(1) c(2)] readAdditional_available [OF m(2)] c(3) show ?thesis by auto
  qed (use False assms(1) c in \<open>auto simp: readBlocking_def Let_def split: if_splits\<close>)
qed

lemma Read_start:
  assumes "rb_inv b"
    and "(case last b of None \<Rightarrow> Some (False, [], b)
       | Some l \<Rightarrow> do { (bs, b) \<leftarrow> takeFrame l n b; Some (length bs = n, bs, b) }) = Some (full, copied, b1)"
  shows "rb_inv b1 \<and> Err b1 = Err b \<and> available b = copied @ available b1 \<and> (\<not> full \<longrightarrow> last b1 = None)"
proof (cases "last b")
  case (Some l)
  with assms(2) have tf: "takeFrame l n b = Some (copied, b1)" and full: "full = (length copied = n)"
    by (auto simp: bind_eq_Some_conv)
  from takeFrame_spec [OF tf] Some assms(1) full show ?thesis by (auto simp: available_def)
qed (use assms in auto)

lemma Read_conserves:
  assumes inv: "rb_inv b" and rd: "Read pick env puts n b = Some ((bs, e), b')"
  shows "rb_inv b' \<and> (available b = bs @ available b' \<or> available b @ msgBytes (accepted (Err b) puts) = bs @ available b')"
proof -
  obtain full copied b1 where st: "(case last b of None \<Rightarrow> Some (False, [], b)
       | Some l \<Rightarrow> do { (bs, b) \<leftarrow> takeFrame l n b; Some (length bs = n, bs, b) }) = Some (full, copied, b1)"
    using rd by (auto simp: Read_def bind_eq_Some_conv)
  note b1 = Read_start [OF inv st]
  show ?thesis
  proof (cases full)
    case True
    with rd st b1 show ?thesis by (auto simp: Read_def)
  next
    case False
    with rd st obtain res b2 where loop: "readLoop n copied b1 = Some (res, b2)"
      by (auto simp: Read_def bind_eq_Some_conv)
    have cons: "copied @ available b1 = loopOut res @ available b2" "rb_inv b2" "Err b2 = Err b"
      and last2: "res = Inr [] \<Longrightarrow> n \<noteq> 0 \<Longrightarrow> last b2 = None"
      using readLoop_conserves [OF loop] b1 False by auto
    show ?thesis
    proof (cases "\<exists>ret. res = Inl ret")
      case True
      with rd st False loop cons b1 show ?thesis by (auto simp: Read_def loopOut_def)
    next
      case inr: False
      then obtain acc where acc: "res = Inr acc" by (cases res) auto
      show ?thesis
      proof (cases "length acc > 0 \<or> length acc = n \<or> Err b2 \<noteq> None \<and> Err b2 \<noteq> Some EOF")
        case True
        with rd st False loop acc cons b1 show ?thesis by (auto simp: Read_def loopOut_def split: if_splits)
      next
        case blocked: False
        then have nil: "acc = []" "n \<noteq> 0" by auto
        with rd st False loop acc blocked obtain bs1 err b3
          where bl: "readBlocking pick env puts n b2 = Some ((bs1, err), b3)" "readFinish bs1 err b3 = ((bs, e), b')"
          by (auto simp: Read_def bind_eq_Some_conv)
        from readBlocking_available [OF bl(1) cons(2) last2] acc nil
        have "rb_inv b3" "available b2 = bs1 @ available b3 \<or> available b2 @ msgBytes (accepted (Err b) puts) = bs1 @ available b3"
          using cons(3) by auto
        with readFinish_spec [OF bl(2)] cons(1) b1 acc nil show ?thesis by (auto simp: loopOut_def)
      qed
    qed
  qed
qed

lemma Read_start_runs:
  assumes rec: "recycleSet b" and n: "0 < n"
  obtains copied b1 where "(case last b of None \<Rightarrow> Some (False, [], b)
       | Some l \<Rightarrow> do { (bs, b) \<leftarrow> takeFrame l n b; Some (length bs = n, bs, b) }) = Some (length copied = n, copied, b1)"
    "copied = take n (case last b of Some l \<Rightarrow> l | None \<Rightarrow> [])" "recycleSet b1" "items b1 = items b"
    "last b1 = None \<or> length copied = n"
proof (cases "last b")
  case None
  then show ?thesis using rec n that [of "[]" b] by simp
next
  case (Some l)
  obtain b2 where b2: "takeFrame l n b = Some (take n l, b2)" "recycleSet b2" "items b2 = items b"
    "last b2 = None \<or> length (take n l) = n"
    by (rule takeFrame_runs [OF rec])
  show ?thesis using b2(4) by (intro that [of "take n l" b2]) (simp_all add: Some b2(1-3))
qed

lemma readLoop_fills:
  assumes "rb_inv b" "Err b = None" "recycleSet b" "last b = None \<or> length acc = n" "length acc \<le> n"
    "\<forall>m \<in> set (items b). m_err m = None"
  shows "\<exists>res b'. readLoop n acc b = Some (res, b') \<and> loopOut res = take n (acc @ msgBytes (items b))
    \<and> (\<forall>out e. res = Inl (out, e) \<longrightarrow> e = None \<and> length out = n)"
  using assms
proof (induction "items b" arbitrary: b acc)
  case Nil
  have "\<not> chanClosed b" using Nil.prems by (auto simp: rb_inv_def)
  then have "chanRecv b = None" using Nil by (simp add: chanRecv_None)
  with Nil show ?case by (simp add: readLoop.simps [of n acc b] loopOut_def)
next
  case (Cons m ms)
  show ?case
  proof (cases "length acc = n")
    case True
    then show ?thesis by (simp add: readLoop.simps [of n acc b] loopOut_def)
  next
    case less: False
    obtain b1 where b1: "nextMsg b = Some (m, b1)" "rb_inv b1" "items b1 = ms" "Err b1 = Err b" "last b1 = last b" "recycleSet b1 = recycleSet b"
      by (rule nextMsg_items [OF Cons.prems(1) Cons(2) [symmetric]])
    obtain rv where recv: "chanRecv b = Some rv" using Cons(2) Cons.prems(1) by (cases "chanRecv b") (auto simp: chanRecv_None)
    have l: "last b1 = None" using Cons.prems(4) less b1 by simp
    have err: "m_err m = None" "\<forall>m \<in> set (items b1). m_err m = None"
      using Cons(2) Cons.prems(6) b1 by (metis list.set_intros(1)) (metis Cons(2) Cons.prems(6) b1(3) list.set_intros(2))
    show ?thesis
    proof (cases "m_buf m")
      case None
      then have "msgBytes (items b) = msgBytes (items b1)"
        using Cons(2) [symmetric] b1(3) by simp
      moreover have "readLoop n acc b = readLoop n acc b1"
        using None Cons.prems recv less err b1(1) by (simp add: readLoop.simps [of n acc b])
      ultimately show ?thesis
        using Cons.hyps(1) [of b1 acc] b1 Cons.prems l err by simp
    next
      case (Some fr)
      let ?k = "n - length acc"
      obtain b2 where tf: "takeFrame fr ?k b1 = Some (take ?k fr, b2)" "recycleSet b2"
        using takeFrame_runs [of b1 fr ?k] b1 Cons.prems(3) by metis
      note b2 = takeFrame_spec [OF tf(1)]
      have bytes: "take n (acc @ msgBytes (items b)) = take n ((acc @ take ?k fr) @ msgBytes (items b2))"
        using Some b2 b1 Cons(2) [symmetric] less Cons.prems(5) by (cases "length fr \<le> ?k") simp_all
      have loop: "readLoop n acc b =
          (if length (drop ?k fr) \<noteq> 0 then readLoop n (acc @ take ?k fr) b2
           else if length (acc @ take ?k fr) = n then Some (Inl (acc @ take ?k fr, None), b2)
           else readLoop n (acc @ take ?k fr) b2)"
        using recv less Cons.prems b1(1) Some tf err by (simp add: readLoop.simps [of n acc b])
      have IH: "\<exists>res b'. readLoop n (acc @ take ?k fr) b2 = Some (res, b') \<and> loopOut res = take n ((acc @ take ?k fr) @ msgBytes (items b2))
          \<and> (\<forall>out e. res = Inl (out, e) \<longrightarrow> e = None \<and> length out = n)"
        using b1 b2 Cons.prems(2,5) err tf(2) less
        by (intro Cons.hyps(1)) (auto simp: b1(3))
      show ?thesis
      proof (cases "length (drop ?k fr) \<noteq> 0 \<or> length (acc @ take ?k fr) \<noteq> n")
        case True
        with IH loop bytes show ?thesis by (auto split: if_splits)
      next
        case False
        with loop bytes show ?thesis by (auto simp: loopOut_def)
      qed
    qed
  qed
qed

lemma readLoop_spins:
  assumes "chan b = []" "chanClosed b" "backlog b = []" "Err b = Some EOF" "length acc < n"
  shows "readLoop n acc b = None"
proof (rule ccontr)
  assume "readLoop n acc b \<noteq> None"
  then obtain res where ret: "readLoop n acc b = Some res" by blast
  have "\<not> (chan b = [] \<and> chanClosed b \<and> backlog b = [] \<and> Err b = Some EOF \<and> length acc < n)"
  proof (induction rule: readLoop.raw_induct [OF _ ret])
    case (1 f n acc b res)
    show ?case
    proof
      assume asm: "chan b = [] \<and> chanClosed b \<and> backlog b = [] \<and> Err b = Some EOF \<and> length acc < n"
      then have "nextMsg b = Some (zeroMsg, b)" "chanRecv b \<noteq> None"
        by (simp_all add: nextMsg_def chanRecv_def reloadChannel_def)
      with 1(2) asm have "f n acc b = Some res" by (simp add: zeroMsg_def)
      from 1(1) [OF this] asm show False by blast
    qed
  qed
  with assms show False by blast
qed

section \<open>Interleaving of the two goroutines\<close>

text \<open>The frame-reading goroutine puts messages; the consumer receives from the channel and then, in a
  second critical section, reloads it. \<open>inReload\<close> is set between the two. The two history variables
  record the messages accepted by \<open>Put\<close> and those received.\<close>

record rb_sys =
  rb :: recvBuffer
  inReload :: bool
  accepted_log :: "recvMsg list"
  received_log :: "recvMsg list"

definition rb_start :: "bool \<Rightarrow> bool \<Rightarrow> rb_sys" where
  "rb_start r c = \<lparr>rb = NewRecvBuffer r c, inReload = False, accepted_log = [], received_log = []\<rparr>"

inductive rb_step :: "rb_sys \<Rightarrow> rb_sys \<Rightarrow> bool" where
  step_put: "rb_step s (s\<lparr>rb := Put m (rb s),
      accepted_log := accepted_log s @ (if Err (rb s) = None then [m] else [])\<rparr>)"
| step_recv: "\<not> inReload s \<Longrightarrow> chan (rb s) = m # ms \<Longrightarrow>
    rb_step s (s\<lparr>rb := (rb s)\<lparr>chan := ms\<rparr>, inReload := True, received_log := received_log s @ [m]\<rparr>)"
| step_reload: "inReload s \<Longrightarrow> reloadChannel (rb s) = Some b \<Longrightarrow>
    rb_step s (s\<lparr>rb := b, inReload := False\<rparr>)"
| step_fail: "\<not> inReload s \<Longrightarrow> Err (rb s) = None \<Longrightarrow>
    rb_step s (s\<lparr>rb := (rb s)\<lparr>Err := Some e\<rparr>\<rparr>)" \<comment> \<open>\<open>Read\<close> records an error of its own, such as a cancelled context\<close>

inductive rb_reach :: "rb_sys \<Rightarrow> bool" where
  reach_start: "rb_reach (rb_start r c)"
| reach_step: "rb_reach s \<Longrightarrow> rb_step s t \<Longrightarrow> rb_reach t"

definition sys_inv :: "rb_sys \<Rightarrow> bool" where
  "sys_inv s \<longleftrightarrow> accepted_log s = received_log s @ items (rb s) \<and> length (chan (rb s)) \<le> 1
     \<and> (chanClosed (rb s) \<longrightarrow> backlog (rb s) = [] \<and> Err (rb s) \<noteq> None)
     \<and> (\<not> inReload s \<and> backlog (rb s) \<noteq> [] \<longrightarrow> chan (rb s) \<noteq> [])"

inductive_cases reach_cases: "rb_reach s"

lemma sys_inv_step: "rb_step s t \<Longrightarrow> sys_inv s \<Longrightarrow> sys_inv t"
proof (induction rule: rb_step.induct)
  case (step_put s m)
  then show ?case by (auto simp: sys_inv_def Put_def Let_def items_def)
next
  case (step_recv s m ms)
  then show ?case by (auto simp: sys_inv_def items_def)
next
  case (step_reload s b)
  then show ?case
    by (cases "backlog (rb s)") (auto simp: sys_inv_def reloadChannel_def items_def split: if_splits)
next
  case (step_fail s e)
  then show ?case by (auto simp: sys_inv_def items_def)
qed

lemma sys_inv_reach: "rb_reach s \<Longrightarrow> sys_inv s"
proof (induction rule: rb_reach.induct)
  case (reach_start r c)
  then show ?case by (simp add: sys_inv_def rb_start_def NewRecvBuffer_def items_def)
next
  case (reach_step s t)
  then show ?case by (blast intro: sys_inv_step)
qed
section \<open>Properties\<close>

lemmas recv_eval = Read_def readLoop.simps readBlocking_def readAdditional_def readFinish_def takeFrame_def recycleBuffer_def
  nextMsg_def chanRecv_def reloadChannel_def Put_def NewRecvBuffer_def zeroMsg_def

text \<open>C5: First in, first out, and nothing stranded. In every state that the two goroutines can reach, the
  messages accepted so far are those received so far, in order, followed by the one in the channel
  and the backlog; outside the window between a receive and its reload a non-empty backlog has a
  message in the channel in front of it, so a blocked reader is always woken; and reloading never
  sends on a closed channel.\<close>

theorem recv_fifo:
  assumes "rb_reach s"
  shows "accepted_log s = received_log s @ chan (rb s) @ backlog (rb s)
    \<and> (\<not> inReload s \<and> backlog (rb s) \<noteq> [] \<longrightarrow> chan (rb s) \<noteq> []) \<and> reloadChannel (rb s) \<noteq> None"
  using sys_inv_reach [OF assms] by (auto simp: sys_inv_def items_def reloadChannel_def)

theorem recv_fifo_witness:
  "\<exists>s. rb_reach s \<and> inReload s \<and> backlog (rb s) \<noteq> [] \<and> accepted_log s = received_log s @ chan (rb s) @ backlog (rb s)"
proof -
  let ?m = "\<lparr>m_buf = Some [1], m_err = None\<rparr>"
  have "\<exists>t. rb_reach t \<and> \<not> inReload t \<and> chan (rb t) = [?m] \<and> backlog (rb t) = [?m]"
    using reach_step [OF reach_step [OF reach_start step_put] step_put, of True True ?m ?m]
    by (intro exI conjI) (assumption, simp_all add: rb_start_def NewRecvBuffer_def Put_def)
  then obtain t where t: "rb_reach t" "\<not> inReload t" "chan (rb t) = [?m]" "backlog (rb t) = [?m]" by blast
  let ?s = "t\<lparr>rb := (rb t)\<lparr>chan := []\<rparr>, inReload := True, received_log := received_log t @ [?m]\<rparr>"
  have s: "rb_reach ?s" by (rule reach_step [OF t(1) step_recv [OF t(2,3)]])
  from recv_fifo [OF s] s t(4) show ?thesis by (intro exI [of _ ?s]) simp
qed

text \<open>C22: \<open>Read\<close> never loses, duplicates or reorders data. Whatever the read size, the state of the
  deadline and context and the messages that arrive while it is blocked: the bytes it returns followed
  by the bytes still held are the bytes held before, with the accepted new messages at the end when it
  waited for them; and the queue invariant is kept.\<close>

theorem read_conserves:
  assumes "rb_inv b" "Read pick env puts n b = Some ((bs, e), b')"
  shows "rb_inv b' \<and> (available b = bs @ available b'
    \<or> available b @ msgBytes (accepted (Err b) puts) = bs @ available b')"
  using Read_conserves [OF assms] .

theorem read_conserves_witness:
  "let b = Put \<lparr>m_buf = Some [3, 4], m_err = None\<rparr> (Put \<lparr>m_buf = Some [1, 2], m_err = None\<rparr> (NewRecvBuffer True True));
       env = \<lparr>ctxDone = False, deadlineSet = False, deadlineBefore = False\<rparr>
   in rb_inv b \<and> (\<exists>b'. Read SelMsg env [] 3 b = Some (([1, 2, 3], None), b') \<and> available b = [1, 2, 3] @ available b')"
proof -
  let ?b = "Put \<lparr>m_buf = Some [3, 4], m_err = None\<rparr> (Put \<lparr>m_buf = Some [1, 2], m_err = None\<rparr> (NewRecvBuffer True True))"
  let ?env = "\<lparr>ctxDone = False, deadlineSet = False, deadlineBefore = False\<rparr>"
  have inv: "rb_inv ?b" by (intro Put_inv rb_inv_new)
  obtain b' where rd: "Read SelMsg ?env [] 3 ?b = Some (([1, 2, 3], None), b')"
    by (simp add: recv_eval)
  from read_conserves [OF inv rd] inv rd show ?thesis unfolding Let_def by auto
qed

text \<open>C23: \<open>Read\<close> takes all it can. While no error has been put and the recycle callback is set, a \<open>Read\<close> of
  \<open>n > 0\<close> bytes on a buffer that holds data returns at once, without error, and with exactly the first
  \<open>n\<close> bytes held, or all of them when there are fewer, across any number of messages.\<close>

theorem read_delivers:
  assumes inv: "rb_inv b" and open_: "Err b = None" "\<forall>m \<in> set (items b). m_err m = None"
    and rec: "recycleSet b" and n: "0 < n" and data: "available b \<noteq> []"
  shows "\<exists>b'. Read pick env puts n b = Some ((take n (available b), None), b')"
proof -
  obtain copied b1 where st: "(case last b of None \<Rightarrow> Some (False, [], b)
       | Some l \<Rightarrow> do { (bs, b) \<leftarrow> takeFrame l n b; Some (length bs = n, bs, b) }) = Some (length copied = n, copied, b1)"
    "copied = take n (case last b of Some l \<Rightarrow> l | None \<Rightarrow> [])" "recycleSet b1" "items b1 = items b"
    "last b1 = None \<or> length copied = n"
    by (rule Read_start_runs [OF rec n])
  note b1 = Read_start [OF inv st(1)]
  show ?thesis
  proof (cases "length copied = n")
    case True
    with st b1 show ?thesis by (auto simp: Read_def)
  next
    case False
    then have l: "last b1 = None" using st(5) by blast
    have "length copied \<le> n" using st(2) by simp
    then obtain res b2 where loop: "readLoop n copied b1 = Some (res, b2)"
      "loopOut res = take n (copied @ msgBytes (items b1))" "\<forall>out e. res = Inl (out, e) \<longrightarrow> e = None \<and> length out = n"
      using readLoop_fills [of b1 copied n] b1 l st(3,4) open_ by auto
    have out: "loopOut res = take n (available b)" using loop(2) b1 l by (simp add: available_def)
    have ne: "take n (available b) \<noteq> []" using data n by simp
    show ?thesis
    proof (cases res)
      case (Inl r)
      with out loop(3) have "r = (take n (available b), None)" by (cases r) (simp add: loopOut_def)
      with Inl loop(1) False show ?thesis unfolding Read_def st(1) by simp
    next
      case (Inr acc)
      with out ne have "acc = take n (available b)" "acc \<noteq> []" by (simp_all add: loopOut_def)
      with Inr loop(1) False show ?thesis unfolding Read_def st(1) by simp
    qed
  qed
qed

theorem read_delivers_witness:
  "let b = Put \<lparr>m_buf = Some [3], m_err = None\<rparr> (Put \<lparr>m_buf = Some [1, 2], m_err = None\<rparr> (NewRecvBuffer True True));
       env = \<lparr>ctxDone = False, deadlineSet = False, deadlineBefore = False\<rparr>
   in \<exists>b'. Read SelMsg env [] 5 b = Some ((take 5 (available b), None), b') \<and> available b = [1, 2, 3]"
proof -
  let ?b = "Put \<lparr>m_buf = Some [3], m_err = None\<rparr> (Put \<lparr>m_buf = Some [1, 2], m_err = None\<rparr> (NewRecvBuffer True True))"
  have h: "rb_inv ?b" by (intro Put_inv rb_inv_new)
  have f: "Err ?b = None" "\<forall>m \<in> set (items ?b). m_err m = None" "recycleSet ?b" "available ?b = [1, 2, 3]"
    by (simp_all add: Put_def NewRecvBuffer_def items_def available_def)
  from read_delivers [OF h f(1,2,3), of 5 SelMsg "\<lparr>ctxDone = False, deadlineSet = False, deadlineBefore = False\<rparr>" "[]"] f(4)
  show ?thesis unfolding Let_def by auto
qed

text \<open>The end of the stream is reported once, and then never again: when the end-of-stream message is
  put on a drained buffer, the next \<open>Read\<close> returns \<open>io.EOF\<close>, but the \<open>Read\<close> after it never returns. The
  closed channel is always ready with zero messages, and the loop that collects ready data spins on
  them, whatever the deadline or the context.\<close>

theorem read_after_eof_spins:
  assumes inv: "rb_inv b" and drained: "Err b = None" "items b = []" "last b = None"
    and eof: "m_buf m = None" "m_err m = Some EOF" and n: "0 < n" "0 < n'"
  shows "\<exists>b'. Read pick env puts n (Put m b) = Some (([], Some EOF), b') \<and> Read pick' env' puts' n' b' = None"
proof -
  let ?p = "Put m b"
  have p: "chan ?p = [m]" "backlog ?p = []" "chanClosed ?p" "Err ?p = Some EOF" "last ?p = None"
    using drained eof by (auto simp: Put_def items_def)
  let ?b' = "?p\<lparr>chan := []\<rparr>"
  have "readLoop n [] ?p = Some (Inl ([], Some EOF), ?b')"
    using p eof n by (simp add: readLoop.simps [of n "[]"] nextMsg_def chanRecv_def reloadChannel_def)
  then have "Read pick env puts n ?p = Some (([], Some EOF), ?b')" using p by (simp add: Read_def)
  moreover have "readLoop n' [] ?b' = None" by (rule readLoop_spins) (use p n in auto)
  then have "Read pick' env' puts' n' ?b' = None" using p by (simp add: Read_def)
  ultimately show ?thesis by blast
qed

theorem read_after_eof_spins_witness:
  "let b = NewRecvBuffer True True; m = \<lparr>m_buf = None, m_err = Some EOF\<rparr>;
       env = \<lparr>ctxDone = True, deadlineSet = True, deadlineBefore = True\<rparr>
   in \<exists>b'. Read SelMsg env [] 8 (Put m b) = Some (([], Some EOF), b') \<and> Read SelCtx env [] 8 b' = None"
  unfolding Let_def
  by (rule read_after_eof_spins [OF rb_inv_new]) (simp_all add: NewRecvBuffer_def items_def)

end
