(* ===== verification/Nio_Pool.thy ===== *)
theory Nio_Pool
  imports Go_Prelude
begin

text \<open>
  The chunk pools of \<^verbatim>\<open>src/nio/pool.go\<close>: five size classes of byte slices, taken by
  \<open>GetDataBufferChunk\<close> and returned by \<open>PutDataBufferChunk\<close>, and the two atomic counters.

  \<open>sync.Pool.Get\<close> hands out an arbitrary idle item or makes a new one (idle items may also be
  dropped at any time). The choice is a parameter: \<open>Some i\<close> is the \<open>i\<close>-th idle item, \<open>None\<close> (or an
  index out of range) a new one. The theorems hold for every choice.
\<close>

definition pool_get :: "nat option \<Rightarrow> 'a list \<Rightarrow> 'a \<Rightarrow> 'a \<times> 'a list" where
  "pool_get choice items new = (case choice of
       None \<Rightarrow> (new, items)
     | Some i \<Rightarrow> if i < length items then (items ! i, take i items @ drop (Suc i) items)
                else (new, items))"

lemma pool_get_cases:
  assumes "pool_get choice items new = (x, rest)"
  shows "(x = new \<or> x \<in> set items) \<and> set rest \<subseteq> set items"
  using assms
  by (auto simp: pool_get_def split: option.splits if_splits dest: in_set_takeD in_set_dropD)

definition dataChunkSizeClasses :: "nat list" where
  "dataChunkSizeClasses = [2 ^ 10, 2 * 2 ^ 10, 4 * 2 ^ 10, 8 * 2 ^ 10, 16 * 2 ^ 10]"

record chunk_pools =
  dataChunkPools :: "slice list list"
  CountGetBuffer :: u32
  CountPutBuffer :: u32

definition empty_pools :: chunk_pools where
  "empty_pools = \<lparr>dataChunkPools = replicate 5 [], CountGetBuffer = 0, CountPutBuffer = 0\<rparr>"

text \<open>The loop \<open>for ; i < len(dataChunkSizeClasses)-1; i++\<close> of \<open>GetDataBufferChunk\<close>, then the
  allocation after it.\<close>

function getChunkFrom :: "nat \<Rightarrow> nat option \<Rightarrow> nat \<Rightarrow> 'p chunk_pools_scheme \<Rightarrow> slice \<times> 'p chunk_pools_scheme" where
  "getChunkFrom i choice sz p =
     (if i < length dataChunkSizeClasses - 1 then
        if sz \<le> dataChunkSizeClasses ! i then
          (let (s, rest) = pool_get choice (dataChunkPools p ! i) (make_slice (dataChunkSizeClasses ! i))
           in (s, p\<lparr>dataChunkPools := (dataChunkPools p)[i := rest]\<rparr>))
        else getChunkFrom (Suc i) choice sz p
      else (make_slice sz, p\<lparr>CountGetBuffer := CountGetBuffer p + 1\<rparr>))"
  by pat_completeness auto
termination
  by (relation "measure (\<lambda>(i, _). length dataChunkSizeClasses - 1 - i)") auto

declare getChunkFrom.simps [simp del]

definition GetDataBufferChunk :: "nat option \<Rightarrow> nat \<Rightarrow> 'p chunk_pools_scheme \<Rightarrow> slice \<times> 'p chunk_pools_scheme" where
  "GetDataBufferChunk choice sz p = getChunkFrom 0 choice sz p"

text \<open>\<open>PutDataBufferChunk\<close>: \<open>p = p[:0]\<close>, then the class whose size is exactly the capacity. Slices
  of another capacity are dropped.\<close>

fun putChunkFrom :: "nat \<Rightarrow> nat list \<Rightarrow> slice \<Rightarrow> 'p chunk_pools_scheme \<Rightarrow> 'p chunk_pools_scheme" where
  "putChunkFrom i [] s p = p"
| "putChunkFrom i (n # ns) s p =
     (if scap s = n then
        p\<lparr>dataChunkPools := (dataChunkPools p)[i := s # (dataChunkPools p ! i)],
          CountPutBuffer := CountPutBuffer p + 1\<rparr>
      else putChunkFrom (Suc i) ns s p)"

definition PutDataBufferChunk :: "slice \<Rightarrow> 'p chunk_pools_scheme \<Rightarrow> 'p chunk_pools_scheme" where
  "PutDataBufferChunk s p = putChunkFrom 0 dataChunkSizeClasses (s\<lparr>slen := 0\<rparr>) p"

subsection \<open>Invariant\<close>

text \<open>Every idle slice has the capacity of its class.\<close>

definition pools_ok :: "'p chunk_pools_scheme \<Rightarrow> bool" where
  "pools_ok p \<longleftrightarrow> length (dataChunkPools p) = length dataChunkSizeClasses \<and>
     (\<forall>i < length dataChunkSizeClasses. \<forall>s \<in> set (dataChunkPools p ! i).
        scap s = dataChunkSizeClasses ! i \<and> wf_slice s)"

lemma length_classes [simp]: "length dataChunkSizeClasses = 5"
  by (simp add: dataChunkSizeClasses_def)

lemma pools_ok_empty: "pools_ok empty_pools"
  by (simp add: pools_ok_def empty_pools_def)

lemma pools_ok_update:
  assumes "pools_ok p" "i < 5" "\<forall>s \<in> set items. scap s = dataChunkSizeClasses ! i \<and> wf_slice s"
  shows "pools_ok (p\<lparr>dataChunkPools := (dataChunkPools p)[i := items]\<rparr>)"
  using assms by (auto simp: pools_ok_def nth_list_update)

lemma pools_ok_counters [simp]:
  "pools_ok (p\<lparr>CountGetBuffer := c\<rparr>) = pools_ok p" "pools_ok (p\<lparr>CountPutBuffer := c\<rparr>) = pools_ok p"
  by (simp_all add: pools_ok_def)

lemma getChunkFrom_spec:
  assumes "pools_ok p" "i \<le> 4" "getChunkFrom i choice sz p = (s, p')"
    and "\<forall>j < i. dataChunkSizeClasses ! j < sz"
  shows "pools_ok p' \<and> wf_slice s \<and> (s = make_slice sz \<and> (\<forall>j < 4. dataChunkSizeClasses ! j < sz)
    \<or> (\<exists>k < 4. scap s = dataChunkSizeClasses ! k \<and> sz \<le> dataChunkSizeClasses ! k
         \<and> (\<forall>j < k. dataChunkSizeClasses ! j < sz)))"
  using assms
proof (induction i choice sz p rule: getChunkFrom.induct)
  case (1 i choice sz p)
  consider (here) "i < 4" "sz \<le> dataChunkSizeClasses ! i"
    | (more) "i < 4" "\<not> sz \<le> dataChunkSizeClasses ! i" | (alloc) "\<not> i < 4" by blast
  then show ?case
  proof cases
    case here
    obtain rest where get: "pool_get choice (dataChunkPools p ! i) (make_slice (dataChunkSizeClasses ! i)) = (s, rest)"
      and p': "p' = p\<lparr>dataChunkPools := (dataChunkPools p)[i := rest]\<rparr>"
      using "1.prems"(3) here by (simp add: getChunkFrom.simps [of i choice sz p] split: prod.splits)
    have "i < length dataChunkSizeClasses" using here by simp
    then have items: "\<forall>t \<in> set (dataChunkPools p ! i). scap t = dataChunkSizeClasses ! i \<and> wf_slice t"
      using "1.prems"(1) unfolding pools_ok_def by blast
    have "scap s = dataChunkSizeClasses ! i \<and> wf_slice s"
      using pool_get_cases [OF get] items by (auto simp: wf_slice_def)
    moreover have "pools_ok p'"
      unfolding p' using pool_get_cases [OF get] items here "1.prems"(1)
      by (intro pools_ok_update) auto
    ultimately show ?thesis using here "1.prems"(4) by blast
  next
    case more
    have "\<forall>j < Suc i. dataChunkSizeClasses ! j < sz"
      using more "1.prems"(4) by (auto simp: less_Suc_eq)
    with more "1.prems" "1.IH" show ?thesis
      by (simp add: getChunkFrom.simps [of i choice sz p])
  next
    case alloc
    with "1.prems" have "i = 4" by simp
    with alloc "1.prems" show ?thesis
      by (auto simp: getChunkFrom.simps [of 4 choice sz p] wf_slice_def)
  qed
qed

lemma putChunkFrom_ok:
  assumes "pools_ok p" "wf_slice s" "ns = drop i dataChunkSizeClasses"
  shows "pools_ok (putChunkFrom i ns s p)"
  using assms
proof (induction i ns s p rule: putChunkFrom.induct)
  case (2 i n ns s p)
  have i: "i < 5" and n: "n = dataChunkSizeClasses ! i" and ns: "ns = drop (Suc i) dataChunkSizeClasses"
    using "2.prems"(3)
    by (metis length_classes list.discI drop_all linorder_not_le)
       (metis "2.prems"(3) nth_via_drop, metis "2.prems"(3) drop_Suc list.sel(3) tl_drop)
  show ?case
  proof (cases "scap s = n")
    case True
    have "pools_ok (p\<lparr>dataChunkPools := (dataChunkPools p)[i := s # (dataChunkPools p ! i)]\<rparr>)"
      using "2.prems"(1,2) True i n by (intro pools_ok_update) (auto simp: pools_ok_def)
    then show ?thesis using True by (simp add: pools_ok_def)
  next
    case False
    with "2.IH" "2.prems"(1,2) ns show ?thesis by simp
  qed
qed simp

lemma PutDataBufferChunk_ok: "pools_ok p \<Longrightarrow> pools_ok (PutDataBufferChunk s p)"
  unfolding PutDataBufferChunk_def by (rule putChunkFrom_ok) (simp_all add: wf_slice_def)

section \<open>Properties\<close>

text \<open>The chunk pools keep their size classes. From pools in which every idle slice has the capacity
  of its class, \<open>GetDataBufferChunk\<close> always gives a slice that can hold the size asked for, whatever idle
  slice the runtime picks: one of the smallest of the first four classes that fits, or a new slice of
  exactly that size; and the pools stay in that state after it and after \<open>PutDataBufferChunk\<close>.\<close>

theorem chunk_size:
  assumes "pools_ok p" "GetDataBufferChunk choice sz p = (s, p')"
  shows "pools_ok p' \<and> pools_ok (PutDataBufferChunk t p') \<and> wf_slice s \<and> sz \<le> scap s
    \<and> (if 8192 < sz then s = make_slice sz
       else scap s \<in> set dataChunkSizeClasses \<and> (\<forall>c \<in> set dataChunkSizeClasses. sz \<le> c \<longrightarrow> scap s \<le> c))"
proof -
  have spec: "pools_ok p' \<and> wf_slice s \<and> (s = make_slice sz \<and> (\<forall>j < 4. dataChunkSizeClasses ! j < sz)
    \<or> (\<exists>k < 4. scap s = dataChunkSizeClasses ! k \<and> sz \<le> dataChunkSizeClasses ! k
         \<and> (\<forall>j < k. dataChunkSizeClasses ! j < sz)))"
    using getChunkFrom_spec [OF assms(1), of 0 choice sz s p'] assms(2) by (simp add: GetDataBufferChunk_def)
  have put: "pools_ok (PutDataBufferChunk t p')" using spec by (simp add: PutDataBufferChunk_ok)
  from spec consider (new) "s = make_slice sz" "\<forall>j < 4. dataChunkSizeClasses ! j < sz"
    | (k) k where "k < 4" "scap s = dataChunkSizeClasses ! k" "sz \<le> dataChunkSizeClasses ! k"
        "\<forall>j < k. dataChunkSizeClasses ! j < sz" by blast
  then show ?thesis
  proof cases
    case new
    then have "dataChunkSizeClasses ! 3 < sz" by simp
    with new put spec show ?thesis by (simp add: dataChunkSizeClasses_def)
  next
    case k
    have below: "k \<noteq> 0 \<Longrightarrow> dataChunkSizeClasses ! (k - 1) < sz" using k(4) by simp
    from k(1) consider "k = 0" | "k = 1" | "k = 2" | "k = 3" by linarith
    then show ?thesis
      using below k(2,3) put spec by cases (simp_all add: dataChunkSizeClasses_def)
  qed
qed

theorem chunk_size_witness:
  "pools_ok empty_pools \<and> (let (s, p') = GetDataBufferChunk None 3000 empty_pools in pools_ok p' \<and> scap s = 4096 \<and> 3000 \<le> scap s)"
proof -
  obtain s p' where g: "GetDataBufferChunk None 3000 empty_pools = (s, p')" by fastforce
  have "scap s = 4096"
    using g by (auto simp: GetDataBufferChunk_def getChunkFrom.simps dataChunkSizeClasses_def pool_get_def)
  with chunk_size [OF pools_ok_empty g] pools_ok_empty g show ?thesis by simp
qed

end
