(* ===== verification/Nio_Buffer.thy ===== *)
theory Nio_Buffer
  imports Nio_Pool
begin

text \<open>
  \<^verbatim>\<open>src/nio/buf.go\<close>: the \<open>Buffer\<close> used to sniff and frame data, the \<open>BufferReader\<close> that puts a
  buffer in front of a reader, and \<open>bufConn\<close>; with the buffer pool of \<^verbatim>\<open>src/nio/pool.go\<close>.

  A \<open>buffer\<close> has the slice \<open>buf\<close> and the two cursors: unread data is \<open>buf[off:end]\<close>. Positions
  and lengths are natural numbers; where the code subtracts and may go below zero the value is
  an \<open>int\<close>. Every operation that indexes or reslices is a partial call: \<open>None\<close> is a panic or,
  for the two loops (\<open>fillLoop\<close>, \<open>discardLoop\<close>), a call that never returns.
\<close>

record buffer =
  b_buf :: slice
  b_off :: nat
  b_end :: nat

record nio_pools = chunk_pools +
  ioPool :: "buffer list"

definition bufSize :: nat where
  "bufSize = 32 * 1024"

definition GetBuffer :: "nat option \<Rightarrow> nat \<Rightarrow> nat \<Rightarrow> 'p chunk_pools_scheme \<Rightarrow> buffer \<times> 'p chunk_pools_scheme" where
  "GetBuffer choice pre sz p =
     (let sz = (if sz = 0 then bufSize else sz);
          (s, p') = GetDataBufferChunk choice sz p
      in (\<lparr>b_buf = s, b_off = pre, b_end = pre\<rparr>, p'))"

text \<open>\<open>BufferPool.GetBuffer\<close> and \<open>Buffer.Recycle\<close>.\<close>

definition BufferPool_GetBuffer :: "nat option \<Rightarrow> nio_pools \<Rightarrow> buffer \<times> nio_pools" where
  "BufferPool_GetBuffer choice p =
     (let (br, rest) = pool_get choice (ioPool p) \<lparr>b_buf = make_slice bufSize, b_off = 0, b_end = 0\<rparr>
      in (br\<lparr>b_off := 0, b_end := 0\<rparr>, p\<lparr>ioPool := rest\<rparr>))"

definition Buffer_Recycle :: "buffer \<Rightarrow> nio_pools \<Rightarrow> buffer \<times> nio_pools" where
  "Buffer_Recycle b p = (let b' = b\<lparr>b_end := 0, b_off := 0\<rparr> in (b', p\<lparr>ioPool := b' # ioPool p\<rparr>))"

text \<open>\<open>Frame\<close>: a view that shares the backing array.\<close>

definition Buffer_Frame :: "buffer \<Rightarrow> nat \<Rightarrow> nat \<Rightarrow> buffer" where
  "Buffer_Frame b start fin = \<lparr>b_buf = b_buf b, b_off = b_off b + start, b_end = b_off b + fin\<rparr>"

text \<open>\<open>buf := make([]byte, n); copy(buf, b.buf[b.off:b.end])\<close> and the reset of the cursors,
  the common tail of \<open>Grow\<close> and \<open>grow\<close>.\<close>

definition moveTo :: "nat \<Rightarrow> buffer \<Rightarrow> buffer option" where
  "moveTo n b = do {
     data \<leftarrow> s_slice (b_buf b) (b_off b) (b_end b);
     s \<leftarrow> s_copy_at (make_slice n) 0 (s_bytes data);
     Some \<lparr>b_buf = s, b_off = 0, b_end = b_end b - b_off b\<rparr> }"

definition Buffer_Grow :: "buffer \<Rightarrow> nat \<Rightarrow> buffer option" where
  "Buffer_Grow b n =
     (let c = scap (b_buf b) in
      if int c - int (b_end b) > int n then Some b else moveTo (c * 2) b)"

definition Buffer_grow :: "buffer \<Rightarrow> int \<Rightarrow> buffer option" where
  "Buffer_grow b n =
     (let c = scap (b_buf b) in
      if int c - int (b_end b) > n then Some b
      else moveTo (nat (if n < int c * 2 then int c * 2 else n)) b)"

definition Buffer_WriteUnint32 :: "buffer \<Rightarrow> u32 \<Rightarrow> buffer option" where
  "Buffer_WriteUnint32 b i = do {
     b \<leftarrow> Buffer_Grow b 4;
     s \<leftarrow> s_put_at (b_buf b) (b_end b) (le32_bytes i);
     Some (b\<lparr>b_buf := s, b_end := b_end b + 4\<rparr>) }"

definition Buffer_SetUnint32BE :: "buffer \<Rightarrow> nat \<Rightarrow> u32 \<Rightarrow> buffer option" where
  "Buffer_SetUnint32BE b pos i = do {
     s \<leftarrow> s_put_at (b_buf b) pos (be32_bytes i); Some (b\<lparr>b_buf := s\<rparr>) }"

definition Buffer_SetUnint32 :: "buffer \<Rightarrow> nat \<Rightarrow> u32 \<Rightarrow> buffer option" where
  "Buffer_SetUnint32 b pos i = do {
     s \<leftarrow> s_put_at (b_buf b) pos (le32_bytes i); Some (b\<lparr>b_buf := s\<rparr>) }"

definition Buffer_SetByte :: "buffer \<Rightarrow> nat \<Rightarrow> byte \<Rightarrow> buffer option" where
  "Buffer_SetByte b pos i = do { s \<leftarrow> s_set (b_buf b) pos i; Some (b\<lparr>b_buf := s\<rparr>) }"

text \<open>\<open>binary.PutUvarint\<close> and \<open>binary.PutVarint\<close> (zig-zag), as the bytes they store.\<close>

function uvarint_bytes :: "u64 \<Rightarrow> byte list" where
  "uvarint_bytes x = (if x \<ge> 0x80 then (ucast x OR 0x80) # uvarint_bytes (drop_bit 7 x) else [ucast x])"
  by pat_completeness auto
termination
proof (relation "measure unat")
  fix x :: u64
  assume "x \<ge> 0x80"
  then have "128 \<le> unat x" by (simp add: word_le_nat_alt)
  then show "(drop_bit 7 x, x) \<in> measure unat"
    by (simp add: drop_bit_eq_div unat_div)
qed simp

declare uvarint_bytes.simps [simp del]

definition varint_bytes :: "u64 \<Rightarrow> byte list" where
  "varint_bytes x = uvarint_bytes (if sint x < 0 then NOT (push_bit 1 x) else push_bit 1 x)"

definition Buffer_WriteVarint :: "buffer \<Rightarrow> u64 \<Rightarrow> buffer option" where
  "Buffer_WriteVarint b i = do {
     b \<leftarrow> Buffer_Grow b 8;
     s \<leftarrow> s_put_at (b_buf b) (b_end b) (varint_bytes i);
     Some (b\<lparr>b_buf := s, b_end := b_end b + length (varint_bytes i)\<rparr>) }"

definition Buffer_WriteByte :: "buffer \<Rightarrow> byte \<Rightarrow> buffer option" where
  "Buffer_WriteByte b d = do {
     b \<leftarrow> Buffer_grow b 1;
     s \<leftarrow> s_set (b_buf b) (b_end b) d;
     Some (b\<lparr>b_buf := s, b_end := Suc (b_end b)\<rparr>) }"

definition Buffer_Write :: "buffer \<Rightarrow> byte list \<Rightarrow> (nat \<times> buffer) option" where
  "Buffer_Write b p = do {
     b \<leftarrow> Buffer_grow b (int (length p));
     s \<leftarrow> s_copy_at (b_buf b) (b_end b) p;
     Some (length p, b\<lparr>b_buf := s, b_end := b_end b + length p\<rparr>) }"

definition Buffer_Out :: "buffer \<Rightarrow> slice option" where
  "Buffer_Out b = s_slice (b_buf b) (b_end b) (scap (b_buf b))"

definition Buffer_Start :: "buffer \<Rightarrow> nat" where
  "Buffer_Start b = b_off b"

definition Buffer_End :: "buffer \<Rightarrow> nat" where
  "Buffer_End b = b_end b"

definition Buffer_UpdateAppend :: "buffer \<Rightarrow> slice \<Rightarrow> buffer" where
  "Buffer_UpdateAppend b bout = b\<lparr>b_end := slen bout, b_buf := bout\<lparr>slen := scap bout\<rparr>\<rparr>"

definition Buffer_Clear :: "buffer \<Rightarrow> buffer" where
  "Buffer_Clear b = b\<lparr>b_off := 0, b_end := 0\<rparr>"

definition Buffer_Skip :: "buffer \<Rightarrow> nat \<Rightarrow> int \<times> buffer" where
  "Buffer_Skip b count =
     (let b' = b\<lparr>b_off := b_off b + count\<rparr> in
      if b_off b' \<ge> b_end b'
      then (int (b_end b') - int (b_off b'), b'\<lparr>b_off := 0, b_end := 0\<rparr>)
      else (int count, b'))"

text \<open>\<open>Size\<close>, \<open>Len\<close> and \<open>IsEmpty\<close> may be called on a nil buffer.\<close>

definition Buffer_Size :: "buffer option \<Rightarrow> int" where
  "Buffer_Size bo = (case bo of None \<Rightarrow> 0 | Some b \<Rightarrow> int (b_end b) - int (b_off b))"

definition Buffer_Len :: "buffer option \<Rightarrow> int" where
  "Buffer_Len bo = (case bo of None \<Rightarrow> 0 | Some b \<Rightarrow> int (b_end b) - int (b_off b))"

definition Buffer_IsEmpty :: "buffer option \<Rightarrow> bool" where
  "Buffer_IsEmpty bo = (case bo of None \<Rightarrow> True | Some b \<Rightarrow> b_off b \<ge> b_end b)"

definition Buffer_Compact :: "buffer \<Rightarrow> buffer option" where
  "Buffer_Compact b =
     (if b_off b = b_end b then Some (b\<lparr>b_off := 0, b_end := 0\<rparr>)
      else do {
        data \<leftarrow> s_slice (b_buf b) (b_off b) (b_end b);
        s \<leftarrow> s_copy_at (b_buf b) 0 (s_bytes data);
        Some \<lparr>b_buf = s, b_off = 0, b_end = b_end b - b_off b\<rparr> })"

definition Buffer_Bytes :: "buffer \<Rightarrow> slice option" where
  "Buffer_Bytes b = s_slice (b_buf b) (b_off b) (b_end b)"

definition Buffer_Buffer :: "buffer \<Rightarrow> slice" where
  "Buffer_Buffer b = b_buf b"

definition Buffer_BytesAppend :: "buffer \<Rightarrow> slice option" where
  "Buffer_BytesAppend b = s_slice (b_buf b) 0 (b_end b)"

text \<open>\<open>n, err := r.Read(s.buf[s.end:cap(s.buf)]); s.end += n\<close>.\<close>

definition readInto :: "buffer \<Rightarrow> reader \<Rightarrow> (goerr option \<times> buffer \<times> reader) option" where
  "readInto b r =
     (if b_end b \<le> scap (b_buf b) then
        (let (bs, e, r') = go_read (scap (b_buf b) - b_end b) r in
         Some (e, b\<lparr>b_buf := (b_buf b)\<lparr>sarr := overwrite (sarr (b_buf b)) (b_end b) bs\<rparr>,
                    b_end := b_end b + length bs\<rparr>, r'))
      else None)"

definition unread :: "buffer \<Rightarrow> byte list option" where
  "unread b = map_option s_bytes (Buffer_Bytes b)"

type_synonym fill_result = "(byte list \<times> goerr option) \<times> buffer \<times> reader"

partial_function (option) fillLoop :: "buffer \<Rightarrow> reader \<Rightarrow> nat \<Rightarrow> fill_result option" where
  "fillLoop b r i =
     Option.bind (readInto b r) (\<lambda>x.
       if b_end (fst (snd x)) \<ge> b_off (fst (snd x)) + i
       then Option.bind (unread (fst (snd x))) (\<lambda>bs. Some ((bs, None), snd x))
       else if fst x \<noteq> None
       then Option.bind (unread (fst (snd x))) (\<lambda>bs. Some ((bs, fst x), snd x))
       else fillLoop (fst (snd x)) (snd (snd x)) i)"

definition Buffer_Fill :: "buffer \<Rightarrow> reader \<Rightarrow> nat \<Rightarrow> fill_result option" where
  "Buffer_Fill s r i = do {
     s \<leftarrow> (if b_end s = b_off s then Buffer_Compact s else Some s);
     if i = 0 then do {
       s \<leftarrow> (if int (scap (b_buf s)) - int (b_end s) < 1024 then Buffer_grow s 1024 else Some s);
       (e, s, r) \<leftarrow> readInto s r;
       bs \<leftarrow> unread s;
       Some ((bs, e), s, r) }
     else if int (b_end s) - int (b_off s) \<ge> int i then do {
       bs \<leftarrow> unread s; Some ((bs, None), s, r) }
     else do {
       s \<leftarrow> (if int i > int (scap (b_buf s)) - int (b_off s)
             then Buffer_grow s (int i - int (b_off s)) else Some s);
       fillLoop s r i } }"

definition Buffer_Discard :: "buffer \<Rightarrow> nat \<Rightarrow> buffer" where
  "Buffer_Discard b n =
     (let (b, n) = (if int n > Buffer_Size (Some b)
                    then (b\<lparr>b_off := 0, b_end := 0\<rparr>, nat (int n - Buffer_Size (Some b)))
                    else (b, n));
          b = b\<lparr>b_off := b_off b + n\<rparr>
      in if b_off b = b_end b then b\<lparr>b_off := 0, b_end := 0\<rparr> else b)"

text \<open>\<open>ReadData\<close> and \<open>ReadBlocking\<close> with a destination of \<open>d\<close> bytes: the bytes copied to it.\<close>

definition Buffer_ReadData :: "buffer \<Rightarrow> nat \<Rightarrow> ((byte list \<times> goerr option) \<times> buffer) option" where
  "Buffer_ReadData s d =
     (if int (b_end s) - int (b_off s) > 0 then do {
        bs \<leftarrow> unread s;
        Some ((take d bs, None), s\<lparr>b_off := b_off s + length (take d bs)\<rparr>) }
      else Some (([], None), s))"

definition Buffer_ReadBlocking :: "buffer \<Rightarrow> reader \<Rightarrow> nat \<Rightarrow> fill_result option" where
  "Buffer_ReadBlocking s r d =
     (if int (b_end s) - int (b_off s) > 0 then do {
        bs \<leftarrow> unread s;
        Some ((take d bs, None), s\<lparr>b_off := b_off s + length (take d bs)\<rparr>, r) }
      else (let (bs, e, r') = go_read d r in Some ((bs, e), s, r')))"

definition Buffer_ReadByte :: "buffer \<Rightarrow> reader \<Rightarrow> ((byte \<times> goerr option) \<times> buffer \<times> reader) option" where
  "Buffer_ReadByte s ior = do {
     ((_, err), s, ior) \<leftarrow> (if Buffer_IsEmpty (Some s) then Buffer_Fill s ior 0
                            else Some (([], None), s, ior));
     if err \<noteq> None then Some ((0, err), s, ior)
     else do {
       r \<leftarrow> s_get (b_buf s) (b_off s);
       Some ((r, None), s\<lparr>b_off := Suc (b_off s)\<rparr>, ior) } }"

subsection \<open>BufferReader\<close>

record bufferReader =
  Reader :: reader
  Buffer :: buffer

definition NewBufferReader :: "nat option \<Rightarrow> reader \<Rightarrow> 'p chunk_pools_scheme \<Rightarrow> bufferReader \<times> 'p chunk_pools_scheme" where
  "NewBufferReader choice inp p =
     (let (b, p') = GetBuffer choice 0 0 p in (\<lparr>Reader = inp, Buffer = b\<rparr>, p'))"

definition BufferReader_Peek :: "bufferReader \<Rightarrow> nat \<Rightarrow> ((byte list \<times> goerr option) \<times> bufferReader) option" where
  "BufferReader_Peek br i = do {
     (res, b, r) \<leftarrow> Buffer_Fill (Buffer br) (Reader br) i;
     Some (res, \<lparr>Reader = r, Buffer = b\<rparr>) }"

definition BufferReader_Read :: "bufferReader \<Rightarrow> nat \<Rightarrow> ((byte list \<times> goerr option) \<times> bufferReader) option" where
  "BufferReader_Read br d = do {
     (res, b, r) \<leftarrow> Buffer_ReadBlocking (Buffer br) (Reader br) d;
     Some (res, \<lparr>Reader = r, Buffer = b\<rparr>) }"

text \<open>The loop of \<open>Discard\<close>, entered when the buffered bytes are all skipped.\<close>

partial_function (option) discardLoop :: "bufferReader \<Rightarrow> nat \<Rightarrow> bufferReader option" where
  "discardLoop br n =
     Option.bind (BufferReader_Peek br 0) (\<lambda>x.
       if snd (fst x) \<noteq> None then Some (snd x)
       else if length (fst (fst x)) < n
       then discardLoop ((snd x)\<lparr>Buffer := (Buffer (snd x))\<lparr>b_off := 0, b_end := 0\<rparr>\<rparr>) (n - length (fst (fst x)))
       else if length (fst (fst x)) = n
       then Some ((snd x)\<lparr>Buffer := (Buffer (snd x))\<lparr>b_off := 0, b_end := 0\<rparr>\<rparr>)
       else Some ((snd x)\<lparr>Buffer := (Buffer (snd x))\<lparr>b_off := n\<rparr>\<rparr>))"

definition BufferReader_Discard :: "bufferReader \<Rightarrow> nat \<Rightarrow> bufferReader option" where
  "BufferReader_Discard br n =
     (let b = Buffer br in
      if int n > Buffer_Size (Some b)
      then discardLoop (br\<lparr>Buffer := b\<lparr>b_off := 0, b_end := 0\<rparr>\<rparr>) (nat (int n - Buffer_Size (Some b)))
      else (let b = b\<lparr>b_off := b_off b + n\<rparr> in
            Some (br\<lparr>Buffer := (if b_off b = b_end b then b\<lparr>b_off := 0, b_end := 0\<rparr> else b)\<rparr>)))"

text \<open>\<open>Close\<close> recycles the buffer and closes the reader when it is an \<open>io.Closer\<close>: the second
  component says whether the reader's \<open>Close\<close> is called.\<close>

definition BufferReader_Close :: "bool \<Rightarrow> bufferReader \<Rightarrow> nio_pools \<Rightarrow> bufferReader \<times> bool \<times> nio_pools" where
  "BufferReader_Close isCloser br p =
     (let (b, p') = Buffer_Recycle (Buffer br) p in (br\<lparr>Buffer := b\<rparr>, isCloser, p'))"

subsection \<open>bufConn\<close>

text \<open>A connection with the bytes that a \<open>bufio.Reader\<close> had already buffered; \<open>None\<close> once the
  buffer is drained (\<open>c.Reader = nil\<close>).\<close>

record bufConn =
  bc_conn :: reader
  bc_buffered :: "byte list option"

definition newBufConn :: "reader \<Rightarrow> byte list \<Rightarrow> reader + bufConn" where
  "newBufConn conn buffered =
     (if length buffered = 0 then Inl conn else Inr \<lparr>bc_conn = conn, bc_buffered = Some buffered\<rparr>)"

definition bufConn_Read :: "bufConn \<Rightarrow> nat \<Rightarrow> (byte list \<times> goerr option) \<times> bufConn" where
  "bufConn_Read c d =
     (let direct = (\<lambda>c. let (bs, e, r) = go_read d (bc_conn c) in ((bs, e), c\<lparr>bc_conn := r\<rparr>)) in
      case bc_buffered c of
        None \<Rightarrow> direct c
      | Some bf \<Rightarrow>
          if length bf = 0 then direct (c\<lparr>bc_buffered := None\<rparr>)
          else (let d = (if length bf < d then length bf else d) in
                ((take d bf, None), c\<lparr>bc_buffered := Some (drop d bf)\<rparr>)))"

section \<open>Well-formed buffers and their contents\<close>

definition wf_buffer :: "buffer \<Rightarrow> bool" where
  "wf_buffer b \<longleftrightarrow> b_off b \<le> b_end b \<and> b_end b \<le> scap (b_buf b) \<and> slen (b_buf b) = scap (b_buf b)"

definition contents :: "buffer \<Rightarrow> byte list" where
  "contents b = take (b_end b - b_off b) (drop (b_off b) (sarr (b_buf b)))"

named_theorems buffer_simps "buffer operations on well-formed buffers"

lemma length_contents [simp]: "wf_buffer b \<Longrightarrow> length (contents b) = b_end b - b_off b"
  by (auto simp: wf_buffer_def contents_def scap_def)

lemma length_contents_le: "wf_buffer b \<Longrightarrow> length (contents b) \<le> scap (b_buf b)"
  by (auto simp: wf_buffer_def contents_def scap_def)

lemma Size_contents: "wf_buffer b \<Longrightarrow> Buffer_Size (Some b) = int (length (contents b))"
  by (simp add: Buffer_Size_def) (simp add: wf_buffer_def)

lemma unread_eq [buffer_simps]: "wf_buffer b \<Longrightarrow> unread b = Some (contents b)"
  by (simp add: wf_buffer_def contents_def unread_def Buffer_Bytes_def slice_simps)

lemma wf_buffer_reset [simp]: "wf_buffer b \<Longrightarrow> wf_buffer (b\<lparr>b_off := 0, b_end := 0\<rparr>)"
  by (simp add: wf_buffer_def)

lemma contents_empty [simp]: "contents (b\<lparr>b_off := n, b_end := n\<rparr>) = []" "b_off b = b_end b \<Longrightarrow> contents b = []"
  by (simp_all add: contents_def)

lemma contents_front: "contents \<lparr>b_buf = s, b_off = 0, b_end = n\<rparr> = take n (sarr s)"
  by (simp add: contents_def)

lemma contents_advance:
  "wf_buffer b \<Longrightarrow> n \<le> length (contents b) \<Longrightarrow>
   wf_buffer (b\<lparr>b_off := b_off b + n\<rparr>) \<and> contents (b\<lparr>b_off := b_off b + n\<rparr>) = drop n (contents b)"
  by (auto simp: wf_buffer_def contents_def drop_take add.commute)

lemma moveTo_spec:
  assumes wf: "wf_buffer b" and n: "length (contents b) \<le> n"
  obtains b' where "moveTo n b = Some b'" "wf_buffer b'" "contents b' = contents b"
    "b_off b' = 0" "b_end b' = length (contents b)" "scap (b_buf b') = n"
proof -
  let ?s = "\<lparr>sarr = overwrite (replicate n 0) 0 (contents b), slen = n\<rparr>"
  let ?b = "\<lparr>b_buf = ?s, b_off = 0, b_end = length (contents b)\<rparr>"
  have copy: "s_copy_at (make_slice n) 0 (contents b) = Some ?s"
    using n by (simp add: s_copy_at_Some make_slice_def)
  have bytes: "s_bytes \<lparr>sarr = drop (b_off b) (sarr (b_buf b)), slen = b_end b - b_off b\<rparr> = contents b"
    by (simp add: s_bytes_def contents_def)
  have "moveTo n b = Some ?b"
    using wf copy length_contents [OF wf]
    by (simp add: moveTo_def wf_buffer_def s_slice_Some bytes)
  moreover have "wf_buffer ?b" using n by (simp add: wf_buffer_def)
  moreover have "contents ?b = contents b" using n by (simp add: contents_front overwrite_prefix)
  ultimately show ?thesis using that by simp
qed

text \<open>After \<open>Grow\<close> and \<open>grow\<close>: the same contents, and room for the bytes asked for provided
  that the grown array is large enough for them beside the unread data.\<close>

lemma Buffer_grow_spec:
  assumes wf: "wf_buffer b" and n: "0 \<le> n"
    and room: "length (contents b) + nat n \<le> max (nat n) (2 * scap (b_buf b))"
  obtains b' where "Buffer_grow b n = Some b'" "wf_buffer b'" "contents b' = contents b"
    "b_end b' + nat n \<le> scap (b_buf b')"
proof (cases "int (scap (b_buf b)) - int (b_end b) > n")
  case True
  with that [of b] wf n show ?thesis by (simp add: Buffer_grow_def)
next
  case False
  let ?m = "nat (if n < int (scap (b_buf b)) * 2 then int (scap (b_buf b)) * 2 else n)"
  have m: "?m = max (nat n) (2 * scap (b_buf b))" using n by (auto simp: max_def nat_le_iff)
  then have "length (contents b) \<le> ?m" using room by linarith
  from moveTo_spec [OF wf this] obtain b' where b': "moveTo ?m b = Some b'" "wf_buffer b'"
    "contents b' = contents b" "b_end b' = length (contents b)" "scap (b_buf b') = ?m" by blast
  with that [of b'] False room m show ?thesis by (simp add: Buffer_grow_def Let_def)
qed

lemma Buffer_Grow_spec:
  assumes wf: "wf_buffer b" and room: "length (contents b) + n \<le> 2 * scap (b_buf b)"
  obtains b' where "Buffer_Grow b n = Some b'" "wf_buffer b'" "contents b' = contents b"
    "b_end b' + n \<le> scap (b_buf b')"
proof (cases "int (scap (b_buf b)) - int (b_end b) > int n")
  case True
  with that [of b] wf show ?thesis by (simp add: Buffer_Grow_def)
next
  case False
  have "length (contents b) \<le> scap (b_buf b) * 2" using room by simp
  from moveTo_spec [OF wf this] obtain b' where b': "moveTo (scap (b_buf b) * 2) b = Some b'"
    "wf_buffer b'" "contents b' = contents b" "b_end b' = length (contents b)"
    "scap (b_buf b') = scap (b_buf b) * 2" by blast
  with that [of b'] False room show ?thesis by (simp add: Buffer_Grow_def Let_def)
qed

text \<open>Storing bytes at \<open>end\<close> appends them to the contents.\<close>

lemma append_at_end:
  assumes wf: "wf_buffer b" and room: "b_end b + length p \<le> scap (b_buf b)"
  defines "b' \<equiv> b\<lparr>b_buf := (b_buf b)\<lparr>sarr := overwrite (sarr (b_buf b)) (b_end b) p\<rparr>,
                 b_end := b_end b + length p\<rparr>"
  shows "wf_buffer b'" "contents b' = contents b @ p"
proof -
  have len: "b_off b \<le> b_end b" "b_end b + length p \<le> length (sarr (b_buf b))"
    using wf room by (auto simp: wf_buffer_def scap_def)
  show "wf_buffer b'" using wf len by (simp add: b'_def wf_buffer_def scap_def)
  have "take (b_end b + length p) (overwrite (sarr (b_buf b)) (b_end b) p) = take (b_end b) (sarr (b_buf b)) @ p"
    using len by (intro take_overwrite_through) simp
  then have "drop (b_off b) (take (b_end b + length p) (overwrite (sarr (b_buf b)) (b_end b) p))
      = drop (b_off b) (take (b_end b) (sarr (b_buf b))) @ p"
    using len by simp
  then show "contents b' = contents b @ p"
    using len by (simp add: b'_def contents_def take_drop add.commute)
qed

lemma append_slice_facts:
  assumes "wf_buffer b" "b_end b + length p \<le> scap (b_buf b)"
  shows "s_put_at (b_buf b) (b_end b) p = Some ((b_buf b)\<lparr>sarr := overwrite (sarr (b_buf b)) (b_end b) p\<rparr>)"
    and "s_copy_at (b_buf b) (b_end b) p = Some ((b_buf b)\<lparr>sarr := overwrite (sarr (b_buf b)) (b_end b) p\<rparr>)"
  using assms by (simp_all add: wf_buffer_def s_put_at_def s_copy_at_Some)

lemma Buffer_Write_spec:
  assumes wf: "wf_buffer b"
    and room: "length (contents b) + length p \<le> max (length p) (2 * scap (b_buf b))"
  obtains b' where "Buffer_Write b p = Some (length p, b')" "wf_buffer b'" "contents b' = contents b @ p"
proof -
  obtain g where g: "Buffer_grow b (int (length p)) = Some g" "wf_buffer g" "contents g = contents b"
    "b_end g + length p \<le> scap (b_buf g)"
    using Buffer_grow_spec [OF wf, of "int (length p)"] room by auto
  then show ?thesis
    using append_at_end [OF g(2,4)] append_slice_facts [OF g(2,4)]
    by (intro that) (simp_all add: Buffer_Write_def)
qed

lemma Buffer_WriteByte_spec:
  assumes wf: "wf_buffer b" and cap: "0 < scap (b_buf b)"
  obtains b' where "Buffer_WriteByte b d = Some b'" "wf_buffer b'" "contents b' = contents b @ [d]"
proof -
  obtain g where g: "Buffer_grow b 1 = Some g" "wf_buffer g" "contents g = contents b"
    "b_end g + length [d] \<le> scap (b_buf g)"
    using Buffer_grow_spec [OF wf, of 1] cap length_contents_le [OF wf] by auto
  have "s_set (b_buf g) (b_end g) d = Some ((b_buf g)\<lparr>sarr := overwrite (sarr (b_buf g)) (b_end g) [d]\<rparr>)"
    using g(2,4) by (simp add: s_set_def wf_buffer_def scap_def overwrite_def upd_conv_take_nth_drop)
  with g show ?thesis
    using append_at_end [OF g(2,4)] by (intro that) (simp_all add: Buffer_WriteByte_def)
qed

section \<open>Filling and reading\<close>

text \<open>One \<open>Read\<close> into the free part of the buffer moves bytes from the reader to the buffer.\<close>

lemma readInto_spec:
  assumes wf: "wf_buffer b"
  obtains e b' r' where "readInto b r = Some (e, b', r')" "wf_buffer b'" "b_off b' = b_off b"
    "scap (b_buf b') = scap (b_buf b)" "contents b' @ reader_bytes r' = contents b @ reader_bytes r"
    "prefix (contents b) (contents b')"
    "b_end b < scap (b_buf b) \<Longrightarrow> e = None \<Longrightarrow> reader_size r' < reader_size r"
proof -
  obtain bs e r' where rd: "go_read (scap (b_buf b) - b_end b) r = (bs, e, r')"
    by (metis prod_cases3)
  have room: "b_end b + length bs \<le> scap (b_buf b)"
    using go_read_length [OF rd] wf unfolding wf_buffer_def by linarith
  let ?b' = "b\<lparr>b_buf := (b_buf b)\<lparr>sarr := overwrite (sarr (b_buf b)) (b_end b) bs\<rparr>,
               b_end := b_end b + length bs\<rparr>"
  have "readInto b r = Some (e, ?b', r')"
    using wf rd by (simp add: readInto_def wf_buffer_def)
  moreover have "scap (b_buf ?b') = scap (b_buf b)"
    using room by (simp add: scap_def)
  moreover note append_at_end [OF wf room] go_read_bytes [OF rd] go_read_size [of _ r bs r'] rd
  ultimately show ?thesis by (intro that [of e ?b' r']) auto
qed

lemma fillLoop_conserves:
  assumes "fillLoop b r i = Some res" "wf_buffer b"
  shows "wf_buffer (fst (snd res)) \<and> b_off (fst (snd res)) = b_off b
    \<and> contents (fst (snd res)) @ reader_bytes (snd (snd res)) = contents b @ reader_bytes r
    \<and> fst (fst res) = contents (fst (snd res)) \<and> prefix (contents b) (contents (fst (snd res)))
    \<and> (snd (fst res) = None \<longrightarrow> i \<le> length (fst (fst res)))"
  using assms(2)
proof (induction rule: fillLoop.raw_induct [OF _ assms(1)])
  case (1 f b r i res)
  obtain e b' r' where rd: "readInto b r = Some (e, b', r')" "wf_buffer b'" "b_off b' = b_off b"
    "contents b' @ reader_bytes r' = contents b @ reader_bytes r" "prefix (contents b) (contents b')"
    using readInto_spec [OF 1(3), of r] by blast
  have len: "length (contents b') = b_end b' - b_off b'" using rd(2) by simp
  show ?case
  proof (cases "b_end b' \<ge> b_off b' + i")
    case True
    with 1(2) rd len show ?thesis by (auto simp: buffer_simps)
  next
    case False
    show ?thesis
    proof (cases e)
      case (Some err)
      with False 1(2) rd show ?thesis by (auto simp: buffer_simps)
    next
      case None
      with False 1(2) rd(1) have "f b' r' i = Some res" by simp
      from 1(1) [OF this rd(2)] rd show ?thesis by (auto intro: prefix_order.trans)
    qed
  qed
qed

text \<open>With room for the bytes asked for, the loop returns: every \<open>Read\<close> that neither completes
  the request nor fails makes progress.\<close>

lemma fillLoop_returns:
  assumes "wf_buffer b" "b_off b + i \<le> scap (b_buf b)" "b_end b < b_off b + i"
  shows "\<exists>res. fillLoop b r i = Some res"
  using assms
proof (induction "reader_size r" arbitrary: b r rule: less_induct)
  case less
  obtain e b' r' where rd: "readInto b r = Some (e, b', r')" "wf_buffer b'" "b_off b' = b_off b"
    "scap (b_buf b') = scap (b_buf b)"
    "b_end b < scap (b_buf b) \<Longrightarrow> e = None \<Longrightarrow> reader_size r' < reader_size r"
    using readInto_spec [OF less.prems(1), of r] by blast
  have "b_end b < scap (b_buf b)" using less.prems by linarith
  with less.hyps [of r' b'] rd less.prems(2) show ?case
    by (cases "b_end b' \<ge> b_off b' + i"; cases e)
       (auto simp: fillLoop.simps [of b r i] buffer_simps)
qed

text \<open>A full window that still misses bytes never gets them: the loop does not return.\<close>

lemma fillLoop_stuck:
  assumes wf: "wf_buffer b" and full: "b_end b = scap (b_buf b)" and miss: "b_end b < b_off b + i"
    and data: "fst (hd r) \<noteq> []" "r \<noteq> []"
  shows "fillLoop b r i = None"
proof (rule ccontr)
  assume "fillLoop b r i \<noteq> None"
  then obtain res where ret: "fillLoop b r i = Some res" by blast
  have "\<not> (wf_buffer b \<and> b_end b = scap (b_buf b) \<and> b_end b < b_off b + i \<and> fst (hd r) \<noteq> [] \<and> r \<noteq> [])"
  proof (induction rule: fillLoop.raw_induct [OF _ ret])
    case (1 f b r i res)
    show ?case
    proof
      assume asm: "wf_buffer b \<and> b_end b = scap (b_buf b) \<and> b_end b < b_off b + i \<and> fst (hd r) \<noteq> [] \<and> r \<noteq> []"
      then obtain bs e r' where r: "r = (bs, e) # r'" "bs \<noteq> []" by (cases r) auto
      have "readInto b r = Some (None, b, r)"
        using asm r by (simp add: readInto_def)
      with 1(2) asm have "f b r i = Some res" by simp
      from 1(1) [OF this] asm show False by blast
    qed
  qed
  with assms show False by blast
qed

lemma Buffer_Compact_spec:
  assumes wf: "wf_buffer b"
  obtains b' where "Buffer_Compact b = Some b'" "wf_buffer b'" "contents b' = contents b" "b_off b' = 0"
    "b_end b' = length (contents b)" "scap (b_buf b') = scap (b_buf b)"
proof (cases "b_off b = b_end b")
  case True
  with wf that [of "b\<lparr>b_off := 0, b_end := 0\<rparr>"] show ?thesis by (simp add: Buffer_Compact_def)
next
  case False
  let ?s = "(b_buf b)\<lparr>sarr := overwrite (sarr (b_buf b)) 0 (contents b)\<rparr>"
  let ?b = "\<lparr>b_buf = ?s, b_off = 0, b_end = length (contents b)\<rparr>"
  have le: "length (contents b) \<le> length (sarr (b_buf b))"
    using length_contents_le [OF wf] by (simp add: scap_def)
  have bytes: "s_bytes \<lparr>sarr = drop (b_off b) (sarr (b_buf b)), slen = b_end b - b_off b\<rparr> = contents b"
    by (simp add: s_bytes_def contents_def)
  have copy: "s_copy_at (b_buf b) 0 (contents b) = Some ?s"
    using wf length_contents_le [OF wf] by (intro s_copy_at_Some) (auto simp: wf_buffer_def)
  have "Buffer_Compact b = Some ?b"
    using wf False bytes copy length_contents [OF wf]
    by (simp add: Buffer_Compact_def wf_buffer_def s_slice_Some)
  moreover have "wf_buffer ?b" using le wf by (simp add: wf_buffer_def scap_def)
  moreover have "contents ?b = contents b"
    using le by (simp add: contents_front overwrite_prefix)
  ultimately show ?thesis using that [of ?b] by (simp add: scap_def)
qed

lemma Buffer_grow_keeps:
  assumes wf: "wf_buffer b"
  obtains b' where "Buffer_grow b n = Some b'" "wf_buffer b'" "contents b' = contents b"
    "b' = b \<and> int (scap (b_buf b)) - int (b_end b) > n
     \<or> b_off b' = 0 \<and> b_end b' = length (contents b) \<and> nat n \<le> scap (b_buf b')"
proof (cases "int (scap (b_buf b)) - int (b_end b) > n")
  case True
  with that [of b] wf show ?thesis by (simp add: Buffer_grow_def)
next
  case False
  let ?m = "nat (if n < int (scap (b_buf b)) * 2 then int (scap (b_buf b)) * 2 else n)"
  have m: "length (contents b) \<le> ?m" "nat n \<le> ?m" using length_contents_le [OF wf] by auto
  from moveTo_spec [OF wf m(1)] obtain b' where "moveTo ?m b = Some b'" "wf_buffer b'"
    "contents b' = contents b" "b_off b' = 0" "b_end b' = length (contents b)" "scap (b_buf b') = ?m"
    by blast
  with that [of b'] False m(2) show ?thesis by (simp add: Buffer_grow_def Let_def)
qed

lemma fill_start:
  assumes wf: "wf_buffer b"
  obtains s where "(if b_end b = b_off b then Buffer_Compact b else Some b) = Some s" "wf_buffer s"
    "contents s = contents b" "contents b = [] \<Longrightarrow> b_off s = 0" "contents b \<noteq> [] \<Longrightarrow> s = b"
proof (cases "b_end b = b_off b")
  case True
  with Buffer_Compact_spec [OF wf] that show ?thesis by (metis contents_empty(2))
next
  case False
  then have "0 < b_end b - b_off b" using wf by (simp add: wf_buffer_def)
  then have "contents b \<noteq> []" using length_contents [OF wf] by (metis less_irrefl list.size(3))
  with False wf that [of b] show ?thesis by simp
qed

lemma Buffer_Fill_conserves:
  assumes wf: "wf_buffer b" and fill: "Buffer_Fill b r i = Some ((bs, e), b', r')"
  shows "wf_buffer b' \<and> contents b' @ reader_bytes r' = contents b @ reader_bytes r \<and> bs = contents b'
    \<and> prefix (contents b) bs \<and> (e = None \<longrightarrow> i \<le> length bs)"
proof -
  obtain s where s: "(if b_end b = b_off b then Buffer_Compact b else Some b) = Some s" "wf_buffer s"
    "contents s = contents b" using fill_start [OF wf] by blast
  consider (one) "i = 0" | (enough) "i \<noteq> 0" "int (b_end s) - int (b_off s) \<ge> int i"
    | (loop) "i \<noteq> 0" "\<not> int (b_end s) - int (b_off s) \<ge> int i" by blast
  then show ?thesis
  proof cases
    case one
    obtain g where g: "Buffer_grow s 1024 = Some g" "wf_buffer g" "contents g = contents s"
      using Buffer_grow_keeps [OF s(2), of 1024] by blast
    obtain t where t: "(if int (scap (b_buf s)) - int (b_end s) < 1024 then Buffer_grow s 1024 else Some s) = Some t"
      "wf_buffer t" "contents t = contents s"
      using g s(2) by (cases "int (scap (b_buf s)) - int (b_end s) < 1024") auto
    obtain e1 b1 r1 where rd: "readInto t r = Some (e1, b1, r1)" "wf_buffer b1"
      "contents b1 @ reader_bytes r1 = contents t @ reader_bytes r" "prefix (contents t) (contents b1)"
      using readInto_spec [OF t(2), of r] by blast
    from fill one s(1) t(1) rd(1,2) have "bs = contents b1" "b' = b1" "r' = r1"
      by (auto simp: Buffer_Fill_def buffer_simps)
    with one rd t s show ?thesis by simp
  next
    case enough
    with fill s have "bs = contents s" "b' = s" "r' = r"
      by (auto simp: Buffer_Fill_def buffer_simps)
    moreover have "i \<le> length (contents s)" using enough s(2) by (simp add: wf_buffer_def)
    ultimately show ?thesis using s by simp
  next
    case loop
    obtain g where g: "Buffer_grow s (int i - int (b_off s)) = Some g" "wf_buffer g" "contents g = contents s"
      using Buffer_grow_keeps [OF s(2)] by blast
    obtain t where t: "(if int i > int (scap (b_buf s)) - int (b_off s)
        then Buffer_grow s (int i - int (b_off s)) else Some s) = Some t" "wf_buffer t" "contents t = contents s"
      using g s(2) by (cases "int i > int (scap (b_buf s)) - int (b_off s)") auto
    from fill loop s(1) t(1) have "fillLoop t r i = Some ((bs, e), b', r')"
      by (simp add: Buffer_Fill_def)
    from fillLoop_conserves [OF this t(2)] t(3) s(3) show ?thesis by auto
  qed
qed

lemma Buffer_Fill_returns:
  assumes wf: "wf_buffer b"
    and room: "contents b = [] \<or> b_off b = 0 \<or> b_off b + i \<le> scap (b_buf b)"
  shows "\<exists>res. Buffer_Fill b r i = Some res"
proof -
  obtain s where s: "(if b_end b = b_off b then Buffer_Compact b else Some b) = Some s" "wf_buffer s"
    "contents s = contents b" "contents b = [] \<Longrightarrow> b_off s = 0" "contents b \<noteq> [] \<Longrightarrow> s = b"
    using fill_start [OF wf] by blast
  have room': "b_off s = 0 \<or> b_off s + i \<le> scap (b_buf s)" using room s(4,5) by blast
  consider (one) "i = 0" | (enough) "i \<noteq> 0" "int (b_end s) - int (b_off s) \<ge> int i"
    | (loop) "i \<noteq> 0" "\<not> int (b_end s) - int (b_off s) \<ge> int i" by blast
  then show ?thesis
  proof cases
    case one
    obtain g where "Buffer_grow s 1024 = Some g" "wf_buffer g"
      using Buffer_grow_keeps [OF s(2), of 1024] by blast
    then obtain t where t: "(if int (scap (b_buf s)) - int (b_end s) < 1024 then Buffer_grow s 1024 else Some s) = Some t"
      "wf_buffer t"
      using s(2) by (cases "int (scap (b_buf s)) - int (b_end s) < 1024") auto
    then obtain e1 b1 r1 where "readInto t r = Some (e1, b1, r1)" "wf_buffer b1"
      using readInto_spec [OF t(2), of r] by blast
    with one s(1) t(1) show ?thesis by (simp add: Buffer_Fill_def buffer_simps)
  next
    case enough
    with s(1,2) show ?thesis by (simp add: Buffer_Fill_def buffer_simps)
  next
    case loop
    obtain t where t: "(if int i > int (scap (b_buf s)) - int (b_off s)
        then Buffer_grow s (int i - int (b_off s)) else Some s) = Some t" "wf_buffer t"
      "b_off t + i \<le> scap (b_buf t)" "b_end t < b_off t + i"
    proof (cases "int i > int (scap (b_buf s)) - int (b_off s)")
      case True
      then have off: "b_off s = 0" using room' by linarith
      have le: "int (scap (b_buf s)) - int (b_end s) \<le> int i" using True off by simp
      obtain g where g: "Buffer_grow s (int i) = Some g" "wf_buffer g" "contents g = contents s"
        "b_off g = 0 \<and> b_end g = length (contents s) \<and> i \<le> scap (b_buf g)"
        using Buffer_grow_keeps [OF s(2), of "int i"] le by auto
      with that [of g] True off loop(2) s(2) show ?thesis by simp
    next
      case False
      with that [of s] s(2) loop show ?thesis by simp
    qed
    then obtain res where "fillLoop t r i = Some res" using fillLoop_returns by blast
    with loop s(1) t(1) show ?thesis by (intro exI [of _ res]) (simp add: Buffer_Fill_def)
  qed
qed

section \<open>Byte sources\<close>

text \<open>
  What a client of a buffered reader relies on: looking ahead never loses, reorders or invents
  a byte, and a successful look-ahead shows at least as many bytes as it asks for; a read takes
  bytes off the front. \<open>pending\<close> is the whole rest of the stream: the bytes in the buffer and the
  bytes still in the connection behind it.
\<close>

locale byte_source =
  fixes ok :: "'s \<Rightarrow> bool"
    and pending :: "'s \<Rightarrow> byte list"
    and peek :: "'s \<Rightarrow> nat \<Rightarrow> ((byte list \<times> goerr option) \<times> 's) option"
  assumes peek_ok: "ok s \<Longrightarrow> peek s n = Some ((bs, e), s') \<Longrightarrow> ok s'"
    and peek_pending: "ok s \<Longrightarrow> peek s n = Some ((bs, e), s') \<Longrightarrow> pending s' = pending s"
    and peek_prefix: "ok s \<Longrightarrow> peek s n = Some ((bs, e), s') \<Longrightarrow> prefix bs (pending s)"
    and peek_enough: "ok s \<Longrightarrow> peek s n = Some ((bs, None), s') \<Longrightarrow> n \<le> length bs"
begin

lemma peek_take:
  assumes "ok s" "peek s n = Some ((bs, None), s')" "k \<le> n"
  shows "take k bs = take k (pending s)"
proof -
  obtain rest where "pending s = bs @ rest" using peek_prefix [OF assms(1,2)] by (auto elim: prefixE)
  then show ?thesis using peek_enough [OF assms(1,2)] assms(3) by simp
qed

lemma peek_nth:
  assumes "ok s" "peek s n = Some ((bs, None), s')" "k < n"
  shows "bs ! k = pending s ! k \<and> k < length bs \<and> k < length (pending s)"
proof -
  obtain rest where "pending s = bs @ rest" using peek_prefix [OF assms(1,2)] by (auto elim: prefixE)
  then show ?thesis using peek_enough [OF assms(1,2)] assms(3) by (simp add: nth_append)
qed

end

locale byte_stream = byte_source +
  fixes read :: "'a \<Rightarrow> nat \<Rightarrow> ((byte list \<times> goerr option) \<times> 'a) option"
  assumes read_ok: "ok s \<Longrightarrow> read s n = Some ((bs, e), s') \<Longrightarrow> ok s'"
    and read_pending: "ok s \<Longrightarrow> read s n = Some ((bs, e), s') \<Longrightarrow> pending s = bs @ pending s'"

text \<open>A client run: looking ahead and reading in any order; the bytes it has read.\<close>

datatype source_op = Peek nat | Read nat

fun source_run :: "('s \<Rightarrow> nat \<Rightarrow> ((byte list \<times> goerr option) \<times> 's) option) \<Rightarrow>
    ('s \<Rightarrow> nat \<Rightarrow> ((byte list \<times> goerr option) \<times> 's) option) \<Rightarrow> source_op list \<Rightarrow> 's \<Rightarrow> (byte list \<times> 's) option" where
  "source_run peek read [] s = Some ([], s)"
| "source_run peek read (Peek n # ops) s = do { (_, s) \<leftarrow> peek s n; source_run peek read ops s }"
| "source_run peek read (Read n # ops) s = do {
     ((bs, _), s) \<leftarrow> read s n; (out, s) \<leftarrow> source_run peek read ops s; Some (bs @ out, s) }"

context byte_stream
begin

lemma source_run_transparent:
  assumes "ok s" "source_run peek read ops s = Some (out, s')"
  shows "ok s' \<and> pending s = out @ pending s'"
  using assms
proof (induction ops arbitrary: s out)
  case (Cons op ops)
  show ?case
  proof (cases op)
    case (Peek n)
    with Cons.prems(2) obtain bs e s1 where s1: "peek s n = Some ((bs, e), s1)"
      "source_run peek read ops s1 = Some (out, s')" by (auto simp: bind_eq_Some_conv)
    from Cons.IH [OF peek_ok [OF Cons.prems(1) s1(1)] s1(2)] peek_pending [OF Cons.prems(1) s1(1)]
    show ?thesis by simp
  next
    case (Read n)
    with Cons.prems(2) obtain bs e s1 out1 where s1: "read s n = Some ((bs, e), s1)"
      "source_run peek read ops s1 = Some (out1, s')" "out = bs @ out1" by (auto simp: bind_eq_Some_conv)
    from Cons.IH [OF read_ok [OF Cons.prems(1) s1(1)] s1(2)] read_pending [OF Cons.prems(1) s1(1)] s1(3)
    show ?thesis by simp
  qed
qed simp

end

definition br_ok :: "bufferReader \<Rightarrow> bool" where
  "br_ok br = wf_buffer (Buffer br)"

definition br_pending :: "bufferReader \<Rightarrow> byte list" where
  "br_pending br = contents (Buffer br) @ reader_bytes (Reader br)"

lemma Peek_Fill:
  "BufferReader_Peek br n = Some ((bs, e), br') \<Longrightarrow>
   Buffer_Fill (Buffer br) (Reader br) n = Some ((bs, e), Buffer br', Reader br')"
  by (auto simp: BufferReader_Peek_def bind_eq_Some_conv)

lemma ReadBlocking_conserves:
  assumes wf: "wf_buffer b" and rd: "Buffer_ReadBlocking b r d = Some ((bs, e), b', r')"
  shows "wf_buffer b' \<and> contents b @ reader_bytes r = bs @ contents b' @ reader_bytes r' \<and> length bs \<le> d"
proof (cases "int (b_end b) - int (b_off b) > 0")
  case True
  have "length (take d (contents b)) \<le> length (contents b)" by simp
  moreover have "take d (contents b) @ drop (length (take d (contents b))) (contents b) = contents b"
    by (simp del: length_contents add: min_def)
  moreover note contents_advance [OF wf calculation(1)]
  ultimately show ?thesis using True rd wf
    by (auto simp: Buffer_ReadBlocking_def buffer_simps)
next
  case False
  with wf have "contents b = []" by (simp add: wf_buffer_def)
  with False rd wf show ?thesis
    by (auto simp: Buffer_ReadBlocking_def dest: go_read_bytes go_read_length split: prod.splits)
qed

interpretation br: byte_stream br_ok br_pending BufferReader_Peek BufferReader_Read
proof unfold_locales
  fix br n bs e br'
  assume ok: "br_ok br" and peek: "BufferReader_Peek br n = Some ((bs, e), br')"
  note fill = Buffer_Fill_conserves [OF ok [unfolded br_ok_def] Peek_Fill [OF peek]]
  show "br_ok br'" using fill by (simp add: br_ok_def)
  show "br_pending br' = br_pending br" using fill by (simp add: br_pending_def)
  show "prefix bs (br_pending br)" using fill by (metis br_pending_def prefixI)
next
  fix br n bs br'
  assume ok: "br_ok br" and peek: "BufferReader_Peek br n = Some ((bs, None), br')"
  show "n \<le> length bs"
    using Buffer_Fill_conserves [OF ok [unfolded br_ok_def] Peek_Fill [OF peek]] by blast
next
  fix br n bs e br'
  assume ok: "br_ok br" and rd: "BufferReader_Read br n = Some ((bs, e), br')"
  then have "Buffer_ReadBlocking (Buffer br) (Reader br) n = Some ((bs, e), Buffer br', Reader br')"
    by (auto simp: BufferReader_Read_def bind_eq_Some_conv)
  from ReadBlocking_conserves [OF ok [unfolded br_ok_def] this]
  show "br_ok br'" "br_pending br = bs @ br_pending br'" by (simp_all add: br_ok_def br_pending_def)
qed

section \<open>Variable-length integers\<close>

text \<open>The decoders \<open>binary.Uvarint\<close> and \<open>binary.Varint\<close> that a receiver applies to the bytes
  written by \<open>WriteVarint\<close>: the value and the bytes after it.\<close>

fun uvarint_val :: "byte list \<Rightarrow> (u64 \<times> byte list) option" where
  "uvarint_val [] = None"
| "uvarint_val (b # bs) =
     (if b < 0x80 then Some (ucast b, bs)
      else do { (v, rest) \<leftarrow> uvarint_val bs; Some (ucast (b AND 0x7f) OR push_bit 7 v, rest) })"

definition varint_val :: "byte list \<Rightarrow> (u64 \<times> byte list) option" where
  "varint_val bs = do {
     (ux, rest) \<leftarrow> uvarint_val bs;
     Some (if bit ux 0 then NOT (drop_bit 1 ux) else drop_bit 1 ux, rest) }"

lemma uvarint_split: "ucast ((ucast (x::u64) OR 0x80 :: byte) AND 0x7f) OR push_bit 7 (drop_bit 7 x) = x"
proof -
  have "(ucast x OR 0x80 :: byte) AND 0x7f = ucast x AND mask 7"
    by (simp add: bit.conj_disj_distrib2 mask_eq_exp_minus_1)
  moreover have "ucast (ucast x AND mask 7 :: byte) = take_bit 7 x"
    by (rule bit_word_eqI) (auto simp: bit_simps)
  moreover have "take_bit 7 x OR push_bit 7 (drop_bit 7 x) = x"
  proof (rule bit_eqI)
    show "bit (take_bit 7 x OR push_bit 7 (drop_bit 7 x)) n = bit x n" if "possible_bit TYPE(u64) n" for n
      using that by (cases "n < 7") (auto simp: bit_simps)
  qed
  ultimately show ?thesis by (simp only:)
qed

lemma uvarint_last:
  assumes "x < 0x80"
  shows "ucast (ucast (x::u64) :: byte) = x \<and> (ucast x :: byte) < 0x80"
proof -
  have u: "unat x < 128" using assms by (simp add: word_less_nat_alt)
  then have b: "unat (ucast x :: byte) = unat x"
    by (simp add: unsigned_ucast_eq unsigned_take_bit_eq take_bit_nat_eq_self)
  then have "unat (ucast (ucast x :: byte) :: u64) = unat x"
    using u by (simp add: unsigned_ucast_eq unsigned_take_bit_eq take_bit_nat_eq_self)
  with b u show ?thesis by (simp add: word_less_nat_alt word_unat_eq_iff)
qed

lemma uvarint_roundtrip: "uvarint_val (uvarint_bytes x @ ys) = Some (x, ys)"
proof (induction x rule: uvarint_bytes.induct)
  case (1 x)
  show ?case
  proof (cases "x \<ge> 0x80")
    case True
    have "\<not> (ucast x OR 0x80 :: byte) < 0x80"
      using le_word_or1 [of "0x80 :: byte" "ucast x"] by (simp add: not_less)
    with True 1 show ?thesis
      by (simp add: uvarint_bytes.simps [of x] uvarint_split)
  next
    case False
    then have "uvarint_bytes x = [ucast x]" by (subst uvarint_bytes.simps) (simp only: if_False)
    with False uvarint_last [of x] show ?thesis by (simp add: not_le)
  qed
qed

lemma zigzag_bits:
  fixes x :: u64
  assumes k: "k = (1::nat)"
  shows "bit x 63 \<Longrightarrow> NOT (drop_bit k (NOT (push_bit k x))) = x"
    and "\<not> bit x 63 \<Longrightarrow> drop_bit k (push_bit k x) = x"
proof -
  have last: "n < 64 \<Longrightarrow> \<not> k + n < 64 \<Longrightarrow> n = 63" for n using k by simp
  show "bit x 63 \<Longrightarrow> NOT (drop_bit k (NOT (push_bit k x))) = x"
    by (intro bit_word_eqI) (auto simp: bit_simps dest: last)
  show "\<not> bit x 63 \<Longrightarrow> drop_bit k (push_bit k x) = x"
    by (intro bit_word_eqI) (auto simp: bit_simps dest: last)
qed

lemma zigzag:
  fixes x :: u64
  defines "ux \<equiv> (if sint x < 0 then NOT (push_bit 1 x) else push_bit 1 x)"
  shows "(if bit ux 0 then NOT (drop_bit 1 ux) else drop_bit 1 ux) = x"
proof -
  have neg: "sint x < 0 \<longleftrightarrow> bit x 63" using bit_last_iff [of x] by simp
  have low: "bit (push_bit 1 x) 0 = False" "bit (NOT (push_bit 1 x)) 0 = True"
    by (simp_all only: bit_push_bit_iff bit_not_iff) simp_all
  show ?thesis
    unfolding ux_def neg using zigzag_bits [OF refl, of x]
    by (cases "bit x 63") (simp_all only: if_True if_False low simp_thms)
qed

lemma varint_roundtrip: "varint_val (varint_bytes x @ ys) = Some (x, ys)"
  using zigzag [of x] by (simp add: varint_val_def varint_bytes_def uvarint_roundtrip)

lemma uvarint_length: "unat x < 2 ^ (7 * Suc k) \<Longrightarrow> length (uvarint_bytes x) \<le> Suc k"
proof (induction k arbitrary: x)
  case 0
  then have "\<not> x \<ge> 0x80" by (simp add: word_le_nat_alt)
  then show ?case by (simp add: uvarint_bytes.simps [of x])
next
  case (Suc k)
  have "7 * Suc (Suc k) = 7 * Suc k + 7" by simp
  then have "unat x < 2 ^ (7 * Suc k) * 2 ^ 7" using Suc.prems by (simp only: power_add)
  then have "unat x div 2 ^ 7 < 2 ^ (7 * Suc k)" by (rule less_mult_imp_div_less)
  then have "unat (drop_bit 7 x) < 2 ^ (7 * Suc k)" by (simp only: drop_bit_eq_div unat_div) simp
  from Suc.IH [OF this] show ?case by (simp add: uvarint_bytes.simps [of x])
qed

lemma varint_length: "length (varint_bytes x) \<le> 10"
proof -
  have "unat y < 2 ^ (7 * Suc 9)" for y :: u64
    using unsigned_less [of y] by (rule order.strict_trans2) simp
  then show ?thesis unfolding varint_bytes_def using uvarint_length [of _ 9] by simp
qed

lemma Buffer_WriteVarint_spec:
  assumes wf: "wf_buffer b" and short: "length (varint_bytes i) \<le> 9"
    and room: "length (contents b) + 9 \<le> 2 * scap (b_buf b)"
  obtains b' where "Buffer_WriteVarint b i = Some b'" "wf_buffer b'"
    "contents b' = contents b @ varint_bytes i"
proof -
  obtain g where g: "Buffer_Grow b 8 = Some g" "wf_buffer g" "contents g = contents b"
    and r: "b_end g + 9 \<le> scap (b_buf g)"
  proof (cases "int (scap (b_buf b)) - int (b_end b) > 8")
    case True
    with that [of b] wf show ?thesis by (simp add: Buffer_Grow_def)
  next
    case False
    have "length (contents b) \<le> scap (b_buf b) * 2" using room by simp
    from moveTo_spec [OF wf this] obtain b' where b': "moveTo (scap (b_buf b) * 2) b = Some b'"
      "wf_buffer b'" "contents b' = contents b" "b_end b' = length (contents b)"
      "scap (b_buf b') = scap (b_buf b) * 2" by blast
    with that [of b'] False room show ?thesis by (simp add: Buffer_Grow_def Let_def)
  qed
  have r': "b_end g + length (varint_bytes i) \<le> scap (b_buf g)" using r short by simp
  with g show ?thesis
    using append_at_end [OF g(2) r'] append_slice_facts [OF g(2) r']
    by (intro that) (simp_all add: Buffer_WriteVarint_def)
qed

lemma Buffer_WriteUnint32_spec:
  assumes wf: "wf_buffer b" and room: "length (contents b) + 4 \<le> 2 * scap (b_buf b)"
  obtains b' where "Buffer_WriteUnint32 b i = Some b'" "wf_buffer b'"
    "contents b' = contents b @ le32_bytes i"
proof -
  obtain g where g: "Buffer_Grow b 4 = Some g" "wf_buffer g" "contents g = contents b"
    and r: "b_end g + length (le32_bytes i) \<le> scap (b_buf g)"
    using Buffer_Grow_spec [OF wf room] by auto
  then show ?thesis
    using append_at_end [OF g(2) r] append_slice_facts [OF g(2) r]
    by (intro that) (simp_all add: Buffer_WriteUnint32_def)
qed

section \<open>Discarding\<close>

lemma readInto_read:
  assumes "wf_buffer b" "contents b = []" "readInto b r = Some (e, b', r')"
  shows "go_read (scap (b_buf b) - b_end b) r = (contents b', e, r')"
proof -
  obtain bs e1 r1 where rd: "go_read (scap (b_buf b) - b_end b) r = (bs, e1, r1)" by (metis prod_cases3)
  have "b_end b + length bs \<le> scap (b_buf b)"
    using go_read_length [OF rd] assms(1) unfolding wf_buffer_def by linarith
  from append_at_end(2) [OF assms(1) this] rd assms show ?thesis
    by (auto simp: readInto_def wf_buffer_def)
qed

lemma Fill_0_empty:
  assumes wf: "wf_buffer b" and empty: "b_off b = 0" "b_end b = 0"
  obtains e b' r' n where "Buffer_Fill b r 0 = Some ((contents b', e), b', r')" "wf_buffer b'" "b_off b' = 0"
    "go_read n r = (contents b', e, r')" "0 < n"
proof -
  obtain t where t: "(if int (scap (b_buf b)) - int (b_end b) < 1024 then Buffer_grow b 1024 else Some b) = Some t"
    "wf_buffer t" "contents t = []" "b_off t = 0" "b_end t = 0" "0 < scap (b_buf t)"
  proof (cases "int (scap (b_buf b)) - int (b_end b) < 1024")
    case True
    obtain g where g: "Buffer_grow b 1024 = Some g" "wf_buffer g" "contents g = contents b"
      "g = b \<and> int (scap (b_buf b)) - int (b_end b) > 1024
       \<or> b_off g = 0 \<and> b_end g = length (contents b) \<and> nat 1024 \<le> scap (b_buf g)"
      by (rule Buffer_grow_keeps [OF wf])
    have "contents b = []" using empty by simp
    with that [of g] g True show ?thesis by simp
  next
    case False
    with that [of b] wf empty show ?thesis by simp
  qed
  obtain e b' r' where rd: "readInto t r = Some (e, b', r')" "wf_buffer b'" "b_off b' = b_off t"
    using readInto_spec [OF t(2), of r] by blast
  have "Buffer_Compact b = Some b"
    using empty by (simp add: Buffer_Compact_def)
  then have "Buffer_Fill b r 0 = Some ((contents b', e), b', r')"
    using t(1) rd(1,2) empty by (auto simp: Buffer_Fill_def buffer_simps split: if_splits)
  with that [OF this rd(2) _ readInto_read [OF t(2,3) rd(1)]] rd(3) t(4,5,6) show ?thesis by simp
qed

lemma discardLoop_spec:
  assumes "wf_buffer (Buffer br)" "b_off (Buffer br) = 0" "b_end (Buffer br) = 0" "plain_reader (Reader br)"
  shows "\<exists>br'. discardLoop br n = Some br' \<and> br_ok br' \<and> br_pending br' = drop n (reader_bytes (Reader br))"
  using assms
proof (induction "reader_size (Reader br)" arbitrary: br n rule: less_induct)
  case less
  obtain e b' r' m where fill: "Buffer_Fill (Buffer br) (Reader br) 0 = Some ((contents b', e), b', r')"
    "wf_buffer b'" "b_off b' = 0" and rd: "go_read m (Reader br) = (contents b', e, r')" "0 < m"
    by (rule Fill_0_empty [OF less.prems(1,2,3)])
  have peek: "BufferReader_Peek br 0 = Some ((contents b', e), \<lparr>Reader = r', Buffer = b'\<rparr>)"
    using fill(1) by (simp add: BufferReader_Peek_def)
  note plain = go_read_plain [OF less.prems(4) rd(1)]
  have bytes: "reader_bytes (Reader br) = contents b' @ reader_bytes r'" using go_read_bytes [OF rd(1)] .
  consider (err) "e \<noteq> None" | (less) "e = None" "length (contents b') < n"
    | (eq) "e = None" "length (contents b') = n" | (more) "e = None" "n < length (contents b')" by (metis nat_neq_iff)
  then show ?case
  proof cases
    case err
    with plain peek fill(2) show ?thesis
      by (auto simp: discardLoop.simps [of br n] br_ok_def br_pending_def)
  next
    case less
    let ?br = "\<lparr>Reader = r', Buffer = b'\<lparr>b_off := 0, b_end := 0\<rparr>\<rparr>"
    have "reader_size r' < reader_size (Reader br)" using go_read_size rd less(1) by blast
    then obtain br' where "discardLoop ?br (n - length (contents b')) = Some br'" "br_ok br'"
      "br_pending br' = drop (n - length (contents b')) (reader_bytes r')"
      using less.hyps [of ?br "n - length (contents b')"] plain fill(2) by auto
    with less peek bytes show ?thesis by (simp add: discardLoop.simps [of br n])
  next
    case eq
    with peek fill(2) bytes show ?thesis
      by (simp add: discardLoop.simps [of br n] br_ok_def br_pending_def)
  next
    case more
    from contents_advance [OF fill(2), of n] more fill(3)
    have "wf_buffer (b'\<lparr>b_off := n\<rparr>) \<and> contents (b'\<lparr>b_off := n\<rparr>) = drop n (contents b')" by simp
    with more peek bytes show ?thesis
      by (simp add: discardLoop.simps [of br n] br_ok_def br_pending_def)
  qed
qed

text \<open>Looking ahead on a plain reader that has enough bytes succeeds, and the buffer stays at offset 0.\<close>

lemma fillLoop_plain:
  assumes "fillLoop b r i = Some res" "wf_buffer b" "plain_reader r" "i \<le> length (contents b @ reader_bytes r)"
  shows "snd (fst res) = None \<and> plain_reader (snd (snd res))"
  using assms(2-)
proof (induction rule: fillLoop.raw_induct [OF _ assms(1)])
  case (1 f b r i res)
  obtain e b' r' where rd: "readInto b r = Some (e, b', r')" "wf_buffer b'" 
    "contents b' @ reader_bytes r' = contents b @ reader_bytes r"
    using readInto_spec [OF 1(3), of r] by blast
  have plain: "plain_reader r' \<and> (e \<noteq> None \<longrightarrow> reader_bytes r' = [])"
    using rd(1) go_read_plain [OF 1(4)] by (auto simp: readInto_def split: if_splits prod.splits)
  have len: "length (contents b') = b_end b' - b_off b'" "b_off b' \<le> b_end b'" using rd(2) by (auto simp: wf_buffer_def)
  have all: "i \<le> length (contents b' @ reader_bytes r')" using 1(5) rd(3) by simp
  show ?case
  proof (cases "b_end b' \<ge> b_off b' + i")
    case True
    with 1(2) rd plain show ?thesis by (auto simp: buffer_simps)
  next
    case False
    with all len plain have "e = None" by (cases e) auto
    with False 1(2) rd(1) have "f b' r' i = Some res" by simp
    from 1(1) [OF this rd(2) _ all] plain show ?thesis by blast
  qed
qed

lemma Fill_plain:
  assumes wf: "wf_buffer b" and off: "b_off b = 0" and plain: "plain_reader r" and i: "0 < i" "i \<le> length (contents b @ reader_bytes r)"
  obtains b' r' where "Buffer_Fill b r i = Some ((contents b', None), b', r')" "wf_buffer b'" "b_off b' = 0" "plain_reader r'"
    "i \<le> length (contents b')" "contents b' @ reader_bytes r' = contents b @ reader_bytes r"
proof -
  obtain bs e b' r' where fill: "Buffer_Fill b r i = Some ((bs, e), b', r')"
    using Buffer_Fill_returns [OF wf] off by (metis surj_pair)
  note cons = Buffer_Fill_conserves [OF wf fill]
  obtain s where s: "(if b_end b = b_off b then Buffer_Compact b else Some b) = Some s" "wf_buffer s"
    "contents s = contents b" "b_off s = 0"
    using fill_start [OF wf] off by metis
  have "e = None \<and> plain_reader r' \<and> b_off b' = 0"
  proof (cases "int (b_end s) - int (b_off s) \<ge> int i")
    case True
    with fill s plain i(1) show ?thesis by (auto simp: Buffer_Fill_def buffer_simps)
  next
    case False
    obtain g where g: "Buffer_grow s (int i - int (b_off s)) = Some g" "wf_buffer g" "contents g = contents s" "b_off g = 0"
      using Buffer_grow_keeps [OF s(2), of "int i - int (b_off s)"] s(4) by metis
    obtain t where t: "(if int i > int (scap (b_buf s)) - int (b_off s)
        then Buffer_grow s (int i - int (b_off s)) else Some s) = Some t" "wf_buffer t" "contents t = contents s" "b_off t = 0"
      using g s(2,4) by (cases "int i > int (scap (b_buf s)) - int (b_off s)") auto
    from fill False s(1) t(1) i(1) have loop: "fillLoop t r i = Some ((bs, e), b', r')"
      by (simp add: Buffer_Fill_def)
    from fillLoop_conserves [OF this t(2)] t(4) fillLoop_plain [OF loop t(2) plain] t(3) s(3) i(2) show ?thesis by simp
  qed
  with that fill cons show ?thesis by blast
qed

lemma Peek_plain:
  assumes ok: "br_ok br" "b_off (Buffer br) = 0" "plain_reader (Reader br)" and i: "0 < i" "i \<le> length (br_pending br)"
  obtains br' where "BufferReader_Peek br i = Some ((contents (Buffer br'), None), br')" "br_ok br'"
    "b_off (Buffer br') = 0" "plain_reader (Reader br')" "i \<le> length (contents (Buffer br'))" "br_pending br' = br_pending br"
proof -
  obtain b' r' where "Buffer_Fill (Buffer br) (Reader br) i = Some ((contents b', None), b', r')" "wf_buffer b'" "b_off b' = 0"
    "plain_reader r'" "i \<le> length (contents b')" "contents b' @ reader_bytes r' = contents (Buffer br) @ reader_bytes (Reader br)"
    using Fill_plain [of "Buffer br" "Reader br" i] ok i unfolding br_ok_def br_pending_def by blast
  then show ?thesis
    using that [of "\<lparr>Reader = r', Buffer = b'\<rparr>"] by (simp add: BufferReader_Peek_def br_ok_def br_pending_def)
qed

text \<open>The slice that \<open>Bytes\<close> returns.\<close>

lemma Buffer_Bytes_contents:
  assumes "wf_buffer b"
  obtains s where "Buffer_Bytes b = Some s" "wf_slice s" "s_bytes s = contents b"
  using assms diff_le_mono [of "b_end b" "length (sarr (b_buf b))" "b_off b"]
  by (intro that [of "\<lparr>sarr = drop (b_off b) (sarr (b_buf b)), slen = b_end b - b_off b\<rparr>"])
    (simp_all add: Buffer_Bytes_def s_slice_Some wf_buffer_def wf_slice_def s_bytes_def contents_def scap_def)

lemmas buffer_eval = BufferReader_Peek_def BufferReader_Read_def BufferReader_Discard_def discardLoop.simps
  Buffer_Fill_def Buffer_Compact_def Buffer_grow_def Buffer_Grow_def moveTo_def fillLoop.simps readInto_def
  unread_def Buffer_Bytes_def Buffer_ReadBlocking_def Buffer_Size_def Buffer_Write_def make_slice_def
  s_slice_def s_copy_at_def s_put_at_def s_set_def s_get_def s_bytes_def overwrite_def scap_def numeral_eq_Suc

section \<open>Properties\<close>

text \<open>C1: Sniffing is transparent. Whatever mixture of \<open>Peek\<close> and \<open>Read\<close> calls a client makes on a
  \<open>BufferReader\<close>, of whatever sizes, the bytes it has read followed by the bytes still pending are
  exactly the bytes that were pending at the start: none is lost, duplicated or reordered, even
  where the buffer is compacted or grown in between.\<close>

theorem bufferReader_transparent:
  assumes "br_ok br" "source_run BufferReader_Peek BufferReader_Read ops br = Some (out, br')"
  shows "br_pending br = out @ br_pending br' \<and> br_ok br'"
  using br.source_run_transparent [OF assms] by blast

theorem bufferReader_transparent_witness:
  "let br = \<lparr>Reader = [([1, 2, 3], None), ([4], Some EOF)], Buffer = \<lparr>b_buf = make_slice 2, b_off = 0, b_end = 0\<rparr>\<rparr>
   in br_ok br \<and> (\<exists>br'. source_run BufferReader_Peek BufferReader_Read [Peek 3, Read 1, Read 9, Read 9] br = Some ([1, 2, 3, 4], br')
     \<and> br_pending br = [1, 2, 3, 4] @ br_pending br')"
proof -
  let ?br = "\<lparr>Reader = [([1, 2, 3], None), ([4], Some EOF)], Buffer = \<lparr>b_buf = make_slice 2, b_off = 0, b_end = 0\<rparr>\<rparr>"
  have ok: "br_ok ?br" by (simp add: br_ok_def wf_buffer_def)
  obtain br' where run: "source_run BufferReader_Peek BufferReader_Read [Peek 3, Read 1, Read 9, Read 9] ?br = Some ([1, 2, 3, 4], br')"
    by (simp add: buffer_eval)
  from bufferReader_transparent [OF ok run] ok run show ?thesis unfolding Let_def by blast
qed

text \<open>C20: \<open>Peek\<close> returns. On a reader whose buffer starts at offset 0 (a new \<open>BufferReader\<close>, or one that
  was only peeked into) a \<open>Peek\<close> of any size neither panics nor loops, whatever short or empty
  reads the connection makes: it gives at least the bytes asked for, or the connection's error.\<close>

theorem peek_returns:
  assumes ok: "br_ok br" and off: "b_off (Buffer br) = 0"
  shows "\<exists>bs e br'. BufferReader_Peek br n = Some ((bs, e), br') \<and> prefix bs (br_pending br)
    \<and> (e = None \<longrightarrow> n \<le> length bs)"
proof -
  obtain res where "Buffer_Fill (Buffer br) (Reader br) n = Some res"
    using Buffer_Fill_returns [of "Buffer br" n "Reader br"] ok off by (auto simp: br_ok_def)
  then obtain bs e br' where peek: "BufferReader_Peek br n = Some ((bs, e), br')"
    by (cases res) (auto simp: BufferReader_Peek_def)
  with br.peek_prefix [OF ok peek] br.peek_enough [OF ok] show ?thesis by blast
qed

theorem peek_returns_witness:
  "let br = \<lparr>Reader = [([], None), ([1], None), ([2, 3], None)], Buffer = \<lparr>b_buf = make_slice 2, b_off = 0, b_end = 0\<rparr>\<rparr>
   in br_ok br \<and> b_off (Buffer br) = 0 \<and> (\<exists>bs e br'. BufferReader_Peek br 3 = Some ((bs, e), br') \<and> prefix bs (br_pending br)
        \<and> (e = None \<longrightarrow> 3 \<le> length bs))"
proof -
  let ?br = "\<lparr>Reader = [([], None), ([1], None), ([2, 3], None)], Buffer = \<lparr>b_buf = make_slice 2, b_off = 0, b_end = 0\<rparr>\<rparr>"
  have h: "br_ok ?br" "b_off (Buffer ?br) = 0" by (simp_all add: br_ok_def wf_buffer_def)
  from peek_returns [OF h, of 3] h show ?thesis unfolding Let_def by blast
qed

text \<open>\<open>Discard(n)\<close> on a \<open>BufferReader\<close> returns and drops exactly \<open>n\<close> bytes of the stream (or all
  that is left of it), buffered or not, when the connection reports no error but its end.\<close>

theorem discard_skips:
  assumes ok: "br_ok br" and plain: "plain_reader (Reader br)"
  shows "\<exists>br'. BufferReader_Discard br n = Some br' \<and> br_ok br' \<and> br_pending br' = drop n (br_pending br)"
proof (cases "n \<le> length (contents (Buffer br))")
  case True
  have wf: "wf_buffer (Buffer br)" using ok by (simp add: br_ok_def)
  have "\<not> int n > Buffer_Size (Some (Buffer br))"
    using True by (simp add: Size_contents [OF wf] del: length_contents)
  moreover from contents_advance [OF wf True]
  have "wf_buffer ((Buffer br)\<lparr>b_off := b_off (Buffer br) + n\<rparr>)"
    "contents ((Buffer br)\<lparr>b_off := b_off (Buffer br) + n\<rparr>) = drop n (contents (Buffer br))" by blast+
  ultimately show ?thesis
    using True wf_buffer_reset [of "(Buffer br)\<lparr>b_off := b_off (Buffer br) + n\<rparr>"]
      contents_empty(2) [of "(Buffer br)\<lparr>b_off := b_off (Buffer br) + n\<rparr>"]
    by (auto simp: BufferReader_Discard_def Let_def br_ok_def br_pending_def)
next
  case False
  have wf: "wf_buffer (Buffer br)" using ok by (simp add: br_ok_def)
  let ?br = "br\<lparr>Buffer := (Buffer br)\<lparr>b_off := 0, b_end := 0\<rparr>\<rparr>"
  have "\<exists>br'. discardLoop ?br (n - length (contents (Buffer br))) = Some br' \<and> br_ok br'
      \<and> br_pending br' = drop (n - length (contents (Buffer br))) (reader_bytes (Reader br))"
    using discardLoop_spec [of ?br "n - length (contents (Buffer br))"] wf plain by simp
  with False show ?thesis
    by (simp add: BufferReader_Discard_def Let_def Size_contents [OF wf] br_pending_def nat_minus_as_int del: length_contents)
qed

theorem discard_skips_witness:
  "let br = \<lparr>Reader = [([1, 2], None), ([3, 4], None)], Buffer = \<lparr>b_buf = make_slice 2, b_off = 1, b_end = 2\<rparr>\<rparr>
   in br_ok br \<and> plain_reader (Reader br)
      \<and> (\<exists>br'. BufferReader_Discard br 4 = Some br' \<and> br_ok br' \<and> br_pending br' = drop 4 (br_pending br))"
proof -
  let ?br = "\<lparr>Reader = [([1, 2], None), ([3, 4], None)], Buffer = \<lparr>b_buf = make_slice 2, b_off = 1, b_end = 2\<rparr>\<rparr>"
  have h: "br_ok ?br" "plain_reader (Reader ?br)" by (simp_all add: br_ok_def wf_buffer_def plain_reader_def)
  from discard_skips [OF h, of 4] h show ?thesis unfolding Let_def by blast
qed

text \<open>\<open>Write\<close> appends. On a well-formed buffer \<open>Write(p)\<close> reports all of \<open>p\<close> written and the unread
  data becomes the old unread data followed by \<open>p\<close>, with the buffer grown as needed, as long as the
  old data and \<open>p\<close> together fit in twice the capacity, or the buffer is empty.\<close>

theorem write_appends:
  assumes "wf_buffer b" and "contents b = [] \<or> length (contents b) + length p \<le> 2 * scap (b_buf b)"
  shows "\<exists>b'. Buffer_Write b p = Some (length p, b') \<and> wf_buffer b' \<and> contents b' = contents b @ p"
proof -
  have "length (contents b) + length p \<le> max (length p) (2 * scap (b_buf b))" using assms(2) by auto
  from Buffer_Write_spec [OF assms(1) this] show ?thesis by blast
qed

theorem write_appends_witness:
  "let b = \<lparr>b_buf = make_slice 2, b_off = 0, b_end = 2\<rparr> in
   wf_buffer b \<and> (\<exists>b'. Buffer_Write b [7, 8] = Some (length [7, 8::byte], b') \<and> wf_buffer b' \<and> contents b' = contents b @ [7, 8])"
proof -
  let ?b = "\<lparr>b_buf = make_slice 2, b_off = 0, b_end = 2\<rparr>"
  have h: "wf_buffer ?b" by (simp add: wf_buffer_def)
  then have "contents ?b = [] \<or> length (contents ?b) + length [7, 8::byte] \<le> 2 * scap (b_buf ?b)" by simp
  from write_appends [OF h this] h show ?thesis unfolding Let_def by blast
qed

text \<open>C21: The bound of the previous property is sharp, and past it \<open>Write\<close> corrupts the buffer. When there
  is unread data and \<open>p\<close> is at least twice the capacity, \<open>grow\<close> allocates room for \<open>p\<close> alone: \<open>Write\<close>
  reports success, but \<open>end\<close> lies beyond the array and the next \<open>Bytes()\<close> panics.\<close>

theorem write_overflow:
  assumes wf: "wf_buffer b" and unread: "contents b \<noteq> []" and big: "2 * scap (b_buf b) \<le> length p"
  shows "\<exists>b'. Buffer_Write b p = Some (length p, b') \<and> Buffer_Bytes b' = None"
proof -
  have pos: "0 < length (contents b)" using unread by simp
  have le: "length (contents b) \<le> length p" using length_contents_le [OF wf] big by simp
  obtain g where g: "moveTo (length p) b = Some g" "wf_buffer g" "b_off g = 0"
    "b_end g = length (contents b)" "scap (b_buf g) = length p"
    by (rule moveTo_spec [OF wf le]) blast
  have "Buffer_grow b (int (length p)) = Some g"
    using g(1) big length_contents_le [OF wf] pos by (simp add: Buffer_grow_def Let_def)
  moreover obtain s where s: "s_copy_at (b_buf g) (b_end g) p = Some s"
    using g(2) by (auto simp: s_copy_at_def wf_buffer_def)
  moreover have "scap s = length p"
    using s_copy_at_cap [OF s] g(2,5) by (simp add: wf_slice_def wf_buffer_def)
  ultimately show ?thesis
    using g(3,4) pos by (simp add: Buffer_Write_def Buffer_Bytes_def s_slice_def del: length_contents)
qed

theorem write_overflow_witness:
  "let b = \<lparr>b_buf = make_slice 1, b_off = 0, b_end = 1\<rparr> in
   wf_buffer b \<and> contents b \<noteq> [] \<and> (\<exists>b'. Buffer_Write b [7, 8] = Some (length [7, 8::byte], b') \<and> Buffer_Bytes b' = None)"
proof -
  let ?b = "\<lparr>b_buf = make_slice 1, b_off = 0, b_end = 1\<rparr>"
  have h: "wf_buffer ?b" "contents ?b \<noteq> []" "2 * scap (b_buf ?b) \<le> length [7, 8::byte]"
    by (simp_all add: wf_buffer_def contents_def)
  from write_overflow [OF h] h show ?thesis unfolding Let_def by blast
qed

text \<open>\<open>Fill\<close> may never return. With unread data at a positive offset, a request that does not fit
  behind the offset is not given more room when \<open>i - off\<close> is below the free space: \<open>grow\<close> leaves
  the array as it is, and once the free space is full every \<open>Read\<close> is of zero bytes, without error, so
  the loop goes on for ever although the connection has more data.\<close>

theorem fill_never_returns:
  assumes wf: "wf_buffer b" and unread: "contents b \<noteq> []"
    and need: "scap (b_buf b) < b_off b + i"
    and nogrow: "int i - int (b_off b) < int (scap (b_buf b)) - int (b_end b)"
    and more: "scap (b_buf b) - b_end b < length bs"
  shows "Buffer_Fill b [(bs, e)] i = None"
proof -
  have ne: "b_end b \<noteq> b_off b" using unread contents_empty(2) [of b] by auto
  have le: "b_end b \<le> scap (b_buf b)" using wf by (simp add: wf_buffer_def)
  let ?k = "scap (b_buf b) - b_end b"
  obtain b1 where b1: "readInto b [(bs, e)] = Some (None, b1, [(drop ?k bs, e)])" "wf_buffer b1"
    "b_off b1 = b_off b" "scap (b_buf b1) = scap (b_buf b)" "b_end b1 = scap (b_buf b)"
    using readInto_spec [OF wf, of "[(bs, e)]"] le more by (auto simp: readInto_def)
  have "fillLoop b1 [(drop ?k bs, e)] i = None"
    by (rule fillLoop_stuck) (use b1 need more in auto)
  with b1 need have "fillLoop b [(bs, e)] i = None"
    by (simp add: fillLoop.simps [of b])
  moreover have "i \<noteq> 0" using wf need by (auto simp: wf_buffer_def)
  ultimately show ?thesis using ne le need nogrow
    by (simp add: Buffer_Fill_def Buffer_grow_def)
qed

theorem fill_never_returns_witness:
  "let b = \<lparr>b_buf = make_slice 8, b_off = 4, b_end = 5\<rparr> in
   wf_buffer b \<and> contents b \<noteq> [] \<and> Buffer_Fill b [([1, 2, 3, 4, 5, 6], None)] 6 = None"
proof -
  let ?b = "\<lparr>b_buf = make_slice 8, b_off = 4, b_end = 5\<rparr>"
  have h: "wf_buffer ?b" "contents ?b \<noteq> []" by (simp_all add: wf_buffer_def contents_def)
  have "Buffer_Fill ?b [([1, 2, 3, 4, 5, 6], None)] 6 = None"
    by (rule fill_never_returns [OF h]) simp_all
  with h show ?thesis unfolding Let_def by blast
qed

text \<open>\<open>WriteVarint\<close> round trip. A value whose encoding has at most nine bytes is appended to the
  unread data, and decoding it back (\<open>binary.Varint\<close>) gives the value and leaves what follows.\<close>

theorem writeVarint_roundtrip:
  assumes "wf_buffer b" "contents b = []" "5 \<le> scap (b_buf b)" "length (varint_bytes i) \<le> 9"
  shows "\<exists>b'. Buffer_WriteVarint b i = Some b' \<and> wf_buffer b' \<and> varint_val (contents b' @ rest) = Some (i, rest)"
proof -
  have "length (contents b) + 9 \<le> 2 * scap (b_buf b)" using assms(2,3) by simp
  from Buffer_WriteVarint_spec [OF assms(1,4) this] assms(2) varint_roundtrip [of i rest]
  show ?thesis by force
qed

theorem writeVarint_roundtrip_witness:
  "let b = \<lparr>b_buf = make_slice 5, b_off = 0, b_end = 0\<rparr> in
   \<exists>b'. Buffer_WriteVarint b 300 = Some b' \<and> wf_buffer b' \<and> varint_val (contents b' @ [9]) = Some (300, [9])"
proof -
  let ?b = "\<lparr>b_buf = make_slice 5, b_off = 0, b_end = 0\<rparr>"
  have "length (varint_bytes 300) \<le> 9" by (simp add: varint_bytes_def uvarint_bytes.simps)
  from writeVarint_roundtrip [of ?b, OF _ _ _ this, of "[9]"] show ?thesis
    unfolding Let_def by (simp add: wf_buffer_def)
qed

text \<open>A recycled chunk is not usable as a write buffer. \<open>PutDataBufferChunk\<close> keeps the chunk with length
  zero, and a later \<open>GetDataBufferChunk\<close> that is given it returns it with that length. A \<open>Buffer\<close>
  made on it has enough capacity, so \<open>WriteByte\<close> does not grow it, and indexes out of range: it
  panics on the first byte.\<close>

theorem recycled_chunk_panics:
  assumes "length (dataChunkPools p) = 5" "scap s = dataChunkSizeClasses ! 0"
  shows "Buffer_WriteByte (fst (GetBuffer (Some 0) 0 1024 (PutDataBufferChunk s p))) d = None"
proof -
  have "\<exists>ps. dataChunkPools p = (dataChunkPools p ! 0) # ps"
    using assms(1) by (cases "dataChunkPools p") auto
  then obtain c ps where "dataChunkPools p = c # ps" by blast
  with assms(2) show ?thesis
    by (simp add: PutDataBufferChunk_def GetBuffer_def GetDataBufferChunk_def getChunkFrom.simps
        dataChunkSizeClasses_def pool_get_def Buffer_WriteByte_def Buffer_grow_def s_set_def)
qed

theorem recycled_chunk_panics_witness:
  "length (dataChunkPools empty_pools) = 5 \<and> scap (make_slice 1024) = dataChunkSizeClasses ! 0
   \<and> Buffer_WriteByte (fst (GetBuffer (Some 0) 0 1024 (PutDataBufferChunk (make_slice 1024) empty_pools))) 7 = None"
proof -
  have h: "length (dataChunkPools empty_pools) = 5" "scap (make_slice 1024) = dataChunkSizeClasses ! 0"
    by (simp_all add: empty_pools_def dataChunkSizeClasses_def)
  from recycled_chunk_panics [OF h] h show ?thesis by blast
qed

end
