(* ===== verification/Nio_Sni.thy ===== *)
theory Nio_Sni
  imports Nio_Buffer
begin

text \<open>
  \<^verbatim>\<open>src/nio/sni.go\<close>: \<open>SniffClientHello\<close>, which looks into the first TLS record of an accepted
  connection and finds the server name to route on, leaving every byte in the stream.

  The parser works on the slice \<open>clientHello = buf[5:end]\<close> of the buffer that \<open>Peek\<close> filled. As in
  Go an index is checked against the length of that slice and a reslice against its capacity, which
  reaches to the end of the buffer; \<open>None\<close> is a panic of such a check. The results of a normal
  return are \<open>(*ClientHelloMsg, string, error)\<close>.
\<close>

record clientHelloMsg =
  Raw :: "byte list"
  vers :: u16
  SessionID :: "byte list"
  CipherSuites :: "u16 list"
  ServerName :: string

type_synonym sniff_result = "clientHelloMsg option \<times> string \<times> goerr option"

definition sniErr :: goerr where
  "sniErr = ErrMsg ''Invalid TLS''"

abbreviation sniFail :: "goerr + 'a" where
  "sniFail \<equiv> Inl sniErr"

definition extensionServerName :: u16 where
  "extensionServerName = 0"

text \<open>\<open>int(s[i])<<8 | int(s[i+1])\<close> and the same as \<open>uint16\<close>.\<close>

definition get16 :: "slice \<Rightarrow> nat \<Rightarrow> nat option" where
  "get16 s i = do { a \<leftarrow> s_get s i; b \<leftarrow> s_get s (i + 1); Some (be16 a b) }"

definition getU16 :: "slice \<Rightarrow> nat \<Rightarrow> u16 option" where
  "getU16 s i = do { a \<leftarrow> s_get s i; b \<leftarrow> s_get s (i + 1); Some (push_bit 8 (ucast a) OR ucast b) }"

text \<open>The cipher suite loop: \<open>n\<close> suites from offset \<open>off\<close> on.\<close>

fun sniCiphers :: "slice \<Rightarrow> nat \<Rightarrow> nat \<Rightarrow> u16 list option" where
  "sniCiphers ch off 0 = Some []"
| "sniCiphers ch off (Suc n) = do { c \<leftarrow> getU16 ch off; cs \<leftarrow> sniCiphers ch (off + 2) n; Some (c # cs) }"

text \<open>The loop over the names of the server-name extension, with the name found so far. Names of
  another type than host name (0) are skipped.\<close>

fun sniNames :: "byte list \<Rightarrow> string \<Rightarrow> goerr + string" where
  "sniNames [] name = Inr name"
| "sniNames (nameType # l0 # l1 # d) name =
     (let nameLen = be16 l0 l1 in
      if length d < nameLen then sniFail
      else if nameType = 0 then
        (let n = str_of (take nameLen d) in if suffix ''.'' n then sniFail else Inr n)
      else sniNames (drop nameLen d) name)"
| "sniNames d name = sniFail"

text \<open>The server-name extension: its data \<open>d\<close>.\<close>

definition sniServerName :: "byte list \<Rightarrow> string \<Rightarrow> goerr + string" where
  "sniServerName d name =
     (if length d < 2 then sniFail
      else if length (drop 2 d) \<noteq> be16 (d ! 0) (d ! 1) then sniFail
      else sniNames (drop 2 d) name)"

text \<open>The extension loop, from offset \<open>off\<close>; \<open>rlen\<close> is the length of the record and \<open>end\<close> is
  \<open>rlen + 5\<close>.\<close>

function sniExtensions :: "slice \<Rightarrow> nat \<Rightarrow> nat \<Rightarrow> string \<Rightarrow> (goerr + string) option" where
  "sniExtensions ch rlen off name =
     (if off < rlen then do {
        extension \<leftarrow> getU16 ch off;
        length \<leftarrow> get16 ch (off + 2);
        if off + 4 \<ge> rlen + 5 then Some sniFail
        else do {
          res \<leftarrow> (if extension = extensionServerName then do {
                    d \<leftarrow> s_slice ch (off + 4) (off + 4 + length);
                    Some (sniServerName (s_bytes d) name) }
                  else Some (Inr name));
          case res of Inl e \<Rightarrow> Some (Inl e)
          | Inr name \<Rightarrow> sniExtensions ch rlen (off + 4 + length) name } }
      else Some (Inr name))"
  by pat_completeness auto
termination
  by (relation "measure (\<lambda>(ch, rlen, off, name). rlen - off)") auto

declare sniExtensions.simps [simp del]

text \<open>The part of \<open>SniffClientHello\<close> after the last \<open>Peek\<close>: parsing the record. Lengths that the
  code subtracts (\<open>rlen-off\<close>) are compared as integers.\<close>

definition parseClientHello :: "slice \<Rightarrow> nat \<Rightarrow> (goerr + clientHelloMsg) option" where
  "parseClientHello clientHello rlen = do {
     v \<leftarrow> getU16 clientHello 4;
     sidLen \<leftarrow> s_get clientHello 38;
     let sessionIdLen = unat sidLen in
     if sessionIdLen > 32 \<or> rlen < 39 + sessionIdLen then Some sniFail
     else do {
       sid \<leftarrow> s_slice clientHello 39 (39 + sessionIdLen);
       let off = 39 + sessionIdLen in do {
         cipherSuiteLen \<leftarrow> get16 clientHello off;
         let off = off + 2 in
         if cipherSuiteLen mod 2 = 1 \<or> int rlen - int off < int (2 + cipherSuiteLen) then Some sniFail
         else do {
           cs \<leftarrow> sniCiphers clientHello off (cipherSuiteLen div 2);
           let off = off + cipherSuiteLen in do {
             cml \<leftarrow> s_get clientHello off;
             let compressionMethodsLen = unat cml; off = off + 1 in
             if int rlen - int off < int (1 + compressionMethodsLen) then Some sniFail
             else let off = off + compressionMethodsLen in
             if off + 2 > rlen then Some sniFail
             else do {
               extensionsLength \<leftarrow> get16 clientHello off;
               let off = off + 2 in
               if int extensionsLength \<noteq> int rlen - int off then Some sniFail
               else do {
                 res \<leftarrow> sniExtensions clientHello rlen off [];
                 Some (case res of Inl e \<Rightarrow> Inl e
                   | Inr name \<Rightarrow> Inr \<lparr>Raw = s_bytes clientHello, vers = v, SessionID = s_bytes sid,
                       CipherSuites = cs, ServerName = name\<rparr>) } } } } } } }"

text \<open>\<open>SniffClientHello\<close>. The slice that \<open>Peek\<close> returns is the unread part of the buffer after it.\<close>

definition SniffClientHello :: "bufferReader \<Rightarrow> (sniff_result \<times> bufferReader) option" where
  "SniffClientHello acc = do {
     ((_, err), acc) \<leftarrow> BufferReader_Peek acc 1;
     if err \<noteq> None then Some ((None, [], err), acc)
     else do {
       buf \<leftarrow> Buffer_Bytes (Buffer acc);
       typ \<leftarrow> s_get buf 0;
       if typ \<noteq> 0x16 then Some ((None, [], None), acc)
       else do {
         ((_, err), acc) \<leftarrow> BufferReader_Peek acc 5;
         if err \<noteq> None then Some ((None, [], err), acc)
         else do {
           buf \<leftarrow> Buffer_Bytes (Buffer acc);
           rlen \<leftarrow> get16 buf 3;
           if rlen > 16 * 1024 then Some ((None, [], Some sniErr), acc)
           else if rlen < 38 then Some ((None, [], Some sniErr), acc)
           else do {
             ((_, err), acc) \<leftarrow> BufferReader_Peek acc (rlen + 5);
             if err \<noteq> None then Some ((None, [], err), acc)
             else do {
               buf \<leftarrow> Buffer_Bytes (Buffer acc);
               clientHello \<leftarrow> s_slice buf 5 (rlen + 5);
               res \<leftarrow> parseClientHello clientHello rlen;
               Some (case res of Inl e \<Rightarrow> ((None, [], Some e), acc)
                 | Inr m \<Rightarrow> ((Some m, ServerName m, None), acc)) } } } } } }"

section \<open>Reading the record\<close>

text \<open>Reading a slice at a position of its bytes.\<close>

lemma s_get_at:
  assumes "wf_slice s" "s_bytes s = xs @ b # ys" "length xs = i"
  shows "s_get s i = Some b"
proof -
  have "length (s_bytes s) = slen s" using assms(1) by (simp add: wf_slice_def s_bytes_def scap_def)
  then have "i < slen s" using assms(2,3) by (metis add_Suc_right length_append length_Cons less_add_Suc1)
  moreover have "sarr s ! i = s_bytes s ! i" using \<open>i < slen s\<close> by (simp add: s_bytes_def)
  moreover have "s_bytes s ! i = b" using assms(2,3) by (simp add: nth_append)
  ultimately show ?thesis by (simp add: s_get_def)
qed

lemma get16_at:
  assumes "wf_slice s" "s_bytes s = xs @ put_be16 v @ ys" "length xs = i"
  shows "get16 s i = Some (unat v)"
proof -
  have "s_get s i = Some (ucast (drop_bit 8 v))" "s_get s (i + 1) = Some (ucast v)"
    using s_get_at [OF assms(1), of xs "ucast (drop_bit 8 v)" "ucast v # ys"]
      s_get_at [OF assms(1), of "xs @ [ucast (drop_bit 8 v)]" "ucast v" ys] assms(2,3)
    by (simp_all add: put_be16_def)
  then show ?thesis by (simp add: get16_def endian_simps)
qed

lemma put_be16_recombine: "push_bit 8 (ucast (ucast (drop_bit 8 v) :: byte)) OR ucast (ucast v :: byte) = (v :: u16)"
  by (rule bit_word_eqI) (auto simp: bit_simps)

lemma getU16_at:
  assumes "wf_slice s" "s_bytes s = xs @ put_be16 v @ ys" "length xs = i"
  shows "getU16 s i = Some v"
proof -
  have "s_get s i = Some (ucast (drop_bit 8 v))" "s_get s (i + 1) = Some (ucast v)"
    using s_get_at [OF assms(1), of xs "ucast (drop_bit 8 v)" "ucast v # ys"]
      s_get_at [OF assms(1), of "xs @ [ucast (drop_bit 8 v)]" "ucast v" ys] assms(2,3)
    by (simp_all add: put_be16_def)
  then show ?thesis by (simp add: getU16_def put_be16_recombine)
qed

lemma s_slice_at:
  assumes "wf_slice s" "s_bytes s = xs @ ys @ zs" "length xs = i" "j = i + length ys"
  obtains d where "s_slice s i j = Some d" "s_bytes d = ys" "wf_slice d"
proof -
  have len: "slen s = length (s_bytes s)" "sarr s = s_bytes s @ drop (slen s) (sarr s)"
    using assms(1) by (simp_all add: wf_slice_def s_bytes_def scap_def)
  define rest where "rest = drop (slen s) (sarr s)"
  have arr: "sarr s = xs @ ys @ zs @ rest" using len(2) assms(2) by (simp add: rest_def)
  show ?thesis
    using that [of "\<lparr>sarr = ys @ zs @ rest, slen = length ys\<rparr>"] arr assms(3,4)
    by (simp add: s_slice_def scap_def s_bytes_def wf_slice_def)
qed

lemma sniCiphers_at:
  assumes "wf_slice s" "s_bytes s = xs @ concat (map put_be16 cs) @ ys" "length xs = i"
  shows "sniCiphers s i (length cs) = Some cs"
  using assms
proof (induction cs arbitrary: xs i)
  case (Cons c cs)
  have "getU16 s i = Some c" using Cons.prems by (intro getU16_at [of s xs]) auto
  moreover have "sniCiphers s (i + 2) (length cs) = Some cs"
    using Cons.prems by (intro Cons.IH [of "xs @ put_be16 c"]) auto
  ultimately show ?case by simp
qed simp

section \<open>A well-formed ClientHello\<close>

text \<open>The reference: the record that a TLS client sends, from its parts. The four handshake header
  bytes and the random are arbitrary; an extension is its type and its data.\<close>

record helloParts =
  h_head :: "byte list"
  h_vers :: u16
  h_random :: "byte list"
  h_session :: "byte list"
  h_ciphers :: "u16 list"
  h_compression :: "byte list"
  h_extensions :: "(u16 \<times> byte list) list"

definition encodeExt :: "u16 \<times> byte list \<Rightarrow> byte list" where
  "encodeExt x = put_be16 (fst x) @ put_be16 (of_nat (length (snd x))) @ snd x"

definition encodeExts :: "(u16 \<times> byte list) list \<Rightarrow> byte list" where
  "encodeExts xs = concat (map encodeExt xs)"

definition serverNameExt :: "string \<Rightarrow> u16 \<times> byte list" where
  "serverNameExt name = (0, put_be16 (of_nat (length name + 3)) @ [0] @ put_be16 (of_nat (length name)) @ bytes_of name)"

definition helloPrefix :: "helloParts \<Rightarrow> byte list" where
  "helloPrefix h = h_head h @ put_be16 (h_vers h) @ h_random h @ [of_nat (length (h_session h))] @ h_session h
     @ put_be16 (of_nat (2 * length (h_ciphers h))) @ concat (map put_be16 (h_ciphers h))
     @ [of_nat (length (h_compression h))] @ h_compression h"

definition helloBody :: "helloParts \<Rightarrow> byte list" where
  "helloBody h = helloPrefix h @ put_be16 (of_nat (length (encodeExts (h_extensions h)))) @ encodeExts (h_extensions h)"

definition tlsRecord :: "u16 \<Rightarrow> byte list \<Rightarrow> byte list" where
  "tlsRecord v body = [0x16] @ put_be16 v @ put_be16 (of_nat (length body)) @ body"

definition partsOk :: "helloParts \<Rightarrow> bool" where
  "partsOk h \<longleftrightarrow> length (h_head h) = 4 \<and> length (h_random h) = 32 \<and> length (h_session h) \<le> 32
     \<and> length (h_compression h) < 256"

lemma unat_of_nat_u16: "n < 65536 \<Longrightarrow> unat (of_nat n :: u16) = n"
  by (simp add: unsigned_of_nat take_bit_nat_eq_self)

lemma unat_of_nat_byte: "n < 256 \<Longrightarrow> unat (of_nat n :: byte) = n"
  by (simp add: unsigned_of_nat take_bit_nat_eq_self)

lemma length_concat_be16 [simp]: "length (concat (map put_be16 cs)) = 2 * length cs"
  by (induction cs) simp_all

lemma length_encodeExt [simp]: "length (encodeExt x) = 4 + length (snd x)"
  by (simp add: encodeExt_def)

lemma encodeExts_simps [simp]: "encodeExts [] = []" "encodeExts (x # xs) = encodeExt x @ encodeExts xs"
  "encodeExts (xs @ ys) = encodeExts xs @ encodeExts ys"
  by (simp_all add: encodeExts_def)

lemma sniExtensions_step:
  assumes s: "wf_slice s" "s_bytes s = xs @ encodeExt (t, d) @ ys" "length xs = off"
    and len: "length (s_bytes s) = rlen" "length d < 65536"
  shows "sniExtensions s rlen off name =
    (case if t = extensionServerName then sniServerName d name else Inr name of
       Inl e \<Rightarrow> Some (Inl e) | Inr n \<Rightarrow> sniExtensions s rlen (off + 4 + length d) n)"
proof -
  have t: "getU16 s off = Some t"
    using s by (intro getU16_at [of s xs]) (auto simp: encodeExt_def)
  have l: "get16 s (off + 2) = Some (length d)"
    using s get16_at [OF s(1), of "xs @ put_be16 t" "of_nat (length d)" "d @ ys" "off + 2"] len(2)
    by (simp add: encodeExt_def unat_of_nat_u16)
  obtain sl where sl: "s_slice s (off + 4) (off + 4 + length d) = Some sl" "s_bytes sl = d"
    using s s_slice_at [OF s(1), of "xs @ put_be16 t @ put_be16 (of_nat (length d))" d ys "off + 4"]
    by (auto simp: encodeExt_def)
  have "off + 4 \<le> rlen" using s(2,3) len(1) by auto
  with t l sl show ?thesis
    by (subst sniExtensions.simps) (auto split: sum.splits)
qed

lemma sniExtensions_skip:
  assumes "wf_slice s" "s_bytes s = xs @ encodeExts es @ ys" "length xs = off" "length (s_bytes s) = rlen"
    "\<forall>x \<in> set es. length (snd x) < 65536 \<and> fst x \<noteq> extensionServerName"
  shows "sniExtensions s rlen off name = sniExtensions s rlen (off + length (encodeExts es)) name"
  using assms
proof (induction es arbitrary: xs off)
  case (Cons x es)
  obtain t d where x: "x = (t, d)" by fastforce
  have "sniExtensions s rlen off name = sniExtensions s rlen (off + 4 + length d) name"
    using sniExtensions_step [OF Cons.prems(1) _ Cons.prems(3,4), of t d "encodeExts es @ ys" name] Cons.prems(2,5) x by auto
  also have "\<dots> = sniExtensions s rlen (off + 4 + length d + length (encodeExts es)) name"
    using Cons.prems x by (intro Cons.IH [of "xs @ encodeExt x"]) auto
  finally show ?case using x by (simp add: add.assoc)
qed simp

lemma sniServerName_ext:
  assumes "length name < 65000" "\<not> suffix ''.'' name"
  shows "sniServerName (snd (serverNameExt name)) old = Inr name"
  using assms be16_roundtrip [of "of_nat (length name + 3)"] be16_roundtrip [of "of_nat (length name)"]
  by (simp add: sniServerName_def serverNameExt_def put_be16_def unat_of_nat_u16 Let_def del: of_nat_add)

lemma sniExtensions_name:
  assumes s: "wf_slice s" "s_bytes s = xs @ encodeExts (pre @ [serverNameExt name] @ post)" "length xs = off"
    "length (s_bytes s) = rlen" "rlen \<le> 16 * 1024" and name: "\<not> suffix ''.'' name"
    and other: "\<forall>x \<in> set (pre @ post). fst x \<noteq> extensionServerName"
  shows "sniExtensions s rlen off [] = Some (Inr name)"
proof -
  let ?d = "snd (serverNameExt name)"
  have ext: "serverNameExt name = (0, ?d)" by (simp add: serverNameExt_def)
  have small: "length (snd x) < 65536" if "x \<in> set (pre @ [serverNameExt name] @ post)" for x
  proof -
    have "length (encodeExt x) \<le> length (encodeExts (pre @ [serverNameExt name] @ post))"
      unfolding encodeExts_def length_concat using that by (intro member_le_sum_list) auto
    with s(2,4,5) show ?thesis by simp
  qed
  have nm: "length name < 65000" using s(2,4,5) by (auto simp: serverNameExt_def)
  have "sniExtensions s rlen off [] = sniExtensions s rlen (off + length (encodeExts pre)) []"
    using s small other by (intro sniExtensions_skip [of s xs]) auto
  also have "\<dots> = sniExtensions s rlen (off + length (encodeExts pre) + 4 + length ?d) name"
    using sniExtensions_step [OF s(1) _ _ s(4), of "xs @ encodeExts pre" 0 ?d "encodeExts post" "off + length (encodeExts pre)" "[]"]
      s(2,3) small [of "serverNameExt name"] sniServerName_ext [OF nm name]
    by (simp add: ext [symmetric] extensionServerName_def)
  also have "\<dots> = sniExtensions s rlen (off + length (encodeExts pre) + 4 + length ?d + length (encodeExts post)) name"
    using s small other
    by (intro sniExtensions_skip [of s "xs @ encodeExts pre @ encodeExt (serverNameExt name)" post "[]"]) auto
  also have "\<dots> = Some (Inr name)"
    using s(2-4) by (subst sniExtensions.simps) auto
  finally show ?thesis .
qed

text \<open>Everything before the extensions parses, and the result is that of the extension loop.\<close>

lemma parseClientHello_prefix:
  assumes s: "wf_slice s" "s_bytes s = helloPrefix h @ put_be16 (of_nat (length es)) @ es" and ok: "partsOk h"
    and rlen: "rlen = length (s_bytes s)" "rlen \<le> 16 * 1024"
  shows "parseClientHello s rlen = do {
    res \<leftarrow> sniExtensions s rlen (length (helloPrefix h) + 2) [];
    Some (map_sum id (\<lambda>name. \<lparr>Raw = s_bytes s, vers = h_vers h,
      SessionID = h_session h, CipherSuites = h_ciphers h, ServerName = name\<rparr>) res) }"
proof -
  define hd1 where "hd1 = h_head h @ put_be16 (h_vers h) @ h_random h"
  define sid where "sid = h_session h"
  define cs where "cs = h_ciphers h"
  define cm where "cm = h_compression h"
  define cb where "cb = concat (map put_be16 cs)"
  have len: "length hd1 = 38" "length sid \<le> 32" "length cm < 256" "length cb = 2 * length cs"
    using ok by (simp_all add: partsOk_def hd1_def sid_def cm_def cb_def)
  have pre: "helloPrefix h = hd1 @ [of_nat (length sid)] @ sid @ put_be16 (of_nat (2 * length cs)) @ cb @ [of_nat (length cm)] @ cm"
    by (simp add: helloPrefix_def hd1_def sid_def cs_def cm_def cb_def)
  let ?off = "39 + length sid + 2 + 2 * length cs + 1 + length cm"
  have lp: "length (helloPrefix h) = ?off" using len by (simp add: pre)
  have rl: "rlen = ?off + 2 + length es" using rlen(1) s(2) lp by simp
  note at = s(2) [unfolded pre, simplified append_assoc]
  have v: "getU16 s 4 = Some (h_vers h)"
    using s ok by (intro getU16_at [of s "h_head h"]) (auto simp: helloPrefix_def partsOk_def)
  have 1: "s_get s 38 = Some (of_nat (length sid))"
    by (rule s_get_at [OF s(1), of hd1]) (use at len in auto)
  obtain d where 2: "s_slice s 39 (39 + length sid) = Some d" "s_bytes d = sid"
    by (rule s_slice_at [OF s(1), of "hd1 @ [of_nat (length sid)]" sid
        "put_be16 (of_nat (2 * length cs)) @ cb @ [of_nat (length cm)] @ cm @ put_be16 (of_nat (length es)) @ es" 39])
      (use at len in auto)
  have 3: "get16 s (39 + length sid) = Some (2 * length cs)"
    using get16_at [OF s(1), of "hd1 @ [of_nat (length sid)] @ sid" "of_nat (2 * length cs)" _ "39 + length sid"] at len rl rlen
      unat_of_nat_u16 [of "2 * length cs"] by auto
  have 4: "sniCiphers s (39 + length sid + 2) (length cs) = Some cs"
    using at len unfolding cb_def
    by (intro sniCiphers_at [OF s(1), of "hd1 @ [of_nat (length sid)] @ sid @ put_be16 (of_nat (2 * length cs))"]) auto
  have 5: "s_get s (39 + length sid + 2 + 2 * length cs) = Some (of_nat (length cm))"
    using at len
    by (intro s_get_at [OF s(1), of "hd1 @ [of_nat (length sid)] @ sid @ put_be16 (of_nat (2 * length cs)) @ cb"]) auto
  have 6: "get16 s ?off = Some (length es)"
    using get16_at [OF s(1), of "helloPrefix h" "of_nat (length es)" es ?off] s(2) rl rlen lp unat_of_nat_u16 [of "length es"] by auto
  have u: "unat (of_nat (length sid) :: byte) = length sid" "unat (of_nat (length cm) :: byte) = length cm"
    using len by (auto intro: unat_of_nat_byte)
  have u': "uint (of_nat (length cm) :: byte) = int (length cm)" using u(2) by (metis uint_nat)
  have fin: "case_sum Inl f r = map_sum id g r" if "\<And>x. f x = Inr (g x)" for f g and r :: "goerr + string"
    using that by (cases r) auto
  show ?thesis
    unfolding parseClientHello_def lp
    using v 1 2 3 4 5 6 u u' len(2) rl
    by (simp add: Let_def sid_def [symmetric] cs_def [symmetric] fin)
qed

lemma parseClientHello_ok:
  assumes s: "wf_slice s" "s_bytes s = helloBody h" and ok: "partsOk h" "length (helloBody h) \<le> 16 * 1024"
    and exts: "h_extensions h = pre @ [serverNameExt name] @ post" "\<forall>x \<in> set (pre @ post). fst x \<noteq> extensionServerName"
    and name: "\<not> suffix ''.'' name"
  shows "parseClientHello s (length (helloBody h)) = Some (Inr \<lparr>Raw = helloBody h, vers = h_vers h,
    SessionID = h_session h, CipherSuites = h_ciphers h, ServerName = name\<rparr>)"
proof -
  have "sniExtensions s (length (helloBody h)) (length (helloPrefix h) + 2) [] = Some (Inr name)"
    by (rule sniExtensions_name [OF s(1), of "helloPrefix h @ put_be16 (of_nat (length (encodeExts (h_extensions h))))" pre name post])
      (use s exts name ok in \<open>auto simp: helloBody_def\<close>)
  with parseClientHello_prefix [OF s(1) _ ok(1) refl, of "encodeExts (h_extensions h)"] s(2) ok(2)
  show ?thesis by (simp add: helloBody_def)
qed

lemma Peek_slice:
  assumes ok: "br_ok br" "b_off (Buffer br) = 0" "plain_reader (Reader br)" "br_pending br = xs @ rest" and i: "0 < length xs"
  obtains br' s ys where "BufferReader_Peek br (length xs) = Some ((contents (Buffer br'), None), br')" "br_ok br'"
    "b_off (Buffer br') = 0" "plain_reader (Reader br')" "br_pending br' = br_pending br"
    "Buffer_Bytes (Buffer br') = Some s" "wf_slice s" "s_bytes s = xs @ ys"
proof -
  obtain br' where br': "BufferReader_Peek br (length xs) = Some ((contents (Buffer br'), None), br')" "br_ok br'"
    "b_off (Buffer br') = 0" "plain_reader (Reader br')" "length xs \<le> length (contents (Buffer br'))" "br_pending br' = br_pending br"
    using Peek_plain [OF ok(1-3) i] ok(4) by (metis length_append le_add1)
  obtain s where s: "Buffer_Bytes (Buffer br') = Some s" "wf_slice s" "s_bytes s = contents (Buffer br')"
    using Buffer_Bytes_contents br'(2) unfolding br_ok_def by blast
  have "take (length xs) (s_bytes s) = xs"
    using br.peek_take [OF ok(1) br'(1), of "length xs"] ok(4) s(3) by simp
  then have "s_bytes s = xs @ drop (length xs) (s_bytes s)" by (metis append_take_drop_id)
  with that br' s show ?thesis by blast
qed

lemma sniff_keeps:
  assumes ok: "br_ok acc"
  shows "sat (\<lambda>(res, acc'). br_ok acc' \<and> br_pending acc' = br_pending acc) (SniffClientHello acc)"
  unfolding SniffClientHello_def
  by (intro sat_rules; simp split: sum.splits; metis ok br.peek_ok br.peek_pending)

text \<open>With a complete record in the stream, \<open>SniffClientHello\<close> comes to parse that record.\<close>

definition sniffParsed :: "bufferReader \<Rightarrow> slice \<Rightarrow> nat \<Rightarrow> (sniff_result \<times> bufferReader) option" where
  "sniffParsed acc ch rlen = do {
     res \<leftarrow> parseClientHello ch rlen;
     Some (case res of Inl e \<Rightarrow> ((None, [], Some e), acc) | Inr m \<Rightarrow> ((Some m, ServerName m, None), acc)) }"

lemma sniff_record:
  assumes ok: "br_ok acc" "b_off (Buffer acc) = 0" "plain_reader (Reader acc)"
    and rec: "br_pending acc = tlsRecord v body @ rest" and n: "38 \<le> length body" "length body \<le> 16 * 1024"
  obtains acc' ch where "s_bytes ch = body" "wf_slice ch" "SniffClientHello acc = sniffParsed acc' ch (length body)"
    "br_ok acc'" "plain_reader (Reader acc')" "br_pending acc' = br_pending acc"
proof -
  let ?n = "length body"
  let ?hdr = "0x16 # put_be16 v @ put_be16 (of_nat ?n)"
  obtain a1 s1 y1 where p1: "BufferReader_Peek acc (length [0x16::byte]) = Some ((contents (Buffer a1), None), a1)" "br_ok a1"
    "b_off (Buffer a1) = 0" "plain_reader (Reader a1)" "br_pending a1 = br_pending acc"
    "Buffer_Bytes (Buffer a1) = Some s1" "wf_slice s1" "s_bytes s1 = [0x16] @ y1"
    by (rule Peek_slice [OF ok, of "[0x16]"]) (use rec in \<open>auto simp: tlsRecord_def\<close>)
  obtain a2 s2 y2 where p2: "BufferReader_Peek a1 (length ?hdr) = Some ((contents (Buffer a2), None), a2)" "br_ok a2"
    "b_off (Buffer a2) = 0" "plain_reader (Reader a2)" "br_pending a2 = br_pending a1"
    "Buffer_Bytes (Buffer a2) = Some s2" "wf_slice s2" "s_bytes s2 = ?hdr @ y2"
    by (rule Peek_slice [OF p1(2-4), of ?hdr]) (use rec p1(5) in \<open>auto simp: tlsRecord_def\<close>)
  obtain a3 s3 y3 where p3: "BufferReader_Peek a2 (length (?hdr @ body)) = Some ((contents (Buffer a3), None), a3)" "br_ok a3"
    "plain_reader (Reader a3)" "br_pending a3 = br_pending a2"
    "Buffer_Bytes (Buffer a3) = Some s3" "wf_slice s3" "s_bytes s3 = (?hdr @ body) @ y3"
    by (rule Peek_slice [OF p2(2-4), of "?hdr @ body"]) (use rec p1(5) p2(5) in \<open>auto simp: tlsRecord_def\<close>)
  have l: "length [0x16::byte] = 1" "length ?hdr = 5" "length (?hdr @ body) = length body + 5" by simp_all
  have g1: "s_get s1 0 = Some 0x16" using p1(7,8) by (intro s_get_at [of s1 "[]"]) auto
  have g2: "get16 s2 3 = Some ?n"
    using get16_at [OF p2(7), of "0x16 # put_be16 v" "of_nat ?n" y2 3] p2(8) n unat_of_nat_u16 [of ?n] by simp
  obtain ch where ch: "s_slice s3 5 (?n + 5) = Some ch" "s_bytes ch = body" "wf_slice ch"
    by (rule s_slice_at [OF p3(6), of ?hdr body y3 5 "?n + 5"]) (use p3(7) in auto)
  have "SniffClientHello acc = sniffParsed a3 ch ?n"
    using p1(1) [unfolded l] p1(6) g1 p2(1) [unfolded l] p2(6) g2 n p3(1) [unfolded l] p3(5) ch
    by (simp add: SniffClientHello_def sniffParsed_def)
  with that ch p1(5) p2(5) p3(2-4) show ?thesis by simp
qed

text \<open>A ClientHello is understood and stays in the stream.\<close>

lemma sniff_name:
  assumes ok: "br_ok acc" "b_off (Buffer acc) = 0" "plain_reader (Reader acc)"
    and hello: "br_pending acc = tlsRecord v (helloBody h) @ rest" "partsOk h" "length (helloBody h) \<le> 16 * 1024"
    and exts: "h_extensions h = pre @ [serverNameExt name] @ post" "\<forall>x \<in> set (pre @ post). fst x \<noteq> extensionServerName"
    and name: "\<not> suffix ''.'' name"
  obtains acc' where "SniffClientHello acc = Some ((Some \<lparr>Raw = helloBody h, vers = h_vers h, SessionID = h_session h,
      CipherSuites = h_ciphers h, ServerName = name\<rparr>, name, None), acc')"
    "br_ok acc'" "plain_reader (Reader acc')" "br_pending acc' = br_pending acc"
proof -
  have n: "38 \<le> length (helloBody h)" using hello(2) by (simp add: partsOk_def helloBody_def helloPrefix_def)
  obtain acc' ch where ch: "s_bytes ch = helloBody h" "wf_slice ch"
    and run: "SniffClientHello acc = sniffParsed acc' ch (length (helloBody h))"
    and acc': "br_ok acc'" "plain_reader (Reader acc')" "br_pending acc' = br_pending acc"
    by (rule sniff_record [OF ok hello(1) n hello(3)])
  from run parseClientHello_ok [OF ch(2,1) hello(2,3) exts name] acc' show ?thesis
    by (intro that [of acc']) (simp_all add: sniffParsed_def)
qed

lemma sniExtensions_last:
  assumes "getU16 ch off = Some 0" "get16 ch (off + 2) = Some n" "s_slice ch (off + 4) (off + 4 + n) = Some d"
    "rlen = off + 4" "sniServerName (s_bytes d) old = Inr name"
  shows "sniExtensions ch rlen off old = Some (Inr name)"
proof -
  have "sniExtensions ch rlen (off + 4 + n) name = Some (Inr name)"
    using assms(4) by (subst sniExtensions.simps) simp
  with assms show ?thesis by (subst sniExtensions.simps) (simp add: extensionServerName_def)
qed

section \<open>Properties\<close>

text \<open>C24: Sniffing is invisible: whatever the connection sends and however the parse ends, when
  \<open>SniffClientHello\<close> returns every byte is still in the stream, in order, so that the connection can be
  forwarded or handled as if it had not been looked at.\<close>

theorem sniff_transparent:
  assumes "br_ok acc" "SniffClientHello acc = Some (res, acc')"
  shows "br_ok acc' \<and> br_pending acc' = br_pending acc"
  using satD [OF sniff_keeps [OF assms(1)] assms(2)] by simp

theorem sniff_transparent_witness:
  "let acc = \<lparr>Reader = [([0x47, 0x45, 0x54], None)], Buffer = \<lparr>b_buf = make_slice 8, b_off = 0, b_end = 0\<rparr>\<rparr>
   in br_ok acc \<and> (\<exists>acc'. SniffClientHello acc = Some ((None, [], None), acc') \<and> br_pending acc' = [0x47, 0x45, 0x54])"
proof -
  let ?acc = "\<lparr>Reader = [([0x47, 0x45, 0x54], None)], Buffer = \<lparr>b_buf = make_slice 8, b_off = 0, b_end = 0\<rparr>\<rparr>"
  have ok: "br_ok ?acc" "br_pending ?acc = [0x47, 0x45, 0x54]"
    by (simp_all add: br_ok_def wf_buffer_def br_pending_def contents_def reader_bytes_def)
  let ?b = "\<lparr>b_buf = \<lparr>sarr = [0x47, 0x45, 0x54, 0, 0, 0, 0, 0], slen = 8\<rparr>, b_off = 0, b_end = 3\<rparr>"
  have peek: "BufferReader_Peek ?acc 1 = Some (([0x47, 0x45, 0x54], None), \<lparr>Reader = [], Buffer = ?b\<rparr>)"
    by (simp add: buffer_eval)
  have run: "SniffClientHello ?acc = Some ((None, [], None), \<lparr>Reader = [], Buffer = ?b\<rparr>)"
    by (simp add: SniffClientHello_def peek [simplified] Buffer_Bytes_def s_slice_def s_get_def scap_def)
  from sniff_transparent [OF ok(1) run] ok run show ?thesis unfolding Let_def by auto
qed

text \<open>C3: A ClientHello is understood. When the connection starts with the record of a well-formed
  ClientHello that names a server, then however the record is split into reads and whatever follows
  it, \<open>SniffClientHello\<close> returns that server name, the session id and the cipher suites, among any
  other extensions.\<close>

theorem sniff_finds_name:
  assumes ok: "br_ok acc" "b_off (Buffer acc) = 0" "plain_reader (Reader acc)"
    and hello: "br_pending acc = tlsRecord v (helloBody h) @ rest" "partsOk h" "length (helloBody h) \<le> 16 * 1024"
    and exts: "h_extensions h = pre @ [serverNameExt name] @ post" "\<forall>x \<in> set (pre @ post). fst x \<noteq> extensionServerName"
    and name: "\<not> suffix ''.'' name"
  shows "\<exists>acc'. SniffClientHello acc = Some ((Some \<lparr>Raw = helloBody h, vers = h_vers h, SessionID = h_session h,
      CipherSuites = h_ciphers h, ServerName = name\<rparr>, name, None), acc')"
  by (rule sniff_name [OF assms]) auto

theorem sniff_finds_name_witness:
  "let h = \<lparr>h_head = [1, 0, 0, 72], h_vers = 0x303, h_random = replicate 32 7, h_session = [9, 9], h_ciphers = [0x1301, 0xc02b],
         h_compression = [0], h_extensions = [(10, [0, 2, 0, 29]), serverNameExt ''a.b'', (43, [])]\<rparr>;
       rec = tlsRecord 0x301 (helloBody h);
       acc = \<lparr>Reader = [(take 7 rec, None), (drop 7 rec @ [5], None)], Buffer = \<lparr>b_buf = make_slice 16, b_off = 0, b_end = 0\<rparr>\<rparr>
   in \<exists>m acc'. SniffClientHello acc = Some ((Some m, ''a.b'', None), acc') \<and> SessionID m = [9, 9] \<and> CipherSuites m = [0x1301, 0xc02b]"
proof -
  let ?h = "\<lparr>h_head = [1, 0, 0, 72], h_vers = 0x303, h_random = replicate 32 7, h_session = [9, 9], h_ciphers = [0x1301, 0xc02b],
         h_compression = [0], h_extensions = [(10, [0, 2, 0, 29]), serverNameExt ''a.b'', (43, [])]\<rparr> :: helloParts"
  let ?rec = "tlsRecord 0x301 (helloBody ?h)"
  let ?acc = "\<lparr>Reader = [(take 7 ?rec, None), (drop 7 ?rec @ [5], None)], Buffer = \<lparr>b_buf = make_slice 16, b_off = 0, b_end = 0\<rparr>\<rparr>"
  have ok: "br_ok ?acc" "b_off (Buffer ?acc) = 0" "plain_reader (Reader ?acc)" "br_pending ?acc = ?rec @ [5]"
    by (simp_all add: br_ok_def wf_buffer_def br_pending_def contents_def reader_bytes_def plain_reader_def)
  have h: "partsOk ?h" "length (helloBody ?h) \<le> 16 * 1024"
    by (simp_all add: partsOk_def helloBody_def helloPrefix_def encodeExt_def serverNameExt_def)
  have e: "h_extensions ?h = [(10, [0, 2, 0, 29])] @ [serverNameExt ''a.b''] @ [(43, [])]"
    "\<forall>x \<in> set ([(10, [0, 2, 0, 29])] @ [(43, [])]). fst x \<noteq> extensionServerName" "\<not> suffix ''.'' ''a.b''"
    by (simp_all add: extensionServerName_def suffix_def)
  from sniff_finds_name [OF ok h e] show ?thesis unfolding Let_def by auto
qed

text \<open>A record that is too short is not always rejected: the length check lets a record of exactly 38
  bytes pass, and reading the session id length at index 38 panics, for every content.\<close>

theorem sniff_short_panics:
  assumes "br_ok acc" "b_off (Buffer acc) = 0" "plain_reader (Reader acc)"
    and "br_pending acc = tlsRecord v body @ rest" "length body = 38"
  shows "SniffClientHello acc = None"
proof -
  obtain acc' ch where ch: "s_bytes ch = body" "wf_slice ch" and run: "SniffClientHello acc = sniffParsed acc' ch 38"
    by (rule sniff_record [OF assms(1-4)]) (use assms(5) in auto)
  have "s_get ch 38 = None" using ch assms(5) by (auto simp: s_get_def s_bytes_def wf_slice_def scap_def)
  then have "parseClientHello ch 38 = None" by (simp add: parseClientHello_def)
  with run show ?thesis by (simp add: sniffParsed_def)
qed

theorem sniff_short_panics_witness:
  "let acc = \<lparr>Reader = [(tlsRecord 0x301 (replicate 38 0), None)], Buffer = \<lparr>b_buf = make_slice 16, b_off = 0, b_end = 0\<rparr>\<rparr>
   in br_ok acc \<and> SniffClientHello acc = None"
proof -
  let ?acc = "\<lparr>Reader = [(tlsRecord 0x301 (replicate 38 0), None)], Buffer = \<lparr>b_buf = make_slice 16, b_off = 0, b_end = 0\<rparr>\<rparr>"
  have h: "br_ok ?acc" "b_off (Buffer ?acc) = 0" "plain_reader (Reader ?acc)" "br_pending ?acc = tlsRecord 0x301 (replicate 38 0) @ []"
    by (simp_all add: br_ok_def wf_buffer_def br_pending_def contents_def reader_bytes_def plain_reader_def)
  from sniff_short_panics [OF h] h show ?thesis unfolding Let_def by simp
qed

text \<open>The name can come from outside the connection. The data of the server-name extension is resliced
  with the length that the client sent, which Go checks against the capacity of the buffer only. When a
  record ends in the header of a server-name extension without its data, the name is taken from
  whatever the buffer's array holds behind the received bytes, and is returned without an error.\<close>

theorem sniff_stale_name:
  assumes parts: "partsOk h" and name: "\<not> suffix ''.'' name"
    and body: "body = helloPrefix h @ put_be16 4 @ put_be16 0 @ put_be16 (of_nat (length stale))" "length body \<le> 16 * 1024"
    and stale: "stale = snd (serverNameExt name)" "length name < 65000"
    and buf: "arr = tlsRecord v body @ stale @ junk"
      "b = \<lparr>b_buf = \<lparr>sarr = arr, slen = length arr\<rparr>, b_off = 0, b_end = length (tlsRecord v body)\<rparr>"
  shows "br_pending \<lparr>Reader = [], Buffer = b\<rparr> = tlsRecord v body
    \<and> (\<exists>m acc'. SniffClientHello \<lparr>Reader = [], Buffer = b\<rparr> = Some ((Some m, name, None), acc'))"
proof -
  let ?acc = "\<lparr>Reader = [], Buffer = b\<rparr>"
  let ?ch = "\<lparr>sarr = body @ stale @ junk, slen = length body\<rparr>"
  let ?off = "length (helloPrefix h) + 2"
  have wf: "wf_buffer b" and cont: "contents b = tlsRecord v body"
    using buf by (simp_all add: wf_buffer_def contents_def)
  have n: "38 \<le> length body" using parts by (simp add: body(1) partsOk_def helloPrefix_def)
  have peek: "BufferReader_Peek ?acc i = Some ((tlsRecord v body, None), ?acc)"
    if "0 < i" "i \<le> 5 + length body" for i
    using that wf cont buf by (simp add: BufferReader_Peek_def Buffer_Fill_def buffer_simps tlsRecord_def)
  define sl where "sl = \<lparr>sarr = arr, slen = length (tlsRecord v body)\<rparr>"
  have bytes: "Buffer_Bytes b = Some sl"
    using buf by (simp add: Buffer_Bytes_def s_slice_def scap_def sl_def)
  have wfb: "wf_slice sl" "s_bytes sl = tlsRecord v body" using buf by (simp_all add: sl_def wf_slice_def s_bytes_def)
  have g: "s_get sl 0 = Some 0x16" by (rule s_get_at [OF wfb(1), of "[]"]) (simp_all add: wfb(2) tlsRecord_def)
  have g2: "get16 sl 3 = Some (length body)"
    using get16_at [OF wfb(1), of "0x16 # put_be16 v" "of_nat (length body)" body 3] wfb(2) body(2) unat_of_nat_u16 [of "length body"]
    by (simp add: tlsRecord_def)
  have slice: "s_slice sl 5 (length body + 5) = Some ?ch"
    using buf by (simp add: sl_def s_slice_def scap_def tlsRecord_def)
  have run: "SniffClientHello ?acc = sniffParsed ?acc ?ch (length body)"
    using peek [of 1] peek [of 5] peek [of "length body + 5"] bytes g g2 slice n body(2)
    by (simp add: SniffClientHello_def sniffParsed_def)
  have ch: "wf_slice ?ch" "s_bytes ?ch = body" by (simp_all add: wf_slice_def s_bytes_def)
  have len: "length stale < 65536" using stale by (simp add: serverNameExt_def)
  have rl: "length body = ?off + 4" using body(1) by simp
  have e1: "getU16 ?ch ?off = Some 0"
    by (rule getU16_at [OF ch(1), of "helloPrefix h @ put_be16 4" _ "put_be16 (of_nat (length stale))"])
      (use ch(2) in \<open>simp_all add: body(1)\<close>)
  have e2: "get16 ?ch (?off + 2) = Some (length stale)"
    using get16_at [OF ch(1), of "helloPrefix h @ put_be16 4 @ put_be16 0" "of_nat (length stale)" "[]" "?off + 2"]
      unat_of_nat_u16 [OF len] ch(2) by (simp add: body(1))
  have e3: "s_slice ?ch (?off + 4) (?off + 4 + length stale) = Some \<lparr>sarr = stale @ junk, slen = length stale\<rparr>"
    using rl by (simp add: s_slice_def scap_def)
  have "sniExtensions ?ch (length body) ?off [] = Some (Inr name)"
    by (rule sniExtensions_last [OF e1 e2 e3 rl]) (use sniServerName_ext [OF stale(2) name] stale(1) in \<open>simp add: s_bytes_def\<close>)
  with parseClientHello_prefix [OF ch(1) _ parts refl, of "put_be16 0 @ put_be16 (of_nat (length stale))"] ch(2) body
  have "parseClientHello ?ch (length body) = Some (Inr \<lparr>Raw = body, vers = h_vers h, SessionID = h_session h,
      CipherSuites = h_ciphers h, ServerName = name\<rparr>)"
    by (simp add: rl)
  with run cont show ?thesis by (simp add: sniffParsed_def br_pending_def reader_bytes_def)
qed

theorem sniff_stale_name_witness:
  "let h = \<lparr>h_head = [1, 0, 0, 72], h_vers = 0x303, h_random = replicate 32 7, h_session = [], h_ciphers = [0x1301],
         h_compression = [0], h_extensions = []\<rparr>;
       stale = snd (serverNameExt ''other'');
       body = helloPrefix h @ put_be16 4 @ put_be16 0 @ put_be16 (of_nat (length stale));
       arr = tlsRecord 0x301 body @ stale @ [0];
       b = \<lparr>b_buf = \<lparr>sarr = arr, slen = length arr\<rparr>, b_off = 0, b_end = length (tlsRecord 0x301 body)\<rparr>
   in br_pending \<lparr>Reader = [], Buffer = b\<rparr> = tlsRecord 0x301 body
      \<and> (\<exists>m acc'. SniffClientHello \<lparr>Reader = [], Buffer = b\<rparr> = Some ((Some m, ''other'', None), acc'))"
  unfolding Let_def
  by (rule sniff_stale_name [OF _ _ refl _ refl _ refl refl])
    (simp_all add: partsOk_def suffix_def helloPrefix_def)

end
