(* ===== verification/Nio_Copy.thy ===== *)
theory Nio_Copy
  imports Go_Prelude
begin

text \<open>
  \<^verbatim>\<open>src/nio/streams.go\<close> (\<open>ReaderCopier\<close>, \<open>closeWriter\<close>) and \<^verbatim>\<open>src/nio/proxy.go\<close> (\<open>Proxy\<close>): the copy
  loop that relays one direction of a connection and the proxy that runs two of them.

  A \<open>copier\<close> has the counters and error of \<open>ReaderCopier\<close>, its reader and writer, and what the two
  values implement besides \<open>Read\<close> and \<open>Write\<close> (Go finds that out with type assertions). The calls
  made on them that are not reads or writes are logged in \<open>events\<close>, in order. Counts are natural
  numbers. \<open>None\<close> is a panic: the failed type assertion \<open>rw.(http.Flusher)\<close>.
\<close>

record caps =
  isTCPConn :: bool
  isConn :: bool
  isCloser :: bool
  isCloseWriter :: bool
  isResponseWriter :: bool
  isFlusher :: bool

datatype copyEvent = InClose | InDeadline | OutClose | OutCloseWrite | OutFlush | OutXClose

record copier =
  Written :: nat
  MaxRead :: nat
  ReadCnt :: nat
  CErr :: "goerr option"
  InError :: bool
  In :: reader
  InCaps :: caps
  Out :: writer
  OutCaps :: caps
  ID :: string
  events :: "copyEvent list"

definition NewCopier :: "reader \<Rightarrow> caps \<Rightarrow> writer \<Rightarrow> caps \<Rightarrow> copier" where
  "NewCopier r rc w wc = \<lparr>Written = 0, MaxRead = 0, ReadCnt = 0, CErr = None, InError = False,
     In = r, InCaps = rc, Out = w, OutCaps = wc, ID = [], events = []\<rparr>"

definition emit :: "copyEvent \<Rightarrow> copier \<Rightarrow> copier" where
  "emit e s = s\<lparr>events := events s @ [e]\<rparr>"

definition emitIf :: "bool \<Rightarrow> copyEvent \<Rightarrow> copier \<Rightarrow> copier" where
  "emitIf c e s = (if c then emit e s else s)"

definition ReaderCopier_Close :: "copier \<Rightarrow> copier" where
  "ReaderCopier_Close rc = emitIf (isCloser (OutCaps rc)) OutClose (emitIf (isCloser (InCaps rc)) InClose rc)"

definition CanSplice :: "caps \<Rightarrow> caps \<Rightarrow> bool" where
  "CanSplice i out = (isTCPConn i \<and> isTCPConn out)"

text \<open>The response-writer tail of \<open>rstWriter\<close> and \<open>closeWriter\<close>: the \<open>X-Close\<close> header and a flush.\<close>

definition xClose :: "copier \<Rightarrow> copier option" where
  "xClose s = (if isResponseWriter (OutCaps s) then
       (if isFlusher (OutCaps s) then Some (emit OutFlush (emit OutXClose s)) else None)
     else Some s)"

definition rstWriter :: "copier \<Rightarrow> copier option" where
  "rstWriter s =
     (let s = emitIf (isCloser (InCaps s)) InClose s in
      if isCloser (OutCaps s) then Some (emit OutClose s)
      else xClose (emitIf (isCloser (InCaps s)) InClose s))"

definition closeWriter :: "copier \<Rightarrow> copier option" where
  "closeWriter s =
     (if isCloseWriter (OutCaps s) then Some (emit OutCloseWrite s)
      else if isCloser (OutCaps s) then Some (emit OutClose s)
      else xClose s)"

text \<open>\<open>bufferPoolCopy\<close>: every buffer in it has this capacity.\<close>

definition copyBufSize :: nat where
  "copyBufSize = 16 * 64 * 1024"

text \<open>One iteration of the copy loop up to the handling of its errors: the copier, the write error
  and the read error.\<close>

definition copyOne :: "copier \<Rightarrow> copier \<times> goerr option \<times> goerr option" where
  "copyOne s =
     (let s = emitIf (isConn (InCaps s)) InDeadline s;
          (bs, er, r) = go_read copyBufSize (In s);
          nr = length bs;
          s = s\<lparr>In := r, MaxRead := max nr (MaxRead s)\<rparr>
      in if nr > 0 then
           (let s = s\<lparr>ReadCnt := Suc (ReadCnt s)\<rparr>;
                (nw, ew, w) = go_write bs (Out s);
                s = s\<lparr>Out := w, Written := Written s + nw\<rparr>;
                s = emitIf (isFlusher (OutCaps s)) OutFlush s;
                ew = (if nr \<noteq> nw \<and> ew = None then Some ErrShortWrite else ew)
            in (s, ew, er))
         else (s, None, er))"

text \<open>The handling of a read error. An error text that contains \<open>NetworkIdleTimeout\<close> (QUIC) counts as
  the end of the stream.\<close>

definition readDone :: "bool \<Rightarrow> goerr \<Rightarrow> copier \<Rightarrow> copier option" where
  "readDone close er s =
     (let er = (if str_contains (err_string er) ''NetworkIdleTimeout'' then EOF else er) in
      if er = EOF then (if close then closeWriter s else Some s)
      else (let s = s\<lparr>CErr := Some er, InError := True\<rparr> in if close then rstWriter s else Some s))"

lemma copyOne_size:
  assumes "copyOne s = (s', ew, None)"
  shows "reader_size (In s') < reader_size (In s)"
proof -
  obtain bs er r where rd: "go_read copyBufSize (In s) = (bs, er, r)" by (metis prod_cases3)
  with assms have "er = None" "In s' = r"
    by (auto simp: copyOne_def emitIf_def emit_def Let_def split: if_splits prod.splits)
  with rd go_read_size show ?thesis by (fastforce simp: copyBufSize_def)
qed

function copyLoop :: "bool \<Rightarrow> copier \<Rightarrow> copier option" where
  "copyLoop close s =
     (let (s', ew, er) = copyOne s in
      case ew of
        Some e \<Rightarrow> (let s' = s'\<lparr>CErr := Some e\<rparr> in if close then rstWriter s' else Some s')
      | None \<Rightarrow> (case er of Some e \<Rightarrow> readDone close e s' | None \<Rightarrow> copyLoop close s'))"
  by pat_completeness auto
termination
  by (relation "measure (\<lambda>(close, s). reader_size (In s))") (auto dest!: sym [of "(_, _, _)" "copyOne _"] copyOne_size)

declare copyLoop.simps [simp del]

text \<open>\<open>Copy\<close>, with the global counter \<open>StreamId\<close>. Between two TCP connections it hands over to
  \<open>(*net.TCPConn).ReadFrom\<close>, which has the effect of \<open>io.Copy\<close>. The message on \<open>ch\<close> when it returns
  is not part of the result: \<open>Proxy\<close> waits for it.\<close>

definition Copy :: "bool \<Rightarrow> copier \<Rightarrow> u32 \<Rightarrow> (copier \<times> u32) option" where
  "Copy close s streamId =
     (if CanSplice (InCaps s) (OutCaps s) then
        (let (n, err, r, w) = io_copy (In s) (Out s);
             s = s\<lparr>In := r, Out := w, Written := Written s + n\<rparr>
         in case err of None \<Rightarrow> Some (s, streamId)
            | Some e \<Rightarrow> do { s \<leftarrow> rstWriter s; Some (s\<lparr>CErr := Some e\<rparr>, streamId) })
      else
        (let (s, streamId) = (if ID s = [] then (s\<lparr>ID := nat_digits (unat (streamId + 1))\<rparr>, streamId + 1) else (s, streamId))
         in do { s \<leftarrow> copyLoop close s; Some (s, streamId) }))"

section \<open>Proxy\<close>

definition proxyError :: "goerr option \<Rightarrow> goerr option \<Rightarrow> bool \<Rightarrow> bool \<Rightarrow> goerr option" where
  "proxyError errout errorin outInErr inInerr =
     (case (errout, errorin) of
        (None, None) \<Rightarrow> None
      | (None, Some i) \<Rightarrow> Some i
      | (Some out, None) \<Rightarrow> Some out
      | (Some out, Some i) \<Rightarrow> Some (ErrMsg (''IN+OUT '' @ err_string i @ '' '' @ err_string out)))"

text \<open>An end of the proxy: what it can be read from or written to, and what it implements. \<open>outConn\<close>
  is a \<open>net.Conn\<close> and so has \<open>Close\<close>.\<close>

record endpoint =
  e_in :: reader
  e_out :: writer
  e_caps :: caps

datatype proxyEvent = CloseOutConn | CloseIn | CloseW

record proxyState =
  p1 :: copier \<comment> \<open>\<open>s1\<close>: from \<open>in\<close> to \<open>outConn\<close>\<close>
  p2 :: copier \<comment> \<open>\<open>s2\<close>: from \<open>outConn\<close> to \<open>w\<close>\<close>
  p_closed :: "proxyEvent list"

text \<open>The two receives on \<open>ch\<close> and \<open>ch2\<close>: a copier that failed makes \<open>Proxy\<close> close both ends of the
  other one.\<close>

definition proxyWait1 :: "proxyState \<Rightarrow> proxyState" where
  "proxyWait1 p = (if CErr (p1 p) \<noteq> None
     then p\<lparr>p_closed := p_closed p @ CloseOutConn # (if isCloser (OutCaps (p2 p)) then [CloseW] else [])\<rparr> else p)"

definition proxyWait2 :: "proxyState \<Rightarrow> proxyState" where
  "proxyWait2 p = (if CErr (p2 p) \<noteq> None
     then p\<lparr>p_closed := p_closed p @ (if isCloser (InCaps (p1 p)) then [CloseIn] else []) @ [CloseOutConn]\<rparr> else p)"

text \<open>\<open>Proxy\<close>. The two copies run concurrently on disjoint ends of the streams, so each is a run of its
  own; \<open>first\<close> tells which channel is received from first. The readers hold what the peers send, the
  errors caused by closing an end included. Result: the error, the two copiers and the calls to
  \<open>Close\<close> that \<open>Proxy\<close> makes.\<close>

definition proxyCopiers :: "endpoint \<Rightarrow> reader \<times> caps \<Rightarrow> writer \<times> caps \<Rightarrow> string \<Rightarrow> string \<Rightarrow> copier \<times> copier" where
  "proxyCopiers outConn inp w dest ids =
     (let s1 = NewCopier (fst inp) (snd inp) (e_out outConn) (e_caps outConn);
          s2 = NewCopier (e_in outConn) (e_caps outConn) (fst w) (snd w)
      in if dest \<noteq> [] then (s1\<lparr>ID := dest @ ''-o-'' @ ids\<rparr>, s2\<lparr>ID := dest @ ''-i-'' @ ids\<rparr>) else (s1, s2))"

definition proxyFinish :: "bool \<Rightarrow> bool \<Rightarrow> bool \<Rightarrow> copier \<Rightarrow> copier \<Rightarrow> proxyState" where
  "proxyFinish first inCloser wCloser s1 s2 =
     (let p = \<lparr>p1 = s1, p2 = s2, p_closed = []\<rparr>;
          p = (if first then proxyWait2 (proxyWait1 p) else proxyWait1 (proxyWait2 p))
      in p\<lparr>p_closed := p_closed p @ [CloseOutConn] @ (if inCloser then [CloseIn] else []) @ (if wCloser then [CloseW] else [])\<rparr>)"

definition Proxy :: "bool \<Rightarrow> endpoint \<Rightarrow> reader \<times> caps \<Rightarrow> writer \<times> caps \<Rightarrow> string \<Rightarrow> u32 \<times> u32
    \<Rightarrow> (goerr option \<times> proxyState \<times> u32 \<times> u32) option" where
  "Proxy first outConn inp w dest cnt =
     (let proxyCnt = (if dest \<noteq> [] then fst cnt + 1 else fst cnt);
          (s1, s2) = proxyCopiers outConn inp w dest (itoa (sint proxyCnt))
      in do {
        (s1, streamId) \<leftarrow> Copy True s1 (snd cnt);
        (s2, streamId) \<leftarrow> Copy True s2 streamId;
        Some (proxyError (CErr s1) (CErr s2) (InError s1) (InError s2),
              proxyFinish first (isCloser (snd inp)) (isCloser (snd w)) s1 s2, proxyCnt, streamId) })"

section \<open>What a copy delivers\<close>

lemma emit_simps [simp]:
  "Written (emit e s) = Written s" "CErr (emit e s) = CErr s" "InError (emit e s) = InError s" "In (emit e s) = In s"
  "Out (emit e s) = Out s" "InCaps (emit e s) = InCaps s" "OutCaps (emit e s) = OutCaps s"
  "events (emit e s) = events s @ [e]"
  by (simp_all add: emit_def)

lemma emitIf_simps [simp]:
  "Written (emitIf c e s) = Written s" "CErr (emitIf c e s) = CErr s" "InError (emitIf c e s) = InError s" "In (emitIf c e s) = In s"
  "Out (emitIf c e s) = Out s" "InCaps (emitIf c e s) = InCaps s" "OutCaps (emitIf c e s) = OutCaps s"
  "events (emitIf c e s) = events s @ (if c then [e] else [])"
  by (simp_all add: emitIf_def)

text \<open>The data part of a copier, which closing does not touch.\<close>

definition sameData :: "copier \<Rightarrow> copier \<Rightarrow> bool" where
  "sameData s s' \<longleftrightarrow> Written s' = Written s \<and> In s' = In s \<and> Out s' = Out s \<and> CErr s' = CErr s \<and> InError s' = InError s"

lemma rstWriter_data: "rstWriter s = Some s' \<Longrightarrow> sameData s s'"
  by (auto simp: rstWriter_def xClose_def Let_def sameData_def split: if_splits)

lemma closeWriter_data: "closeWriter s = Some s' \<Longrightarrow> sameData s s'"
  by (auto simp: closeWriter_def xClose_def sameData_def split: if_splits)

lemma readDone_data:
  assumes "readDone close er s = Some s'"
  shows "Written s' = Written s \<and> In s' = In s \<and> Out s' = Out s \<and> (CErr s' = CErr s \<and> InError s' = InError s \<or> CErr s' \<noteq> None \<and> InError s')"
  using assms by (auto simp: readDone_def Let_def sameData_def dest!: rstWriter_data closeWriter_data split: if_splits)

lemma copyOne_spec:
  assumes "copyOne s = (s', ew, er)"
  obtains bs nw where "go_read copyBufSize (In s) = (bs, er, In s')" "w_out (Out s') = w_out (Out s) @ take nw bs" "nw \<le> length bs"
    "Written s' = Written s + nw" "ew = None \<longrightarrow> nw = length bs" "CErr s' = CErr s" "InError s' = InError s"
    "w_next (Out s) = [] \<longrightarrow> ew = None \<and> w_next (Out s') = []" "OutCaps s' = OutCaps s"
proof -
  obtain bs e r where rd: "go_read copyBufSize (In s) = (bs, e, r)" by (metis prod_cases3)
  obtain nw e1 w where wr: "go_write bs (Out s) = (nw, e1, w)" by (metis prod_cases3)
  show ?thesis
  proof (cases "bs = []")
    case True
    then show ?thesis using assms rd by (intro that [of "[]" 0]) (auto simp: copyOne_def Let_def)
  next
    case False
    moreover have "w_next (Out s) = [] \<longrightarrow> e1 = None \<and> nw = length bs \<and> w_next w = []"
      using wr by (auto simp: go_write_def)
    ultimately show ?thesis using assms rd wr go_write_out [OF wr]
      by (intro that [of bs nw]) (auto simp: copyOne_def Let_def split: if_splits)
  qed
qed

lemma copyLoop_conserves:
  assumes "copyLoop close s = Some s'"
  shows "\<exists>k \<le> length (reader_bytes (In s)). w_out (Out s') = w_out (Out s) @ take k (reader_bytes (In s))
    \<and> Written s' = Written s + k
    \<and> (CErr s = None \<longrightarrow> CErr s' = None \<or> InError s' \<and> \<not> InError s \<longrightarrow> reader_bytes (In s') = drop k (reader_bytes (In s)))"
  using assms
proof (induction close s arbitrary: s' rule: copyLoop.induct)
  case (1 close s)
  obtain s1 ew er where one: "copyOne s = (s1, ew, er)" by (metis prod_cases3)
  obtain bs nw where s1: "go_read copyBufSize (In s) = (bs, er, In s1)" "w_out (Out s1) = w_out (Out s) @ take nw bs" "nw \<le> length bs"
    "Written s1 = Written s + nw" "ew = None \<longrightarrow> nw = length bs" "CErr s1 = CErr s" "InError s1 = InError s"
    "w_next (Out s) = [] \<longrightarrow> ew = None \<and> w_next (Out s1) = []" "OutCaps s1 = OutCaps s"
    by (rule copyOne_spec [OF one])
  have bytes: "reader_bytes (In s) = bs @ reader_bytes (In s1)" by (rule go_read_bytes [OF s1(1)])
  show ?case
  proof (cases ew)
    case (Some e)
    have "sameData (s1\<lparr>CErr := Some e\<rparr>) s'"
      using "1.prems" Some by (auto simp: copyLoop.simps [of close s] one Let_def sameData_def dest: rstWriter_data split: if_splits)
    with s1 bytes show ?thesis by (intro exI [of _ nw]) (auto simp: sameData_def)
  next
    case None
    show ?thesis
    proof (cases er)
      case (Some e)
      with "1.prems" None have "readDone close e s1 = Some s'" by (simp add: copyLoop.simps [of close s] one)
      from readDone_data [OF this] s1 None bytes show ?thesis by (intro exI [of _ nw]) auto
    next
      case er: None
      with "1.prems" None have "copyLoop close s1 = Some s'" by (simp add: copyLoop.simps [of close s] one)
      from "1.IH" [OF one [symmetric] refl refl None er this] obtain k where k:
        "k \<le> length (reader_bytes (In s1))" "w_out (Out s') = w_out (Out s1) @ take k (reader_bytes (In s1))"
        "Written s' = Written s1 + k" "CErr s1 = None \<longrightarrow> CErr s' = None \<or> InError s' \<and> \<not> InError s1 \<longrightarrow> reader_bytes (In s') = drop k (reader_bytes (In s1))"
        by (elim exE conjE)
      have nw: "nw = length bs" using s1(5) None by blast
      show ?thesis
      proof (intro exI [of _ "nw + k"] conjI impI)
        show "nw + k \<le> length (reader_bytes (In s))" "Written s' = Written s + (nw + k)"
          "w_out (Out s') = w_out (Out s) @ take (nw + k) (reader_bytes (In s))"
          using k(1-3) s1(2,4) by (simp_all add: bytes nw)
        show "reader_bytes (In s') = drop (nw + k) (reader_bytes (In s))"
          if "CErr s = None" "CErr s' = None \<or> InError s' \<and> \<not> InError s"
          using k(4) s1(6,7) that by (simp add: bytes nw)
      qed
    qed
  qed
qed

text \<open>What \<open>closeWriter\<close> and \<open>rstWriter\<close> do to a writer that can be closed, and the calls that matter to
  the peer.\<close>

definition closable :: "caps \<Rightarrow> bool" where
  "closable c \<longleftrightarrow> isCloseWriter c \<or> isCloser c \<or> \<not> isResponseWriter c \<or> isFlusher c"

definition closing :: "copyEvent list \<Rightarrow> copyEvent list" where
  "closing es = filter (\<lambda>e. e \<noteq> InDeadline \<and> e \<noteq> OutFlush) es"

definition finEvents :: "caps \<Rightarrow> copyEvent list" where
  "finEvents c = (if isCloseWriter c then [OutCloseWrite] else if isCloser c then [OutClose]
     else if isResponseWriter c then [OutXClose] else [])"

lemma closeWriter_fin:
  assumes "closable (OutCaps s)"
  obtains s' where "closeWriter s = Some s'" "closing (events s') = closing (events s) @ finEvents (OutCaps s)" "sameData s s'"
  using assms by (cases "closeWriter s")
    (auto simp: closeWriter_def xClose_def closable_def closing_def finEvents_def sameData_def split: if_splits)

lemma copyOne_closing: "copyOne s = (s', ew, er) \<Longrightarrow> closing (events s') = closing (events s)"
  by (auto simp: copyOne_def closing_def Let_def split: if_splits prod.splits)

lemma copyLoop_complete:
  assumes "plain_reader (In s)" "w_next (Out s) = []" "closable (OutCaps s)"
  shows "\<exists>s'. copyLoop close s = Some s' \<and> w_out (Out s') = w_out (Out s) @ reader_bytes (In s)
    \<and> Written s' = Written s + length (reader_bytes (In s)) \<and> reader_bytes (In s') = [] \<and> CErr s' = CErr s \<and> InError s' = InError s
    \<and> closing (events s') = closing (events s) @ (if close then finEvents (OutCaps s) else [])"
  using assms
proof (induction close s rule: copyLoop.induct)
  case (1 close s)
  obtain s1 ew er where one: "copyOne s = (s1, ew, er)" by (metis prod_cases3)
  obtain bs nw where s1: "go_read copyBufSize (In s) = (bs, er, In s1)" "w_out (Out s1) = w_out (Out s) @ take nw bs" "nw \<le> length bs"
    "Written s1 = Written s + nw" "ew = None \<longrightarrow> nw = length bs" "CErr s1 = CErr s" "InError s1 = InError s"
    "w_next (Out s) = [] \<longrightarrow> ew = None \<and> w_next (Out s1) = []" "OutCaps s1 = OutCaps s"
    by (rule copyOne_spec [OF one])
  have bytes: "reader_bytes (In s) = bs @ reader_bytes (In s1)" by (rule go_read_bytes [OF s1(1)])
  note plain = go_read_plain [OF "1.prems"(1) s1(1)]
  have ew: "ew = None" "nw = length bs" "w_next (Out s1) = []" using s1 "1.prems"(2) by auto
  note ev = copyOne_closing [OF one]
  show ?case
  proof (cases er)
    case (Some e)
    then have e: "e = EOF" using s1(1) "1.prems"(1) by (cases "In s") (auto simp: plain_reader_def split: if_splits)
    obtain s2 where s2: "closeWriter s1 = Some s2" "closing (events s2) = closing (events s1) @ finEvents (OutCaps s1)" "sameData s1 s2"
      using closeWriter_fin [of s1] "1.prems"(3) s1(9) by metis
    have rd: "readDone close e s1 = Some (if close then s2 else s1)" using e s2(1) by (auto simp: readDone_def Let_def)
    show ?thesis using Some ew plain s1 s2(2,3) bytes ev
      by (auto simp: copyLoop.simps [of close s] one rd sameData_def)
  next
    case None
    from "1.IH" [OF one [symmetric] refl refl ew(1) None] plain ew s1 "1.prems"(3) bytes ev
    show ?thesis by (auto simp: copyLoop.simps [of close s] one None)
  qed
qed

lemma Copy_conserves:
  assumes "Copy close s sid = Some (s', sid')"
  shows "\<exists>k \<le> length (reader_bytes (In s)). w_out (Out s') = w_out (Out s) @ take k (reader_bytes (In s))
    \<and> Written s' = Written s + k
    \<and> (\<not> CanSplice (InCaps s) (OutCaps s) \<longrightarrow> CErr s = None \<longrightarrow> CErr s' = None \<or> InError s' \<and> \<not> InError s
        \<longrightarrow> reader_bytes (In s') = drop k (reader_bytes (In s)))"
proof (cases "CanSplice (InCaps s) (OutCaps s)")
  case True
  obtain n err r w where cp: "io_copy (In s) (Out s) = (n, err, r, w)" by (metis prod_cases4)
  from assms True cp have "Out s' = w" "Written s' = Written s + n"
    by (auto simp: Copy_def Let_def sameData_def bind_eq_Some_conv split: option.splits dest!: rstWriter_data)
  with True io_copy_prefix [OF cp] show ?thesis by auto
next
  case False
  define s1 where "s1 = (if ID s = [] then s\<lparr>ID := nat_digits (unat (sid + 1))\<rparr> else s)"
  have "copyLoop close s1 = Some s'"
    using assms False by (auto simp: Copy_def s1_def bind_eq_Some_conv split: if_splits)
  moreover have "In s1 = In s" "Out s1 = Out s" "Written s1 = Written s" "CErr s1 = CErr s" "InError s1 = InError s"
    by (simp_all add: s1_def)
  ultimately show ?thesis using copyLoop_conserves [of close s1 s'] False by simp
qed

lemma Copy_complete:
  assumes "plain_reader (In s)" "w_next (Out s) = []" "closable (OutCaps s)"
  shows "\<exists>s' sid'. Copy close s sid = Some (s', sid') \<and> w_out (Out s') = w_out (Out s) @ reader_bytes (In s)
    \<and> Written s' = Written s + length (reader_bytes (In s)) \<and> CErr s' = CErr s \<and> InError s' = InError s
    \<and> closing (events s') = closing (events s) @ (if close \<and> \<not> CanSplice (InCaps s) (OutCaps s) then finEvents (OutCaps s) else [])"
proof (cases "CanSplice (InCaps s) (OutCaps s)")
  case True
  from io_copy_complete [OF assms(1,2)] obtain r' where
    "io_copy (In s) (Out s) = (length (reader_bytes (In s)), None, r', (Out s)\<lparr>w_out := w_out (Out s) @ reader_bytes (In s)\<rparr>)" by blast
  with True show ?thesis by (simp add: Copy_def)
next
  case False
  define s1 where "s1 = (if ID s = [] then s\<lparr>ID := nat_digits (unat (sid + 1))\<rparr> else s)"
  have same: "In s1 = In s" "Out s1 = Out s" "Written s1 = Written s" "CErr s1 = CErr s" "InError s1 = InError s"
    "OutCaps s1 = OutCaps s" "events s1 = events s"
    by (simp_all add: s1_def)
  have copy: "Copy close s sid = do { s \<leftarrow> copyLoop close s1; Some (s, if ID s1 = ID s then sid else sid + 1) }
    \<or> (\<exists>n. Copy close s sid = do { s \<leftarrow> copyLoop close s1; Some (s, n) })"
    using False by (auto simp: Copy_def s1_def)
  from copyLoop_complete [of s1 close] assms same obtain s' where
    "copyLoop close s1 = Some s'" "w_out (Out s') = w_out (Out s) @ reader_bytes (In s)"
    "Written s' = Written s + length (reader_bytes (In s))" "CErr s' = CErr s" "InError s' = InError s"
    "closing (events s') = closing (events s) @ (if close then finEvents (OutCaps s) else [])"
    by auto
  with copy False show ?thesis by auto
qed

section \<open>Properties\<close>

text \<open>A copy never corrupts the stream: whatever the reads, short writes and errors, the bytes the
  destination accepted are a prefix of the bytes of the source, \<open>Written\<close> counts exactly them, and
  unless a write failed every byte taken from the source was delivered.\<close>

theorem copy_conserves:
  assumes "Copy close s sid = Some (s', sid')" "CErr s = None" "\<not> InError s"
  shows "\<exists>k \<le> length (reader_bytes (In s)). w_out (Out s') = w_out (Out s) @ take k (reader_bytes (In s))
    \<and> Written s' = Written s + k
    \<and> (\<not> CanSplice (InCaps s) (OutCaps s) \<and> (CErr s' = None \<or> InError s') \<longrightarrow> reader_bytes (In s') = drop k (reader_bytes (In s)))"
  using Copy_conserves [OF assms(1)] assms(2,3) by blast

definition tcpCaps :: caps where
  "tcpCaps = \<lparr>isTCPConn = True, isConn = True, isCloser = True, isCloseWriter = True, isResponseWriter = False, isFlusher = False\<rparr>"

definition respCaps :: caps where
  "respCaps = \<lparr>isTCPConn = False, isConn = False, isCloser = False, isCloseWriter = False, isResponseWriter = True, isFlusher = True\<rparr>"

lemmas copy_eval = Copy_def CanSplice_def copyLoop.simps copyOne_def readDone_def rstWriter_def closeWriter_def xClose_def
  go_write_def emitIf_def emit_def copyBufSize_def NewCopier_def tcpCaps_def respCaps_def

theorem copy_conserves_witness:
  "let s = NewCopier [([1, 2], None), ([3, 4], None)] tcpCaps \<lparr>w_out = [], w_next = [(2, None), (1, None)]\<rparr> respCaps
   in \<exists>s' sid'. Copy True s 0 = Some (s', sid') \<and> CErr s' = Some ErrShortWrite
      \<and> (\<exists>k \<le> 4. w_out (Out s') = take k [1, 2, 3, 4] \<and> Written s' = k)"
proof -
  let ?s = "NewCopier [([1, 2], None), ([3, 4], None)] tcpCaps \<lparr>w_out = [], w_next = [(2, None), (1, None)]\<rparr> respCaps"
  have s: "CErr ?s = None" "\<not> InError ?s" "reader_bytes (In ?s) = [1, 2, 3, 4]" "Out ?s = \<lparr>w_out = [], w_next = [(2, None), (1, None)]\<rparr>" "Written ?s = 0"
    by (simp_all add: NewCopier_def io_simps)
  obtain s' sid' where run: "Copy True ?s 0 = Some (s', sid')" "CErr s' = Some ErrShortWrite"
    by (simp add: copy_eval)
  from copy_conserves [OF run(1) s(1,2)] s(3-5) run show ?thesis unfolding Let_def
    by (intro exI [of _ s'] exI [of _ sid']) auto
qed

text \<open>A copy that is not spliced relays everything and then the end of the stream: from a source that
  ends normally to a destination that accepts every write, all bytes arrive, no error is recorded, and
  with \<open>close\<close> the destination is told of the end exactly once, by \<open>CloseWrite\<close> if it has it.\<close>

theorem copy_complete:
  assumes "plain_reader (In s)" "w_next (Out s) = []" "closable (OutCaps s)" "\<not> CanSplice (InCaps s) (OutCaps s)"
  shows "\<exists>s' sid'. Copy close s sid = Some (s', sid') \<and> w_out (Out s') = w_out (Out s) @ reader_bytes (In s)
    \<and> Written s' = Written s + length (reader_bytes (In s)) \<and> CErr s' = CErr s \<and> InError s' = InError s
    \<and> closing (events s') = closing (events s) @ (if close then finEvents (OutCaps s) else [])"
  using Copy_complete [OF assms(1-3), of close sid] assms(4) by simp

theorem copy_complete_witness:
  "let s = NewCopier [([1, 2], None), ([], None), ([3], None)] tcpCaps \<lparr>w_out = [], w_next = []\<rparr> respCaps
   in \<exists>s' sid'. Copy True s 0 = Some (s', sid') \<and> w_out (Out s') = [1, 2, 3] \<and> CErr s' = None \<and> closing (events s') = [OutXClose]"
proof -
  let ?s = "NewCopier [([1, 2], None), ([], None), ([3], None)] tcpCaps \<lparr>w_out = [], w_next = []\<rparr> respCaps"
  have s: "plain_reader (In ?s)" "w_next (Out ?s) = []" "closable (OutCaps ?s)" "\<not> CanSplice (InCaps ?s) (OutCaps ?s)"
    "reader_bytes (In ?s) = [1, 2, 3]" "CErr ?s = None" "w_out (Out ?s) = []" "finEvents (OutCaps ?s) = [OutXClose]" "events ?s = []"
    by (simp_all add: NewCopier_def plain_reader_def closable_def CanSplice_def tcpCaps_def respCaps_def io_simps finEvents_def)
  from copy_complete [OF s(1-4), of True 0] s(5-) show ?thesis unfolding Let_def by (auto simp: closing_def)
qed

text \<open>Between two TCP connections the end of the stream is not passed on: the spliced copy delivers
  all bytes but calls neither \<open>CloseWrite\<close> nor \<open>Close\<close> on the destination, although \<open>close\<close> was asked
  for. The peer sees no end of stream until the other direction of the proxy is done too.\<close>

theorem splice_no_fin:
  assumes "plain_reader (In s)" "w_next (Out s) = []" "CanSplice (InCaps s) (OutCaps s)"
  shows "\<exists>s' sid'. Copy True s sid = Some (s', sid') \<and> w_out (Out s') = w_out (Out s) @ reader_bytes (In s) \<and> events s' = events s"
proof -
  from io_copy_complete [OF assms(1,2)] obtain r' where
    "io_copy (In s) (Out s) = (length (reader_bytes (In s)), None, r', (Out s)\<lparr>w_out := w_out (Out s) @ reader_bytes (In s)\<rparr>)" by blast
  with assms(3) show ?thesis by (simp add: Copy_def)
qed

theorem splice_no_fin_witness:
  "let s = NewCopier [([1, 2], None)] tcpCaps \<lparr>w_out = [], w_next = []\<rparr> tcpCaps
   in \<exists>s' sid'. Copy True s 0 = Some (s', sid') \<and> w_out (Out s') = [1, 2] \<and> events s' = []"
proof -
  let ?s = "NewCopier [([1, 2], None)] tcpCaps \<lparr>w_out = [], w_next = []\<rparr> tcpCaps"
  have s: "plain_reader (In ?s)" "w_next (Out ?s) = []" "CanSplice (InCaps ?s) (OutCaps ?s)"
    "reader_bytes (In ?s) = [1, 2]" "w_out (Out ?s) = []" "events ?s = []"
    by (simp_all add: NewCopier_def plain_reader_def CanSplice_def tcpCaps_def io_simps)
  from splice_no_fin [OF s(1-3), of 0] s(4-) show ?thesis unfolding Let_def by auto
qed

lemma proxyCopiers_fields:
  assumes "proxyCopiers outConn inp w dest ids = (s1, s2)"
  shows "In s1 = fst inp" "Out s1 = e_out outConn" "OutCaps s1 = e_caps outConn" "CErr s1 = None"
    "In s2 = e_in outConn" "Out s2 = fst w" "OutCaps s2 = snd w" "CErr s2 = None"
  using assms by (auto simp: proxyCopiers_def NewCopier_def Let_def split: if_splits)

lemma proxyFinish_fields [simp]:
  "p1 (proxyFinish first i wc s1 s2) = s1" "p2 (proxyFinish first i wc s1 s2) = s2"
  "CloseOutConn \<in> set (p_closed (proxyFinish first i wc s1 s2))"
  "i \<Longrightarrow> CloseIn \<in> set (p_closed (proxyFinish first i wc s1 s2))"
  "wc \<Longrightarrow> CloseW \<in> set (p_closed (proxyFinish first i wc s1 s2))"
  by (simp_all add: proxyFinish_def proxyWait1_def proxyWait2_def Let_def)

lemma proxyFinish_closed:
  assumes "CErr s1 = None" "CErr s2 = None"
  shows "p_closed (proxyFinish first i wc s1 s2) = [CloseOutConn] @ (if i then [CloseIn] else []) @ (if wc then [CloseW] else [])"
  using assms by (simp add: proxyFinish_def proxyWait1_def proxyWait2_def Let_def)

text \<open>A run in which both sides end normally: what is relayed and what is closed.\<close>

lemma Proxy_complete:
  assumes "plain_reader (fst inp)" "plain_reader (e_in outConn)" "w_next (e_out outConn) = []" "w_next (fst w) = []"
    and "closable (e_caps outConn)" "closable (snd w)"
  obtains p cnt' where "Proxy first outConn inp w dest cnt = Some (None, p, cnt')"
    "w_out (Out (p1 p)) = w_out (e_out outConn) @ reader_bytes (fst inp)"
    "w_out (Out (p2 p)) = w_out (fst w) @ reader_bytes (e_in outConn)"
    "InClose \<notin> set (events (p1 p))"
    "p_closed p = [CloseOutConn] @ (if isCloser (snd inp) then [CloseIn] else []) @ (if isCloser (snd w) then [CloseW] else [])"
proof -
  obtain s1 s2 where s: "proxyCopiers outConn inp w dest (itoa (sint (if dest \<noteq> [] then fst cnt + 1 else fst cnt))) = (s1, s2)"
    by fastforce
  note f = proxyCopiers_fields [OF s]
  have ev: "events s1 = []" using s by (auto simp: proxyCopiers_def NewCopier_def Let_def split: if_splits)
  obtain t1 m1 where t1: "Copy True s1 (snd cnt) = Some (t1, m1)" "w_out (Out t1) = w_out (e_out outConn) @ reader_bytes (fst inp)" "CErr t1 = None"
      "closing (events t1) = (if \<not> CanSplice (InCaps s1) (OutCaps s1) then finEvents (OutCaps s1) else [])"
    using Copy_complete [of s1 True "snd cnt"] assms f ev by (auto simp: closing_def)
  obtain t2 m2 where t2: "Copy True s2 m1 = Some (t2, m2)" "w_out (Out t2) = w_out (fst w) @ reader_bytes (e_in outConn)" "CErr t2 = None"
    using Copy_complete [of s2 True m1] assms f by auto
  have "InClose \<notin> set (closing (events t1))" unfolding t1(4) by (simp add: finEvents_def)
  hence "InClose \<notin> set (events t1)" by (simp add: closing_def)
  moreover have "Proxy first outConn inp w dest cnt =
      Some (None, proxyFinish first (isCloser (snd inp)) (isCloser (snd w)) t1 t2, if dest \<noteq> [] then fst cnt + 1 else fst cnt, m2)"
    using t1 t2 s by (simp add: Proxy_def proxyError_def)
  ultimately show ?thesis using t1 t2 proxyFinish_closed by (intro that) auto
qed

text \<open>C9: The proxy is safe in both directions: whatever errors occur on either side and whichever copy ends
  first, what is written to each side is a prefix of what the other side sent; the error returned is
  nil exactly when neither copy recorded one; and when it returns every end has been closed.\<close>

theorem proxy_safe:
  assumes "Proxy first outConn inp w dest cnt = Some (err, p, cnt')"
  shows "(\<exists>k. w_out (Out (p1 p)) = w_out (e_out outConn) @ take k (reader_bytes (fst inp)))
    \<and> (\<exists>k. w_out (Out (p2 p)) = w_out (fst w) @ take k (reader_bytes (e_in outConn)))
    \<and> (err = None \<longleftrightarrow> CErr (p1 p) = None \<and> CErr (p2 p) = None)
    \<and> CloseOutConn \<in> set (p_closed p) \<and> (isCloser (snd inp) \<longrightarrow> CloseIn \<in> set (p_closed p))
    \<and> (isCloser (snd w) \<longrightarrow> CloseW \<in> set (p_closed p))"
proof -
  obtain s1 s2 where s: "proxyCopiers outConn inp w dest (itoa (sint (if dest \<noteq> [] then fst cnt + 1 else fst cnt))) = (s1, s2)"
    by fastforce
  obtain n1 n2 where r: "Copy True s1 (snd cnt) = Some (p1 p, n1)" "Copy True s2 n1 = Some (p2 p, n2)"
    and e: "err = proxyError (CErr (p1 p)) (CErr (p2 p)) (InError (p1 p)) (InError (p2 p))"
    and f: "p = proxyFinish first (isCloser (snd inp)) (isCloser (snd w)) (p1 p) (p2 p)"
    using assms s by (auto simp: Proxy_def bind_eq_Some_conv)
  note fields = proxyCopiers_fields [OF s]
  have "err = None \<longleftrightarrow> CErr (p1 p) = None \<and> CErr (p2 p) = None"
    using e by (auto simp: proxyError_def split: option.splits)
  moreover have "CloseOutConn \<in> set (p_closed p)" "isCloser (snd inp) \<longrightarrow> CloseIn \<in> set (p_closed p)"
    "isCloser (snd w) \<longrightarrow> CloseW \<in> set (p_closed p)"
    by (subst f, simp)+
  moreover obtain k where "w_out (Out (p1 p)) = w_out (e_out outConn) @ take k (reader_bytes (fst inp))"
    using Copy_conserves [OF r(1)] unfolding fields by (elim exE conjE)
  moreover obtain k where "w_out (Out (p2 p)) = w_out (fst w) @ take k (reader_bytes (e_in outConn))"
    using Copy_conserves [OF r(2)] unfolding fields by (elim exE conjE)
  ultimately show ?thesis by metis
qed

theorem proxy_safe_witness:
  "let outConn = \<lparr>e_in = [([7, 8], None)], e_out = \<lparr>w_out = [], w_next = []\<rparr>, e_caps = tcpCaps\<rparr>;
       inp = ([([1], None), ([2], Some (ErrMsg ''reset''))], respCaps); w = (\<lparr>w_out = [], w_next = []\<rparr>, respCaps)
   in \<exists>p cnt'. Proxy True outConn inp w [] (0, 0) = Some (Some (ErrMsg ''reset''), p, cnt') \<and> w_out (Out (p1 p)) = [1, 2]
      \<and> w_out (Out (p2 p)) = [7, 8] \<and> CloseOutConn \<in> set (p_closed p)"
proof -
  let ?out = "\<lparr>e_in = [([7, 8], None)], e_out = \<lparr>w_out = [], w_next = []\<rparr>, e_caps = tcpCaps\<rparr>"
  let ?inp = "([([1], None), ([2], Some (ErrMsg ''reset''))], respCaps)"
  let ?w = "(\<lparr>w_out = [], w_next = []\<rparr>, respCaps) :: writer \<times> caps"
  let ?s1 = "NewCopier (fst ?inp) respCaps \<lparr>w_out = [], w_next = []\<rparr> tcpCaps"
  let ?s2 = "NewCopier [([7, 8], None)] tcpCaps \<lparr>w_out = [], w_next = []\<rparr> respCaps"
  obtain t1 n1 where c1: "Copy True ?s1 0 = Some (t1, n1)" "w_out (Out t1) = [1, 2]" "CErr t1 = Some (ErrMsg ''reset'')"
    by (simp add: copy_eval)
  obtain t2 n2 where c2: "Copy True ?s2 n1 = Some (t2, n2)" "w_out (Out t2) = [7, 8]" "CErr t2 = None"
    by (simp add: copy_eval)
  obtain p cnt' where run: "Proxy True ?out ?inp ?w [] (0, 0) = Some (Some (ErrMsg ''reset''), p, cnt')" "w_out (Out (p1 p)) = [1, 2]"
      "w_out (Out (p2 p)) = [7, 8]"
    using c1 c2 by (simp add: Proxy_def proxyCopiers_def proxyError_def)
  from proxy_safe [OF run(1)] run show ?thesis unfolding Let_def by auto
qed

text \<open>C2: The proxy relays: when both peers end their streams normally and accept what is written to them,
  \<open>Proxy\<close> returns nil, and every byte of each side has reached the other.\<close>

theorem proxy_relays:
  assumes "plain_reader (fst inp)" "plain_reader (e_in outConn)" "w_next (e_out outConn) = []" "w_next (fst w) = []"
    and "closable (e_caps outConn)" "closable (snd w)"
  shows "\<exists>p cnt'. Proxy first outConn inp w dest cnt = Some (None, p, cnt')
    \<and> w_out (Out (p1 p)) = w_out (e_out outConn) @ reader_bytes (fst inp)
    \<and> w_out (Out (p2 p)) = w_out (fst w) @ reader_bytes (e_in outConn)"
  by (rule Proxy_complete [OF assms]) auto

theorem proxy_relays_witness:
  "let outConn = \<lparr>e_in = [([7, 8], None)], e_out = \<lparr>w_out = [], w_next = []\<rparr>, e_caps = tcpCaps\<rparr>;
       inp = ([([1], None), ([2], None)], respCaps); w = (\<lparr>w_out = [], w_next = []\<rparr>, respCaps)
   in \<exists>p cnt'. Proxy False outConn inp w ''host:1'' (0, 0) = Some (None, p, cnt') \<and> w_out (Out (p1 p)) = [1, 2]
      \<and> w_out (Out (p2 p)) = [7, 8]"
proof -
  let ?out = "\<lparr>e_in = [([7, 8], None)], e_out = \<lparr>w_out = [], w_next = []\<rparr>, e_caps = tcpCaps\<rparr>"
  let ?inp = "([([1], None), ([2], None)], respCaps)"
  let ?w = "(\<lparr>w_out = [], w_next = []\<rparr>, respCaps) :: writer \<times> caps"
  have h: "plain_reader (fst ?inp)" "plain_reader (e_in ?out)" "w_next (e_out ?out) = []" "w_next (fst ?w) = []"
    "closable (e_caps ?out)" "closable (snd ?w)"
    by (simp_all add: plain_reader_def closable_def tcpCaps_def respCaps_def)
  from proxy_relays [OF h, of False "''host:1''" "(0, 0)"] show ?thesis unfolding Let_def by (auto simp: io_simps)
qed

end
