(* ===== verification/Nio_Stream.thy ===== *)
theory Nio_Stream
  imports Nio_Buffer Nio_Copy "HOL-Library.List_Lexorder"
begin

text \<open>
  \<^verbatim>\<open>src/nio/stream_in_out.go\<close>: \<open>InOutStream\<close>, a connection with a read and a write buffer, counters,
  errors, header exchange, proxying and gRPC framing.

  A \<open>stream\<close> record has the fields that the code reads or writes. \<open>In\<close> and \<open>Out\<close> are a reader and a
  writer with what else they implement (\<open>caps\<close>). Calls on them that are not reads or writes, and
  callbacks, are logged in \<open>st_events\<close>. Time stamps and log output are left out. The buffer and chunk
  pools are global in the program and a field here. Where a \<open>Close\<close> or \<open>CloseWrite\<close> of another value
  returns an error, that error is an argument. \<open>None\<close> is a panic or a call that never returns.
\<close>

datatype streamEvent = EvInClose | EvInDeadline | EvOutClose | EvOutCloseWrite | EvOutFlush | EvOutXClose
  | EvCtxCancel | EvReadCloser | EvOutReadDeadline | EvOutWriteDeadline | EvWriteHeader int | EvPostDial | EvBodyClose

type_synonym header = "(string \<times> string list) list"

record stream =
  ReadErr :: "goerr option"
  WriteErr :: "goerr option"
  ProxyReadErr :: "goerr option"
  ProxyWriteErr :: "goerr option"
  SentBytes :: nat
  SentPackets :: nat
  RcvdBytes :: nat
  RcvdPackets :: nat
  st_In :: reader
  st_InCaps :: caps
  st_Out :: writer
  st_OutCaps :: caps
  rbuffer :: "buffer option"
  wbuffer :: "buffer option"
  OutHeader :: "header option"
  InHeader :: header
  ReadCloser :: bool
  ctxSet :: bool
  PostDialHandler :: bool
  ServerClose :: bool
  ClientClose :: bool
  Closed :: bool
  Dest :: string
  LocalA :: "string option"
  RemoteA :: "string option"
  DestAddr :: "string option"
  ListenerAddr :: "string option"
  lastFrame :: "buffer option"
  rtCh :: "goerr option option" \<comment> \<open>\<open>None\<close>: the channel is nil; otherwise the value that it delivers\<close>
  ResponseStatus :: "int option" \<comment> \<open>\<open>None\<close>: \<open>Response\<close> is nil\<close>
  st_pools :: nio_pools
  st_events :: "streamEvent list"

definition noCaps :: caps where
  "noCaps = \<lparr>isTCPConn = False, isConn = False, isCloser = False, isCloseWriter = False, isResponseWriter = False, isFlusher = False\<rparr>"

definition NewStream :: "nio_pools \<Rightarrow> stream" where
  "NewStream p = \<lparr>ReadErr = None, WriteErr = None, ProxyReadErr = None, ProxyWriteErr = None,
     SentBytes = 0, SentPackets = 0, RcvdBytes = 0, RcvdPackets = 0,
     st_In = [], st_InCaps = noCaps, st_Out = \<lparr>w_out = [], w_next = []\<rparr>, st_OutCaps = noCaps,
     rbuffer = None, wbuffer = None, OutHeader = None, InHeader = [], ReadCloser = False, ctxSet = False,
     PostDialHandler = False, ServerClose = False, ClientClose = False, Closed = False, Dest = [],
     LocalA = None, RemoteA = None, DestAddr = None, ListenerAddr = None, lastFrame = None, rtCh = None,
     ResponseStatus = None, st_pools = p, st_events = []\<rparr>"

definition GetStream :: "writer \<times> caps \<Rightarrow> reader \<times> caps \<Rightarrow> nio_pools \<Rightarrow> stream" where
  "GetStream out inp p = (NewStream p)\<lparr>st_In := fst inp, st_InCaps := snd inp, st_Out := fst out, st_OutCaps := snd out\<rparr>"

definition log_ev :: "bool \<Rightarrow> streamEvent \<Rightarrow> stream \<Rightarrow> stream" where
  "log_ev c e s = (if c then s\<lparr>st_events := st_events s @ [e]\<rparr> else s)"

section \<open>Buffers\<close>

text \<open>Both buffers are made by \<open>GetBuffer(0, 0)\<close>, of 32K. That is above the largest pooled size, so the
  choice of the pool does not matter.\<close>

definition RBuffer :: "stream \<Rightarrow> buffer \<times> stream" where
  "RBuffer s = (case rbuffer s of Some b \<Rightarrow> (b, s)
     | None \<Rightarrow> let (br, p) = GetBuffer None 0 0 (st_pools s) in (br, s\<lparr>rbuffer := Some br, st_pools := p\<rparr>))"

definition WBuffer :: "stream \<Rightarrow> buffer \<times> stream" where
  "WBuffer s = (case wbuffer s of Some b \<Rightarrow> (b, s)
     | None \<Rightarrow> let (br, p) = GetBuffer None 0 0 (st_pools s) in (br, s\<lparr>wbuffer := Some br, st_pools := p\<rparr>))"

definition stream_Fill :: "stream \<Rightarrow> nat \<Rightarrow> ((byte list \<times> goerr option) \<times> stream) option" where
  "stream_Fill s nb = (let (b, s) = RBuffer s in do {
     (res, b, r) \<leftarrow> Buffer_Fill b (st_In s) nb;
     Some (res, s\<lparr>rbuffer := Some b, st_In := r\<rparr>) })"

text \<open>The loop of \<open>Skip\<close>, with \<open>n > 0\<close> bytes to go.\<close>

partial_function (option) skipLoop :: "stream \<Rightarrow> int \<Rightarrow> stream option" where
  "skipLoop s n =
     Option.bind (stream_Fill s 0) (\<lambda>x.
       let bb = fst (fst x); s = snd x in
       if snd (fst x) \<noteq> None then Some s
       else case rbuffer s of None \<Rightarrow> None | Some b \<Rightarrow>
         if int (length bb) < n then
           Option.bind (Buffer_Compact b) (\<lambda>b. skipLoop (s\<lparr>rbuffer := Some b\<rparr>) (n - int (length bb)))
         else if int (length bb) = n then
           Option.bind (Buffer_Compact b) (\<lambda>b. Some (s\<lparr>rbuffer := Some b\<rparr>))
         else Some (s\<lparr>rbuffer := Some (snd (Buffer_Skip b (nat n)))\<rparr>))"

definition stream_Skip :: "stream \<Rightarrow> nat \<Rightarrow> stream option" where
  "stream_Skip s n = (case rbuffer s of None \<Rightarrow> None
     | Some b \<Rightarrow> let (k, b) = Buffer_Skip b n; s = s\<lparr>rbuffer := Some b\<rparr>; n = int n - k in
         if n > 0 then skipLoop s n else Some s)"

definition stream_ReadByte :: "stream \<Rightarrow> ((byte \<times> goerr option) \<times> stream) option" where
  "stream_ReadByte s = (let (b, s) = RBuffer s in do {
     ((_, err), s) \<leftarrow> (if Buffer_IsEmpty (Some b) then stream_Fill s 0 else Some (([], None), s));
     if err \<noteq> None then Some ((0, err), s)
     else case rbuffer s of None \<Rightarrow> None
       | Some b \<Rightarrow> do { (res, b, r) \<leftarrow> Buffer_ReadByte b (st_In s); Some (res, s\<lparr>rbuffer := Some b, st_In := r\<rparr>) } })"

section \<open>Reading, writing, closing\<close>

definition stream_Context :: "stream \<Rightarrow> stream" where
  "stream_Context s = s\<lparr>ctxSet := True\<rparr>"

definition stream_Write :: "byte list \<Rightarrow> stream \<Rightarrow> (nat \<times> goerr option) \<times> stream" where
  "stream_Write b s =
     (let (n, err, w) = go_write b (st_Out s); s = s\<lparr>st_Out := w\<rparr> in
      case err of Some e \<Rightarrow> ((n, Some e), s\<lparr>WriteErr := Some e\<rparr>)
      | None \<Rightarrow> ((n, None), log_ev (isFlusher (st_OutCaps s)) EvOutFlush
                  (s\<lparr>SentBytes := SentBytes s + n, SentPackets := SentPackets s + 1\<rparr>)))"

definition stream_Flush :: "stream \<Rightarrow> stream" where
  "stream_Flush s = log_ev (isFlusher (st_OutCaps s)) EvOutFlush s"

definition stream_Read :: "stream \<Rightarrow> nat \<Rightarrow> ((byte list \<times> goerr option) \<times> stream) option" where
  "stream_Read s d =
     (if Buffer_Size (rbuffer s) > 0 then
        (case rbuffer s of None \<Rightarrow> None | Some b \<Rightarrow> do {
           ((bs, err), b) \<leftarrow> Buffer_ReadData b d;
           Some ((bs, err), s\<lparr>rbuffer := Some b, RcvdBytes := RcvdBytes s + length bs, RcvdPackets := RcvdPackets s + 1\<rparr>) })
      else
        (let (bs, err, r) = go_read d (st_In s);
             s = s\<lparr>st_In := r, RcvdBytes := RcvdBytes s + length bs, RcvdPackets := RcvdPackets s + 1\<rparr>;
             s = (if err \<noteq> None then (log_ev (ReadCloser s) EvReadCloser s)\<lparr>ReadErr := err, ReadCloser := False\<rparr> else s)
         in Some ((bs, err), s)))"

text \<open>\<open>Close\<close>: the deferred calls recycle the write buffer, then the read buffer, after \<open>In\<close> is closed.\<close>

definition recycleBuffers :: "stream \<Rightarrow> stream" where
  "recycleBuffers s =
     (let s = (case wbuffer s of None \<Rightarrow> s
                | Some b \<Rightarrow> s\<lparr>st_pools := snd (Buffer_Recycle b (st_pools s)), wbuffer := None\<rparr>)
      in case rbuffer s of None \<Rightarrow> s
         | Some b \<Rightarrow> s\<lparr>st_pools := snd (Buffer_Recycle b (st_pools s)), rbuffer := None\<rparr>)"

definition stream_Close :: "goerr option \<Rightarrow> stream \<Rightarrow> goerr option \<times> stream" where
  "stream_Close inErr s =
     (if Closed s then (None, s)
      else (inErr, recycleBuffers (log_ev True EvInClose (log_ev (ctxSet s) EvCtxCancel (s\<lparr>Closed := True\<rparr>)))))"

definition stream_CloseWrite :: "goerr option \<Rightarrow> stream \<Rightarrow> (goerr option \<times> stream) option" where
  "stream_CloseWrite outErr s =
     (if ServerClose s then Some (None, s)
      else let s = s\<lparr>ServerClose := True\<rparr> in
        if isCloseWriter (st_OutCaps s) then Some (outErr, log_ev True EvOutCloseWrite s)
        else if isCloser (st_OutCaps s) then Some (outErr, log_ev True EvOutClose s)
        else if isResponseWriter (st_OutCaps s) then
          (if isFlusher (st_OutCaps s) then Some (None, log_ev True EvOutFlush (log_ev True EvOutXClose s)) else None)
        else Some (None, s))"

definition stream_SetReadDeadline :: "stream \<Rightarrow> stream" where
  "stream_SetReadDeadline s = log_ev (isConn (st_OutCaps s)) EvOutReadDeadline s"

definition stream_SetWriteDeadline :: "stream \<Rightarrow> stream" where
  "stream_SetWriteDeadline s = log_ev (isConn (st_OutCaps s)) EvOutWriteDeadline s"

definition stream_SetDeadline :: "stream \<Rightarrow> stream" where
  "stream_SetDeadline s = stream_SetWriteDeadline (stream_SetReadDeadline s)"

text \<open>\<open>Header\<close>: the header map of a response writer (an argument), or the stream's own, made when nil.\<close>

definition stream_Header :: "header \<Rightarrow> stream \<Rightarrow> header \<times> stream" where
  "stream_Header rwHeader s =
     (if isResponseWriter (st_OutCaps s) then (rwHeader, s)
      else case OutHeader s of Some h \<Rightarrow> (h, s) | None \<Rightarrow> ([], s\<lparr>OutHeader := Some []\<rparr>))"

definition stream_WriteHeader :: "int \<Rightarrow> stream \<Rightarrow> stream" where
  "stream_WriteHeader status s = log_ev (isResponseWriter (st_OutCaps s)) (EvWriteHeader status) s"

definition stream_PostDial :: "stream \<Rightarrow> stream" where
  "stream_PostDial s = log_ev (PostDialHandler s) EvPostDial s"

text \<open>Addresses as their text. The arguments are what \<open>LocalAddr\<close> and \<open>RemoteAddr\<close> of \<open>Out\<close> give, and
  the address of the request as resolved by \<open>net.ResolveTCPAddr\<close> (\<open>None\<close>: no request, no address, or
  not resolved).\<close>

definition stream_LocalAddr :: "string \<Rightarrow> stream \<Rightarrow> string option" where
  "stream_LocalAddr outLocal s = (case LocalA s of Some a \<Rightarrow> Some a
     | None \<Rightarrow> if isConn (st_OutCaps s) then Some outLocal else ListenerAddr s)"

definition stream_RemoteAddr :: "string \<Rightarrow> string option \<Rightarrow> stream \<Rightarrow> string" where
  "stream_RemoteAddr outRemote reqAddr s = (case RemoteA s of Some a \<Rightarrow> a
     | None \<Rightarrow> if isConn (st_OutCaps s) then outRemote
       else case reqAddr of Some a \<Rightarrow> a
       | None \<Rightarrow> (case DestAddr s of Some a \<Rightarrow> a | None \<Rightarrow> Dest s))"

section \<open>Copying\<close>

text \<open>\<open>GetDataBufferChunk(16 * 64 * 1024)\<close> is above every size class: a new array of that size.\<close>

definition streamBufSize :: nat where
  "streamBufSize = 16 * 64 * 1024"

text \<open>The loop of \<open>CopyBuffered\<close>: the bytes written so far, and the two ends, which are not those of the
  stream in general. A read error other than \<open>io.EOF\<close> returns the named result \<open>err\<close>, which is still
  nil then.\<close>

function copyBufferedLoop :: "bool \<Rightarrow> nat \<Rightarrow> writer \<Rightarrow> reader \<Rightarrow> stream \<Rightarrow> (nat \<times> goerr option) \<times> writer \<times> reader \<times> stream" where
  "copyBufferedLoop srcIsRemote written dst src s =
     (let (bs, er, src') = go_read streamBufSize src; nr = length bs in
      if er \<noteq> None \<and> er \<noteq> Some EOF then
        ((written, if str_contains (err_string (the er)) ''NetworkIdleTimeout'' then Some EOF else None), dst, src', s)
      else if nr = 0 then ((written, Some EOF), dst, src', s)
      else
        (let s' = (if srcIsRemote then s\<lparr>RcvdPackets := RcvdPackets s + 1, RcvdBytes := RcvdBytes s + nr\<rparr>
                   else s\<lparr>SentPackets := SentPackets s + 1, SentBytes := SentBytes s + nr\<rparr>);
             (nw, ew, dst') = go_write bs dst
         in if ew \<noteq> None then ((written + nw, ew), dst', src', s')
            else if nr \<noteq> nw then ((written + nw, Some ErrShortWrite), dst', src', s')
            else if er \<noteq> None then ((written + nw, er), dst', src', s')
            else copyBufferedLoop srcIsRemote (written + nw) dst' src' s'))"
  by pat_completeness auto
termination
  by (relation "measure (\<lambda>(r, n, d, src, s). reader_size src)")
    (auto simp: streamBufSize_def dest!: sym [of "(_, _, _)" "go_read _ _"] go_read_size)

declare copyBufferedLoop.simps [simp del]

definition CopyBuffered :: "bool \<Rightarrow> writer \<Rightarrow> reader \<Rightarrow> stream \<Rightarrow> (nat \<times> goerr option) \<times> writer \<times> reader \<times> stream" where
  "CopyBuffered srcIsRemote dst src s = copyBufferedLoop srcIsRemote 0 dst src s"

text \<open>\<open>ReadFrom\<close>: from a client connection to \<open>Out\<close>. The error of a read is looked at only when the
  read gave data.\<close>

partial_function (option) readFromLoop :: "nat \<Rightarrow> reader \<Rightarrow> stream \<Rightarrow> ((nat \<times> goerr option) \<times> reader \<times> stream) option" where
  "readFromLoop n cin s =
     (let rd = go_read streamBufSize cin; bs = fst rd; er = fst (snd rd); cin' = snd (snd rd) in
      if bs \<noteq> [] then
        (let wr = go_write bs (st_Out s); nw = fst wr; ew = fst (snd wr);
             s' = log_ev (isFlusher (st_OutCaps s)) EvOutFlush
               (s\<lparr>st_Out := snd (snd wr), SentBytes := SentBytes s + nw, SentPackets := SentPackets s + 1\<rparr>)
         in if ew \<noteq> None then Some ((n + nw, ew), cin', s')
            else if er \<noteq> None then Some ((n + nw, er), cin', s'\<lparr>ProxyReadErr := er\<rparr>)
            else readFromLoop (n + nw) cin' s')
      else readFromLoop n cin' s)"

definition stream_ReadFrom :: "reader \<times> caps \<Rightarrow> stream \<Rightarrow> ((nat \<times> goerr option) \<times> reader \<times> stream) option" where
  "stream_ReadFrom cin s =
     (if CanSplice (snd cin) (st_OutCaps s) then
        (let (n, err, r, w) = io_copy (fst cin) (st_Out s)
         in Some ((n, err), r, s\<lparr>st_Out := w, SentPackets := SentPackets s + 1, SentBytes := SentBytes s + n\<rparr>))
      else readFromLoop 0 (fst cin) s)"

text \<open>\<open>WriteTo\<close>: the buffered bytes first, then from \<open>In\<close> to \<open>w\<close>. The read buffer is used for the copy
  when the stream has one (reads overwrite its array from \<open>off\<close> on). Without one the chunk is assigned
  to an inner variable \<open>buf1\<close>, and the outer one stays nil: the buffer has capacity 0.\<close>

definition clobber :: "byte list \<Rightarrow> buffer \<Rightarrow> buffer" where
  "clobber bs b = b\<lparr>b_buf := (b_buf b)\<lparr>sarr := overwrite (sarr (b_buf b)) (b_off b) bs\<rparr>\<rparr>"

partial_function (option) writeToLoop :: "nat \<Rightarrow> bool \<Rightarrow> nat \<Rightarrow> writer \<Rightarrow> stream \<Rightarrow> ((nat \<times> goerr option) \<times> writer \<times> stream) option" where
  "writeToLoop bufCap wFlush n w s =
     (let rd = go_read bufCap (st_In s); bs = fst rd; sErr = fst (snd rd);
          s = s\<lparr>st_In := snd (snd rd), RcvdPackets := RcvdPackets s + 1, RcvdBytes := RcvdBytes s + length bs,
                rbuffer := map_option (clobber bs) (rbuffer s)\<rparr>;
          wr = (if bs \<noteq> [] then go_write bs w else (0, None, w)); wErr = fst (snd wr); w = snd (snd wr);
          s' = log_ev (wFlush \<and> bs \<noteq> []) EvOutFlush s
      in if wErr \<noteq> None then Some ((n + fst wr, wErr), w, s\<lparr>ProxyWriteErr := wErr\<rparr>)
         else if sErr \<noteq> None then Some ((n + fst wr, sErr), w, s'\<lparr>ReadErr := sErr\<rparr>)
         else writeToLoop bufCap wFlush (n + fst wr) w s')"

definition bufferFirst :: "writer \<Rightarrow> stream \<Rightarrow> ((nat \<times> goerr option) \<times> writer \<times> stream) option" where
  "bufferFirst w s = (case rbuffer s of
       None \<Rightarrow> Some ((0, None), w, s)
     | Some b \<Rightarrow> if Buffer_IsEmpty (Some b) then Some ((0, None), w, s)
       else do {
         bs \<leftarrow> unread b;
         let (bn, err, w) = go_write bs w in
         Some (if err \<noteq> None then ((bn, err), w, s\<lparr>ProxyWriteErr := err\<rparr>)
               else ((bn, None), w, s\<lparr>rbuffer := Some (snd (Buffer_Skip b bn))\<rparr>)) })"

definition stream_WriteTo :: "writer \<times> caps \<Rightarrow> stream \<Rightarrow> ((nat \<times> goerr option) \<times> writer \<times> stream) option" where
  "stream_WriteTo w s = do {
     ((n, err), wr, s) \<leftarrow> bufferFirst (fst w) s;
     if err \<noteq> None then Some ((n, err), wr, s)
     else if CanSplice (st_InCaps s) (snd w) then
       (let (n, err, r, wr) = io_copy (st_In s) wr
        in Some ((n, err), wr, s\<lparr>st_In := r, RcvdPackets := RcvdPackets s + 1, RcvdBytes := RcvdBytes s + n\<rparr>))
     else do {
       bufCap \<leftarrow> (case rbuffer s of None \<Rightarrow> Some 0 | Some b \<Rightarrow> map_option scap (Buffer_Bytes b));
       writeToLoop bufCap (isFlusher (snd w)) n wr s } }"

section \<open>Proxying\<close>

definition NoEOF :: "goerr option \<Rightarrow> goerr option" where
  "NoEOF err = (if err = None \<or> err = Some EOF \<or> err = Some OpErrorEPIPE then None else err)"

record conn =
  c_in :: reader
  c_out :: writer
  c_caps :: caps
  c_closed :: nat
  c_closeWrite :: nat

definition conn_Close :: "conn \<Rightarrow> conn" where
  "conn_Close c = c\<lparr>c_closed := Suc (c_closed c)\<rparr>"

definition proxyToClient :: "conn \<Rightarrow> stream \<Rightarrow> (goerr option \<times> conn \<times> stream) option" where
  "proxyToClient cout s = do {
     (_, w, s) \<leftarrow> stream_WriteTo (c_out cout, c_caps cout) s;
     let cout = cout\<lparr>c_out := w\<rparr>;
     let err = (if ProxyWriteErr s = None then ReadErr s else ProxyWriteErr s);
     Some (if NoEOF err \<noteq> None then (err, conn_Close cout, log_ev True EvInClose s)
       else if isCloseWriter (c_caps cout) then (err, cout\<lparr>c_closeWrite := Suc (c_closeWrite cout)\<rparr>, s\<lparr>ClientClose := True\<rparr>)
       else (err, conn_Close cout, s)) }"

definition proxyFromClient :: "conn \<Rightarrow> stream \<Rightarrow> (goerr option \<times> conn \<times> stream) option" where
  "proxyFromClient cin s = do {
     ((_, err), r, s) \<leftarrow> stream_ReadFrom (c_in cin, c_caps cin) s;
     let cin = cin\<lparr>c_in := r\<rparr>;
     if NoEOF (ProxyReadErr s) \<noteq> None \<or> WriteErr s \<noteq> None
     then Some (err, conn_Close cin, snd (stream_Close None s))
     else do { (_, s) \<leftarrow> stream_CloseWrite None s; Some (err, cin, s) } }"

text \<open>\<open>ProxyTo\<close>: the two directions run concurrently and \<open>ProxyTo\<close> waits for both, so it returns only
  when both do.\<close>

definition ProxyTo :: "conn \<Rightarrow> stream \<Rightarrow> (goerr option \<times> conn \<times> stream) option" where
  "ProxyTo nc s = do {
     (remoteErr, nc, s) \<leftarrow> proxyFromClient nc s;
     (err1, nc, s) \<leftarrow> proxyToClient nc s;
     Some (if remoteErr = None then err1 else remoteErr, conn_Close nc, log_ev True EvInClose s) }"

section \<open>Headers\<close>

text \<open>\<open>http.Header.Write\<close>: the valid keys in order, every value on a line of its own with line breaks
  replaced by spaces and outer white space removed, as the strings that are written one by one.\<close>

definition is_token :: "char \<Rightarrow> bool" where
  "is_token c = (let n = of_char c :: nat in
     48 \<le> n \<and> n \<le> 57 \<or> 65 \<le> n \<and> n \<le> 90 \<or> 97 \<le> n \<and> n \<le> 122 \<or> c \<in> set ''!#$%&*+-.^_`|~'' \<or> n = 39)"

definition is_space :: "char \<Rightarrow> bool" where
  "is_space c = (of_char c \<in> {32, 9, 10, 13 :: nat})"

definition header_value :: "string \<Rightarrow> string" where
  "header_value v = rev (dropWhile is_space (rev (dropWhile is_space
     (map (\<lambda>c. if of_char c \<in> {10, 13 :: nat} then CHR '' '' else c) v))))"

definition header_strings :: "header \<Rightarrow> string list" where
  "header_strings h = concat (map (\<lambda>(k, vs). concat (map (\<lambda>v. [k, '': '', header_value v, [char_of (13::nat), char_of (10::nat)]]) vs))
     (filter (\<lambda>(k, vs). k \<noteq> [] \<and> list_all is_token k) (sort_key (\<lambda>(k, vs). map (of_char :: char \<Rightarrow> nat) k) h)))"

text \<open>A sequence of writes to the buffer.\<close>

fun writeAll :: "byte list list \<Rightarrow> buffer \<Rightarrow> buffer option" where
  "writeAll [] b = Some b"
| "writeAll (x # xs) b = do { (_, b) \<leftarrow> Buffer_Write b x; writeAll xs b }"

text \<open>One header of \<open>SendHeader\<close>, and the loop over all of them, in the order of Go's iteration.\<close>

definition sendOne :: "string \<Rightarrow> string \<Rightarrow> buffer \<Rightarrow> buffer option" where
  "sendOne k v bb = do {
     bb \<leftarrow> Buffer_WriteByte bb 1;
     bb \<leftarrow> Buffer_WriteVarint bb (of_nat (length k));
     (_, bb) \<leftarrow> Buffer_Write bb (bytes_of k);
     bb \<leftarrow> Buffer_WriteVarint bb (of_nat (length v));
     (_, bb) \<leftarrow> Buffer_Write bb (bytes_of v);
     Some bb }"

fun sendPairs :: "(string \<times> string) list \<Rightarrow> buffer \<Rightarrow> buffer option" where
  "sendPairs [] bb = Some bb"
| "sendPairs ((k, v) # kvs) bb = do { bb \<leftarrow> sendOne k v bb; sendPairs kvs bb }"

definition SendHeader :: "writer \<Rightarrow> header \<Rightarrow> stream \<Rightarrow> (goerr option \<times> writer \<times> stream) option" where
  "SendHeader w h s = (let (bb, s) = WBuffer s in do {
     bb \<leftarrow> sendPairs (concat (map (\<lambda>(k, vv). map (Pair k) vv) h)) bb;
     bb \<leftarrow> Buffer_WriteByte bb 0;
     bb \<leftarrow> Buffer_WriteByte bb 2;
     (_, bb) \<leftarrow> Buffer_Write bb [0, 0, 0, 0];
     bb \<leftarrow> writeAll (map bytes_of (header_strings (case OutHeader s of None \<Rightarrow> [] | Some oh \<Rightarrow> oh))) bb;
     data \<leftarrow> Buffer_Bytes bb;
     sub \<leftarrow> s_slice data 1 (slen data);
     sub \<leftarrow> s_put_at sub 0 (le32_bytes (of_int (Buffer_Size (Some bb) - 5)));
     let bb = bb\<lparr>b_buf := (b_buf bb)\<lparr>sarr := overwrite (sarr (b_buf bb)) (b_off bb + 1) (sarr sub)\<rparr>\<rparr>;
     bs \<leftarrow> unread bb;
     let (_, err, w) = go_write bs w;
     Some (err, w, s\<lparr>wbuffer := Some bb\<rparr>) })"

text \<open>\<open>io.ReadFull(r, buf[0:n])\<close>: the bytes stored and the error.\<close>

partial_function (option) readFull :: "nat \<Rightarrow> byte list \<Rightarrow> reader \<Rightarrow> ((byte list \<times> goerr option) \<times> reader) option" where
  "readFull n got r =
     (if length got \<ge> n then Some ((got, None), r)
      else let rd = go_read (n - length got) r; got' = got @ fst rd; e = fst (snd rd); r' = snd (snd rd) in
        if length got' \<ge> n then Some ((got', None), r')
        else if e \<noteq> None then Some ((got', if got' \<noteq> [] \<and> e = Some EOF then Some ErrUnexpectedEOF else e), r')
        else readFull n got' r')"

text \<open>\<open>ReadHeader\<close>. \<open>readMIMEHeader\<close> stands for \<open>textproto.Reader.ReadMIMEHeader\<close>; its error is dropped by the
  code, as is the error of the first \<open>ReadFull\<close>. The chunk is new, so bytes not read are 0.\<close>

definition ReadHeader :: "(byte list \<Rightarrow> header) \<Rightarrow> reader \<Rightarrow> stream \<Rightarrow> (goerr option \<times> reader \<times> stream) option" where
  "ReadHeader readMIMEHeader inp s = do {
     ((hd5, _), inp) \<leftarrow> readFull 5 [] inp;
     len \<leftarrow> le32_val (drop 1 (hd5 @ replicate (5 - length hd5) 0));
     if len > 32 * 1024 then Some (Some (ErrMsg ''header size''), inp, s)
     else do {
       ((bs, err), inp) \<leftarrow> readFull (unat len) [] inp;
       if err \<noteq> None then Some (err, inp, s)
       else Some (None, inp, s\<lparr>InHeader := readMIMEHeader bs\<rparr>) } }"

section \<open>Framing\<close>

definition GetWriteFrame :: "nat option \<Rightarrow> nat \<Rightarrow> stream \<Rightarrow> buffer \<times> stream" where
  "GetWriteFrame choice sz hc = (let (b, p) = GetBuffer choice (5 + 9) sz (st_pools hc) in (b, hc\<lparr>st_pools := p\<rparr>))"

definition Send :: "buffer \<Rightarrow> stream \<Rightarrow> (goerr option \<times> stream) option" where
  "Send b hc = (let hc = hc\<lparr>SentPackets := SentPackets hc + 1\<rparr>; frameLen = Buffer_Len (Some b) in
     if Buffer_Start b < 5 then None
     else do {
       b \<leftarrow> Buffer_SetUnint32BE b (Buffer_Start b - 4) (of_int frameLen);
       b \<leftarrow> Buffer_SetByte b (Buffer_Start b - 5) 0;
       data \<leftarrow> s_slice (Buffer_Buffer b) (Buffer_Start b - 5) (Buffer_End b);
       let ((_, err), hc) = stream_Write (s_bytes data) hc;
       let hc = log_ev (isFlusher (st_OutCaps hc)) EvOutFlush hc;
       Some (err, hc\<lparr>st_pools := snd (Buffer_Recycle b (st_pools hc))\<rparr>) })"

text \<open>\<open>Recv\<close>. Receiving from a nil channel blocks for ever. The size \<open>5 + mlen\<close> is computed in 32 bits.\<close>

definition recvCheck :: "stream \<Rightarrow> goerr option option" where
  "recvCheck hc =
     (if RcvdPackets hc = 0 \<and> rtCh hc = None then None
      else Some (if RcvdPackets hc = 0 \<and> rtCh hc \<noteq> Some None then the (rtCh hc)
        else case ResponseStatus hc of
            Some st \<Rightarrow> if st \<ge> 300 \<or> st < 200 then Some (ErrMsg (''status code '' @ itoa st)) else None
          | None \<Rightarrow> None))"

definition recvDiscard :: "stream \<Rightarrow> buffer option" where
  "recvDiscard hc = (case rbuffer hc of None \<Rightarrow> None
     | Some b \<Rightarrow> do {
         b \<leftarrow> (if RcvdPackets hc > 0 then do {
                fr \<leftarrow> lastFrame hc; s \<leftarrow> Buffer_Bytes fr; Some (Buffer_Discard b (5 + slen s)) }
              else Some b);
         if \<not> Buffer_IsEmpty (Some b) then Buffer_Compact b else Some b })"

definition stream_Recv :: "stream \<Rightarrow> ((buffer option \<times> goerr option) \<times> stream) option" where
  "stream_Recv hc = do {
     err \<leftarrow> recvCheck hc;
     if err \<noteq> None then Some ((None, err), hc)
     else do {
       b \<leftarrow> recvDiscard hc;
       let hc = hc\<lparr>rbuffer := Some b, RcvdPackets := RcvdPackets hc + 1\<rparr>;
       ((head, err), b, r) \<leftarrow> Buffer_Fill b (st_In hc) 5;
       let hc = hc\<lparr>rbuffer := Some b, st_In := r\<rparr>;
       if err = None \<and> head ! 0 \<noteq> 0 then
         Some ((None, Some (ErrMsg (''Invalid frame '' @ itoa (uint (head ! 0))))), hc)
       else do {
         mlen \<leftarrow> (if err = None then be32_val (drop 1 head) else Some 0);
         ((_, err), b, r) \<leftarrow> (if err = None then Buffer_Fill b r (unat (5 + mlen)) else Some ((head, err), b, r));
         let hc = hc\<lparr>rbuffer := Some b, st_In := r\<rparr>;
         if err \<noteq> None \<and> err \<noteq> Some EOF then Some ((None, err), hc)
         else if ResponseStatus hc = None then None
         else (let fr = Buffer_Frame b 5 (unat (5 + mlen)); hc = log_ev (err = Some EOF) EvBodyClose hc
               in Some ((Some fr, err), hc\<lparr>lastFrame := Some fr\<rparr>)) } } }"

section \<open>The stream as a byte source\<close>

definition st_ok :: "stream \<Rightarrow> bool" where
  "st_ok s = (case rbuffer s of None \<Rightarrow> True | Some b \<Rightarrow> wf_buffer b)"

definition st_pending :: "stream \<Rightarrow> byte list" where
  "st_pending s = (case rbuffer s of None \<Rightarrow> [] | Some b \<Rightarrow> contents b) @ reader_bytes (st_In s)"

lemma getChunk_big:
  assumes "16 * 1024 < sz"
  shows "GetDataBufferChunk choice sz p = (make_slice sz, p\<lparr>CountGetBuffer := CountGetBuffer p + 1\<rparr>)"
  using assms by (simp add: GetDataBufferChunk_def getChunkFrom.simps dataChunkSizeClasses_def nth_Cons')

lemma GetBuffer_big:
  "GetBuffer choice 0 0 p = (\<lparr>b_buf = make_slice bufSize, b_off = 0, b_end = 0\<rparr>, p\<lparr>CountGetBuffer := CountGetBuffer p + 1\<rparr>)"
  by (simp add: GetBuffer_def getChunk_big bufSize_def)

lemma RBuffer_spec:
  assumes "st_ok s" "RBuffer s = (b, s')"
  shows "wf_buffer b" "rbuffer s' = Some b" "st_pending s' = st_pending s" "st_In s' = st_In s"
    "contents b @ reader_bytes (st_In s) = st_pending s"
  using assms by (auto simp: RBuffer_def st_ok_def st_pending_def GetBuffer_big wf_buffer_def split: option.splits)

lemma stream_Fill_Fill:
  assumes "stream_Fill s n = Some ((bs, e), s')"
  obtains b s1 b' r' where "RBuffer s = (b, s1)" "Buffer_Fill b (st_In s1) n = Some ((bs, e), b', r')"
    "s' = s1\<lparr>rbuffer := Some b', st_In := r'\<rparr>"
  using assms by (auto simp: stream_Fill_def bind_eq_Some_conv split: prod.splits)

interpretation ios: byte_stream st_ok st_pending stream_Fill stream_Read
proof unfold_locales
  fix s n bs e s'
  assume ok: "st_ok s" and fill: "stream_Fill s n = Some ((bs, e), s')"
  obtain b s1 b' r' where f: "RBuffer s = (b, s1)" "Buffer_Fill b (st_In s1) n = Some ((bs, e), b', r')"
    "s' = s1\<lparr>rbuffer := Some b', st_In := r'\<rparr>" by (rule stream_Fill_Fill [OF fill])
  note b = RBuffer_spec [OF ok f(1)]
  note cons = Buffer_Fill_conserves [OF b(1) f(2)]
  show "st_ok s'" using cons f(3) by (simp add: st_ok_def)
  show "st_pending s' = st_pending s" using cons f(3) b(4,5) by (simp add: st_pending_def)
  show "prefix bs (st_pending s)" using cons b(4,5) by (metis prefixI)
next
  fix s n bs s'
  assume ok: "st_ok s" and fill: "stream_Fill s n = Some ((bs, None), s')"
  obtain b s1 b' r' where f: "RBuffer s = (b, s1)" "Buffer_Fill b (st_In s1) n = Some ((bs, None), b', r')"
    by (rule stream_Fill_Fill [OF fill])
  show "n \<le> length bs" using Buffer_Fill_conserves [OF RBuffer_spec(1) [OF ok f(1)] f(2)] by blast
next
  fix s n bs e s'
  assume ok: "st_ok s" and rd: "stream_Read s n = Some ((bs, e), s')"
  have "st_ok s' \<and> st_pending s = bs @ st_pending s'"
  proof (cases "Buffer_Size (rbuffer s) > 0")
    case True
    then obtain b where b: "rbuffer s = Some b" "wf_buffer b" "b_off b < b_end b"
      using ok by (cases "rbuffer s") (auto simp: Buffer_Size_def st_ok_def)
    have le: "length (take n (contents b)) \<le> length (contents b)" by simp
    note adv = contents_advance [OF b(2) le]
    from True rd b have "bs = take n (contents b)" "rbuffer s' = Some (b\<lparr>b_off := b_off b + length bs\<rparr>)" "st_In s' = st_In s"
      by (auto simp: stream_Read_def Buffer_ReadData_def buffer_simps)
    moreover have "take n (contents b) @ drop (length (take n (contents b))) (contents b) = contents b"
      by (simp del: length_contents add: min_def)
    ultimately show ?thesis using adv b(1) by (simp add: st_ok_def st_pending_def del: length_contents length_take)
  next
    case False
    then have "(case rbuffer s of None \<Rightarrow> [] | Some b \<Rightarrow> contents b) = []"
      using ok by (auto simp: Buffer_Size_def st_ok_def contents_def split: option.splits)
    moreover obtain bs' e' r where g: "go_read n (st_In s) = (bs', e', r)" by (metis prod_cases3)
    moreover have "bs = bs'" "rbuffer s' = rbuffer s" "st_In s' = r"
      using False rd g by (auto simp: stream_Read_def log_ev_def Let_def split: if_splits)
    ultimately show ?thesis using ok go_read_bytes [OF g] by (simp add: st_ok_def st_pending_def)
  qed
  then show "st_ok s'" "st_pending s = bs @ st_pending s'" by simp_all
qed

section \<open>Copying\<close>

lemma log_ev_simps [simp]:
  "st_In (log_ev c e s) = st_In s" "st_Out (log_ev c e s) = st_Out s" "rbuffer (log_ev c e s) = rbuffer s"
  "st_OutCaps (log_ev c e s) = st_OutCaps s" "st_InCaps (log_ev c e s) = st_InCaps s"
  "ReadErr (log_ev c e s) = ReadErr s" "ProxyWriteErr (log_ev c e s) = ProxyWriteErr s"
  "ProxyReadErr (log_ev c e s) = ProxyReadErr s" "WriteErr (log_ev c e s) = WriteErr s"
  "wbuffer (log_ev c e s) = wbuffer s" "st_pools (log_ev c e s) = st_pools s"
  by (simp_all add: log_ev_def)

lemma go_write_accepts: "w_next w = [] \<Longrightarrow> go_write bs w = (length bs, None, w\<lparr>w_out := w_out w @ bs\<rparr>)"
  by (simp add: go_write_def)

lemma go_read_EOF: "plain_reader r \<Longrightarrow> go_read n r = (bs, Some e, r') \<Longrightarrow> e = EOF"
  by (cases r) (auto simp: plain_reader_def split: if_splits)

lemma writeToLoop_complete:
  assumes "0 < bufCap" "plain_reader (st_In s)" "w_next w = []"
  shows "\<exists>w' s'. writeToLoop bufCap fl n w s = Some ((n + length (reader_bytes (st_In s)), Some EOF), w', s')
    \<and> w_out w' = w_out w @ reader_bytes (st_In s) \<and> ReadErr s' = Some EOF \<and> ProxyWriteErr s' = ProxyWriteErr s"
  using assms
proof (induction "reader_size (st_In s)" arbitrary: n w s rule: less_induct)
  case less
  obtain bs e r where rd: "go_read bufCap (st_In s) = (bs, e, r)" by (metis prod_cases3)
  note plain = go_read_plain [OF less.prems(2) rd]
  note bytes = go_read_bytes [OF rd]
  define s1 where "s1 = log_ev (fl \<and> bs \<noteq> []) EvOutFlush (s\<lparr>st_In := r, RcvdPackets := RcvdPackets s + 1, RcvdBytes := RcvdBytes s + length bs,
                rbuffer := map_option (clobber bs) (rbuffer s)\<rparr>)"
  define w1 where "w1 = w\<lparr>w_out := w_out w @ bs\<rparr>"
  have wr: "(if bs \<noteq> [] then go_write bs w else (0, None, w)) = (length bs, None, w1)"
    using less.prems(3) by (auto simp: go_write_accepts w1_def)
  have s1: "st_In s1 = r" "ProxyWriteErr s1 = ProxyWriteErr s" by (simp_all add: s1_def)
  have step: "writeToLoop bufCap fl n w s =
      (if e \<noteq> None then Some ((n + length bs, e), w1, s1\<lparr>ReadErr := e\<rparr>) else writeToLoop bufCap fl (n + length bs) w1 s1)"
    unfolding writeToLoop.simps [of bufCap fl n w s] rd by (simp add: wr s1_def)
  show ?case
  proof (cases e)
    case None
    then have "reader_size (st_In s1) < reader_size (st_In s)" using go_read_size [of bufCap "st_In s" bs r] rd less.prems(1) s1 by simp
    from less.hyps [OF this less.prems(1), of w1 "n + length bs"] plain less.prems(3) s1
    show ?thesis by (simp add: step None bytes w1_def add.assoc)
  next
    case (Some x)
    with go_read_EOF [OF less.prems(2)] rd have "x = EOF" by blast
    with Some plain bytes s1 show ?thesis by (simp add: step w1_def)
  qed
qed

text \<open>Without room in the buffer the loop of \<open>WriteTo\<close> makes no progress.\<close>

lemma writeToLoop_stuck:
  assumes "st_In s = (b # bs, e) # r"
  shows "writeToLoop 0 fl n w s = None"
proof (rule ccontr)
  assume "writeToLoop 0 fl n w s \<noteq> None"
  then obtain res where ret: "writeToLoop 0 fl n w s = Some res" by blast
  have "\<not> (z = 0 \<and> st_In s = (b # bs, e) # r)" if "writeToLoop z fl n w s = Some res" for z
  proof (induction rule: writeToLoop.raw_induct [OF _ that])
    case (1 f bufCap wFlush n w s res)
    show ?case
    proof
      assume asm: "bufCap = 0 \<and> st_In s = (b # bs, e) # r"
      with 1(2) have "f 0 wFlush n w (s\<lparr>st_In := st_In s, RcvdPackets := RcvdPackets s + 1, rbuffer := map_option (clobber []) (rbuffer s)\<rparr>) = Some res"
        by (simp add: Let_def log_ev_def)
      from 1(1) [OF this] asm show False by simp
    qed
  qed
  with ret assms show False by blast
qed

lemma readFromLoop_stuck:
  assumes "plain_reader r" "w_next (st_Out s) = []"
  shows "readFromLoop n r s = None"
proof (rule ccontr)
  assume "readFromLoop n r s \<noteq> None"
  then obtain res where ret: "readFromLoop n r s = Some res" by blast
  have "\<not> (plain_reader r \<and> w_next (st_Out s) = [])"
  proof (induction rule: readFromLoop.raw_induct [OF _ ret])
    case (1 f n r s res)
    show ?case
    proof
      assume asm: "plain_reader r \<and> w_next (st_Out s) = []"
      obtain bs e r' where rd: "go_read streamBufSize r = (bs, e, r')" by (metis prod_cases3)
      note plain = go_read_plain [OF conjunct1 [OF asm] rd]
      show False
      proof (cases "bs = []")
        case True
        with 1(2) rd have "f n r' s = Some res" by simp
        from 1(1) [OF this] plain asm show False by simp
      next
        case False
        with plain have "e = None" by blast
        with 1(2) rd False asm have "f (n + length bs) r' (log_ev (isFlusher (st_OutCaps s)) EvOutFlush
            (s\<lparr>st_Out := (st_Out s)\<lparr>w_out := w_out (st_Out s) @ bs\<rparr>, SentBytes := SentBytes s + length bs, SentPackets := SentPackets s + 1\<rparr>)) = Some res"
          by (simp add: go_write_accepts Let_def)
        from 1(1) [OF this] plain asm show False by simp
      qed
    qed
  qed
  with assms show False by blast
qed

section \<open>Frames\<close>

text \<open>The gRPC message frame: a zero byte, the length, the message.\<close>

definition frame :: "byte list \<Rightarrow> byte list" where
  "frame p = 0 # be32_bytes (of_nat (length p)) @ p"

lemma length_frame [simp]: "length (frame p) = 5 + length p"
  by (simp add: frame_def)

lemma header_layout:
  assumes wf: "wf_buffer b" and off: "5 \<le> b_off b"
  obtains A h q D where "sarr (b_buf b) = A @ h # q @ contents b @ D" "length A = b_off b - 5" "length q = 4"
    "D = drop (b_end b) (sarr (b_buf b))"
proof -
  define arr where "arr = sarr (b_buf b)"
  define A where "A = take (b_off b - 5) arr"
  define q where "q = take 4 (drop (b_off b - 4) arr)"
  have le: "b_off b \<le> b_end b" "b_end b \<le> length arr" using wf by (auto simp: wf_buffer_def arr_def scap_def)
  have suc: "Suc (b_off b - 5) = b_off b - 4" and lt: "b_off b - 5 < length arr" using off le by simp_all
  have "arr = A @ drop (b_off b - 5) arr" by (simp add: A_def)
  also have "drop (b_off b - 5) arr = arr ! (b_off b - 5) # drop (b_off b - 4) arr"
    using Cons_nth_drop_Suc [OF lt] by (simp add: suc)
  also have "drop (b_off b - 4) arr = q @ drop (b_off b) arr"
    using off append_take_drop_id [of 4 "drop (b_off b - 4) arr"] by (simp add: q_def)
  also have "drop (b_off b) arr = contents b @ drop (b_end b) arr"
    using le append_take_drop_id [of "b_end b - b_off b" "drop (b_off b) arr"] by (simp add: contents_def arr_def)
  finally have "sarr (b_buf b) = A @ arr ! (b_off b - 5) # q @ contents b @ drop (b_end b) (sarr (b_buf b))" by (simp add: arr_def)
  moreover have "length A = b_off b - 5" "length q = 4" using le off by (simp_all add: A_def q_def)
  ultimately show ?thesis using that by blast
qed

lemma Send_frame:
  assumes wf: "wf_buffer b" and off: "5 \<le> b_off b" and acc: "w_next (st_Out hc) = []"
  shows "\<exists>hc'. Send b hc = Some (None, hc') \<and> w_out (st_Out hc') = w_out (st_Out hc) @ frame (contents b)
    \<and> w_next (st_Out hc') = []"
proof -
  obtain A h q D where arr: "sarr (b_buf b) = A @ h # q @ contents b @ D" and lens: "length A = b_off b - 5" "length q = 4"
    and D: "D = drop (b_end b) (sarr (b_buf b))"
    by (rule header_layout [OF wf off])
  have le: "b_off b \<le> b_end b" "b_end b \<le> length (sarr (b_buf b))" "slen (b_buf b) = length (sarr (b_buf b))"
    using wf by (auto simp: wf_buffer_def scap_def)
  have len: "length (contents b) = b_end b - b_off b" "length D = length (sarr (b_buf b)) - b_end b" using wf by (simp_all add: D)
  define v :: u32 where "v = of_nat (length (contents b))"
  have v: "of_int (Buffer_Len (Some b)) = v"
    using le len by (simp add: v_def Buffer_Len_def of_nat_diff)
  define arr1 where "arr1 = A @ h # be32_bytes v @ contents b @ D"
  have o1: "overwrite (sarr (b_buf b)) (b_off b - 4) (be32_bytes v) = arr1"
  proof -
    have "b_off b - 4 = length (A @ [h])" using lens off by simp
    then show ?thesis unfolding arr arr1_def overwrite_def using lens(2) by simp
  qed
  have s1: "Buffer_SetUnint32BE b (b_off b - 4) v = Some (b\<lparr>b_buf := (b_buf b)\<lparr>sarr := arr1\<rparr>\<rparr>)"
    using le off by (simp add: Buffer_SetUnint32BE_def s_put_at_def o1)
  have upd: "arr1[b_off b - 5 := 0] = A @ 0 # be32_bytes v @ contents b @ D"
    using lens(1) by (simp add: arr1_def list_update_append)
  have s2: "Buffer_SetByte (b\<lparr>b_buf := (b_buf b)\<lparr>sarr := arr1\<rparr>\<rparr>) (b_off b - 5) 0
      = Some (b\<lparr>b_buf := (b_buf b)\<lparr>sarr := A @ 0 # be32_bytes v @ contents b @ D\<rparr>\<rparr>)"
    using le off by (simp add: Buffer_SetByte_def s_set_def upd)
  define sl where "sl = \<lparr>sarr = 0 # be32_bytes v @ contents b @ D, slen = b_end b - (b_off b - 5)\<rparr>"
  have data: "s_slice ((b_buf b)\<lparr>sarr := A @ 0 # be32_bytes v @ contents b @ D\<rparr>) (b_off b - 5) (b_end b)
      = Some sl"
    using le off lens len by (simp add: sl_def s_slice_def scap_def, arith)
  have bytes: "s_bytes sl = frame (contents b)"
  proof -
    have "b_end b - (b_off b - 5) = length (0 # be32_bytes v @ contents b)" using le off len by simp
    then have "take (b_end b - (b_off b - 5)) ((0 # be32_bytes v @ contents b) @ D) = 0 # be32_bytes v @ contents b"
      by (metis append_eq_conv_conj)
    then show ?thesis by (simp add: sl_def s_bytes_def frame_def v_def)
  qed
  show ?thesis using off
    by (simp add: Send_def Buffer_Start_def Buffer_End_def Buffer_Buffer_def v s1 s2 data bytes stream_Write_def go_write_accepts [OF acc] acc)
qed

text \<open>A receiver in front of \<open>data\<close>: before the first message, or with the last message still buffered.\<close>

definition grpc_at :: "stream \<Rightarrow> byte list \<Rightarrow> bool" where
  "grpc_at hc data \<longleftrightarrow> plain_reader (st_In hc)
     \<and> (\<exists>st. ResponseStatus hc = Some st \<and> 200 \<le> st \<and> st < 300)
     \<and> (\<exists>b. rbuffer hc = Some b \<and> wf_buffer b \<and> b_off b = 0
       \<and> (RcvdPackets hc = 0 \<and> rtCh hc = Some None \<and> contents b @ reader_bytes (st_In hc) = data
         \<or> RcvdPackets hc > 0 \<and> (\<exists>fr sl. lastFrame hc = Some fr \<and> Buffer_Bytes fr = Some sl
             \<and> 5 + slen sl \<le> length (contents b) \<and> drop (5 + slen sl) (contents b) @ reader_bytes (st_In hc) = data)))"

lemma Buffer_Discard_spec:
  assumes "wf_buffer b" "n \<le> length (contents b)"
  shows "wf_buffer (Buffer_Discard b n)" "contents (Buffer_Discard b n) = drop n (contents b)"
    "contents (Buffer_Discard b n) = [] \<Longrightarrow> b_off (Buffer_Discard b n) = 0"
proof -
  have le: "\<not> int n > Buffer_Size (Some b)" using assms(2) by (simp add: Size_contents [OF assms(1)] del: length_contents)
  note adv = contents_advance [OF assms]
  show 1: "wf_buffer (Buffer_Discard b n)"
    using le adv wf_buffer_reset [of "b\<lparr>b_off := b_off b + n\<rparr>"] by (simp add: Buffer_Discard_def Let_def)
  show 2: "contents (Buffer_Discard b n) = drop n (contents b)"
  proof (cases "b_off b + n = b_end b")
    case True
    then have "drop n (contents b) = []" using assms by simp
    with True le show ?thesis by (simp add: Buffer_Discard_def)
  next
    case False
    with le adv show ?thesis by (simp add: Buffer_Discard_def)
  qed
  show "b_off (Buffer_Discard b n) = 0" if "contents (Buffer_Discard b n) = []"
  proof (rule ccontr)
    assume off: "b_off (Buffer_Discard b n) \<noteq> 0"
    with le have "b_off b + n \<noteq> b_end b" "Buffer_Discard b n = b\<lparr>b_off := b_off b + n\<rparr>"
      by (auto simp: Buffer_Discard_def Let_def split: if_splits)
    moreover have "b_off b \<le> b_end b" using assms(1) by (simp add: wf_buffer_def)
    moreover have "length (contents b) \<le> n" using that 2 by simp
    ultimately show False using assms by simp
  qed
qed

lemma recvDiscard_spec:
  assumes "grpc_at hc data"
  obtains b where "recvDiscard hc = Some b" "wf_buffer b" "b_off b = 0" "contents b @ reader_bytes (st_In hc) = data"
proof -
  from assms obtain b where b: "rbuffer hc = Some b" "wf_buffer b" "b_off b = 0" and
    c: "RcvdPackets hc = 0 \<and> contents b @ reader_bytes (st_In hc) = data
      \<or> RcvdPackets hc > 0 \<and> (\<exists>fr sl. lastFrame hc = Some fr \<and> Buffer_Bytes fr = Some sl
         \<and> 5 + slen sl \<le> length (contents b) \<and> drop (5 + slen sl) (contents b) @ reader_bytes (st_In hc) = data)"
    unfolding grpc_at_def by blast
  obtain b1 where b1: "(if RcvdPackets hc > 0 then do { fr \<leftarrow> lastFrame hc; s \<leftarrow> Buffer_Bytes fr; Some (Buffer_Discard b (5 + slen s)) } else Some b) = Some b1"
    "wf_buffer b1" "contents b1 @ reader_bytes (st_In hc) = data" "contents b1 = [] \<Longrightarrow> b_off b1 = 0"
  proof (cases "RcvdPackets hc > 0")
    case True
    with c obtain fr sl where f: "lastFrame hc = Some fr" "Buffer_Bytes fr = Some sl"
      "5 + slen sl \<le> length (contents b)" "drop (5 + slen sl) (contents b) @ reader_bytes (st_In hc) = data" by auto
    note d = Buffer_Discard_spec [OF b(2) f(3)]
    show ?thesis
    proof (rule that [of "Buffer_Discard b (5 + slen sl)"])
      show "wf_buffer (Buffer_Discard b (5 + slen sl))" by (rule d(1))
      show "contents (Buffer_Discard b (5 + slen sl)) @ reader_bytes (st_In hc) = data" using d(2) f(4) by simp
      show "contents (Buffer_Discard b (5 + slen sl)) = [] \<Longrightarrow> b_off (Buffer_Discard b (5 + slen sl)) = 0" by (rule d(3))
    qed (use True f in simp)
  next
    case False
    with c b show ?thesis by (intro that [of b]) simp_all
  qed
  have rd: "recvDiscard hc = (if \<not> Buffer_IsEmpty (Some b1) then Buffer_Compact b1 else Some b1)"
    using b(1) b1(1) by (simp add: recvDiscard_def)
  show ?thesis
  proof (cases "Buffer_IsEmpty (Some b1)")
    case True
    then have "contents b1 = []" by (simp add: Buffer_IsEmpty_def contents_def)
    with b1(2-4) rd True show ?thesis by (intro that [of b1]) simp_all
  next
    case False
    obtain b2 where "Buffer_Compact b1 = Some b2" "wf_buffer b2" "contents b2 = contents b1" "b_off b2 = 0"
      using Buffer_Compact_spec [OF b1(2)] by blast
    with b1(2,3) rd False show ?thesis by (intro that [of b2]) simp_all
  qed
qed

lemma received_frame:
  assumes wf: "wf_buffer b" and off: "b_off b = 0" and c: "contents b = frame p @ x"
  obtains sl where "Buffer_Bytes (Buffer_Frame b 5 (5 + length p)) = Some sl" "slen sl = length p" "s_bytes sl = p"
proof -
  let ?sl = "\<lparr>sarr = drop 5 (sarr (b_buf b)), slen = length p\<rparr>"
  have arr: "take (b_end b) (sarr (b_buf b)) = contents b" using off by (simp add: contents_def)
  have "b_end b = 5 + length p + length x" using length_contents [OF wf] off c by simp
  hence le: "5 + length p \<le> b_end b" "b_end b \<le> length (sarr (b_buf b))" using wf by (auto simp: wf_buffer_def scap_def)
  have "take (5 + length p) (sarr (b_buf b)) = take (5 + length p) (contents b)"
    using le arr by (metis min.absorb1 take_take)
  also have "\<dots> = frame p" by (simp add: c)
  finally have "drop 5 (take (5 + length p) (sarr (b_buf b))) = p" by (simp add: frame_def)
  then have "s_bytes ?sl = p" by (simp add: s_bytes_def take_drop add.commute)
  moreover have "Buffer_Bytes (Buffer_Frame b 5 (5 + length p)) = Some ?sl"
    using le off by (simp add: Buffer_Bytes_def Buffer_Frame_def s_slice_def scap_def)
  ultimately show ?thesis by (intro that) simp_all
qed

lemma append_take_prefix: "a @ b = c @ d \<Longrightarrow> length c \<le> length a \<Longrightarrow> a = c @ drop (length c) a"
  by (metis append_eq_append_conv_if append_take_drop_id)

lemma recv_step:
  assumes at: "grpc_at hc (frame p @ rest)" and len: "length p + 5 < 2 ^ 32"
  obtains fr hc' where "stream_Recv hc = Some ((Some fr, None), hc')" "unread fr = Some p" "grpc_at hc' rest"
proof -
  have plain: "plain_reader (st_In hc)" and check: "recvCheck hc = Some None"
    using at by (auto simp: grpc_at_def recvCheck_def)
  obtain st where st: "ResponseStatus hc = Some st" "200 \<le> st" "st < 300" using at by (auto simp: grpc_at_def)
  obtain b where b: "recvDiscard hc = Some b" "wf_buffer b" "b_off b = 0" "contents b @ reader_bytes (st_In hc) = frame p @ rest"
    by (rule recvDiscard_spec [OF at])
  obtain b1 r1 where f1: "Buffer_Fill b (st_In hc) 5 = Some ((contents b1, None), b1, r1)" "wf_buffer b1" "b_off b1 = 0"
    "plain_reader r1" "5 \<le> length (contents b1)" "contents b1 @ reader_bytes r1 = frame p @ rest"
    by (rule Fill_plain [OF b(2,3) plain, of 5]) (use b(4) in auto)
  define m :: u32 where "m = of_nat (length p)"
  have "contents b1 = (0 # be32_bytes m) @ drop 5 (contents b1)"
    using append_take_prefix [of "contents b1" "reader_bytes r1" "0 # be32_bytes m" "p @ rest"] f1(5,6) by (simp add: frame_def m_def)
  then obtain x where head: "contents b1 = 0 # be32_bytes m @ x" by auto
  have m: "unat (5 + m) = 5 + length p"
  proof -
    have "5 + m = of_nat (5 + length p)" by (simp add: m_def)
    then show ?thesis using len by (simp add: unsigned_of_nat take_bit_nat_eq_self del: of_nat_add)
  qed
  obtain b2 r2 where f2: "Buffer_Fill b1 r1 (5 + length p) = Some ((contents b2, None), b2, r2)" "wf_buffer b2" "b_off b2 = 0"
    "plain_reader r2" "5 + length p \<le> length (contents b2)" "contents b2 @ reader_bytes r2 = frame p @ rest"
    by (rule Fill_plain [OF f1(2-4), of "5 + length p"]) (use f1(6) in auto)
  let ?fr = "Buffer_Frame b2 5 (5 + length p)"
  have c2: "contents b2 = frame p @ drop (5 + length p) (contents b2)"
    using append_take_prefix [OF f2(6)] f2(5) by simp
  obtain sl where sl: "Buffer_Bytes ?fr = Some sl" "slen sl = length p" "s_bytes sl = p"
    by (rule received_frame [OF f2(2,3) c2])
  hence fr: "unread ?fr = Some p" by (simp only: unread_def option.map)
  define hc' where "hc' = hc\<lparr>RcvdPackets := RcvdPackets hc + 1, rbuffer := Some b2, st_In := r2, lastFrame := Some ?fr\<rparr>"
  have recv: "stream_Recv hc = Some ((Some ?fr, None), hc')"
    using check b(1) f1(1) f2(1) st(1) be32_roundtrip [of m x]
    by (simp add: stream_Recv_def head m log_ev_def hc'_def Let_def)
  have "frame p @ (drop (5 + length p) (contents b2) @ reader_bytes r2) = frame p @ rest"
    using f2(6) c2 by (metis append.assoc)
  then have "\<exists>fr sl. lastFrame hc' = Some fr \<and> Buffer_Bytes fr = Some sl \<and> 5 + slen sl \<le> length (contents b2)
      \<and> drop (5 + slen sl) (contents b2) @ reader_bytes (st_In hc') = rest"
    using sl f2(5) by (intro exI [of _ ?fr] exI [of _ sl]) (simp add: hc'_def del: length_contents)
  moreover have "plain_reader (st_In hc')" "ResponseStatus hc' = Some st" "rbuffer hc' = Some b2" "RcvdPackets hc' > 0"
    using f2(4) st(1) by (simp_all add: hc'_def)
  ultimately have "grpc_at hc' rest"
    unfolding grpc_at_def using f2(2,3) st(2,3) by blast
  then show ?thesis using recv fr that by blast
qed

text \<open>Sending several messages, and receiving several.\<close>

fun sendAll :: "buffer list \<Rightarrow> stream \<Rightarrow> stream option" where
  "sendAll [] hc = Some hc"
| "sendAll (b # bs) hc = do { (err, hc) \<leftarrow> Send b hc; if err \<noteq> None then None else sendAll bs hc }"

fun recvAll :: "nat \<Rightarrow> stream \<Rightarrow> (byte list list \<times> stream) option" where
  "recvAll 0 hc = Some ([], hc)"
| "recvAll (Suc n) hc = do {
     ((fr, err), hc) \<leftarrow> stream_Recv hc;
     fr \<leftarrow> fr;
     p \<leftarrow> (if err = None then unread fr else None);
     (ps, hc) \<leftarrow> recvAll n hc;
     Some (p # ps, hc) }"

lemma sendAll_frames:
  assumes "\<forall>b \<in> set bs. wf_buffer b \<and> 5 \<le> b_off b" "w_next (st_Out hc) = []"
  shows "\<exists>hc'. sendAll bs hc = Some hc' \<and> w_out (st_Out hc') = w_out (st_Out hc) @ concat (map (frame \<circ> contents) bs)"
  using assms
proof (induction bs arbitrary: hc)
  case (Cons b bs)
  then obtain hc1 where "Send b hc = Some (None, hc1)" "w_out (st_Out hc1) = w_out (st_Out hc) @ frame (contents b)" "w_next (st_Out hc1) = []"
    using Send_frame [of b hc] by auto
  with Cons.IH [of hc1] Cons.prems show ?case by auto
qed simp

lemma recvAll_frames:
  assumes "grpc_at hc (concat (map frame ps) @ rest)" "\<forall>p \<in> set ps. length p + 5 < 2 ^ 32"
  shows "\<exists>hc'. recvAll (length ps) hc = Some (ps, hc') \<and> grpc_at hc' rest"
  using assms
proof (induction ps arbitrary: hc)
  case (Cons p ps)
  from Cons.prems have at: "grpc_at hc (frame p @ concat (map frame ps) @ rest)" and len: "length p + 5 < 2 ^ 32" by simp_all
  obtain fr hc1 where r: "stream_Recv hc = Some ((Some fr, None), hc1)" "unread fr = Some p" "grpc_at hc1 (concat (map frame ps) @ rest)"
    by (rule recv_step [OF at len])
  from Cons.IH [OF r(3)] Cons.prems(2) r show ?case by auto
qed simp

section \<open>Headers on the wire\<close>

lemma Buffer_grow_scap:
  assumes "wf_buffer b" "Buffer_grow b n = Some g"
  shows "scap (b_buf b) \<le> scap (b_buf g)"
proof (cases "int (scap (b_buf b)) - int (b_end b) > n")
  case True
  with assms(2) show ?thesis by (simp add: Buffer_grow_def)
next
  case False
  let ?m = "nat (if n < int (scap (b_buf b)) * 2 then int (scap (b_buf b)) * 2 else n)"
  have m: "length (contents b) \<le> ?m" using length_contents_le [OF assms(1)] by auto
  obtain b' where "moveTo ?m b = Some b'" "scap (b_buf b') = ?m" using moveTo_spec [OF assms(1) m] by blast
  with False assms(2) show ?thesis by (auto simp: Buffer_grow_def Let_def)
qed

text \<open>Writing to a well-formed buffer, with what it does to the capacity.\<close>

lemma WriteByte_ok:
  assumes "wf_buffer b" "0 < scap (b_buf b)"
  obtains b' where "Buffer_WriteByte b d = Some b'" "wf_buffer b'" "contents b' = contents b @ [d]" "scap (b_buf b) \<le> scap (b_buf b')"
proof -
  obtain b' where b': "Buffer_WriteByte b d = Some b'" "wf_buffer b'" "contents b' = contents b @ [d]"
    by (rule Buffer_WriteByte_spec [OF assms])
  then obtain g where "Buffer_grow b 1 = Some g" "scap (b_buf b') = scap (b_buf g)"
    by (auto simp: Buffer_WriteByte_def bind_eq_Some_conv s_set_def scap_def split: if_splits)
  with that b' Buffer_grow_scap [OF assms(1)] show ?thesis by metis
qed

lemma Write_ok:
  assumes "wf_buffer b" "length x \<le> scap (b_buf b)"
  obtains b' where "Buffer_Write b x = Some (length x, b')" "wf_buffer b'" "contents b' = contents b @ x" "scap (b_buf b) \<le> scap (b_buf b')"
proof -
  have "length (contents b) + length x \<le> max (length x) (2 * scap (b_buf b))"
    using length_contents_le [OF assms(1)] assms(2) by (auto simp del: length_contents)
  then obtain b1 where b1: "Buffer_Write b x = Some (length x, b1)" "wf_buffer b1" "contents b1 = contents b @ x"
    using Buffer_Write_spec [OF assms(1)] by blast
  obtain g where g: "Buffer_grow b (int (length x)) = Some g" "wf_buffer g"
    using Buffer_grow_keeps [OF assms(1)] by blast
  moreover have "scap (b_buf b1) = scap (b_buf g)"
    using b1(1) g by (auto simp: Buffer_Write_def s_copy_at_def wf_buffer_def scap_def split: if_splits)
  ultimately show ?thesis using that b1 Buffer_grow_scap [OF assms(1)] by metis
qed

lemma writeAll_spec:
  assumes "wf_buffer b" "\<forall>x \<in> set xs. length x \<le> scap (b_buf b)"
  shows "\<exists>b'. writeAll xs b = Some b' \<and> wf_buffer b' \<and> contents b' = contents b @ concat xs"
  using assms
proof (induction xs arbitrary: b)
  case (Cons x xs)
  obtain b1 where b1: "Buffer_Write b x = Some (length x, b1)" "wf_buffer b1" "contents b1 = contents b @ x" "scap (b_buf b) \<le> scap (b_buf b1)"
    by (rule Write_ok [OF Cons.prems(1), of x]) (use Cons.prems(2) in auto)
  with Cons.prems(2) have "\<forall>y \<in> set xs. length y \<le> scap (b_buf b1)" by auto
  from Cons.IH [OF b1(2) this] b1 show ?case by auto
qed simp

text \<open>What \<open>SendHeader\<close> puts in front of the header text: the length is stored over the tag.\<close>

lemma sendHeader_bytes:
  assumes wf: "wf_buffer bb" and c: "contents bb = t # xs" "4 \<le> length xs"
    and d: "Buffer_Bytes bb = Some data" "s_slice data 1 (slen data) = Some sub" "s_put_at sub 0 (le32_bytes n) = Some sub'"
  shows "unread (bb\<lparr>b_buf := (b_buf bb)\<lparr>sarr := overwrite (sarr (b_buf bb)) (b_off bb + 1) (sarr sub')\<rparr>\<rparr>)
    = Some (t # le32_bytes n @ drop 4 xs)"
proof -
  define arr where "arr = sarr (b_buf bb)"
  have le: "b_off bb \<le> b_end bb" "b_end bb \<le> length arr" using wf by (auto simp: wf_buffer_def arr_def scap_def)
  define A where "A = take (b_off bb) arr"
  define D where "D = drop (b_end bb) arr"
  have "arr = A @ drop (b_off bb) arr" by (simp add: A_def)
  also have "drop (b_off bb) arr = contents bb @ D"
    using le append_take_drop_id [of "b_end bb - b_off bb" "drop (b_off bb) arr"] by (simp add: contents_def D_def arr_def)
  finally have arr: "sarr (b_buf bb) = A @ t # xs @ D" by (simp add: arr_def c(1))
  have A: "length A = b_off bb" using le by (simp add: A_def)
  have len: "b_end bb - b_off bb = Suc (length xs)" using length_contents [OF wf] c(1) by simp
  have sub: "sub = \<lparr>sarr = xs @ D, slen = length xs\<rparr>"
    using d(1,2) le len A by (auto simp: Buffer_Bytes_def s_slice_def arr scap_def split: if_splits)
  have sub': "sarr sub' = le32_bytes n @ drop 4 (xs @ D)"
    using d(3) c(2) sub by (auto simp: s_put_at_def overwrite_def split: if_splits)
  have "overwrite (sarr (b_buf bb)) (b_off bb + 1) (sarr sub') = A @ t # le32_bytes n @ drop 4 xs @ D"
    using A c(2) by (simp add: arr overwrite_def sub')
  moreover have "wf_buffer (bb\<lparr>b_buf := (b_buf bb)\<lparr>sarr := A @ t # le32_bytes n @ drop 4 xs @ D\<rparr>\<rparr>)"
    using wf c(2) A len le by (simp add: wf_buffer_def scap_def arr)
  ultimately show ?thesis
    using A c(2) by (simp add: unread_eq contents_def len)
qed

definition headerText :: "stream \<Rightarrow> byte list" where
  "headerText s = concat (map bytes_of (header_strings (case OutHeader s of None \<Rightarrow> [] | Some oh \<Rightarrow> oh)))"

lemma Buffer_Grow_scap:
  assumes "wf_buffer b" "Buffer_Grow b n = Some g"
  shows "scap (b_buf b) \<le> scap (b_buf g)"
proof (cases "int (scap (b_buf b)) - int (b_end b) > int n")
  case True
  with assms(2) show ?thesis by (simp add: Buffer_Grow_def)
next
  case False
  have m: "length (contents b) \<le> scap (b_buf b) * 2" using length_contents_le [OF assms(1)] by auto
  obtain b' where "moveTo (scap (b_buf b) * 2) b = Some b'" "scap (b_buf b') = scap (b_buf b) * 2" using moveTo_spec [OF assms(1) m] by blast
  with False assms(2) show ?thesis by (auto simp: Buffer_Grow_def Let_def)
qed

lemma length_overwrite_ge: "length xs \<le> length (overwrite xs pos ys)"
  by (simp add: overwrite_def)

lemma WriteVarint_ok:
  assumes "wf_buffer b" "9 \<le> scap (b_buf b)" "length (varint_bytes i) \<le> 9"
  obtains b' where "Buffer_WriteVarint b i = Some b'" "wf_buffer b'" "contents b' = contents b @ varint_bytes i"
    "scap (b_buf b) \<le> scap (b_buf b')"
proof -
  have "length (contents b) + 9 \<le> 2 * scap (b_buf b)"
    using length_contents_le [OF assms(1)] assms(2) by (simp del: length_contents)
  then obtain b' where b': "Buffer_WriteVarint b i = Some b'" "wf_buffer b'" "contents b' = contents b @ varint_bytes i"
    by (rule Buffer_WriteVarint_spec [OF assms(1,3)])
  then obtain g where "Buffer_Grow b 8 = Some g" "scap (b_buf g) \<le> scap (b_buf b')"
    by (auto simp: Buffer_WriteVarint_def bind_eq_Some_conv s_put_at_def scap_def length_overwrite_ge split: if_splits)
  with that b' Buffer_Grow_scap [OF assms(1)] show ?thesis by (meson le_trans)
qed

lemma varint_small: "n \<le> 1024 \<Longrightarrow> length (varint_bytes (of_nat n)) \<le> 9"
proof -
  assume n: "n \<le> 1024"
  let ?x = "of_nat n :: u64"
  have "unat (push_bit 1 ?x) < 2 ^ (7 * Suc 1)"
    using n by (simp add: push_bit_eq_mult unat_word_ariths unsigned_of_nat take_bit_nat_eq_self)
  from uvarint_length [OF this] have "length (uvarint_bytes (push_bit 1 ?x)) \<le> 9" by simp
  moreover have "\<not> sint ?x < 0"
    using n by (simp add: not_less sint_uint signed_take_bit_eq_if_positive unsigned_of_nat bit_simps bit_iff_odd take_bit_nat_eq_self)
  ultimately show ?thesis by (simp add: varint_bytes_def)
qed

text \<open>The pairs that \<open>SendHeader\<close> starts with.\<close>

definition pairBytes :: "string \<times> string \<Rightarrow> byte list" where
  "pairBytes kv = 1 # varint_bytes (of_nat (length (fst kv))) @ bytes_of (fst kv) @ varint_bytes (of_nat (length (snd kv))) @ bytes_of (snd kv)"

lemma sendOne_spec:
  assumes "wf_buffer b" "1024 \<le> scap (b_buf b)" "length k \<le> 1024" "length v \<le> 1024"
  obtains b' where "sendOne k v b = Some b'" "wf_buffer b'" "contents b' = contents b @ pairBytes (k, v)" "scap (b_buf b) \<le> scap (b_buf b')"
proof -
  obtain b1 where b1: "Buffer_WriteByte b 1 = Some b1" "wf_buffer b1" "contents b1 = contents b @ [1]" "scap (b_buf b) \<le> scap (b_buf b1)"
    by (rule WriteByte_ok [OF assms(1)]) (use assms(2) in linarith)
  obtain b2 where b2: "Buffer_WriteVarint b1 (of_nat (length k)) = Some b2" "wf_buffer b2" "contents b2 = contents b1 @ varint_bytes (of_nat (length k))"
    "scap (b_buf b1) \<le> scap (b_buf b2)"
    by (rule WriteVarint_ok [OF b1(2) _ varint_small [OF assms(3)]]) (use b1(4) assms(2) in linarith)
  obtain b3 where b3: "Buffer_Write b2 (bytes_of k) = Some (length (bytes_of k), b3)" "wf_buffer b3" "contents b3 = contents b2 @ bytes_of k"
    "scap (b_buf b2) \<le> scap (b_buf b3)"
    by (rule Write_ok [OF b2(2), of "bytes_of k"]) (use b1(4) b2(4) assms(2,3) in simp)
  obtain b4 where b4: "Buffer_WriteVarint b3 (of_nat (length v)) = Some b4" "wf_buffer b4" "contents b4 = contents b3 @ varint_bytes (of_nat (length v))"
    "scap (b_buf b3) \<le> scap (b_buf b4)"
    by (rule WriteVarint_ok [OF b3(2) _ varint_small [OF assms(4)]]) (use b1(4) b2(4) b3(4) assms(2) in linarith)
  obtain b5 where b5: "Buffer_Write b4 (bytes_of v) = Some (length (bytes_of v), b5)" "wf_buffer b5" "contents b5 = contents b4 @ bytes_of v"
    "scap (b_buf b4) \<le> scap (b_buf b5)"
    by (rule Write_ok [OF b4(2), of "bytes_of v"]) (use b1(4) b2(4) b3(4) b4(4) assms(2,4) in simp)
  have "sendOne k v b = Some b5" by (simp add: sendOne_def b1(1) b2(1) b3(1) b4(1) b5(1))
  moreover have "contents b5 = contents b @ pairBytes (k, v)" by (simp add: b1(3) b2(3) b3(3) b4(3) b5(3) pairBytes_def)
  ultimately show ?thesis using that b5(2) b1(4) b2(4) b3(4) b4(4) b5(4) by (meson le_trans)
qed

lemma sendPairs_spec:
  assumes "wf_buffer b" "1024 \<le> scap (b_buf b)" "\<forall>(k, v) \<in> set kvs. length k \<le> 1024 \<and> length v \<le> 1024"
  shows "\<exists>b'. sendPairs kvs b = Some b' \<and> wf_buffer b' \<and> contents b' = contents b @ concat (map pairBytes kvs) \<and> scap (b_buf b) \<le> scap (b_buf b')"
  using assms
proof (induction kvs arbitrary: b)
  case (Cons kv kvs)
  obtain k v where kv: "kv = (k, v)" by (cases kv)
  obtain b1 where b1: "sendOne k v b = Some b1" "wf_buffer b1" "contents b1 = contents b @ pairBytes (k, v)" "scap (b_buf b) \<le> scap (b_buf b1)"
    by (rule sendOne_spec [OF Cons.prems(1,2), of k v]) (use Cons.prems(3) kv in auto)
  from Cons.IH [OF b1(2)] b1 Cons.prems obtain b2 where "sendPairs kvs b1 = Some b2" "wf_buffer b2"
    "contents b2 = contents b1 @ concat (map pairBytes kvs)" "scap (b_buf b1) \<le> scap (b_buf b2)" by auto
  with b1 show ?case by (simp add: kv)
qed simp

text \<open>What \<open>SendHeader\<close> sends: the pairs, a zero, the tag and four zeros, and the header text; the length of the whole, less five,
  is then stored over the second to fifth byte, whatever is there.\<close>

lemma SendHeader_sends:
  assumes "wbuffer s = None" "w_next w = []" "length (headerText s) \<le> 1024"
    and pairs: "concat (map (\<lambda>(k, vv). map (Pair k) vv) h) = kvs" "\<forall>(k, v) \<in> set kvs. length k \<le> 1024 \<and> length v \<le> 1024"
    and all: "concat (map pairBytes kvs) @ [0, 2, 0, 0, 0, 0] @ headerText s = t # xs"
  shows "\<exists>bb p. SendHeader w h s = Some (None, w\<lparr>w_out := w_out w @ t # le32_bytes (of_int (int (length xs) - 4)) @ drop 4 xs\<rparr>,
    s\<lparr>st_pools := p, wbuffer := Some bb\<rparr>)"
proof -
  let ?b0 = "\<lparr>b_buf = make_slice bufSize, b_off = 0, b_end = 0\<rparr>"
  let ?hs = "header_strings (case OutHeader s of None \<Rightarrow> [] | Some oh \<Rightarrow> oh)"
  let ?p = "(st_pools s)\<lparr>CountGetBuffer := CountGetBuffer (st_pools s) + 1\<rparr>"
  have wb: "WBuffer s = (?b0, s\<lparr>wbuffer := Some ?b0, st_pools := ?p\<rparr>)"
    using assms(1) by (simp add: WBuffer_def GetBuffer_big)
  have w0: "wf_buffer ?b0" "contents ?b0 = []" "1024 \<le> scap (b_buf ?b0)" by (simp_all add: wf_buffer_def bufSize_def)
  obtain b where b: "sendPairs kvs ?b0 = Some b" "wf_buffer b" "contents b = concat (map pairBytes kvs)" "1024 \<le> scap (b_buf b)"
    using sendPairs_spec [OF w0(1,3) pairs(2)] w0(2,3) by (metis append_Nil le_trans)
  obtain b1 where b1: "Buffer_WriteByte b 0 = Some b1" "wf_buffer b1" "contents b1 = contents b @ [0]" "scap (b_buf b) \<le> scap (b_buf b1)"
    by (rule WriteByte_ok [OF b(2)]) (use b(4) in linarith)
  obtain b2 where b2: "Buffer_WriteByte b1 2 = Some b2" "wf_buffer b2" "contents b2 = contents b1 @ [2]" "scap (b_buf b1) \<le> scap (b_buf b2)"
    by (rule WriteByte_ok [OF b1(2)]) (use b1(4) b(4) in linarith)
  obtain b3 where b3: "Buffer_Write b2 [0, 0, 0, 0] = Some (length [0, 0, 0, 0::byte], b3)" "wf_buffer b3" "contents b3 = contents b2 @ [0, 0, 0, 0]"
      "scap (b_buf b2) \<le> scap (b_buf b3)"
    by (rule Write_ok [OF b2(2), of "[0, 0, 0, 0]"]) (use b1(4) b2(4) b(4) in simp)
  have small: "length x \<le> scap (b_buf b3)" if "x \<in> set (map bytes_of ?hs)" for x
  proof -
    have "length x \<le> length (headerText s)"
      unfolding headerText_def length_concat using that by (intro member_le_sum_list) auto
    with assms(3) b(4) b1(4) b2(4) b3(4) show ?thesis by linarith
  qed
  then obtain b4 where b4: "writeAll (map bytes_of ?hs) b3 = Some b4" "wf_buffer b4" "contents b4 = contents b3 @ headerText s"
    using writeAll_spec [OF b3(2), of "map bytes_of ?hs"] unfolding headerText_def by blast
  have c4: "contents b4 = t # xs" using b(3) b1(3) b2(3) b3(3) b4(3) all by simp
  have "6 \<le> length (t # xs)" unfolding all [symmetric] by simp
  then have long: "4 \<le> length xs" by simp
  obtain data where data: "Buffer_Bytes b4 = Some data" "wf_slice data" "s_bytes data = contents b4"
    using Buffer_Bytes_contents [OF b4(2)] by blast
  have sl: "slen data = length (contents b4)" using data(2,3) by (metis length_take min.absorb2 s_bytes_def scap_def wf_slice_def)
  define n :: u32 where "n = of_int (Buffer_Size (Some b4) - 5)"
  have n: "n = of_int (int (length xs) - 4)" unfolding n_def Size_contents [OF b4(2)] c4 by simp
  let ?sub = "\<lparr>sarr = drop 1 (sarr data), slen = slen data - 1\<rparr>"
  have sub: "s_slice data 1 (slen data) = Some ?sub" using data(2) sl c4 by (simp add: s_slice_def wf_slice_def)
  obtain sub' where sub': "s_put_at ?sub 0 (le32_bytes n) = Some sub'" using sl c4 long by (simp add: s_put_at_def)
  note sent = sendHeader_bytes [OF b4(2) c4 long data(1) sub sub']
  have "\<exists>bb. SendHeader w h s = Some (None, w\<lparr>w_out := w_out w @ t # le32_bytes n @ drop 4 xs\<rparr>, s\<lparr>st_pools := ?p, wbuffer := Some bb\<rparr>)"
    by (simp add: SendHeader_def wb pairs(1) b(1) b1(1) b2(1) b3(1) b4(1) data(1) sub [simplified] sub' [unfolded n_def, simplified] go_write_accepts [OF assms(2)]
      sent [simplified]) (rule exI, rule refl)
  then show ?thesis unfolding n by blast
qed

lemma SendHeader_empty:
  assumes "wbuffer s = None" "w_next w = []" "length (headerText s) \<le> 1024"
  obtains s' where "SendHeader w [] s = Some (None, w\<lparr>w_out := w_out w @ 0 # le32_bytes (of_nat (1 + length (headerText s))) @ 0 # headerText s\<rparr>, s')"
  using that SendHeader_sends [OF assms, of "[]" "[]" 0 "2 # [0, 0, 0] @ 0 # headerText s"] by auto

lemma readFull_head:
  assumes "length xs = n" "0 < n"
  shows "readFull n [] [(xs @ ys, None)] = Some ((xs, None), if ys = [] then [] else [(ys, None)])"
  using assms by (subst readFull.simps) simp

section \<open>Properties\<close>

text \<open>Looking ahead does not disturb a stream: for any sequence of \<open>Fill\<close> and \<open>Read\<close> calls on an
  \<open>InOutStream\<close>, with or without a read buffer attached at the start, the bytes that the \<open>Read\<close> calls
  return, followed by the bytes still to come, are the bytes of the connection in order.\<close>

theorem stream_transparent:
  assumes "st_ok s" "source_run stream_Fill stream_Read ops s = Some (out, s')"
  shows "st_pending s = out @ st_pending s' \<and> st_ok s'"
  using ios.source_run_transparent [OF assms] by simp

definition ex_stream :: "reader \<Rightarrow> buffer option \<Rightarrow> stream" where
  "ex_stream r b = (NewStream \<lparr>dataChunkPools = replicate 5 [], CountGetBuffer = 0, CountPutBuffer = 0, ioPool = []\<rparr>)\<lparr>st_In := r, rbuffer := b\<rparr>"

lemma ex_stream_simps [simp]:
  "st_In (ex_stream r b) = r" "rbuffer (ex_stream r b) = b" "w_next (st_Out (ex_stream r b)) = []" "w_out (st_Out (ex_stream r b)) = []"
  "st_InCaps (ex_stream r b) = noCaps" "st_OutCaps (ex_stream r b) = noCaps" "RcvdPackets (ex_stream r b) = 0"
  "wbuffer (ex_stream r b) = None" "OutHeader (ex_stream r b) = None"
  by (simp_all add: ex_stream_def NewStream_def)

definition ex_buffer :: "byte list \<Rightarrow> nat \<Rightarrow> buffer" where
  "ex_buffer bs n = \<lparr>b_buf = \<lparr>sarr = bs @ replicate (n - length bs) 0, slen = max n (length bs)\<rparr>, b_off = 0, b_end = length bs\<rparr>"

lemma ex_buffer_ok [simp]: "wf_buffer (ex_buffer bs n)" "contents (ex_buffer bs n) = bs" "b_off (ex_buffer bs n) = 0"
  "scap (b_buf (ex_buffer bs n)) = max n (length bs)" "b_end (ex_buffer bs n) = length bs"
  by (auto simp: ex_buffer_def wf_buffer_def contents_def)

theorem stream_transparent_witness:
  "let s = ex_stream [([3, 4], None)] (Some (ex_buffer [1, 2] 8))
   in st_ok s \<and> (\<exists>s'. source_run stream_Fill stream_Read [Read 1, Peek 2, Read 9] s = Some ([1, 2, 3, 4], s') \<and> st_pending s = [1, 2, 3, 4] @ st_pending s')"
proof -
  let ?s = "ex_stream [([3, 4], None)] (Some (ex_buffer [1, 2] 8))"
  have ok: "st_ok ?s" by (simp add: st_ok_def)
  obtain s' where run: "source_run stream_Fill stream_Read [Read 1, Peek 2, Read 9] ?s = Some ([1, 2, 3, 4], s')"
    by (simp add: stream_Fill_def stream_Read_def RBuffer_def Buffer_ReadData_def buffer_eval ex_buffer_def)
  from stream_transparent [OF ok run] ok run show ?thesis unfolding Let_def by blast
qed

text \<open>Framed messages arrive: messages sent with \<open>Send\<close>, each in a buffer with the space that
  \<open>GetWriteFrame\<close> reserves in front, are received by \<open>Recv\<close> on the other side one by one, in order and
  unchanged, however the connection splits them into reads. The receiving side is one whose \<open>rtCh\<close> has been set and answered; no code of the
  repository sets it (\<open>RoundTripStart\<close>, which would, is commented out), so that today the first \<open>Recv\<close> blocks. The lemma is about the two encodings.\<close>

theorem frames_roundtrip:
  assumes "\<forall>b \<in> set bs. wf_buffer b \<and> 5 \<le> b_off b \<and> length (contents b) + 5 < 2 ^ 32"
    and "w_next (st_Out hc) = []" "w_out (st_Out hc) = []"
  shows "\<exists>hc'. sendAll bs hc = Some hc' \<and> (\<forall>rc rest. grpc_at rc (w_out (st_Out hc') @ rest) \<longrightarrow>
    (\<exists>rc'. recvAll (length bs) rc = Some (map contents bs, rc') \<and> grpc_at rc' rest))"
proof -
  obtain hc' where s: "sendAll bs hc = Some hc'" "w_out (st_Out hc') = concat (map (frame \<circ> contents) bs)"
    using sendAll_frames [of bs hc] assms by auto
  have "\<exists>rc'. recvAll (length bs) rc = Some (map contents bs, rc') \<and> grpc_at rc' rest"
    if "grpc_at rc (w_out (st_Out hc') @ rest)" for rc rest
    using recvAll_frames [of rc "map contents bs" rest] that s(2) assms(1) by (simp del: length_contents)
  with s(1) show ?thesis by blast
qed

definition ex_frame :: "byte list \<Rightarrow> buffer" where
  "ex_frame p = (ex_buffer (replicate 14 0 @ p) 32)\<lparr>b_off := 14\<rparr>"

lemma ex_frame_ok: "wf_buffer (ex_frame p)" "contents (ex_frame p) = p" "b_off (ex_frame p) = 14"
  by (auto simp: ex_frame_def ex_buffer_def wf_buffer_def contents_def)

theorem frames_roundtrip_witness:
  "let bs = [ex_frame [1, 2, 3], ex_frame [], ex_frame [4]];
       hc = ex_stream [] None;
       rc = (ex_stream [(frame [1, 2, 3] @ [0], None), ([0, 0, 0, 0], None), (frame [4], None)] (Some (ex_buffer [] 16)))\<lparr>rtCh := Some None, ResponseStatus := Some 200\<rparr>
   in \<exists>hc' rc'. sendAll bs hc = Some hc' \<and> w_out (st_Out hc') = reader_bytes (st_In rc)
     \<and> recvAll (length bs) rc = Some ([[1, 2, 3], [], [4]], rc')"
proof -
  let ?bs = "[ex_frame [1, 2, 3], ex_frame [], ex_frame [4]]"
  let ?hc = "ex_stream [] None"
  let ?rc = "(ex_stream [(frame [1, 2, 3] @ [0], None), ([0, 0, 0, 0], None), (frame [4], None)] (Some (ex_buffer [] 16)))\<lparr>rtCh := Some None, ResponseStatus := Some 200\<rparr>"
  have bs: "\<forall>b \<in> set ?bs. wf_buffer b \<and> 5 \<le> b_off b \<and> length (contents b) + 5 < 2 ^ 32" by (simp add: ex_frame_ok)
  have e: "frame [1, 2, 3] @ [0, 0, 0, 0, 0] @ frame [4] = concat (map (frame \<circ> contents) ?bs)"
    by (simp add: ex_frame_ok frame_def be32_bytes_def)
  have w: "w_next (st_Out ?hc) = []" "w_out (st_Out ?hc) = []" by simp_all
  obtain hc' where s: "sendAll ?bs ?hc = Some hc'" "\<forall>rc rest. grpc_at rc (w_out (st_Out hc') @ rest) \<longrightarrow>
    (\<exists>rc'. recvAll (length ?bs) rc = Some (map contents ?bs, rc') \<and> grpc_at rc' rest)"
    using frames_roundtrip [OF bs w] by blast
  have out: "w_out (st_Out hc') = frame [1, 2, 3] @ [0, 0, 0, 0, 0] @ frame [4]"
    using sendAll_frames [of ?bs ?hc] bs s(1) e by simp
  have "grpc_at ?rc (w_out (st_Out hc') @ [])" by (simp add: out grpc_at_def plain_reader_def io_simps)
  with s(2) obtain rc' where "recvAll (length ?bs) ?rc = Some (map contents ?bs, rc')" by blast
  with s(1) out show ?thesis unfolding Let_def by (simp add: ex_frame_ok io_simps del: recvAll.simps sendAll.simps)
qed

text \<open>With a read buffer attached, \<open>WriteTo\<close> delivers the stream: first the bytes that were looked at,
  then the rest of the connection to its end, in order and counted, to a destination that accepts all
  writes.\<close>

theorem writeTo_complete:
  assumes buf: "rbuffer s = Some b" "wf_buffer b" "b_off b < scap (b_buf b)" and plain: "plain_reader (st_In s)"
    and w: "w_next (fst w) = []" and splice: "\<not> CanSplice (st_InCaps s) (snd w)"
  shows "\<exists>w' s'. stream_WriteTo w s = Some ((length (st_pending s), Some EOF), w', s') \<and> w_out w' = w_out (fst w) @ st_pending s"
proof -
  have pend: "st_pending s = contents b @ reader_bytes (st_In s)" using buf(1) by (simp add: st_pending_def)
  obtain s1 w1 n1 b1 where first: "bufferFirst (fst w) s = Some ((n1, None), w1, s1)" "n1 = length (contents b)" "w_next w1 = []"
    "w_out w1 = w_out (fst w) @ contents b" "st_In s1 = st_In s" "st_InCaps s1 = st_InCaps s" "rbuffer s1 = Some b1" "wf_buffer b1"
    "b_off b1 < scap (b_buf b1)"
  proof (cases "Buffer_IsEmpty (Some b)")
    case True
    then have "contents b = []" by (simp add: Buffer_IsEmpty_def contents_def)
    with True buf w show ?thesis by (intro that [of 0 "fst w" s b]) (simp_all add: bufferFirst_def)
  next
    case False
    let ?b1 = "b\<lparr>b_off := 0, b_end := 0\<rparr>"
    have skip: "snd (Buffer_Skip b (length (contents b))) = ?b1"
      using buf(2) by (auto simp: Buffer_Skip_def Let_def wf_buffer_def)
    show ?thesis
      using False buf w skip
      by (intro that [of "length (contents b)" "(fst w)\<lparr>w_out := w_out (fst w) @ contents b\<rparr>" "s\<lparr>rbuffer := Some ?b1\<rparr>" ?b1])
        (simp_all add: bufferFirst_def unread_eq go_write_accepts del: length_contents)
  qed
  obtain sl where sl: "Buffer_Bytes b1 = Some sl" "scap sl = scap (b_buf b1) - b_off b1"
    using first(8) by (simp add: Buffer_Bytes_def s_slice_def wf_buffer_def scap_def)
  obtain w' s' where "writeToLoop (scap (b_buf b1) - b_off b1) (isFlusher (snd w)) n1 w1 s1
      = Some ((n1 + length (reader_bytes (st_In s)), Some EOF), w', s')" "w_out w' = w_out w1 @ reader_bytes (st_In s)"
    using writeToLoop_complete [of "scap (b_buf b1) - b_off b1" s1 w1 "isFlusher (snd w)" n1] first plain by auto
  with first sl splice show ?thesis by (simp add: stream_WriteTo_def pend del: length_contents)
qed

theorem writeTo_complete_witness:
  "let s = ex_stream [([3], None), ([4, 5], None)] (Some (ex_buffer [1, 2] 2))
   in \<exists>w' s'. stream_WriteTo (\<lparr>w_out = [], w_next = []\<rparr>, noCaps) s = Some ((5, Some EOF), w', s') \<and> w_out w' = [1, 2, 3, 4, 5]"
proof -
  let ?s = "ex_stream [([3], None), ([4, 5], None)] (Some (ex_buffer [1, 2] 2))"
  let ?w = "(\<lparr>w_out = [], w_next = []\<rparr>, noCaps)"
  have h: "rbuffer ?s = Some (ex_buffer [1, 2] 2)" "wf_buffer (ex_buffer [1, 2] 2)" "b_off (ex_buffer [1, 2] 2) < scap (b_buf (ex_buffer [1, 2] 2))"
    "plain_reader (st_In ?s)" "w_next (fst ?w) = []" "\<not> CanSplice (st_InCaps ?s) (snd ?w)" "st_pending ?s = [1, 2, 3, 4, 5]"
    by (simp_all add: plain_reader_def CanSplice_def noCaps_def st_pending_def io_simps)
  from writeTo_complete [OF h(1-6)] h(7) show ?thesis unfolding Let_def by (simp add: eval_nat_numeral)
qed

text \<open>Without a read buffer \<open>WriteTo\<close> never returns while there is data: the chunk is assigned to a
  shadowed variable, the copy buffer is empty, and reads into it give nothing for ever.\<close>

theorem writeTo_spins:
  assumes "rbuffer s = None" "st_In s = (x # xs, e) # r" "\<not> CanSplice (st_InCaps s) (snd w)"
  shows "stream_WriteTo w s = None"
  using writeToLoop_stuck [OF assms(2)] assms(1,3) by (simp add: stream_WriteTo_def bufferFirst_def)

theorem writeTo_spins_witness:
  "stream_WriteTo (\<lparr>w_out = [], w_next = []\<rparr>, noCaps) (ex_stream [([7], None)] None) = None"
  by (rule writeTo_spins [of _ 7 "[]" None "[]"]) (simp_all add: CanSplice_def noCaps_def)

text \<open>\<open>ProxyTo\<close> never returns when the dialed connection ends as TCP and TLS connections do, with a
  read of zero bytes and \<open>io.EOF\<close>: the loop of \<open>ReadFrom\<close> looks at the error of a read only together
  with data.\<close>

theorem proxyTo_hangs:
  assumes "plain_reader (c_in nc)" "w_next (st_Out s) = []" "\<not> CanSplice (c_caps nc) (st_OutCaps s)"
  shows "ProxyTo nc s = None"
  using readFromLoop_stuck [OF assms(1,2)] assms(3) by (simp add: ProxyTo_def proxyFromClient_def stream_ReadFrom_def)

theorem proxyTo_hangs_witness:
  "ProxyTo \<lparr>c_in = [([1, 2], None)], c_out = \<lparr>w_out = [], w_next = []\<rparr>, c_caps = tcpCaps, c_closed = 0, c_closeWrite = 0\<rparr>
     (ex_stream [([7], None)] None) = None"
  by (rule proxyTo_hangs) (simp_all add: plain_reader_def CanSplice_def noCaps_def)

text \<open>The headers that \<open>SendHeader\<close> writes are not in the format that \<open>ReadHeader\<close> reads. Even without
  binary headers, the length is stored over the tag and one position early: the message is a zero byte,
  the length of the rest, another zero byte and the header text, and \<open>ReadHeader\<close> gives the header parser
  the text with the stray zero byte in front.\<close>

theorem header_mismatch:
  assumes "wbuffer s = None" "length (headerText s) \<le> 1024"
  shows "\<exists>w s'. SendHeader \<lparr>w_out = [], w_next = []\<rparr> [] s = Some (None, w, s')
    \<and> (\<exists>s2. ReadHeader parse [(w_out w, None)] t = Some (None, [], s2) \<and> InHeader s2 = parse (0 # headerText s))"
proof -
  let ?n = "of_nat (1 + length (headerText s)) :: u32"
  let ?msg = "0 # le32_bytes ?n @ 0 # headerText s"
  obtain s' where send: "SendHeader \<lparr>w_out = [], w_next = []\<rparr> [] s = Some (None, \<lparr>w_out = ?msg, w_next = []\<rparr>, s')"
    by (rule SendHeader_empty [OF assms(1) _ assms(2), of "\<lparr>w_out = [], w_next = []\<rparr>"]) simp_all
  have un: "unat ?n = 1 + length (headerText s)"
    using assms(2) by (simp add: unsigned_of_nat take_bit_nat_eq_self del: of_nat_add of_nat_Suc)
  have gt: "\<not> ?n > 32 * 1024" using assms(2) by (simp only: word_less_nat_alt un) simp
  have r1: "readFull 5 [] [(?msg, None)] = Some ((0 # le32_bytes ?n, None), [(0 # headerText s, None)])"
    using readFull_head [of "0 # le32_bytes ?n" 5 "0 # headerText s"] by simp
  have r2: "readFull (unat ?n) [] [(0 # headerText s, None)] = Some ((0 # headerText s, None), [])"
    using readFull_head [of "0 # headerText s" "unat ?n" "[]"] un by simp
  have lv: "le32_val (drop 1 ((0 # le32_bytes ?n) @ replicate (5 - length (0 # le32_bytes ?n)) 0)) = Some ?n"
    using le32_roundtrip [of ?n "[]"] by simp
  have "ReadHeader parse [(?msg, None)] t = Some (None, [], t\<lparr>InHeader := parse (0 # headerText s)\<rparr>)"
    unfolding ReadHeader_def by (simp only: r1 r2 lv gt bind.bind_lunit prod.case if_False) simp
  with send show ?thesis by (intro exI [of _ "\<lparr>w_out = ?msg, w_next = []\<rparr>"]) simp
qed

theorem header_mismatch_witness:
  "let s = (ex_stream [] None)\<lparr>OutHeader := Some [(''A'', [''b''])]\<rparr>
   in \<exists>w s'. SendHeader \<lparr>w_out = [], w_next = []\<rparr> [] s = Some (None, w, s')
    \<and> (\<exists>s2. ReadHeader (\<lambda>bs. [(''raw'', [str_of bs])]) [(w_out w, None)] s = Some (None, [], s2)
        \<and> InHeader s2 = [(''raw'', [str_of (0 # headerText s)])])"
proof -
  let ?s = "(ex_stream [] None)\<lparr>OutHeader := Some [(''A'', [''b''])]\<rparr>"
  have h: "wbuffer ?s = None" "length (headerText ?s) \<le> 1024"
    by (simp_all add: headerText_def header_strings_def header_value_def is_token_def is_space_def)
  from header_mismatch [OF h, of "\<lambda>bs. [(''raw'', [str_of bs])]" ?s] show ?thesis unfolding Let_def .
qed

lemma Fill_0_EOF: "Buffer_Fill b [] 0 = Some ((x, e), b', r') \<Longrightarrow> e = Some EOF"
  by (auto simp: Buffer_Fill_def readInto_def bind_eq_Some_conv split: if_splits)

text \<open>\<open>Skip\<close> does not skip what it should. With an empty read buffer, skipping \<open>n\<close> bytes of a run of
  bytes that the connection delivers at once drops twice as many when there are more than that, and
  none at all otherwise.\<close>

theorem skip_wrong:
  assumes buf: "rbuffer s = Some b" "wf_buffer b" "b_off b = 0" "b_end b = 0" "1024 \<le> scap (b_buf b)"
    and inp: "st_In s = [(bs, None)]" "length bs < scap (b_buf b)" "bs \<noteq> []" and n: "0 < n"
  shows "\<exists>s'. stream_Skip s n = Some s' \<and> st_pending s = bs
    \<and> st_pending s' = (if length bs \<le> 2 * n then bs else drop (2 * n) bs)"
proof -
  have c0: "contents b = []" using buf by simp
  have skip0: "Buffer_Skip b n = (- int n, b)" using buf n by (simp add: Buffer_Skip_def)
  obtain t where t: "Buffer_Compact b = Some b" "scap (b_buf b) = t" using buf by (simp add: Buffer_Compact_def)
  obtain e b1 r1 where rd: "readInto b (st_In s) = Some (e, b1, r1)" "wf_buffer b1" "b_off b1 = b_off b"
    "contents b1 @ reader_bytes r1 = contents b @ reader_bytes (st_In s)"
    using readInto_spec [OF buf(2), of "st_In s"] by blast
  have g: "go_read (scap (b_buf b) - b_end b) (st_In s) = (contents b1, e, r1)"
    by (rule readInto_read [OF buf(2) c0 rd(1)])
  have b1: "contents b1 = bs" "e = None" "r1 = []" using g inp buf(4) by auto
  have f1: "Buffer_Fill b (st_In s) 0 = Some ((bs, None), b1, [])"
    using buf rd t b1 by (simp add: Buffer_Fill_def unread_eq)
  define s1 where "s1 = s\<lparr>rbuffer := Some b1, st_In := []\<rparr>"
  have F1: "stream_Fill s 0 = Some ((bs, None), s1)" using f1 buf(1) by (simp add: stream_Fill_def RBuffer_def s1_def)
  have e1: "b_end b1 = length bs" using length_contents [OF rd(2)] b1(1) rd(3) buf(3) by simp
  obtain b2 where b2: "Buffer_Compact b1 = Some b2" "wf_buffer b2" "contents b2 = bs" "b_off b2 = 0"
    using Buffer_Compact_spec [OF rd(2)] b1(1) by metis
  have pend: "st_pending s = bs" using buf(1) c0 inp(1) by (simp add: st_pending_def io_simps)
  have S: "stream_Skip s n = skipLoop s (2 * int n)"
    using buf(1) n by (simp add: stream_Skip_def skip0) (simp add: buf(1) [symmetric])
  have unf: "skipLoop s (2 * int n) = (if length bs < 2 * n then skipLoop (s1\<lparr>rbuffer := Some b2\<rparr>) (2 * int n - int (length bs))
      else if length bs = 2 * n then Some (s1\<lparr>rbuffer := Some b2\<rparr>) else Some (s1\<lparr>rbuffer := Some (snd (Buffer_Skip b1 (2 * n)))\<rparr>))"
    using b2(1) by (simp add: skipLoop.simps [of s "2 * int n"] F1 s1_def nat_mult_distrib)
  consider (less) "length bs < 2 * n" | (eq) "length bs = 2 * n" | (gt) "2 * n < length bs" by linarith
  then show ?thesis
  proof cases
    case less
    let ?s2 = "s1\<lparr>rbuffer := Some b2\<rparr>"
    have ok: "st_ok ?s2" "st_pending ?s2 = bs" using b2 by (simp_all add: st_ok_def st_pending_def s1_def io_simps)
    obtain x e3 b3 r3 where f3: "Buffer_Fill b2 [] 0 = Some ((x, e3), b3, r3)"
      using Buffer_Fill_returns [OF b2(2), of 0 "[]"] b2(4) by (metis surj_pair)
    have fill: "stream_Fill ?s2 0 = Some ((x, e3), ?s2\<lparr>rbuffer := Some b3, st_In := r3\<rparr>)"
      using f3 by (simp add: stream_Fill_def RBuffer_def s1_def)
    have "skipLoop ?s2 (2 * int n - int (length bs)) = Some (?s2\<lparr>rbuffer := Some b3, st_In := r3\<rparr>)"
      using Fill_0_EOF [OF f3] by (simp add: skipLoop.simps [of ?s2] fill)
    with S unf less pend ok ios.peek_pending [OF ok(1) fill] show ?thesis by simp
  next
    case eq
    with S unf pend b2 show ?thesis by (simp add: st_pending_def s1_def io_simps)
  next
    case gt
    have "snd (Buffer_Skip b1 (2 * n)) = b1\<lparr>b_off := b_off b1 + 2 * n\<rparr>"
      using gt e1 rd(3) buf(3) by (simp add: Buffer_Skip_def)
    moreover have "contents (b1\<lparr>b_off := b_off b1 + 2 * n\<rparr>) = drop (2 * n) bs"
      using contents_advance [OF rd(2), of "2 * n"] gt b1(1) by simp
    ultimately show ?thesis using S unf pend gt by (simp add: st_pending_def s1_def io_simps)
  qed
qed

theorem skip_wrong_witness:
  "let s = ex_stream [([1, 2, 3, 4], None)] (Some (ex_buffer [] 2048))
   in \<exists>s' s''. stream_Skip s 3 = Some s' \<and> st_pending s' = [1, 2, 3, 4] \<and> stream_Skip s 1 = Some s'' \<and> st_pending s'' = [3, 4]"
proof -
  let ?s = "ex_stream [([1, 2, 3, 4], None)] (Some (ex_buffer [] 2048))"
  have h: "rbuffer ?s = Some (ex_buffer [] 2048)" "wf_buffer (ex_buffer [] 2048)" "b_off (ex_buffer [] 2048) = 0" "b_end (ex_buffer [] 2048) = 0"
    "1024 \<le> scap (b_buf (ex_buffer [] 2048))" "st_In ?s = [([1, 2, 3, 4], None)]" "length [1, 2, 3, 4::byte] < scap (b_buf (ex_buffer [] 2048))" "[1, 2, 3, 4] \<noteq> ([] :: byte list)"
    by simp_all
  from skip_wrong [OF h, of 3] skip_wrong [OF h, of 1] show ?thesis unfolding Let_def by auto
qed

end
