(* ===== verification/Nio_Conn.thy ===== *)
theory Nio_Conn
  imports Nio_Stream
begin

text \<open>
  The \<open>Stream\<close> implementations besides \<open>InOutStream\<close>: \<^verbatim>\<open>src/nio/stream_conn.go\<close> (a wrapped \<open>net.Conn\<close>),
  \<^verbatim>\<open>src/nio/stream_h2_server.go\<close> (the request body and response writer of a handler) and
  \<^verbatim>\<open>src/nio/stream_h2_client.go\<close> (a POST request whose body is a pipe, and \<open>H2Dialer\<close> that makes it).

  The contract that all of them, and \<open>InOutStream\<close>, give their users is the locale \<open>net_conn\<close>: reads
  return the bytes of the peer in order, writes hand over a prefix of the bytes given, and neither
  touches the other direction.
\<close>

section \<open>StreamConn\<close>

record streamConn =
  sc_In :: reader
  sc_Out :: writer
  sc_closed :: nat
  sc_deadlines :: nat
  sc_TLS :: bool

definition NewStreamConn :: "reader \<Rightarrow> writer \<Rightarrow> bool \<Rightarrow> streamConn" where
  "NewStreamConn r w isTLS = \<lparr>sc_In = r, sc_Out = w, sc_closed = 0, sc_deadlines = 0, sc_TLS = isTLS\<rparr>"

definition StreamConn_Read :: "streamConn \<Rightarrow> nat \<Rightarrow> ((byte list \<times> goerr option) \<times> streamConn) option" where
  "StreamConn_Read s n = (let (bs, e, r) = go_read n (sc_In s) in Some ((bs, e), s\<lparr>sc_In := r\<rparr>))"

definition StreamConn_Write :: "byte list \<Rightarrow> streamConn \<Rightarrow> (nat \<times> goerr option) \<times> streamConn" where
  "StreamConn_Write b s = (let (n, e, w) = go_write b (sc_Out s) in ((n, e), s\<lparr>sc_Out := w\<rparr>))"

definition StreamConn_Close :: "goerr option \<Rightarrow> streamConn \<Rightarrow> goerr option \<times> streamConn" where
  "StreamConn_Close err s = (err, s\<lparr>sc_closed := Suc (sc_closed s)\<rparr>)"

definition StreamConn_SetDeadline :: "streamConn \<Rightarrow> streamConn" where
  "StreamConn_SetDeadline s = s\<lparr>sc_deadlines := Suc (sc_deadlines s)\<rparr>"

section \<open>StreamHttpServer\<close>

record httpServerStream =
  hs_Body :: reader
  hs_Writer :: writer
  hs_Flusher :: bool
  hs_WriteErr :: "goerr option"
  hs_SentBytes :: nat
  hs_SentPackets :: nat
  hs_ReadCloser :: bool
  hs_RemoteAddr :: string
  hs_flushed :: nat \<comment> \<open>how many bytes of the response were flushed\<close>
  hs_readClosed :: nat

definition NewStreamServerRequest :: "reader \<Rightarrow> string \<Rightarrow> writer \<Rightarrow> bool \<Rightarrow> httpServerStream" where
  "NewStreamServerRequest body addr w flusher = \<lparr>hs_Body = body, hs_Writer = w, hs_Flusher = flusher, hs_WriteErr = None,
     hs_SentBytes = 0, hs_SentPackets = 0, hs_ReadCloser = False, hs_RemoteAddr = addr, hs_flushed = 0, hs_readClosed = 0\<rparr>"

definition StreamHttpServer_Read :: "httpServerStream \<Rightarrow> nat \<Rightarrow> ((byte list \<times> goerr option) \<times> httpServerStream) option" where
  "StreamHttpServer_Read s n = (let (bs, e, r) = go_read n (hs_Body s) in Some ((bs, e), s\<lparr>hs_Body := r\<rparr>))"

definition StreamHttpServer_Write :: "byte list \<Rightarrow> httpServerStream \<Rightarrow> (nat \<times> goerr option) \<times> httpServerStream" where
  "StreamHttpServer_Write b s =
     (let (n, err, w) = go_write b (hs_Writer s); s = s\<lparr>hs_Writer := w\<rparr> in
      if err \<noteq> None then ((n, err), s\<lparr>hs_WriteErr := err\<rparr>)
      else ((n, None), s\<lparr>hs_flushed := (if hs_Flusher s then length (w_out (hs_Writer s)) else hs_flushed s),
                         hs_SentBytes := hs_SentBytes s + n, hs_SentPackets := hs_SentPackets s + 1\<rparr>))"

definition StreamHttpServer_CloseWrite :: "httpServerStream \<Rightarrow> goerr option \<times> httpServerStream" where
  "StreamHttpServer_CloseWrite s = (None, s)"

definition StreamHttpServer_Close :: "httpServerStream \<Rightarrow> goerr option \<times> httpServerStream" where
  "StreamHttpServer_Close s =
     StreamHttpServer_CloseWrite (if hs_ReadCloser s then s\<lparr>hs_readClosed := Suc (hs_readClosed s)\<rparr> else s)"

text \<open>\<open>resolve\<close> stands for \<open>net.ResolveTCPAddr\<close>.\<close>

definition StreamHttpServer_RemoteAddr :: "(string \<Rightarrow> string option) \<Rightarrow> httpServerStream \<Rightarrow> string option" where
  "StreamHttpServer_RemoteAddr resolve s = (if hs_RemoteAddr s \<noteq> [] then resolve (hs_RemoteAddr s) else None)"

section \<open>StreamHttpClient and H2Dialer\<close>

record httpClientStream =
  hc_Body :: reader
  hc_Pipe :: writer
  hc_pipeClosed :: nat
  hc_WriteErr :: "goerr option"
  hc_SentBytes :: nat
  hc_SentPackets :: nat
  hc_ReadCloser :: bool
  hc_readClosed :: nat
  hc_reqHeader :: header

definition newStreamHttpRequest :: "writer \<Rightarrow> header \<Rightarrow> reader \<Rightarrow> httpClientStream" where
  "newStreamHttpRequest rw reqHeader body = \<lparr>hc_Body = body, hc_Pipe = rw, hc_pipeClosed = 0, hc_WriteErr = None,
     hc_SentBytes = 0, hc_SentPackets = 0, hc_ReadCloser = False, hc_readClosed = 0, hc_reqHeader = reqHeader\<rparr>"

definition NewStreamRequest :: "header \<Rightarrow> writer \<Rightarrow> reader \<Rightarrow> httpClientStream" where
  "NewStreamRequest reqHeader out body = \<lparr>hc_Body = body, hc_Pipe = out, hc_pipeClosed = 0, hc_WriteErr = None,
     hc_SentBytes = 0, hc_SentPackets = 0, hc_ReadCloser = False, hc_readClosed = 0, hc_reqHeader = reqHeader\<rparr>"

definition StreamHttpClient_Read :: "httpClientStream \<Rightarrow> nat \<Rightarrow> ((byte list \<times> goerr option) \<times> httpClientStream) option" where
  "StreamHttpClient_Read s n = (let (bs, e, r) = go_read n (hc_Body s) in Some ((bs, e), s\<lparr>hc_Body := r\<rparr>))"

definition StreamHttpClient_Write :: "byte list \<Rightarrow> httpClientStream \<Rightarrow> (nat \<times> goerr option) \<times> httpClientStream" where
  "StreamHttpClient_Write b s =
     (let (n, err, w) = go_write b (hc_Pipe s); s = s\<lparr>hc_Pipe := w\<rparr> in
      if err \<noteq> None then ((n, err), s\<lparr>hc_WriteErr := err\<rparr>)
      else ((n, None), s\<lparr>hc_SentBytes := hc_SentBytes s + n, hc_SentPackets := hc_SentPackets s + 1\<rparr>))"

definition StreamHttpClient_CloseWrite :: "httpClientStream \<Rightarrow> goerr option \<times> httpClientStream" where
  "StreamHttpClient_CloseWrite s = (None, s\<lparr>hc_pipeClosed := Suc (hc_pipeClosed s)\<rparr>)"

definition StreamHttpClient_Close :: "httpClientStream \<Rightarrow> goerr option \<times> httpClientStream" where
  "StreamHttpClient_Close s =
     StreamHttpClient_CloseWrite (if hc_ReadCloser s then s\<lparr>hc_readClosed := Suc (hc_readClosed s)\<rparr> else s)"

definition ConnectOverrideHeader :: string where
  "ConnectOverrideHeader = ''x-host''"

text \<open>\<open>CopyTo\<close>. \<open>getToken\<close> is the token source (\<open>None\<close>: nil), \<open>httpDo\<close> what the HTTP client's \<open>Do\<close> gives for
  the URL and request header: the response body or an error. Result: the request header and the body.\<close>

definition H2Dialer_CopyTo :: "(string \<Rightarrow> goerr + string) option \<Rightarrow> string \<Rightarrow> (string \<Rightarrow> header \<Rightarrow> goerr + reader)
    \<Rightarrow> string \<Rightarrow> goerr + (header \<times> reader)" where
  "H2Dialer_CopyTo getToken tunURL httpDo addr =
     (case (case getToken of None \<Rightarrow> Inr []
            | Some gt \<Rightarrow> (case gt addr of Inl e \<Rightarrow> Inl e
                | Inr t \<Rightarrow> Inr (if t \<noteq> [] then [(''authorization'', [''Bearer '' @ t])] else []))) of
        Inl e \<Rightarrow> Inl e
      | Inr hdr \<Rightarrow>
          (let hdr = hdr @ [(ConnectOverrideHeader, [addr])] in
           case httpDo tunURL hdr of Inl e \<Rightarrow> Inl e | Inr body \<Rightarrow> Inr (hdr, body)))"

definition H2Dialer_DialContext :: "(string \<Rightarrow> goerr + string) option \<Rightarrow> string \<Rightarrow> (string \<Rightarrow> header \<Rightarrow> goerr + reader)
    \<Rightarrow> writer \<Rightarrow> string \<Rightarrow> goerr + httpClientStream" where
  "H2Dialer_DialContext getToken tunURL httpDo pipe addr =
     (case H2Dialer_CopyTo getToken tunURL httpDo addr of Inl e \<Rightarrow> Inl e
      | Inr (hdr, body) \<Rightarrow> Inr (newStreamHttpRequest pipe hdr body))"

definition NewStreamH2 :: "(string \<Rightarrow> header \<Rightarrow> goerr + reader) \<Rightarrow> string \<Rightarrow> string \<Rightarrow> (string \<Rightarrow> goerr + string) option
    \<Rightarrow> writer \<Rightarrow> goerr + httpClientStream" where
  "NewStreamH2 httpDo addr tcpaddr mds pipe = H2Dialer_DialContext mds addr httpDo pipe tcpaddr"

section \<open>The contract of a connection\<close>

locale net_conn =
  fixes inv :: "'s \<Rightarrow> bool"
    and pending :: "'s \<Rightarrow> byte list"
    and sent :: "'s \<Rightarrow> byte list"
    and get :: "'s \<Rightarrow> nat \<Rightarrow> ((byte list \<times> goerr option) \<times> 's) option"
    and put :: "byte list \<Rightarrow> 's \<Rightarrow> (nat \<times> goerr option) \<times> 's"
  assumes read_inv: "inv s \<Longrightarrow> get s n = Some ((bs, e), s') \<Longrightarrow> inv s'"
    and read_pending: "inv s \<Longrightarrow> get s n = Some ((bs, e), s') \<Longrightarrow> pending s = bs @ pending s'"
    and read_sent: "inv s \<Longrightarrow> get s n = Some ((bs, e), s') \<Longrightarrow> sent s' = sent s"
    and read_total: "inv s \<Longrightarrow> get s n \<noteq> None"
    and write_inv: "inv s \<Longrightarrow> put bs s = ((k, e), s') \<Longrightarrow> inv s'"
    and write_pending: "inv s \<Longrightarrow> put bs s = ((k, e), s') \<Longrightarrow> pending s' = pending s"
    and write_sent: "inv s \<Longrightarrow> put bs s = ((k, e), s') \<Longrightarrow> sent s' = sent s @ take k bs \<and> k \<le> length bs"

text \<open>Any use of a connection: reads of some size and writes, in any order. The result: the bytes read,
  and for every write the bytes that were accepted.\<close>

datatype conn_op = CRead nat | CWrite "byte list"

fun conn_run :: "('s \<Rightarrow> nat \<Rightarrow> ((byte list \<times> goerr option) \<times> 's) option) \<Rightarrow> (byte list \<Rightarrow> 's \<Rightarrow> (nat \<times> goerr option) \<times> 's)
    \<Rightarrow> conn_op list \<Rightarrow> 's \<Rightarrow> (byte list \<times> byte list \<times> 's) option" where
  "conn_run rd wr [] s = Some ([], [], s)"
| "conn_run rd wr (CRead n # ops) s = do {
     ((bs, _), s) \<leftarrow> rd s n;
     (got, acc, s) \<leftarrow> conn_run rd wr ops s;
     Some (bs @ got, acc, s) }"
| "conn_run rd wr (CWrite bs # ops) s = (let ((k, _), s) = wr bs s in do {
     (got, acc, s) \<leftarrow> conn_run rd wr ops s;
     Some (got, take k bs @ acc, s) })"

context net_conn
begin

lemma conn_run_duplex:
  assumes "inv s"
  shows "\<exists>got acc s'. conn_run get put ops s = Some (got, acc, s') \<and> inv s'
    \<and> pending s = got @ pending s' \<and> sent s' = sent s @ acc"
  using assms
proof (induction ops arbitrary: s)
  case (Cons op ops)
  show ?case
  proof (cases op)
    case (CRead n)
    obtain bs e s1 where rd: "get s n = Some ((bs, e), s1)"
      using read_total [OF Cons.prems, of n] by (cases "get s n") auto
    obtain got acc s' where "conn_run get put ops s1 = Some (got, acc, s')" "inv s'" "pending s1 = got @ pending s'" "sent s' = sent s1 @ acc"
      using Cons.IH [OF read_inv [OF Cons.prems rd]] by blast
    with CRead rd read_pending [OF Cons.prems rd] read_sent [OF Cons.prems rd] show ?thesis by simp
  next
    case (CWrite bs)
    obtain k e s1 where wr: "put bs s = ((k, e), s1)" by (metis surj_pair)
    obtain got acc s' where "conn_run get put ops s1 = Some (got, acc, s')" "inv s'" "pending s1 = got @ pending s'" "sent s' = sent s1 @ acc"
      using Cons.IH [OF write_inv [OF Cons.prems wr]] by blast
    with CWrite wr write_pending [OF Cons.prems wr] write_sent [OF Cons.prems wr] show ?thesis by simp
  qed
qed simp

end

interpretation scn: net_conn "\<lambda>s. True" "\<lambda>s. reader_bytes (sc_In s)" "\<lambda>s. w_out (sc_Out s)" StreamConn_Read StreamConn_Write
  by unfold_locales
    (auto simp: StreamConn_Read_def StreamConn_Write_def dest: go_read_bytes go_write_out split: prod.splits)

interpretation hsn: net_conn "\<lambda>s. True" "\<lambda>s. reader_bytes (hs_Body s)" "\<lambda>s. w_out (hs_Writer s)" StreamHttpServer_Read StreamHttpServer_Write
  by unfold_locales
    (auto simp: StreamHttpServer_Read_def StreamHttpServer_Write_def Let_def dest: go_read_bytes go_write_out split: prod.splits if_splits)

interpretation hcn: net_conn "\<lambda>s. True" "\<lambda>s. reader_bytes (hc_Body s)" "\<lambda>s. w_out (hc_Pipe s)" StreamHttpClient_Read StreamHttpClient_Write
  by unfold_locales
    (auto simp: StreamHttpClient_Read_def StreamHttpClient_Write_def Let_def dest: go_read_bytes go_write_out split: prod.splits if_splits)

lemma stream_Read_total: "st_ok s \<Longrightarrow> stream_Read s n \<noteq> None"
  by (auto simp: stream_Read_def st_ok_def Buffer_Size_def Buffer_ReadData_def unread_eq Let_def split: option.splits prod.splits)

lemma stream_Read_out: "stream_Read s n = Some ((bs, e), s') \<Longrightarrow> st_Out s' = st_Out s"
  by (auto simp: stream_Read_def Let_def bind_eq_Some_conv split: option.splits if_splits prod.splits)

interpretation ion: net_conn st_ok st_pending "\<lambda>s. w_out (st_Out s)" stream_Read stream_Write
proof unfold_locales
  fix s n bs e s'
  assume "st_ok s" "stream_Read s n = Some ((bs, e), s')"
  then show "st_ok s'" "st_pending s = bs @ st_pending s'" "w_out (st_Out s') = w_out (st_Out s)"
    using ios.read_ok ios.read_pending stream_Read_out by metis+
next
  fix s n
  assume "st_ok s"
  then show "stream_Read s n \<noteq> None" by (rule stream_Read_total)
next
  fix s bs k e s'
  assume ok: "st_ok s" and wr: "stream_Write bs s = ((k, e), s')"
  then show "st_ok s'" "st_pending s' = st_pending s" "w_out (st_Out s') = w_out (st_Out s) @ take k bs \<and> k \<le> length bs"
    by (auto simp: stream_Write_def st_ok_def st_pending_def Let_def dest: go_write_out split: prod.splits option.splits)
qed

section \<open>Properties\<close>

text \<open>A tunnel opened with \<open>NewStreamH2\<close>: the request names the address asked for (and carries the token, when there is one), and in any sequence
  of reads and writes the bytes read are those of the response body in order, and the bytes put into the request are exactly those that the
  writes accepted, in order.\<close>

lemma tunnel_duplex:
  assumes "NewStreamH2 httpDo url addr mds pipe = Inr s"
  shows "(\<exists>body. httpDo url (hc_reqHeader s) = Inr body \<and> hc_Body s = body)
    \<and> (ConnectOverrideHeader, [addr]) \<in> set (hc_reqHeader s)
    \<and> (\<forall>gt t. mds = Some gt \<and> gt addr = Inr t \<and> t \<noteq> [] \<longrightarrow> (''authorization'', [''Bearer '' @ t]) \<in> set (hc_reqHeader s))
    \<and> (\<exists>got acc s'. conn_run StreamHttpClient_Read StreamHttpClient_Write ops s = Some (got, acc, s')
        \<and> reader_bytes (hc_Body s) = got @ reader_bytes (hc_Body s') \<and> w_out (hc_Pipe s') = w_out pipe @ acc)"
proof -
  have pipe: "hc_Pipe s = pipe"
    using assms by (auto simp: NewStreamH2_def H2Dialer_DialContext_def newStreamHttpRequest_def split: sum.splits)
  have "\<exists>got acc s'. conn_run StreamHttpClient_Read StreamHttpClient_Write ops s = Some (got, acc, s')
        \<and> reader_bytes (hc_Body s) = got @ reader_bytes (hc_Body s') \<and> w_out (hc_Pipe s') = w_out pipe @ acc"
    using hcn.conn_run_duplex [of ops s] pipe by auto
  then show ?thesis
    using assms
    by (auto simp: NewStreamH2_def H2Dialer_DialContext_def H2Dialer_CopyTo_def newStreamHttpRequest_def Let_def
      split: sum.splits option.splits if_splits)
qed

text \<open>The other streams: the wrapped \<open>net.Conn\<close> and the buffered \<open>InOutStream\<close> keep the contract of a connection too.\<close>

lemma conns_duplex:
  assumes "st_ok io"
  shows "(\<exists>got acc c'. conn_run StreamConn_Read StreamConn_Write ops c = Some (got, acc, c')
        \<and> reader_bytes (sc_In c) = got @ reader_bytes (sc_In c') \<and> w_out (sc_Out c') = w_out (sc_Out c) @ acc)
    \<and> (\<exists>got acc io'. conn_run stream_Read stream_Write ops io = Some (got, acc, io') \<and> st_ok io'
        \<and> st_pending io = got @ st_pending io' \<and> w_out (st_Out io') = w_out (st_Out io) @ acc)"
  using scn.conn_run_duplex [of ops c] ion.conn_run_duplex [OF assms, of ops] by auto

text \<open>On a writer that takes everything, a connection accepts all that is written to it.\<close>

definition written :: "conn_op list \<Rightarrow> byte list" where
  "written ops = concat (map (\<lambda>op. case op of CWrite bs \<Rightarrow> bs | CRead _ \<Rightarrow> []) ops)"

lemma client_writes:
  assumes "conn_run StreamHttpClient_Read StreamHttpClient_Write ops s = Some (got, acc, s')" "w_next (hc_Pipe s) = []"
  shows "w_out (hc_Pipe s') = w_out (hc_Pipe s) @ written ops"
  using assms
proof (induction ops arbitrary: s got acc)
  case (Cons op ops)
  show ?case
  proof (cases op)
    case (CRead n)
    obtain bs e rd where "go_read n (hc_Body s) = (bs, e, rd)" by (metis surj_pair)
    then have "StreamHttpClient_Read s n = Some ((bs, e), s\<lparr>hc_Body := rd\<rparr>)" by (simp add: StreamHttpClient_Read_def)
    then obtain got1 where "conn_run StreamHttpClient_Read StreamHttpClient_Write ops (s\<lparr>hc_Body := rd\<rparr>) = Some (got1, acc, s')"
      using Cons.prems(1) CRead by (auto simp: bind_eq_Some_conv)
    from Cons.IH [OF this] Cons.prems(2) show ?thesis by (simp add: CRead written_def)
  next
    case (CWrite bs)
    define s1 where "s1 = snd (StreamHttpClient_Write bs s)"
    have s1: "w_out (hc_Pipe s1) = w_out (hc_Pipe s) @ bs" "w_next (hc_Pipe s1) = []"
      using Cons.prems(2) by (simp_all add: s1_def StreamHttpClient_Write_def go_write_accepts)
    obtain acc1 where "conn_run StreamHttpClient_Read StreamHttpClient_Write ops s1 = Some (got, acc1, s')"
      using Cons.prems(1) CWrite by (auto simp: s1_def bind_eq_Some_conv Let_def split: prod.splits)
    from Cons.IH [OF this s1(2)] show ?thesis by (simp add: s1(1) CWrite written_def)
  qed
qed (simp add: written_def)

text \<open>What a client of the server side can see: the bytes that were flushed.\<close>

definition hs_visible :: "httpServerStream \<Rightarrow> byte list" where
  "hs_visible h = take (hs_flushed h) (w_out (hs_Writer h))"

lemma server_flushes:
  assumes "conn_run StreamHttpServer_Read StreamHttpServer_Write ops h = Some (got, acc, h')" "w_next (hs_Writer h) = []" "hs_Flusher h"
    and "hs_flushed h = length (w_out (hs_Writer h))"
  shows "hs_visible h' = w_out (hs_Writer h) @ written ops"
  using assms
proof (induction ops arbitrary: h got acc)
  case Nil
  then show ?case by (simp add: hs_visible_def written_def)
next
  case (Cons op ops)
  show ?case
  proof (cases op)
    case (CRead n)
    obtain bs e rd where "go_read n (hs_Body h) = (bs, e, rd)" by (metis surj_pair)
    then have "StreamHttpServer_Read h n = Some ((bs, e), h\<lparr>hs_Body := rd\<rparr>)" by (simp add: StreamHttpServer_Read_def)
    then obtain got1 where "conn_run StreamHttpServer_Read StreamHttpServer_Write ops (h\<lparr>hs_Body := rd\<rparr>) = Some (got1, acc, h')"
      using Cons.prems(1) CRead by (auto simp: bind_eq_Some_conv)
    from Cons.IH [OF this] Cons.prems(2-4) show ?thesis by (simp add: CRead written_def)
  next
    case (CWrite bs)
    define h1 where "h1 = snd (StreamHttpServer_Write bs h)"
    have h1: "w_out (hs_Writer h1) = w_out (hs_Writer h) @ bs" "w_next (hs_Writer h1) = []" "hs_Flusher h1"
      "hs_flushed h1 = length (w_out (hs_Writer h1))"
      using Cons.prems(2,3) by (simp_all add: h1_def StreamHttpServer_Write_def go_write_accepts)
    obtain acc1 where "conn_run StreamHttpServer_Read StreamHttpServer_Write ops h1 = Some (got, acc1, h')"
      using Cons.prems(1) CWrite by (auto simp: h1_def bind_eq_Some_conv Let_def split: prod.splits)
    from Cons.IH [OF this h1(2-4)] show ?thesis by (simp add: h1(1) CWrite written_def)
  qed
qed

text \<open>C25: The tunnel over HTTP/2, end to end. A client dials through \<open>NewStreamH2\<close>: the request names the address that was asked for, and carries
  the token when there is one. HTTP/2 is trusted to bring the server the request body as the client wrote it, and the client, as the response
  body, what the server has flushed. Then, in any sequence of reads and writes at each end: what the handler on the server reads is what the
  client wrote, from its start and in order, the rest still to be read; everything that the handler wrote was flushed, and what the client reads is
  what the handler wrote, from its start and in order, the rest still to be read, though the handler has not returned.\<close>

theorem tunnel_end_to_end:
  assumes dial: "NewStreamH2 httpDo url addr mds pipe = Inr s" "pipe = \<lparr>w_out = [], w_next = []\<rparr>"
    and client: "conn_run StreamHttpClient_Read StreamHttpClient_Write cops s = Some (cgot, cacc, s')"
    and server: "conn_run StreamHttpServer_Read StreamHttpServer_Write sops (NewStreamServerRequest body ra \<lparr>w_out = [], w_next = []\<rparr> True)
      = Some (sgot, sacc, h)"
    and request: "reader_bytes body = w_out (hc_Pipe s')"
    and response: "reader_bytes (hc_Body s) = hs_visible h"
  shows "httpDo url (hc_reqHeader s) = Inr (hc_Body s) \<and> (ConnectOverrideHeader, [addr]) \<in> set (hc_reqHeader s)
    \<and> (\<forall>gt t. mds = Some gt \<and> gt addr = Inr t \<and> t \<noteq> [] \<longrightarrow> (''authorization'', [''Bearer '' @ t]) \<in> set (hc_reqHeader s))
    \<and> written cops = sgot @ reader_bytes (hs_Body h) \<and> written sops = cgot @ reader_bytes (hc_Body s')"
proof -
  note t = tunnel_duplex [OF dial(1), of cops]
  have pipe: "hc_Pipe s = pipe"
    using dial(1) by (auto simp: NewStreamH2_def H2Dialer_DialContext_def newStreamHttpRequest_def split: sum.splits)
  have "w_out (hc_Pipe s') = written cops" using client_writes [OF client] by (simp add: pipe dial(2))
  moreover have "reader_bytes body = sgot @ reader_bytes (hs_Body h)"
    using hsn.conn_run_duplex [of sops "NewStreamServerRequest body ra \<lparr>w_out = [], w_next = []\<rparr> True"] server
    by (auto simp: NewStreamServerRequest_def)
  moreover have "hs_visible h = written sops" using server_flushes [OF server] by (simp add: NewStreamServerRequest_def)
  ultimately show ?thesis using t client request response by auto
qed

theorem tunnel_end_to_end_witness:
  "\<exists>s s' h cacc sacc. NewStreamH2 (\<lambda>url hdr. Inr [([7, 6], None)]) ''https://gw'' ''10.0.0.1:80'' (Some (\<lambda>aud. Inr ''tok'')) \<lparr>w_out = [], w_next = []\<rparr> = Inr s
     \<and> conn_run StreamHttpClient_Read StreamHttpClient_Write [CWrite [9, 8], CRead 1] s = Some ([7], cacc, s')
     \<and> conn_run StreamHttpServer_Read StreamHttpServer_Write [CRead 4, CWrite [7], CWrite [6]]
         (NewStreamServerRequest [([9, 8], None)] ''c'' \<lparr>w_out = [], w_next = []\<rparr> True) = Some ([9, 8], sacc, h)
     \<and> (''authorization'', [''Bearer tok'']) \<in> set (hc_reqHeader s) \<and> [7, 6] = [7] @ reader_bytes (hc_Body s')"
proof -
  define s where "s = newStreamHttpRequest \<lparr>w_out = [], w_next = []\<rparr> [(''authorization'', [''Bearer tok'']), (''x-host'', [''10.0.0.1:80''])] [([7, 6], None)]"
  have s: "NewStreamH2 (\<lambda>url hdr. Inr [([7, 6], None)]) ''https://gw'' ''10.0.0.1:80'' (Some (\<lambda>aud. Inr ''tok'')) \<lparr>w_out = [], w_next = []\<rparr> = Inr s"
    by (simp add: s_def NewStreamH2_def H2Dialer_DialContext_def H2Dialer_CopyTo_def ConnectOverrideHeader_def)
  obtain cacc s' where c: "conn_run StreamHttpClient_Read StreamHttpClient_Write [CWrite [9, 8], CRead 1] s = Some ([7], cacc, s')"
    "w_out (hc_Pipe s') = [9, 8]"
    by (simp add: s_def newStreamHttpRequest_def StreamHttpClient_Write_def StreamHttpClient_Read_def go_write_def)
  obtain sacc h where h: "conn_run StreamHttpServer_Read StreamHttpServer_Write [CRead 4, CWrite [7], CWrite [6]]
      (NewStreamServerRequest [([9, 8], None)] ''c'' \<lparr>w_out = [], w_next = []\<rparr> True) = Some ([9, 8], sacc, h)" "hs_visible h = [7, 6]"
    by (simp add: NewStreamServerRequest_def StreamHttpServer_Write_def StreamHttpServer_Read_def go_write_def hs_visible_def)
  have "reader_bytes [([9, 8], None)] = w_out (hc_Pipe s')" "reader_bytes (hc_Body s) = hs_visible h"
    by (simp_all add: c(2) h(2) s_def newStreamHttpRequest_def reader_bytes_def)
  from tunnel_end_to_end [OF s refl c(1) h(1) this] have "[7, 6] = [7] @ reader_bytes (hc_Body s')" "(''authorization'', [''Bearer tok'']) \<in> set (hc_reqHeader s)"
    by (simp_all add: written_def)
  then show ?thesis using s c(1) h(1) by blast
qed

end
