(* ===== verification/Http_Proxy.thy ===== *)
theory Http_Proxy
  imports Nio_Stream
begin

text \<open>
  \<^verbatim>\<open>src/nio/http_proxy.go\<close>: the helpers of the HTTP proxy. \<open>CreateUpstreamRequest\<close> makes the request that
  is sent to the backend, without hop-by-hop headers; \<open>SendBackResponse\<close> copies the answer.

  An \<open>http.Header\<close> is an association list from keys to values: Go's map, with the order in which it is
  iterated. The methods \<open>Get\<close>, \<open>Set\<close>, \<open>Add\<close> and \<open>Del\<close> use the canonical form of the key, indexing does
  not. \<open>net.SplitHostPort\<close> is a parameter (its host, or \<open>None\<close> for an error).
\<close>

section \<open>http.Header\<close>

text \<open>\<open>textproto.CanonicalMIMEHeaderKey\<close>: a key with other bytes than those of a token is left alone.\<close>

definition to_upper :: "char \<Rightarrow> char" where
  "to_upper c = (let n = of_char c :: nat in if 97 \<le> n \<and> n \<le> 122 then char_of (n - 32) else c)"

definition to_lower :: "char \<Rightarrow> char" where
  "to_lower c = (let n = of_char c :: nat in if 65 \<le> n \<and> n \<le> 90 then char_of (n + 32) else c)"

fun canonGo :: "bool \<Rightarrow> string \<Rightarrow> string" where
  "canonGo up [] = []"
| "canonGo up (c # cs) = (if up then to_upper c else to_lower c) # canonGo (c = CHR ''-'') cs"

definition canonicalKey :: "string \<Rightarrow> string" where
  "canonicalKey k = (if list_all is_token k then canonGo True k else k)"

fun h_lookup :: "header \<Rightarrow> string \<Rightarrow> string list option" where
  "h_lookup [] k = None"
| "h_lookup ((k', vs) # h) k = (if k' = k then Some vs else h_lookup h k)"

fun h_store :: "header \<Rightarrow> string \<Rightarrow> string list \<Rightarrow> header" where
  "h_store [] k vs = [(k, vs)]"
| "h_store ((k', vs') # h) k vs = (if k' = k then (k, vs) # h else (k', vs') # h_store h k vs)"

definition h_delete :: "header \<Rightarrow> string \<Rightarrow> header" where
  "h_delete h k = filter (\<lambda>x. fst x \<noteq> k) h"

definition Header_Get :: "header \<Rightarrow> string \<Rightarrow> string" where
  "Header_Get h k = (case h_lookup h (canonicalKey k) of Some (v # _) \<Rightarrow> v | _ \<Rightarrow> [])"

definition Header_Set :: "header \<Rightarrow> string \<Rightarrow> string \<Rightarrow> header" where
  "Header_Set h k v = h_store h (canonicalKey k) [v]"

definition Header_Add :: "header \<Rightarrow> string \<Rightarrow> string \<Rightarrow> header" where
  "Header_Add h k v = (let k = canonicalKey k in h_store h k ((case h_lookup h k of Some vs \<Rightarrow> vs | None \<Rightarrow> []) @ [v]))"

definition Header_Del :: "header \<Rightarrow> string \<Rightarrow> header" where
  "Header_Del h k = h_delete h (canonicalKey k)"

section \<open>Copying headers\<close>

definition hopHeaders :: "string list" where
  "hopHeaders = [''Alt-Svc'', ''Alternate-Protocol'', ''Connection'', ''Keep-Alive'', ''HTTPGate-Authenticate'',
     ''HTTPGate-Authorization'', ''HTTPGate-Connection'', ''Te'', ''Trailer'', ''Transfer-Encoding'', ''Upgrade'']"

definition skipHeaders :: "string list" where
  "skipHeaders = [''Content-Type'', ''Content-Disposition'', ''accept-Ranges'', ''Set-Cookie'', ''Cache-Control'', ''Expires'']"

definition copyRequestOne :: "string \<times> string list \<Rightarrow> header \<Rightarrow> header" where
  "copyRequestOne x dst = (case x of (k, vv) \<Rightarrow>
     if h_lookup dst k \<noteq> None \<and> k \<in> set skipHeaders then dst
     else let dst = (if h_lookup dst k \<noteq> None \<and> k \<noteq> ''Server'' then Header_Del dst k else dst)
          in fold (\<lambda>v d. Header_Add d k v) vv dst)"

definition CopyRequestHeaders :: "header \<Rightarrow> header \<Rightarrow> header" where
  "CopyRequestHeaders dst src = fold copyRequestOne src dst"

text \<open>The first loop of \<open>CopyResponseHeaders\<close> deletes by the canonical form of the key.\<close>

definition CopyResponseHeaders :: "header \<Rightarrow> header \<Rightarrow> header" where
  "CopyResponseHeaders dst src =
     fold (\<lambda>(k, vs) d. fold (\<lambda>v d. Header_Add d k v) vs d) src (fold (\<lambda>(k, vs) d. Header_Del d k) dst dst)"

section \<open>The upstream request\<close>

record request =
  rq_Header :: header
  rq_ContentLength :: int
  rq_HasBody :: bool
  rq_Close :: bool
  rq_RemoteAddr :: string

text \<open>The header, and whether it was copied from the client's yet.\<close>

definition ensureCopied :: "header \<Rightarrow> header \<times> bool \<Rightarrow> header \<times> bool" where
  "ensureCopied src x = (if snd x then x else (CopyRequestHeaders [] src, True))"

definition delCopied :: "header \<Rightarrow> string \<Rightarrow> header \<times> bool \<Rightarrow> header \<times> bool" where
  "delCopied src f x = (let (h, c) = ensureCopied src x in (Header_Del h f, c))"

definition removeConnection :: "header \<Rightarrow> header \<times> bool \<Rightarrow> header \<times> bool" where
  "removeConnection src x =
     (let c = Header_Get (fst x) ''Connection'' in
      if c = [] then x
      else fold (\<lambda>f x. if trim_space f \<noteq> [] then delCopied src (trim_space f) x else x) (split_on (CHR '','') c) x)"

definition removeHop :: "header \<Rightarrow> header \<times> bool \<Rightarrow> header \<times> bool" where
  "removeHop src x = fold (\<lambda>h x. if Header_Get (fst x) h \<noteq> [] then delCopied src h x else x) hopHeaders x"

fun join_comma :: "string list \<Rightarrow> string" where
  "join_comma [] = []"
| "join_comma [x] = x"
| "join_comma (x # xs) = x @ '', '' @ join_comma xs"

definition CreateUpstreamRequest :: "(string \<Rightarrow> string option) \<Rightarrow> request \<Rightarrow> request" where
  "CreateUpstreamRequest splitHostPort r =
     (let outreq = r\<lparr>rq_HasBody := (rq_ContentLength r \<noteq> 0 \<and> rq_HasBody r), rq_Close := False\<rparr>;
          (h, _) = removeHop (rq_Header r) (removeConnection (rq_Header r) (rq_Header outreq, False));
          h = (case splitHostPort (rq_RemoteAddr r) of None \<Rightarrow> h
               | Some ip \<Rightarrow> Header_Set h ''X-Forwarded-For''
                   (case h_lookup h ''X-Forwarded-For'' of None \<Rightarrow> ip | Some prior \<Rightarrow> join_comma prior @ '', '' @ ip))
      in outreq\<lparr>rq_Header := h\<rparr>)"

section \<open>The response\<close>

record responseWriter =
  rw_Header :: header
  rw_Status :: "int list" \<comment> \<open>the calls of \<open>WriteHeader\<close>\<close>
  rw_Body :: writer
  rw_Caps :: caps

record response =
  rs_Header :: header
  rs_Status :: int
  rs_Body :: reader
  rs_BodyCaps :: caps

definition WriteHeader :: "int \<Rightarrow> responseWriter \<Rightarrow> responseWriter" where
  "WriteHeader code w = w\<lparr>rw_Status := rw_Status w @ [code]\<rparr>"

text \<open>\<open>http.Error\<close>.\<close>

definition http_Error :: "string \<Rightarrow> int \<Rightarrow> responseWriter \<Rightarrow> responseWriter" where
  "http_Error msg code w =
     (let h = Header_Del (rw_Header w) ''Content-Length'';
          h = Header_Set h ''Content-Type'' ''text/plain; charset=utf-8'';
          h = Header_Set h ''X-Content-Type-Options'' ''nosniff'';
          w = WriteHeader code (w\<lparr>rw_Header := h\<rparr>);
          (_, _, b) = go_write (bytes_of (msg @ [char_of (10::nat)])) (rw_Body w)
      in w\<lparr>rw_Body := b\<rparr>)"

text \<open>\<open>SendBackResponse\<close>: the response (\<open>None\<close>: nil) and the error of the round trip. The result has the
  number of calls to \<open>Close\<close> on the body.\<close>

definition SendBackResponse :: "response option \<Rightarrow> goerr option \<Rightarrow> u32 \<Rightarrow> responseWriter \<Rightarrow> (responseWriter \<times> nat \<times> u32) option" where
  "SendBackResponse res err sid w =
     (case err of
        Some e \<Rightarrow> (case res of
            Some rs \<Rightarrow>
              (let w = WriteHeader (rs_Status rs) (w\<lparr>rw_Header := CopyResponseHeaders (rw_Header w) (rs_Header rs)\<rparr>);
                   (_, _, _, b) = io_copy (rs_Body rs) (rw_Body w)
               in Some (w\<lparr>rw_Body := b\<rparr>, 0, sid))
          | None \<Rightarrow> Some (http_Error (err_string e) 500 w, 0, sid))
      | None \<Rightarrow> (case res of None \<Rightarrow> None
          | Some rs \<Rightarrow> do {
              let w = WriteHeader (rs_Status rs) (w\<lparr>rw_Header := CopyResponseHeaders (rw_Header w) (rs_Header rs)\<rparr>);
              (s1, sid) \<leftarrow> Copy False (NewCopier (rs_Body rs) (rs_BodyCaps rs) (rw_Body w) (rw_Caps w)) sid;
              Some (w\<lparr>rw_Body := Out s1\<rparr>, 1, sid) }))"

section \<open>Header maps\<close>

lemma lookup_store: "h_lookup (h_store h a vs) b = (if a = b then Some vs else h_lookup h b)"
  by (induction h) auto

lemma lookup_delete: "h_lookup (h_delete h a) b = (if a = b then None else h_lookup h b)"
  by (induction h) (auto simp: h_delete_def)

text \<open>A header as the HTTP server makes it: canonical keys, each once.\<close>

definition canonHeader :: "header \<Rightarrow> bool" where
  "canonHeader h \<longleftrightarrow> distinct (map fst h) \<and> (\<forall>k \<in> fst ` set h. canonicalKey k = k)"

lemma fold_Add_lookup:
  assumes "canonicalKey k = k"
  shows "h_lookup (fold (\<lambda>v d. Header_Add d k v) vs d) b =
    (if b = k then (if vs = [] then h_lookup d k else Some ((case h_lookup d k of Some us \<Rightarrow> us | None \<Rightarrow> []) @ vs)) else h_lookup d b)"
proof (induction vs arbitrary: d)
  case (Cons v vs)
  then show ?case using assms by (auto simp: Header_Add_def lookup_store)
qed simp

text \<open>Copying into an empty header keeps the values; a key without values disappears.\<close>

definition some_values :: "string list option \<Rightarrow> string list option" where
  "some_values o1 = (case o1 of Some [] \<Rightarrow> None | x \<Rightarrow> x)"

lemma lookup_notin: "k \<notin> fst ` set h \<Longrightarrow> h_lookup h k = None"
  by (induction h) auto

lemma copyResponse_fold:
  assumes "canonHeader src" "\<forall>k \<in> fst ` set src. h_lookup d k = None"
  shows "h_lookup (fold (\<lambda>(k, vs) d. fold (\<lambda>v d. Header_Add d k v) vs d) src d) b
    = (if b \<in> fst ` set src then some_values (h_lookup src b) else h_lookup d b)"
  using assms
proof (induction src arbitrary: d)
  case (Cons x src)
  obtain k vs where x: "x = (k, vs)" by fastforce
  have c: "canonicalKey k = k" "canonHeader src" "k \<notin> fst ` set src" using Cons.prems(1) x by (auto simp: canonHeader_def)
  let ?d = "fold (\<lambda>v d. Header_Add d k v) vs d"
  have d: "h_lookup ?d b' = (if b' = k then some_values (Some vs) else h_lookup d b')" for b'
    using fold_Add_lookup [OF c(1), of vs d b'] Cons.prems(2) x by (auto simp: some_values_def split: list.splits)
  have "\<forall>k' \<in> fst ` set src. h_lookup ?d k' = None" using d c(3) Cons.prems(2) by auto
  from Cons.IH [OF c(2) this] d c(3) x show ?case by (auto simp: lookup_notin)
qed simp

lemma copyRequest_fold:
  assumes "canonHeader src" "\<forall>k \<in> fst ` set src. h_lookup d k = None"
  shows "fold copyRequestOne src d = fold (\<lambda>(k, vs) d. fold (\<lambda>v d. Header_Add d k v) vs d) src d"
  using assms
proof (induction src arbitrary: d)
  case (Cons x src)
  obtain k vs where x: "x = (k, vs)" by fastforce
  have c: "canonicalKey k = k" "canonHeader src" "k \<notin> fst ` set src" using Cons.prems(1) x by (auto simp: canonHeader_def)
  let ?d = "fold (\<lambda>v d. Header_Add d k v) vs d"
  have "copyRequestOne x d = ?d" using Cons.prems(2) x by (simp add: copyRequestOne_def)
  moreover have "\<forall>k' \<in> fst ` set src. h_lookup ?d k' = None"
    using fold_Add_lookup [OF c(1), of vs d] c(3) Cons.prems(2) by auto
  ultimately show ?case using Cons.IH [OF c(2)] x by simp
qed simp

text \<open>A header as a request of the HTTP server has it: moreover, every key has a value.\<close>

definition requestHeader :: "header \<Rightarrow> bool" where
  "requestHeader h \<longleftrightarrow> canonHeader h \<and> [] \<notin> snd ` set h"

lemma h_lookup_in: "h_lookup h k = Some vs \<Longrightarrow> (k, vs) \<in> set h"
  by (induction h) (auto split: if_splits)

lemma requestHeader_values: "requestHeader h \<Longrightarrow> h_lookup h k \<noteq> Some []"
  using h_lookup_in [of h k "[]"] by (force simp: requestHeader_def)

lemma CopyRequestHeaders_lookup:
  assumes "requestHeader src"
  shows "h_lookup (CopyRequestHeaders [] src) a = h_lookup src a"
proof -
  have c: "canonHeader src" using assms by (simp add: requestHeader_def)
  show ?thesis
    using copyResponse_fold [OF c, of "[]" a] copyRequest_fold [OF c, of "[]"] requestHeader_values [OF assms, of a]
    by (auto simp: CopyRequestHeaders_def some_values_def lookup_notin split: option.splits list.splits)
qed

lemma fold_Del_None:
  assumes "canonHeader h"
  shows "h_lookup (fold (\<lambda>(k, vs) d. Header_Del d k) h h) a = None"
proof -
  have "h_lookup (fold (\<lambda>(k, vs) d. Header_Del d k) g d) a = None"
    if "\<forall>k \<in> fst ` set g. canonicalKey k = k" "a \<notin> fst ` set g \<longrightarrow> h_lookup d a = None" for g d
    using that
  proof (induction g arbitrary: d)
    case (Cons x g)
    have "h_lookup (fold (\<lambda>(k, vs) d. Header_Del d k) g (Header_Del d (fst x))) a = None"
      using Cons.prems by (intro Cons.IH) (auto simp: Header_Del_def lookup_delete)
    then show ?case by (cases x) simp
  qed simp
  from this [of h h] show ?thesis using assms lookup_notin [of a h] by (simp add: canonHeader_def)
qed

section \<open>Removing headers\<close>

definition copy_inv :: "header \<Rightarrow> header \<times> bool \<Rightarrow> bool" where
  "copy_inv src x \<longleftrightarrow> (\<not> snd x \<longrightarrow> fst x = src)"

lemma delCopied_spec:
  assumes "requestHeader src" "copy_inv src x"
  shows "h_lookup (fst (delCopied src f x)) a = (if a = canonicalKey f then None else h_lookup (fst x) a)"
    and "copy_inv src (delCopied src f x)"
  using assms
  by (cases x; auto simp: delCopied_def ensureCopied_def copy_inv_def Header_Del_def lookup_delete CopyRequestHeaders_lookup)+

lemma removeConnection_fold:
  assumes "requestHeader src" "copy_inv src x"
  shows "copy_inv src (fold (\<lambda>f x. if trim_space f \<noteq> [] then delCopied src (trim_space f) x else x) fs x)
    \<and> h_lookup (fst (fold (\<lambda>f x. if trim_space f \<noteq> [] then delCopied src (trim_space f) x else x) fs x)) a
      = (if a \<in> canonicalKey ` (trim_space ` set fs - {[]}) then None else h_lookup (fst x) a)"
  using assms(2)
proof (induction fs arbitrary: x)
  case (Cons f fs)
  show ?case
  proof (cases "trim_space f = []")
    case True
    then show ?thesis using Cons.IH [OF Cons.prems] by auto
  next
    case False
    note d = delCopied_spec [OF assms(1) Cons.prems, of "trim_space f"]
    from Cons.IH [OF d(2)] d(1) [of a] False show ?thesis by auto
  qed
qed simp

lemma Get_lookup: "Header_Get h k \<noteq> [] \<longleftrightarrow> (\<exists>v vs. h_lookup h (canonicalKey k) = Some (v # vs) \<and> v \<noteq> [])"
  by (auto simp: Header_Get_def split: option.splits list.splits)

text \<open>The second loop deletes a header of the list only if its first value is not empty.\<close>

lemma removeHop_fold:
  assumes "requestHeader src" "copy_inv src x"
  shows "h_lookup (fst (fold (\<lambda>h x. if Header_Get (fst x) h \<noteq> [] then delCopied src h x else x) hs x)) a
      = (if a \<in> canonicalKey ` set hs \<and> (\<exists>v vs. h_lookup (fst x) a = Some (v # vs) \<and> v \<noteq> []) then None else h_lookup (fst x) a)"
  using assms(2)
proof (induction hs arbitrary: x)
  case (Cons h hs)
  show ?case
  proof (cases "Header_Get (fst x) h = []")
    case True
    then have "\<not> (\<exists>v vs. h_lookup (fst x) (canonicalKey h) = Some (v # vs) \<and> v \<noteq> [])" using Get_lookup by blast
    with True Cons.IH [OF Cons.prems] show ?thesis by auto
  next
    case False
    note d = delCopied_spec [OF assms(1) Cons.prems, of h]
    from Cons.IH [OF d(2)] d(1) [of a] False Get_lookup [of "fst x" h] show ?thesis by auto
  qed
qed simp

definition connTokens :: "header \<Rightarrow> string set" where
  "connTokens h = (if Header_Get h ''Connection'' = [] then {} else trim_space ` set (split_on (CHR '','') (Header_Get h ''Connection'')) - {[]})"

text \<open>The values that a key has upstream: none if the \<open>Connection\<close> header of the client names it, none if it is on the list and its
  first value is not empty, and all that the client sent otherwise.\<close>

definition upstreamValues :: "header \<Rightarrow> string \<Rightarrow> string list option" where
  "upstreamValues src a =
     (if a \<in> canonicalKey ` connTokens src \<or>
         a \<in> canonicalKey ` set hopHeaders \<and> (\<exists>v vs. h_lookup src a = Some (v # vs) \<and> v \<noteq> [])
      then None else h_lookup src a)"

lemma upstream_lookup:
  assumes "requestHeader src"
  shows "h_lookup (fst (removeHop src (removeConnection src (src, False)))) a = upstreamValues src a"
proof -
  have i: "copy_inv src (src, False)" by (simp add: copy_inv_def)
  have c: "copy_inv src (removeConnection src (src, False))"
    "h_lookup (fst (removeConnection src (src, False))) a = (if a \<in> canonicalKey ` connTokens src then None else h_lookup src a)"
    using removeConnection_fold [OF assms i, of "split_on (CHR '','') (Header_Get src ''Connection'')" a] i
    by (auto simp: removeConnection_def connTokens_def Let_def)
  from removeHop_fold [OF assms c(1), of hopHeaders a] c(2) show ?thesis
    by (auto simp: removeHop_def upstreamValues_def)
qed

lemma xff_canonical: "canonicalKey ''X-Forwarded-For'' = ''X-Forwarded-For''"
  by code_simp

section \<open>Properties\<close>

text \<open>The values of \<open>X-Forwarded-For\<close> upstream: the address of the client behind those that the request has, joined.\<close>

definition forwardedFor :: "string option \<Rightarrow> string list option \<Rightarrow> string list option" where
  "forwardedFor ip prior = (case ip of None \<Rightarrow> prior
     | Some ip \<Rightarrow> Some [case prior of None \<Rightarrow> ip | Some vs \<Rightarrow> join_comma vs @ '', '' @ ip])"

lemma upstream_header:
  assumes "requestHeader (rq_Header r)"
  shows "h_lookup (rq_Header (CreateUpstreamRequest splitHostPort r)) a =
    (if a = ''X-Forwarded-For'' then forwardedFor (splitHostPort (rq_RemoteAddr r)) (upstreamValues (rq_Header r) a)
     else upstreamValues (rq_Header r) a)"
  using upstream_lookup [OF assms]
  by (auto simp: CreateUpstreamRequest_def forwardedFor_def case_prod_beta Let_def Header_Set_def lookup_store xff_canonical split: option.splits)

text \<open>C8: All values of all headers of the upstream request. A header that the first \<open>Connection\<close> value of the client names is
  dropped, with all of its values; a header of the fixed list of hop-by-hop headers is dropped if its first value is not empty, and
  kept with all of its values if that is empty; every other header reaches the backend with all of its values, unchanged and in
  order. The address of the client is put behind the values of \<open>X-Forwarded-For\<close> that are left, joined to one value. The request
  is not marked to be closed, and has a body only if its length is not 0.\<close>

theorem upstream_headers:
  assumes "requestHeader (rq_Header r)"
  shows "(\<forall>a. h_lookup (rq_Header (CreateUpstreamRequest splitHostPort r)) a =
      (if a = ''X-Forwarded-For'' then forwardedFor (splitHostPort (rq_RemoteAddr r)) (upstreamValues (rq_Header r) a)
       else upstreamValues (rq_Header r) a))
    \<and> \<not> rq_Close (CreateUpstreamRequest splitHostPort r)
    \<and> (rq_HasBody (CreateUpstreamRequest splitHostPort r) \<longleftrightarrow> rq_ContentLength r \<noteq> 0 \<and> rq_HasBody r)"
  using upstream_header [OF assms] by (simp add: CreateUpstreamRequest_def case_prod_beta Let_def)

definition ex_request :: request where
  "ex_request = \<lparr>rq_Header = [(''Accept'', [''text/html'', ''text/plain'']), (''Connection'', [''close, X-Foo'']), (''X-Foo'', [''1'']),
     (''Upgrade'', [''h2c'']), (''X-Forwarded-For'', [''10.0.0.9'', ''10.0.0.8''])],
     rq_ContentLength = 0, rq_HasBody = True, rq_Close = True, rq_RemoteAddr = ''10.0.0.1:99''\<rparr>"

lemma ex_request_header: "requestHeader (rq_Header ex_request)"
  unfolding requestHeader_def canonHeader_def by code_simp

theorem upstream_headers_witness:
  "let out = rq_Header (CreateUpstreamRequest (\<lambda>a. Some ''10.0.0.1'') ex_request)
   in h_lookup out ''X-Forwarded-For'' = Some [''10.0.0.9, 10.0.0.8, 10.0.0.1''] \<and> h_lookup out ''Upgrade'' = None
      \<and> h_lookup out ''X-Foo'' = None \<and> h_lookup out ''Accept'' = Some [''text/html'', ''text/plain'']"
proof -
  let ?conn = "canonicalKey ` connTokens (rq_Header ex_request)"
  have t: "''X-Foo'' \<in> ?conn" "''Accept'' \<notin> ?conn" "''X-Forwarded-For'' \<notin> ?conn" "''Upgrade'' \<in> canonicalKey ` set hopHeaders"
    "''Accept'' \<notin> canonicalKey ` set hopHeaders" "''X-Forwarded-For'' \<notin> canonicalKey ` set hopHeaders" by code_simp+
  have l: "h_lookup (rq_Header ex_request) ''Upgrade'' = Some [''h2c'']"
    "h_lookup (rq_Header ex_request) ''Accept'' = Some [''text/html'', ''text/plain'']"
    "h_lookup (rq_Header ex_request) ''X-Forwarded-For'' = Some [''10.0.0.9'', ''10.0.0.8'']" by (simp_all add: ex_request_def)
  have v: "upstreamValues (rq_Header ex_request) ''X-Forwarded-For'' = Some [''10.0.0.9'', ''10.0.0.8'']"
    "upstreamValues (rq_Header ex_request) ''Upgrade'' = None" "upstreamValues (rq_Header ex_request) ''X-Foo'' = None"
    "upstreamValues (rq_Header ex_request) ''Accept'' = Some [''text/html'', ''text/plain'']"
    unfolding upstreamValues_def l using t by simp_all
  from upstream_headers [OF ex_request_header, of "\<lambda>a. Some ''10.0.0.1''"] show ?thesis
    unfolding Let_def by (simp add: v forwardedFor_def)
qed

text \<open>A hop-by-hop header whose first value is empty reaches the backend, as does a header that only the second \<open>Connection\<close> value
  names. The keys \<open>HTTPGate-\<close> of the list stand where \<open>Proxy-\<close> belongs: \<open>Proxy-Authorization\<close> is forwarded.\<close>

definition ex_kept :: header where
  "ex_kept = [(''Connection'', [''close'', ''X-Foo'']), (''Proxy-Authorization'', [''Basic eA=='']), (''Upgrade'', [[], ''h2c'']), (''X-Foo'', [''1''])]"

lemma hop_headers_kept:
  assumes "rq_Header r = ex_kept" "a \<in> {''Proxy-Authorization'', ''Upgrade'', ''X-Foo''}"
  shows "h_lookup (rq_Header (CreateUpstreamRequest splitHostPort r)) a = h_lookup (rq_Header r) a \<and> h_lookup (rq_Header r) a \<noteq> None"
proof -
  have h: "requestHeader (rq_Header r)" unfolding assms(1) requestHeader_def canonHeader_def by code_simp
  have t: "''Proxy-Authorization'' \<notin> canonicalKey ` connTokens ex_kept" "''Upgrade'' \<notin> canonicalKey ` connTokens ex_kept"
    "''X-Foo'' \<notin> canonicalKey ` connTokens ex_kept" "''X-Foo'' \<notin> canonicalKey ` set hopHeaders"
    "''Proxy-Authorization'' \<notin> canonicalKey ` set hopHeaders" by code_simp+
  have "h_lookup ex_kept ''Upgrade'' = Some [[], ''h2c'']" by (simp add: ex_kept_def)
  then have "upstreamValues ex_kept a = h_lookup ex_kept a" using assms(2) t by (auto simp: upstreamValues_def)
  then show ?thesis using upstream_header [OF h, of splitHostPort a] assms by (auto simp: ex_kept_def)
qed

lemma response_copied:
  assumes "canonHeader (rs_Header rs)" "canonHeader (rw_Header w)" "plain_reader (rs_Body rs)" "w_next (rw_Body w) = []"
    and "closable (rw_Caps w)"
  shows "\<exists>w' sid'. SendBackResponse (Some rs) None sid w = Some (w', 1, sid') \<and> rw_Status w' = rw_Status w @ [rs_Status rs]
    \<and> w_out (rw_Body w') = w_out (rw_Body w) @ reader_bytes (rs_Body rs)
    \<and> (\<forall>k. h_lookup (rw_Header w') k = some_values (h_lookup (rs_Header rs) k))"
proof -
  let ?c = "NewCopier (rs_Body rs) (rs_BodyCaps rs) (rw_Body w) (rw_Caps w)"
  obtain c' sid' where c: "Copy False ?c sid = Some (c', sid')" "w_out (Out c') = w_out (rw_Body w) @ reader_bytes (rs_Body rs)"
    using Copy_complete [of ?c False sid] assms(3-5) by (auto simp: NewCopier_def)
  have empty: "h_lookup (fold (\<lambda>(k, vs) d. Header_Del d k) (rw_Header w) (rw_Header w)) k = None" for k
    by (rule fold_Del_None [OF assms(2)])
  have "h_lookup (CopyResponseHeaders (rw_Header w) (rs_Header rs)) k = some_values (h_lookup (rs_Header rs) k)" for k
    unfolding CopyResponseHeaders_def
    using copyResponse_fold [OF assms(1), of "fold (\<lambda>(k, vs) d. Header_Del d k) (rw_Header w) (rw_Header w)" k] empty
    by (auto simp: some_values_def lookup_notin)
  with c show ?thesis by (simp add: SendBackResponse_def WriteHeader_def)
qed



end
