(* ===== verification/Msg_Mux.thy ===== *)
theory Msg_Mux
  imports Go_Prelude "HOL-Library.AList"
begin

text \<open>
  \<^verbatim>\<open>src/pkg/webpush/\<close> \<open>message.go\<close>, \<open>mux.go\<close>, \<open>gate.go\<close> and \<open>http.go\<close>: messages, the mux that hands them to local
  handlers and to connected peers, and the HTTP handlers in front of it.

  The maps \<open>connections\<close> and \<open>handlers\<close> are association lists, in the order in which Go iterates them.
  What the mux does to the outside is logged in its state: \<open>calls\<close> to handlers, \<open>sends\<close> on connections
  and requests \<open>served\<close> by the HTTP mux. A handler is known by a number; what handlers do on their own is
  not part of the model, apart from the calls that an HTTP handler makes on its response writer. The global
  id counter is a field. \<open>None\<close> is a panic.
\<close>

section \<open>Messages\<close>

type_synonym meta = "(string \<times> string) list"

text \<open>\<open>Data interface{}\<close>: nil, bytes, a string, or any other value, given by its \<open>json.Marshal\<close>.\<close>

datatype msgData = NoData | DataBytes "byte list" | DataString string | DataJSON "byte list"

record message =
  Id :: string
  To :: string
  Meta :: meta
  From :: string
  Time :: int
  Data :: msgData

definition Binary :: "message \<Rightarrow> byte list option" where
  "Binary ev = (case Data ev of DataBytes b \<Rightarrow> Some b | DataString s \<Rightarrow> Some (bytes_of s)
     | DataJSON j \<Rightarrow> Some j | NoData \<Rightarrow> None)"

definition SetDataJSON :: "msgData \<Rightarrow> message \<Rightarrow> message" where
  "SetDataJSON d ev = ev\<lparr>Data := d\<rparr>"

section \<open>The mux\<close>

datatype handler = Handler nat | HandlerSlice "handler list"

record call =
  k_handler :: nat
  k_cmd :: string
  k_meta :: meta
  k_data :: "byte list option"

record msgConnection =
  mc_Name :: string
  mc_Subs :: "string list option" \<comment> \<open>\<open>SubscriptionsToSend\<close>, \<open>None\<close> for nil\<close>
  mc_hasSend :: bool \<comment> \<open>\<open>SendMessageToRemote\<close> is set\<close>
  mc_gate :: bool \<comment> \<open>\<open>gate\<close> is set\<close>

text \<open>The response writer \<open>rw\<close> for HTTP handlers that process a message, and the calls that a handler makes
  on it. \<open>Body\<close> is a pointer to a \<open>bytes.Buffer\<close>: writing to it when it is nil panics.\<close>

record rw =
  Code :: int
  HeaderMap :: "(string \<times> string) list option"
  Body :: "byte list option"

definition newHTTPWriter :: rw where
  "newHTTPWriter = \<lparr>Code = 0, HeaderMap = None, Body = None\<rparr>"

datatype rwCall = CallHeaderSet string string | CallWrite "byte list" | CallFlush | CallWriteHeader int

definition rwHeader :: "rw \<Rightarrow> (string \<times> string) list \<times> rw" where
  "rwHeader r = (case HeaderMap r of Some h \<Rightarrow> (h, r) | None \<Rightarrow> ([], r\<lparr>HeaderMap := Some []\<rparr>))"

definition rwWrite :: "byte list \<Rightarrow> rw \<Rightarrow> rw option" where
  "rwWrite d r = (case Body r of None \<Rightarrow> None | Some b \<Rightarrow> Some (r\<lparr>Body := Some (b @ d)\<rparr>))"

definition rwWriteHeader :: "int \<Rightarrow> rw \<Rightarrow> rw" where
  "rwWriteHeader statusCode r = r\<lparr>Code := statusCode\<rparr>"

fun rwDo :: "rwCall \<Rightarrow> rw \<Rightarrow> rw option" where
  "rwDo (CallHeaderSet k v) r = (let (h, r) = rwHeader r in Some (r\<lparr>HeaderMap := Some (AList.update k v h)\<rparr>))"
| "rwDo (CallWrite d) r = rwWrite d r"
| "rwDo CallFlush r = Some r"
| "rwDo (CallWriteHeader c) r = Some (rwWriteHeader c r)"

fun serveHTTP :: "rwCall list \<Rightarrow> rw \<Rightarrow> rw option" where
  "serveHTTP [] r = Some r"
| "serveHTTP (c # cs) r = do { r \<leftarrow> rwDo c r; serveHTTP cs r }"

text \<open>\<open>http.ServeMux.Handler\<close>: for a host and a path, what the handler does to its response writer, and
  its pattern. There always is one: the one that answers \<open>404\<close>, with the empty pattern, at least.\<close>

type_synonym serveMux = "string \<Rightarrow> string \<Rightarrow> rwCall list \<times> string"

record mux =
  connections :: "(string \<times> msgConnection) list"
  handlers :: "(string \<times> handler) list"
  ServeMux :: "serveMux option"
  lastId :: int
  calls :: "call list"
  sends :: "(string \<times> message) list"
  served :: "(string \<times> string \<times> rw) list" \<comment> \<open>pattern, path and response\<close>

definition NewMux :: mux where
  "NewMux = \<lparr>connections = [], handlers = [], ServeMux = None, lastId = 0, calls = [], sends = [], served = []\<rparr>"

definition nextId :: "mux \<Rightarrow> string \<times> mux" where
  "nextId m = (itoa (lastId m + 1), m\<lparr>lastId := lastId m + 1\<rparr>)"

definition NewMessage :: "string \<Rightarrow> meta \<Rightarrow> mux \<Rightarrow> message \<times> mux" where
  "NewMessage cmdS meta m =
     (let i = (case map_of meta ''id'' of Some v \<Rightarrow> v | None \<Rightarrow> []);
          (i, m) = (if i = [] then nextId m else (i, m))
      in (\<lparr>Id = i, To = cmdS, Meta = meta, From = [], Time = 0, Data = NoData\<rparr>, m))"

text \<open>\<open>handlerSlice.HandleMessage\<close> calls the handlers of the slice in order.\<close>

fun handlerIds :: "handler \<Rightarrow> nat list" where
  "handlerIds (Handler n) = [n]"
| "handlerIds (HandlerSlice hs) = concat (map handlerIds hs)"

definition HandleMessage :: "handler \<Rightarrow> string \<Rightarrow> meta \<Rightarrow> byte list option \<Rightarrow> mux \<Rightarrow> mux" where
  "HandleMessage h cmdS meta data m =
     m\<lparr>calls := calls m @ map (\<lambda>n. \<lparr>k_handler = n, k_cmd = cmdS, k_meta = meta, k_data = data\<rparr>) (handlerIds h)\<rparr>"

definition AddHandler :: "string \<Rightarrow> handler \<Rightarrow> mux \<Rightarrow> mux" where
  "AddHandler path cp m =
     m\<lparr>handlers := (case map_of (handlers m) path of
          None \<Rightarrow> handlers m @ [(path, cp)]
        | Some old \<Rightarrow>
            (let new = (case old of HandlerSlice os \<Rightarrow> HandlerSlice (os @ [cp]) | Handler n \<Rightarrow> HandlerSlice [old, cp])
             in map (\<lambda>(k, h). if k = path then (k, new) else (k, h)) (handlers m)))\<rparr>"

definition HandleMessageForNode :: "int \<Rightarrow> message \<Rightarrow> mux \<Rightarrow> (message \<times> mux) option" where
  "HandleMessageForNode now ev m =
     (let ev = (if Time ev = 0 then ev\<lparr>Time := now\<rparr> else ev) in
      if To ev = [] then Some (ev, m)
      else let argv = split_on (CHR ''/'') (To ev) in
      if length argv < 2 then Some (ev, m)
      else
        (let topic = argv ! 1; payload = Binary ev;
             m = (case map_of (handlers m) ''*'' of Some h \<Rightarrow> HandleMessage h (To ev) (Meta ev) payload m | None \<Rightarrow> m)
         in case ServeMux m of
              Some sm \<Rightarrow>
                (let (h, p) = sm (argv ! 0) (To ev) in
                 if p \<noteq> ''/'' then do {
                   w \<leftarrow> serveHTTP h newHTTPWriter;
                   Some (ev, m\<lparr>served := served m @ [(p, To ev, w)]\<rparr>) }
                 else Some (ev, m))
            | None \<Rightarrow> Some (ev, case map_of (handlers m) topic of
                  Some h \<Rightarrow> HandleMessage h (To ev) (Meta ev) payload m
                | None \<Rightarrow> (case map_of (handlers m) [] of
                      Some h \<Rightarrow> HandleMessage h (To ev) (Meta ev) payload m | None \<Rightarrow> m))))"

definition SendMessageToRemote :: "string \<Rightarrow> msgConnection \<Rightarrow> message \<Rightarrow> mux \<Rightarrow> mux option" where
  "SendMessageToRemote k c ev m = (if mc_hasSend c then Some (m\<lparr>sends := sends m @ [(k, ev)]\<rparr>) else None)"

definition subscribed :: "string \<Rightarrow> msgConnection \<Rightarrow> bool" where
  "subscribed topic ms = (case mc_Subs ms of None \<Rightarrow> False | Some subs \<Rightarrow> list_ex (\<lambda>s. topic = s \<or> s = ''*'') subs)"

definition maybeSend :: "string list \<Rightarrow> message \<Rightarrow> string \<Rightarrow> msgConnection \<Rightarrow> mux \<Rightarrow> mux option" where
  "maybeSend parts ev k ms m = (if subscribed (parts ! 1) ms then SendMessageToRemote k ms ev m else Some m)"

fun forwardAll :: "string list \<Rightarrow> message \<Rightarrow> (string \<times> msgConnection) list \<Rightarrow> mux \<Rightarrow> mux option" where
  "forwardAll parts ev [] m = Some m"
| "forwardAll parts ev ((k, ms) # cs) m =
     (if k = From ev then forwardAll parts ev cs m
      else do { m \<leftarrow> maybeSend parts ev k ms m; forwardAll parts ev cs m })"

definition SendMessage :: "int \<Rightarrow> message \<Rightarrow> mux \<Rightarrow> mux option" where
  "SendMessage now ev m =
     (let (i, m) = (if Id ev = [] then nextId m else (Id ev, m));
          ev = ev\<lparr>Id := i\<rparr>;
          parts = split_on (CHR ''/'') (To ev)
      in do {
        (ev, m) \<leftarrow> HandleMessageForNode now ev m;
        if parts ! 0 = ''.'' then Some m
        else do {
          m \<leftarrow> (if parts ! 0 = ''*'' \<or> parts ! 0 = [] then Some m
                else case map_of (connections m) (parts ! 0) of
                    Some ch \<Rightarrow> SendMessageToRemote (parts ! 0) ch ev m | None \<Rightarrow> Some m);
          if length parts < 2 then Some m else forwardAll parts ev (connections m) m } })"

text \<open>\<open>Send\<close> with its list of alternating keys and values: an odd number of them panics.\<close>

fun metaPairs :: "string list \<Rightarrow> meta option" where
  "metaPairs [] = Some []"
| "metaPairs [x] = None"
| "metaPairs (k # v # r) = map_option (\<lambda>m. (k, v) # m) (metaPairs r)"

definition mux_Send :: "int \<Rightarrow> string \<Rightarrow> msgData \<Rightarrow> string list \<Rightarrow> mux \<Rightarrow> mux option" where
  "mux_Send now msgType data meta m = do {
     mt \<leftarrow> metaPairs meta;
     SendMessage now \<lparr>Id = [], To = msgType, Meta = rev mt, From = [], Time = 0, Data = data\<rparr> m }"

definition SendMeta :: "int \<Rightarrow> string \<Rightarrow> meta \<Rightarrow> msgData \<Rightarrow> mux \<Rightarrow> mux option" where
  "SendMeta now msgType meta data m =
     SendMessage now \<lparr>Id = [], To = msgType, Meta = meta, From = [], Time = 0, Data = data\<rparr> m"

section \<open>Connections\<close>

definition notify :: "string \<Rightarrow> string \<Rightarrow> mux \<Rightarrow> mux" where
  "notify ev cid m = (case map_of (handlers m) ev of Some h \<Rightarrow> HandleMessage h ev [(''id'', cid)] None m | None \<Rightarrow> m)"

definition AddConnection :: "string \<Rightarrow> msgConnection \<Rightarrow> mux \<Rightarrow> mux" where
  "AddConnection cid cp m =
     notify ''/open'' cid (m\<lparr>connections := AList.update cid (cp\<lparr>mc_Name := cid, mc_gate := True\<rparr>) (connections m)\<rparr>)"

definition RemoveConnection :: "string \<Rightarrow> mux \<Rightarrow> mux" where
  "RemoveConnection cid m =
     notify ''/close'' cid (m\<lparr>connections := filter (\<lambda>x. fst x \<noteq> cid) (connections m)\<rparr>)"

definition MsgConnection_Close :: "msgConnection \<Rightarrow> mux \<Rightarrow> mux option" where
  "MsgConnection_Close mc m = (if mc_gate mc then Some (RemoveConnection (mc_Name mc) m) else None)"

section \<open>HTTP handlers\<close>

text \<open>The response writer of a server: the header that the client sees is the one at the time of the first
  \<open>WriteHeader\<close>.\<close>

record httpOut =
  o_header :: "(string \<times> string) list"
  o_sent :: "(int \<times> (string \<times> string) list) option"
  o_body :: "byte list"

definition newHttpOut :: httpOut where
  "newHttpOut = \<lparr>o_header = [], o_sent = None, o_body = []\<rparr>"

definition o_WriteHeader :: "int \<Rightarrow> httpOut \<Rightarrow> httpOut" where
  "o_WriteHeader code w = (case o_sent w of None \<Rightarrow> w\<lparr>o_sent := Some (code, o_header w)\<rparr> | Some _ \<Rightarrow> w)"

definition o_Add :: "string \<Rightarrow> string \<Rightarrow> httpOut \<Rightarrow> httpOut" where
  "o_Add k v w = w\<lparr>o_header := o_header w @ [(k, v)]\<rparr>"

definition o_Write :: "string \<Rightarrow> httpOut \<Rightarrow> httpOut" where
  "o_Write s w = (o_WriteHeader 200 w)\<lparr>o_body := o_body w @ bytes_of s\<rparr>"

record httpReq =
  q_Form :: "(string \<times> string list) list"
  q_Path :: string
  q_Method :: string
  q_Body :: "goerr + byte list" \<comment> \<open>what \<open>ioutil.ReadAll\<close> gives\<close>

fun formParams :: "(string \<times> string list) list \<Rightarrow> meta option" where
  "formParams [] = Some []"
| "formParams ((k, []) # f) = None"
| "formParams ((k, v # _) # f) = map_option (\<lambda>m. (k, v) # m) (formParams f)"

definition HTTPHandlerSend :: "int \<Rightarrow> httpReq \<Rightarrow> httpOut \<Rightarrow> mux \<Rightarrow> (httpOut \<times> mux) option" where
  "HTTPHandlerSend now r w m =
     (let q = (case map_of (q_Form r) ''q'' of Some (v # _) \<Rightarrow> v | _ \<Rightarrow> []) in do {
      cmd \<leftarrow> (if q \<noteq> [] then Some q
             else let parts = split_on (CHR ''/'') (q_Path r) in
               if length parts < 2 then None else Some (join_with '' '' (drop 2 parts)));
      params \<leftarrow> formParams (q_Form r);
      if q_Method r = ''POST'' \<and> isl (q_Body r) then Some (w, m)
      else do {
        let body = (if q_Method r = ''POST'' then projr (q_Body r) else []);
        let (msg, m) = NewMessage cmd params m;
        m \<leftarrow> SendMessage now (SetDataJSON (DataBytes body) msg) m;
        Some (o_WriteHeader 200 w, m) } })"

text \<open>\<open>HTTPHandlerWebpush\<close>: \<open>self\<close> is the name of this node, \<open>decrypt\<close> the webpush decryption, \<open>sender\<close> and
  \<open>roles\<close> come from the authentication in front.\<close>

definition HTTPHandlerWebpush :: "string \<Rightarrow> (byte list \<Rightarrow> goerr + byte list) \<Rightarrow> int \<Rightarrow> string \<Rightarrow> string list \<Rightarrow> string
    \<Rightarrow> httpReq \<Rightarrow> httpOut \<Rightarrow> mux \<Rightarrow> (httpOut \<times> mux) option" where
  "HTTPHandlerWebpush self decrypt now sender roles uri r w m =
     (let parts = split_on (CHR ''/'') uri in
      if length parts < 3 then Some (o_Write ''Invalid URL'' (o_WriteHeader 400 w), m)
      else let dest = parts ! 2 in
      if dest = [] \<or> dest = self then
        (case q_Body r of
           Inl _ \<Rightarrow> Some (o_Write ''Body error'' (o_WriteHeader 500 w), m)
         | Inr b \<Rightarrow> (case decrypt b of
               Inl _ \<Rightarrow> Some (o_Write ''Decrypt error'' (o_WriteHeader 403 w), m)
             | Inr msgb \<Rightarrow> do {
                 params \<leftarrow> formParams (q_Form r);
                 let (ev, m) = NewMessage (''.'' @ join_with ''/'' (drop 3 parts)) params m;
                 let ev = SetDataJSON (DataBytes msgb) ev;
                 case roles of [] \<Rightarrow> None
                 | role # _ \<Rightarrow>
                     if role = [] \<or> role = ''guest'' then Some (o_Write ''Unauthorized'' (o_WriteHeader 403 w), m)
                     else do {
                       (ev, m) \<leftarrow> HandleMessageForNode now (ev\<lparr>From := sender\<rparr>) m;
                       Some (o_WriteHeader 201 w, m) } }))
      else Some (o_WriteHeader 201 w, m))"

definition ReceiveBaseUrl :: string where
  "ReceiveBaseUrl = ''https://127.0.0.1:5228/''"

text \<open>\<open>SubscribeHandler\<close>: \<open>tok\<close> is the base64 text of the random token.\<close>

definition SubscribeHandler :: "string \<Rightarrow> httpOut \<Rightarrow> httpOut" where
  "SubscribeHandler tok w =
     (let w = o_WriteHeader 201 w;
          w = o_Add ''Link'' (''</p/'' @ tok @ ''>;rel=\"urn:ietf:params:push\"'') w
      in o_Add ''Location'' (ReceiveBaseUrl @ ''/r/'' @ tok) w)"

text \<open>\<open>UA.Subscribe\<close>, the client: the location and the endpoint from the headers of the response, whose keys
  \<open>Location\<close> and \<open>Link\<close> are in canonical form.\<close>

record subscription =
  Location :: string
  Endpoint :: string

fun linkEndpoint :: "string list \<Rightarrow> string \<Rightarrow> string" where
  "linkEndpoint [] e = e"
| "linkEndpoint (link # ls) e =
     (let parts = split_on (CHR '';'') link in
      linkEndpoint ls (if 1 < length parts \<and> trim_space (parts ! 1) = ''rel=\"urn:ietf:params:push\"'' then parts ! 0 else e))"

definition Subscribe :: "goerr + (int \<times> (string \<times> string) list) \<Rightarrow> subscription option \<times> goerr option" where
  "Subscribe res = (case res of Inl e \<Rightarrow> (None, Some e)
     | Inr (_, header) \<Rightarrow>
         (let loc = (case map_of header ''Location'' of Some l \<Rightarrow> l | None \<Rightarrow> []);
              links = map snd (filter (\<lambda>(k, _). k = ''Link'') header)
          in (Some \<lparr>Location = loc, Endpoint = linkEndpoint (concat (map (split_on (CHR '','')) links)) []\<rparr>, None)))"

section \<open>Local handlers\<close>

lemma HandleMessage_simps [simp]:
  "connections (HandleMessage h c mt d m) = connections m" "handlers (HandleMessage h c mt d m) = handlers m"
  "sends (HandleMessage h c mt d m) = sends m" "served (HandleMessage h c mt d m) = served m"
  "ServeMux (HandleMessage h c mt d m) = ServeMux m" "lastId (HandleMessage h c mt d m) = lastId m"
  by (simp_all add: HandleMessage_def)

text \<open>The handlers that a message on a topic is for: those of \<open>*\<close>, and those of the topic or else the
  default ones.\<close>

definition handlersFor :: "string \<Rightarrow> mux \<Rightarrow> nat list" where
  "handlersFor topic m =
     (case map_of (handlers m) ''*'' of Some h \<Rightarrow> handlerIds h | None \<Rightarrow> [])
     @ (case map_of (handlers m) topic of Some h \<Rightarrow> handlerIds h
        | None \<Rightarrow> (case map_of (handlers m) [] of Some h \<Rightarrow> handlerIds h | None \<Rightarrow> []))"

definition callsFor :: "message \<Rightarrow> nat list \<Rightarrow> call list" where
  "callsFor ev hs = map (\<lambda>n. \<lparr>k_handler = n, k_cmd = To ev, k_meta = Meta ev, k_data = Binary ev\<rparr>) hs"

definition stamp :: "int \<Rightarrow> message \<Rightarrow> message" where
  "stamp now ev = (if Time ev = 0 then ev\<lparr>Time := now\<rparr> else ev)"

lemma stamp_simps [simp]:
  "To (stamp now ev) = To ev" "Meta (stamp now ev) = Meta ev" "From (stamp now ev) = From ev"
  "Id (stamp now ev) = Id ev" "Data (stamp now ev) = Data ev" "Binary (stamp now ev) = Binary ev"
  by (simp_all add: stamp_def Binary_def)

lemma handleMessageForNode_calls:
  assumes parts: "split_on (CHR ''/'') (To ev) = dest # topic # rest" and sm: "ServeMux m = None"
  shows "HandleMessageForNode now ev m = Some (stamp now ev, m\<lparr>calls := calls m @ callsFor ev (handlersFor topic m)\<rparr>)"
proof -
  have ne: "To ev \<noteq> []" using parts by auto
  have st: "(if Time ev = 0 then ev\<lparr>Time := now\<rparr> else ev) = stamp now ev" by (simp add: stamp_def)
  show ?thesis
    using parts sm ne
    by (cases "map_of (handlers m) ''*''"; cases "map_of (handlers m) topic"; cases "map_of (handlers m) []")
      (simp_all add: HandleMessageForNode_def Let_def st HandleMessage_def callsFor_def handlersFor_def)
qed

lemma serveHTTP_None: "Body r = None \<Longrightarrow> serveHTTP cs r = None \<longleftrightarrow> (\<exists>d. CallWrite d \<in> set cs)"
proof (induction cs arbitrary: r)
  case (Cons c cs)
  then show ?case
    by (cases c) (auto simp: rwWrite_def rwWriteHeader_def rwHeader_def split: option.splits)
qed simp

lemma count_list_keys:
  assumes "distinct (map fst xs)" and "(k, c) \<in> set xs"
  shows "count_list (map fst (filter (\<lambda>(k, c). P k c) xs)) k = (if P k c then 1 else 0)"
  using assms
proof (induction xs)
  case (Cons x xs)
  obtain a b where x: "x = (a, b)" by (cases x)
  show ?case
  proof (cases "a = k")
    case True
    then have "b = c" using Cons.prems by (auto simp: x image_iff)
    moreover have "k \<notin> set (map fst (filter (\<lambda>(k, c). P k c) xs))" using Cons.prems True by (auto simp: x image_iff)
    ultimately show ?thesis using True by (simp add: x)
  qed (use Cons in \<open>simp add: x\<close>)
qed simp

section \<open>Forwarding\<close>

definition receivers :: "string \<Rightarrow> message \<Rightarrow> mux \<Rightarrow> string list" where
  "receivers topic ev m = map fst (filter (\<lambda>(k, c). k \<noteq> From ev \<and> subscribed topic c) (connections m))"

lemma forwardAll_sends:
  assumes "\<forall>x\<in>set cs. mc_hasSend (snd x)"
  shows "forwardAll (dest # topic # rest) ev cs m =
    Some (m\<lparr>sends := sends m @ map (\<lambda>k. (k, ev)) (map fst (filter (\<lambda>(k, c). k \<noteq> From ev \<and> subscribed topic c) cs))\<rparr>)"
  using assms
proof (induction cs arbitrary: m)
  case (Cons x cs)
  obtain k c where x: "x = (k, c)" by (cases x)
  show ?case
    using Cons by (cases "k = From ev"; cases "subscribed topic c") (simp_all add: x maybeSend_def SendMessageToRemote_def)
qed simp

definition directTo :: "string \<Rightarrow> mux \<Rightarrow> string list" where
  "directTo dest m = (if dest = ''*'' \<or> dest = [] \<or> map_of (connections m) dest = None then [] else [dest])"

text \<open>The message as it is handed on: with an id and a time.\<close>

definition outgoing :: "int \<Rightarrow> message \<Rightarrow> mux \<Rightarrow> message" where
  "outgoing now ev m = stamp now (if Id ev = [] then ev\<lparr>Id := fst (nextId m)\<rparr> else ev)"

lemma outgoing_simps [simp]:
  "To (outgoing now ev m) = To ev" "Meta (outgoing now ev m) = Meta ev" "From (outgoing now ev m) = From ev"
  "Binary (outgoing now ev m) = Binary ev" "Data (outgoing now ev m) = Data ev"
  by (simp_all add: outgoing_def Binary_def)

lemma sendMessage_spec:
  assumes parts: "split_on (CHR ''/'') (To ev) = dest # topic # rest" and sm: "ServeMux m = None"
    and snd: "\<forall>x\<in>set (connections m). mc_hasSend (snd x)"
  shows "\<exists>m'. SendMessage now ev m = Some m' \<and> connections m' = connections m \<and> handlers m' = handlers m \<and> ServeMux m' = None
    \<and> calls m' = calls m @ callsFor ev (handlersFor topic m)
    \<and> sends m' = sends m @ (if dest = ''.'' then []
        else map (\<lambda>k. (k, outgoing now ev m)) (directTo dest m @ receivers topic ev m))"
proof -
  define ev1 where "ev1 = (if Id ev = [] then ev\<lparr>Id := fst (nextId m)\<rparr> else ev)"
  define m1 where "m1 = (if Id ev = [] then snd (nextId m) else m)"
  have m1: "connections m1 = connections m" "handlers m1 = handlers m" "ServeMux m1 = None" "calls m1 = calls m" "sends m1 = sends m"
    by (simp_all add: m1_def nextId_def sm)
  have start: "(if Id ev = [] then nextId m else (Id ev, m)) = (Id ev1, m1)" "ev\<lparr>Id := Id ev1\<rparr> = ev1"
    by (simp_all add: ev1_def m1_def nextId_def)
  have ev1: "To ev1 = To ev" "From ev1 = From ev" "Meta ev1 = Meta ev" "Binary ev1 = Binary ev"
    by (simp_all add: ev1_def Binary_def)
  have out: "stamp now ev1 = outgoing now ev m" by (simp add: outgoing_def ev1_def)
  define m2 where "m2 = m1\<lparr>calls := calls m1 @ callsFor ev (handlersFor topic m)\<rparr>"
  have hf: "handlersFor topic m1 = handlersFor topic m" by (simp only: handlersFor_def m1)
  have cf: "callsFor ev1 hs = callsFor ev hs" for hs by (simp only: callsFor_def ev1)
  have h: "HandleMessageForNode now ev1 m1 = Some (outgoing now ev m, m2)"
    using handleMessageForNode_calls [of ev1 dest topic rest m1 now] parts by (simp add: ev1 m1 out m2_def hf cf)
  have m2: "connections m2 = connections m" by (simp add: m2_def m1)
  show ?thesis
  proof (cases "dest = ''.''")
    case True
    then show ?thesis by (simp add: SendMessage_def start parts ev1 h) (simp add: m2_def m1)
  next
    case False
    define m3 where "m3 = m2\<lparr>sends := sends m2 @ map (\<lambda>k. (k, outgoing now ev m)) (directTo dest m)\<rparr>"
    have d: "(if dest = ''*'' \<or> dest = [] then Some m2
        else case map_of (connections m2) dest of Some ch \<Rightarrow> SendMessageToRemote dest ch (outgoing now ev m) m2 | None \<Rightarrow> Some m2) = Some m3"
      using snd by (fastforce simp: directTo_def m3_def m2 SendMessageToRemote_def dest: map_of_SomeD split: option.splits)
    have f: "forwardAll (dest # topic # rest) (outgoing now ev m) (connections m3) m3
        = Some (m3\<lparr>sends := sends m3 @ map (\<lambda>k. (k, outgoing now ev m)) (receivers topic ev m)\<rparr>)"
      using snd by (subst forwardAll_sends) (simp_all add: m3_def m2 receivers_def)
    have "SendMessage now ev m = (if dest = ''*'' \<or> dest = [] then Some m2
        else case map_of (connections m2) dest of Some ch \<Rightarrow> SendMessageToRemote dest ch (outgoing now ev m) m2 | None \<Rightarrow> Some m2)
        \<bind> (\<lambda>m3. forwardAll (dest # topic # rest) (outgoing now ev m) (connections m3) m3)"
      using False by (simp add: SendMessage_def Let_def start parts ev1 h cong: option.case_cong)
    then have "SendMessage now ev m = Some (m3\<lparr>sends := sends m3 @ map (\<lambda>k. (k, outgoing now ev m)) (receivers topic ev m)\<rparr>)"
      unfolding d using f by simp
    then show ?thesis using False by (simp add: m3_def m2_def m1)
  qed
qed

section \<open>Properties\<close>

text \<open>C7: \<open>SendMessage\<close>, without an HTTP mux, of a message for \<open>dest/topic/...\<close>: the local handlers are called
  (those of \<open>*\<close>, then those of the topic or else the default ones) with the text of \<open>To\<close>, the metadata and
  the payload; unless \<open>dest\<close> is \<open>.\<close>, the message is sent to the connection named \<open>dest\<close> and to each
  subscribed connection but the one it came from. For a broadcast, \<open>*/topic\<close>, each of them gets it once.\<close>

theorem sendMessage_delivers:
  assumes "split_on (CHR ''/'') (To ev) = dest # topic # rest" and "ServeMux m = None"
    and "\<forall>x\<in>set (connections m). mc_hasSend (snd x)" and "distinct (map fst (connections m))"
  shows "\<exists>m'. SendMessage now ev m = Some m'
    \<and> calls m' = calls m @ callsFor ev (handlersFor topic m)
    \<and> sends m' = sends m @ (if dest = ''.'' then []
        else map (\<lambda>k. (k, outgoing now ev m)) (directTo dest m @ receivers topic ev m))
    \<and> (dest = ''*'' \<longrightarrow> (\<forall>k c. (k, c) \<in> set (connections m) \<longrightarrow>
        count_list (map fst (sends m')) k = count_list (map fst (sends m)) k
          + (if k \<noteq> From ev \<and> subscribed topic c then 1 else 0)))"
proof -
  obtain m' where m': "SendMessage now ev m = Some m'" "calls m' = calls m @ callsFor ev (handlersFor topic m)"
    "sends m' = sends m @ (if dest = ''.'' then []
        else map (\<lambda>k. (k, outgoing now ev m)) (directTo dest m @ receivers topic ev m))"
    using sendMessage_spec [OF assms(1,2,3)] by blast
  have "count_list (receivers topic ev m) k = (if k \<noteq> From ev \<and> subscribed topic c then 1 else 0)"
    if "(k, c) \<in> set (connections m)" for k c
    unfolding receivers_def by (rule count_list_keys [OF assms(4) that])
  then show ?thesis using m' by (simp add: directTo_def comp_def)
qed

theorem sendMessage_delivers_witness:
  "let ev = \<lparr>Id = [], To = ''*/t'', Meta = [], From = ''a'', Time = 0, Data = DataString ''x''\<rparr>;
       c = \<lparr>mc_Name = [], mc_Subs = Some [''t''], mc_hasSend = True, mc_gate = True\<rparr>;
       m = NewMux\<lparr>connections := [(''a'', c), (''b'', c), (''d'', c\<lparr>mc_Subs := None\<rparr>)], handlers := [(''t'', Handler 7)]\<rparr>
   in \<exists>m'. SendMessage 5 ev m = Some m' \<and> map fst (sends m') = [''b''] \<and> map k_handler (calls m') = [7]"
proof -
  define ev where "ev = \<lparr>Id = [], To = ''*/t'', Meta = [], From = ''a'', Time = 0, Data = DataString ''x''\<rparr>"
  define c where "c = \<lparr>mc_Name = [], mc_Subs = Some [''t''], mc_hasSend = True, mc_gate = True\<rparr>"
  define m where "m = NewMux\<lparr>connections := [(''a'', c), (''b'', c), (''d'', c\<lparr>mc_Subs := None\<rparr>)], handlers := [(''t'', Handler 7)]\<rparr>"
  obtain m' where "SendMessage 5 ev m = Some m'" "calls m' = calls m @ callsFor ev (handlersFor ''t'' m)"
    "sends m' = sends m @ map (\<lambda>k. (k, outgoing 5 ev m)) (directTo ''*'' m @ receivers ''t'' ev m)"
    using sendMessage_delivers [of ev "''*''" "''t''" "[]" m 5] by (auto simp: ev_def m_def c_def NewMux_def)
  then show ?thesis
    unfolding Let_def ev_def [symmetric] c_def [symmetric] m_def [symmetric]
    by (simp add: directTo_def receivers_def callsFor_def handlersFor_def)
      (simp add: m_def ev_def c_def NewMux_def subscribed_def)
qed

text \<open>A message for a connected peer whose connection is subscribed to the topic (by name or \<open>*\<close>), and that
  did not come from there, is sent to it twice: once as its destination and once as a subscriber.\<close>

theorem directed_sent_twice:
  assumes "split_on (CHR ''/'') (To ev) = dest # topic # rest" and "ServeMux m = None"
    and "\<forall>x\<in>set (connections m). mc_hasSend (snd x)" and "distinct (map fst (connections m))"
    and "(dest, c) \<in> set (connections m)" and "subscribed topic c"
    and "dest \<noteq> From ev" and "dest \<notin> {[], ''*'', ''.''}"
  shows "\<exists>m'. SendMessage now ev m = Some m'
    \<and> count_list (sends m') (dest, outgoing now ev m) = count_list (sends m) (dest, outgoing now ev m) + 2"
proof -
  obtain m' where m': "SendMessage now ev m = Some m'"
    "sends m' = sends m @ (if dest = ''.'' then []
        else map (\<lambda>k. (k, outgoing now ev m)) (directTo dest m @ receivers topic ev m))"
    using sendMessage_spec [OF assms(1,2,3)] by blast
  have r: "count_list (receivers topic ev m) dest = 1"
    unfolding receivers_def using count_list_keys [OF assms(4,5)] assms(6,7) by simp
  have d: "directTo dest m = [dest]"
    using assms(8) weak_map_of_SomeI [OF assms(5)] by (auto simp: directTo_def)
  have "count_list (map (\<lambda>k. (k, e)) ks) (k, e) = count_list ks k" for ks :: "string list" and k and e :: message
    by (induction ks) auto
  then show ?thesis using m' assms(8) by (simp add: d r)
qed

theorem directed_sent_twice_witness:
  "let ev = \<lparr>Id = ''9'', To = ''b/t'', Meta = [], From = [], Time = 1, Data = NoData\<rparr>;
       c = \<lparr>mc_Name = ''b'', mc_Subs = Some [''*''], mc_hasSend = True, mc_gate = True\<rparr>
   in \<exists>m'. SendMessage 5 ev (NewMux\<lparr>connections := [(''b'', c)]\<rparr>) = Some m' \<and> count_list (sends m') (''b'', ev) = 2"
  using directed_sent_twice [of "\<lparr>Id = ''9'', To = ''b/t'', Meta = [], From = [], Time = 1, Data = NoData\<rparr>" "''b''" "''t''" "[]"
      "NewMux\<lparr>connections := [(''b'', \<lparr>mc_Name = ''b'', mc_Subs = Some [''*''], mc_hasSend = True, mc_gate = True\<rparr>)]\<rparr>"
      "\<lparr>mc_Name = ''b'', mc_Subs = Some [''*''], mc_hasSend = True, mc_gate = True\<rparr>" 5]
  by (simp add: NewMux_def subscribed_def outgoing_def stamp_def Let_def numeral_2_eq_2)

text \<open>\<open>HandleMessageForNode\<close> panics exactly when there is an HTTP mux, the message names a topic, and the
  handler that is found has another pattern than \<open>/\<close> and writes to the response body, which is nil. The handler
  for an unknown path writes \<open>404 page not found\<close>.\<close>

theorem handleMessageForNode_panics:
  "HandleMessageForNode now ev m = None \<longleftrightarrow>
     (\<exists>sm dest topic rest. ServeMux m = Some sm \<and> split_on (CHR ''/'') (To ev) = dest # topic # rest
        \<and> snd (sm dest (To ev)) \<noteq> ''/'' \<and> (\<exists>d. CallWrite d \<in> set (fst (sm dest (To ev)))))"
proof -
  define argv where "argv = split_on (CHR ''/'') (To ev)"
  have e: "To ev = [] \<Longrightarrow> length argv < 2" by (simp add: argv_def)
  show ?thesis
  proof (cases "length argv < 2")
    case True
    then have "\<nexists>d t r. argv = d # t # r" by auto
    then show ?thesis using True by (auto simp: HandleMessageForNode_def Let_def argv_def)
  next
    case False
    then obtain dest topic rest where a: "argv = dest # topic # rest" by (cases argv; cases "tl argv") auto
    then have ne: "To ev \<noteq> []" using e by auto
    define st where "st = (if Time ev = 0 then ev\<lparr>Time := now\<rparr> else ev)"
    have st: "To st = To ev" "Meta st = Meta ev" by (simp_all add: st_def)
    have b: "Body newHTTPWriter = None" by (simp add: newHTTPWriter_def)
    show ?thesis
      using serveHTTP_None [OF b] ne a
      by (auto simp: HandleMessageForNode_def Let_def st_def [symmetric] st argv_def [symmetric] bind_eq_None_conv
          split: option.splits prod.splits)
  qed
qed

text \<open>\<open>HTTPHandlerSend\<close>, mapped to \<open>/s/DEST/topic\<close>, without a parameter \<open>q\<close>: it answers \<open>200\<close>, but the parts of
  the path are joined with blanks, so that the message names no topic and reaches neither a handler nor a
  connection.\<close>

theorem httpSend_path_lost:
  assumes "CHR ''/'' \<notin> set dest" and "CHR ''/'' \<notin> set topic" and "q_Path r = ''/s/'' @ dest @ ''/'' @ topic"
    and "map_of (q_Form r) ''q'' = None" and "formParams (q_Form r) = Some params" and "\<not> isl (q_Body r)"
    and "map_of (connections m) (dest @ '' '' @ topic) = None" and "o_sent w = None"
  shows "\<exists>w' m'. HTTPHandlerSend now r w m = Some (w', m') \<and> o_sent w' = Some (200, o_header w)
    \<and> calls m' = calls m \<and> sends m' = sends m \<and> served m' = served m"
proof -
  define cmd where "cmd = dest @ '' '' @ topic"
  have sp: "split_on (CHR ''/'') (q_Path r) = [[], ''s'', dest, topic]"
    using assms(1,2) by (simp add: assms(3) split_on_append split_on_single)
  have c: "split_on (CHR ''/'') cmd = [cmd]" "cmd \<noteq> []" "cmd \<noteq> ''*''" "cmd \<noteq> ''.''"
    using assms(1,2) by (auto simp: cmd_def intro!: split_on_single) (cases dest; simp)+
  have noc: "map_of (connections m) cmd = None" and jn: "join_with '' '' [dest, topic] = cmd"
    using assms(7) by (simp_all add: cmd_def)
  define body where "body = (if q_Method r = ''POST'' then projr (q_Body r) else [])"
  obtain msg m1 where nm: "NewMessage cmd params m = (msg, m1)" by (cases "NewMessage cmd params m")
  have msg: "To msg = cmd" "connections m1 = connections m" "calls m1 = calls m" "sends m1 = sends m" "served m1 = served m"
    using nm by (auto simp: NewMessage_def nextId_def Let_def split: if_splits)
  have sm: "\<exists>m'. SendMessage now (SetDataJSON (DataBytes body) msg) m1 = Some m'
      \<and> calls m' = calls m \<and> sends m' = sends m \<and> served m' = served m"
    using c noc by (simp add: SendMessage_def HandleMessageForNode_def Let_def SetDataJSON_def msg nextId_def)
  then show ?thesis
    using assms(4,6,8)
    by (auto simp: HTTPHandlerSend_def Let_def sp jn assms(5) body_def [symmetric] nm o_WriteHeader_def
        simp del: join_with.simps)
qed

theorem httpSend_path_lost_witness:
  "\<exists>w' m'. HTTPHandlerSend 5 \<lparr>q_Form = [], q_Path = ''/s/b/t'', q_Method = ''GET'', q_Body = Inr []\<rparr> newHttpOut
      (NewMux\<lparr>handlers := [(''t'', Handler 7)]\<rparr>) = Some (w', m') \<and> o_sent w' = Some (200, []) \<and> calls m' = []"
  using httpSend_path_lost [of "''b''" "''t''" "\<lparr>q_Form = [], q_Path = ''/s/b/t'', q_Method = ''GET'', q_Body = Inr []\<rparr>"
      "[]" "NewMux\<lparr>handlers := [(''t'', Handler 7)]\<rparr>" newHttpOut 5]
  by (auto simp: NewMux_def newHttpOut_def)

text \<open>The subscription that \<open>UA.Subscribe\<close> gets from \<open>SubscribeHandler\<close> has no location and no endpoint:
  the handler sets \<open>Link\<close> and \<open>Location\<close> after the status and the headers are sent.\<close>

theorem subscribe_empty:
  "(case o_sent (SubscribeHandler tok newHttpOut) of
      Some res \<Rightarrow> Subscribe (Inr res) = (Some \<lparr>Location = [], Endpoint = []\<rparr>, None) | None \<Rightarrow> False)"
  by (simp add: SubscribeHandler_def newHttpOut_def o_WriteHeader_def o_Add_def Subscribe_def)

section \<open>Registration\<close>

text \<open>Both tables have at most one entry for a key, as Go maps do; every operation keeps this.\<close>

definition wf_mux :: "mux \<Rightarrow> bool" where
  "wf_mux m \<longleftrightarrow> distinct (map fst (connections m)) \<and> distinct (map fst (handlers m))"

definition idsAt :: "string \<Rightarrow> mux \<Rightarrow> nat list" where
  "idsAt path m = (case map_of (handlers m) path of Some h \<Rightarrow> handlerIds h | None \<Rightarrow> [])"

lemma map_of_replace:
  "map_of (map (\<lambda>(k, h). if k = a then (k, v) else (k, h)) xs) k
     = (if k = a \<and> map_of xs a \<noteq> None then Some v else map_of xs k)"
  by (induction xs) auto

lemma keys_replace: "map fst (map (\<lambda>(k, h). if k = a then (k, v) else (k, h)) xs) = map fst xs"
  by (induction xs) auto

lemma addHandler_ids: "idsAt p (AddHandler path cp m) = idsAt p m @ (if p = path then handlerIds cp else [])"
proof (cases "map_of (handlers m) path")
  case None
  then show ?thesis by (auto simp: idsAt_def AddHandler_def map_add_def split: option.splits)
next
  case (Some old)
  then show ?thesis
    by (cases old) (auto simp: idsAt_def AddHandler_def Let_def map_of_replace split: option.splits)
qed

lemma addHandler_wf: "wf_mux m \<Longrightarrow> wf_mux (AddHandler path cp m)"
  by (auto simp: wf_mux_def AddHandler_def Let_def keys_replace map_of_eq_None_iff simp del: map_map
      split: option.splits handler.splits)

lemma notify_simps [simp]:
  "connections (notify e c m) = connections m" "handlers (notify e c m) = handlers m" "sends (notify e c m) = sends m"
  by (simp_all add: notify_def HandleMessage_def split: option.splits)

lemma addConnection_lookup:
  "map_of (connections (AddConnection cid cp m)) k
     = (if k = cid then Some (cp\<lparr>mc_Name := cid, mc_gate := True\<rparr>) else map_of (connections m) k)"
  by (simp add: AddConnection_def update_conv')

lemma removeConnection_lookup:
  "map_of (connections (RemoveConnection cid m)) k = (if k = cid then None else map_of (connections m) k)"
proof -
  have "map_of (filter (\<lambda>x. fst x \<noteq> cid) xs) k = (if k = cid then None else map_of xs k)" for xs :: "(string \<times> msgConnection) list"
    by (induction xs) auto
  then show ?thesis by (simp add: RemoveConnection_def)
qed

lemma connections_wf: "wf_mux m \<Longrightarrow> wf_mux (AddConnection cid cp m)" "wf_mux m \<Longrightarrow> wf_mux (RemoveConnection cid m)"
  by (auto simp: wf_mux_def AddConnection_def RemoveConnection_def distinct_update distinct_map_filter)

text \<open>The calls that announce a connection.\<close>

definition notifyCalls :: "string \<Rightarrow> string \<Rightarrow> mux \<Rightarrow> call list" where
  "notifyCalls e cid m = map (\<lambda>n. \<lparr>k_handler = n, k_cmd = e, k_meta = [(''id'', cid)], k_data = None\<rparr>) (idsAt e m)"

lemma notify_calls: "calls (notify e cid m) = calls m @ notifyCalls e cid m"
  by (simp add: notify_def idsAt_def notifyCalls_def HandleMessage_def split: option.splits)

lemma same_handlers: "handlers m' = handlers m \<Longrightarrow> notifyCalls e cid m' = notifyCalls e cid m"
  by (simp add: notifyCalls_def idsAt_def)

lemma notify_ServeMux [simp]: "ServeMux (notify e cid m) = ServeMux m"
  by (simp add: notify_def HandleMessage_def split: option.splits)

lemma connection_frame:
  "handlers (AddConnection cid c m) = handlers m" "handlers (RemoveConnection cid m) = handlers m"
  "ServeMux (AddConnection cid c m) = ServeMux m" "ServeMux (RemoveConnection cid m) = ServeMux m"
  "sends (AddConnection cid c m) = sends m" "sends (RemoveConnection cid m) = sends m"
  "calls (AddConnection cid c m) = calls m @ notifyCalls ''/open'' cid m"
  "calls (RemoveConnection cid m) = calls m @ notifyCalls ''/close'' cid m"
  by (simp_all add: AddConnection_def RemoveConnection_def notify_calls notifyCalls_def idsAt_def)

text \<open>Connections come and go: \<open>AddConnection\<close> and \<open>Close\<close>, one after the other.\<close>

datatype connOp = OpenConn string msgConnection | CloseConn msgConnection

fun connRun :: "connOp list \<Rightarrow> mux \<Rightarrow> mux option" where
  "connRun [] m = Some m"
| "connRun (OpenConn cid cp # ops) m = connRun ops (AddConnection cid cp m)"
| "connRun (CloseConn mc # ops) m = do { m \<leftarrow> MsgConnection_Close mc m; connRun ops m }"

primrec opId :: "connOp \<Rightarrow> string" where
  "opId (OpenConn cid cp) = cid"
| "opId (CloseConn mc) = mc_Name mc"

primrec opEvent :: "connOp \<Rightarrow> string" where
  "opEvent (OpenConn cid cp) = ''/open''"
| "opEvent (CloseConn mc) = ''/close''"

text \<open>What is registered under an id after the operations, from what was registered before: the last operation on the id decides.\<close>

definition connAfter :: "connOp list \<Rightarrow> string \<Rightarrow> msgConnection option \<Rightarrow> msgConnection option" where
  "connAfter ops k before = (case find (\<lambda>op. opId op = k) (rev ops) of
       None \<Rightarrow> before
     | Some (OpenConn cid cp) \<Rightarrow> Some (cp\<lparr>mc_Name := cid, mc_gate := True\<rparr>)
     | Some (CloseConn mc) \<Rightarrow> None)"

lemma find_append: "find P (xs @ ys) = (case find P xs of None \<Rightarrow> find P ys | Some x \<Rightarrow> Some x)"
  by (induction xs) auto

lemma connAfter_Cons:
  "connAfter (OpenConn cid cp # ops) k b = connAfter ops k (if k = cid then Some (cp\<lparr>mc_Name := cid, mc_gate := True\<rparr>) else b)"
  "connAfter (CloseConn mc # ops) k b = connAfter ops k (if k = mc_Name mc then None else b)"
  by (auto simp: connAfter_def find_append split: option.splits)

lemma connRun_step:
  assumes "connRun (op # ops) m = Some m'"
  shows "\<exists>m1. connRun ops m1 = Some m' \<and> handlers m1 = handlers m \<and> sends m1 = sends m
    \<and> calls m1 = calls m @ notifyCalls (opEvent op) (opId op) m \<and> (wf_mux m \<longrightarrow> wf_mux m1)
    \<and> (\<forall>k. connAfter (op # ops) k (map_of (connections m) k) = connAfter ops k (map_of (connections m1) k))"
  using assms
  by (cases op) (auto simp: MsgConnection_Close_def bind_eq_Some_conv connection_frame connections_wf connAfter_Cons addConnection_lookup
      removeConnection_lookup split: if_splits)

lemma connRun_None: "connRun ops m = None \<longleftrightarrow> (\<exists>mc. CloseConn mc \<in> set ops \<and> \<not> mc_gate mc)"
  by (induction ops m rule: connRun.induct) (auto simp: MsgConnection_Close_def)

lemma connRun_spec:
  assumes "connRun ops m = Some m'"
  shows "(\<forall>k. map_of (connections m') k = connAfter ops k (map_of (connections m) k))
    \<and> handlers m' = handlers m \<and> sends m' = sends m
    \<and> calls m' = calls m @ concat (map (\<lambda>op. notifyCalls (opEvent op) (opId op) m) ops) \<and> (wf_mux m \<longrightarrow> wf_mux m')"
  using assms
proof (induction ops arbitrary: m)
  case (Cons op ops)
  then obtain m1 where m1: "connRun ops m1 = Some m'" "handlers m1 = handlers m" "sends m1 = sends m"
    "calls m1 = calls m @ notifyCalls (opEvent op) (opId op) m" "wf_mux m \<longrightarrow> wf_mux m1"
    "\<forall>k. connAfter (op # ops) k (map_of (connections m) k) = connAfter ops k (map_of (connections m1) k)"
    using connRun_step by blast
  have "notifyCalls e k m1 = notifyCalls e k m" for e k using same_handlers [OF m1(2)] .
  then show ?case using Cons.IH [OF m1(1)] m1 by simp
qed (simp add: connAfter_def)

text \<open>C27: The table of connections, over any sequence of \<open>AddConnection\<close> and \<open>Close\<close>, one after the other. What is found under an id is decided by the
  last operation on that id: the connection that was added, with its name set, or nothing after a close, by whichever connection of that name it was
  called; an id that was not used is as before. Each operation tells the handlers of \<open>/open\<close> or \<open>/close\<close> the id, in the order of the operations, and sends
  nothing; handlers and well-formedness are kept. The sequence panics exactly when a connection is closed that was never added to a gate.\<close>

theorem connection_lifecycle:
  "(connRun ops m = None \<longleftrightarrow> (\<exists>mc. CloseConn mc \<in> set ops \<and> \<not> mc_gate mc))
   \<and> (\<forall>m'. connRun ops m = Some m' \<longrightarrow>
        (\<forall>k. map_of (connections m') k = (case find (\<lambda>op. opId op = k) (rev ops) of
             None \<Rightarrow> map_of (connections m) k
           | Some (OpenConn cid cp) \<Rightarrow> Some (cp\<lparr>mc_Name := cid, mc_gate := True\<rparr>)
           | Some (CloseConn mc) \<Rightarrow> None))
      \<and> calls m' = calls m @ concat (map (\<lambda>op. notifyCalls (opEvent op) (opId op) m) ops)
      \<and> sends m' = sends m \<and> handlers m' = handlers m \<and> (wf_mux m \<longrightarrow> wf_mux m'))"
  using connRun_None [of ops m] connRun_spec [of ops m] by (simp add: connAfter_def)

text \<open>The witness: two connections of the same id; the close of the first takes the second out of the table.\<close>

theorem connection_lifecycle_witness:
  "let c1 = \<lparr>mc_Name = [], mc_Subs = None, mc_hasSend = True, mc_gate = False\<rparr>; c2 = c1\<lparr>mc_Subs := Some [''t'']\<rparr>;
       m = NewMux\<lparr>handlers := [(''/open'', Handler 7), (''/close'', Handler 8)]\<rparr>
   in \<exists>m'. connRun [OpenConn ''a'' c1, OpenConn ''b'' c1, OpenConn ''a'' c2, CloseConn (c1\<lparr>mc_Name := ''a'', mc_gate := True\<rparr>)] m = Some m'
     \<and> map_of (connections m') ''a'' = None \<and> map_of (connections m') ''b'' = Some (c1\<lparr>mc_Name := ''b'', mc_gate := True\<rparr>)
     \<and> map k_handler (calls m') = [7, 7, 7, 8]"
proof -
  define c1 where "c1 = \<lparr>mc_Name = [], mc_Subs = None, mc_hasSend = True, mc_gate = False\<rparr>"
  define ops where "ops = [OpenConn ''a'' c1, OpenConn ''b'' c1, OpenConn ''a'' (c1\<lparr>mc_Subs := Some [''t'']\<rparr>),
    CloseConn (c1\<lparr>mc_Name := ''a'', mc_gate := True\<rparr>)]"
  define m where "m = NewMux\<lparr>handlers := [(''/open'', Handler 7), (''/close'', Handler 8)]\<rparr>"
  obtain m' where m': "connRun ops m = Some m'" by (simp add: ops_def MsgConnection_Close_def)
  from connection_lifecycle [of ops m] m'
  have f: "\<forall>k. map_of (connections m') k = (case find (\<lambda>op. opId op = k) (rev ops) of None \<Rightarrow> map_of (connections m) k
           | Some (OpenConn cid cp) \<Rightarrow> Some (cp\<lparr>mc_Name := cid, mc_gate := True\<rparr>) | Some (CloseConn mc) \<Rightarrow> None)"
    and cs: "calls m' = calls m @ concat (map (\<lambda>op. notifyCalls (opEvent op) (opId op) m) ops)" by blast+
  from f [rule_format, of "''a''"] f [rule_format, of "''b''"] cs
  have r: "map_of (connections m') ''a'' = None" "map_of (connections m') ''b'' = Some (c1\<lparr>mc_Name := ''b'', mc_gate := True\<rparr>)"
    "map k_handler (calls m') = [7, 7, 7, 8]"
    by (simp_all add: ops_def m_def NewMux_def notifyCalls_def idsAt_def)
  have "\<exists>m'. connRun ops m = Some m' \<and> map_of (connections m') ''a'' = None
     \<and> map_of (connections m') ''b'' = Some (c1\<lparr>mc_Name := ''b'', mc_gate := True\<rparr>) \<and> map k_handler (calls m') = [7, 7, 7, 8]"
    by (intro exI [of _ m'] conjI m' r)
  then show ?thesis by (simp only: Let_def ops_def m_def c1_def)
qed

text \<open>\<open>RemoveConnection\<close> deletes by name and does not compare the connection: a connection that is still open is lost from the table when an older
  one of the same name is closed, and messages no longer reach it.\<close>

lemma close_removes_newer:
  assumes "mc_gate old" "mc_Name old = cid"
  shows "\<exists>m'. MsgConnection_Close old (AddConnection cid new m) = Some m' \<and> map_of (connections m') cid = None"
  using assms by (simp add: MsgConnection_Close_def removeConnection_lookup)

end
