(* ===== verification/Uds.thy ===== *)
theory Uds
  imports Msg_Mux
begin

text \<open>
  \<^verbatim>\<open>src/pkg/uds/\<close> \<open>stream.go\<close> and \<open>uds.go\<close>: messages over Unix-domain sockets. A frame is a type byte, the length
  of the payload (32 bits, little endian) and the payload: the command on a line, a line \<open>key:value\<close> for each
  item of metadata, an empty line, the data.

  A \<open>net.UnixConn\<close> is the list of what its reads will give: data, control messages and an error; and the bytes
  written to it. The receive buffer is a list of its length (32 KiB in \<open>Dial\<close> and \<open>accept\<close>). \<open>None\<close> is a panic,
  or a call that does not return.
\<close>

section \<open>Frames and messages\<close>

abbreviation NL :: byte where "NL \<equiv> 10"
abbreviation colon :: byte where "colon \<equiv> 58"

definition udsFrame :: "byte list \<Rightarrow> byte list" where
  "udsFrame d = 0 # le32_bytes (word_of_nat (length d)) @ d"

definition SendFrameLenBinary :: "writer option \<Rightarrow> byte list list \<Rightarrow> nat \<times> goerr option \<times> writer option" where
  "SendFrameLenBinary con data =
     (let msg = udsFrame (concat data)
      in case con of None \<Rightarrow> (0, None, None)
         | Some w \<Rightarrow> (let (_, err, w) = go_write msg w in (length data, err, Some w)))"

text \<open>\<open>bytes.IndexByte\<close>.\<close>

fun indexByte :: "byte list \<Rightarrow> byte \<Rightarrow> nat option" where
  "indexByte [] b = None"
| "indexByte (x # xs) b = (if x = b then Some 0 else map_option Suc (indexByte xs b))"

text \<open>The loop over the headers. A line without a colon is passed over with \<open>continue\<close>, before \<open>endLine\<close> is
  advanced.\<close>

partial_function (option) parseHeaders :: "byte list \<Rightarrow> nat \<Rightarrow> meta \<Rightarrow> (nat \<times> meta) option" where
  "parseHeaders data endLine meta =
     (case indexByte (drop endLine data) NL of
        None \<Rightarrow> Some (endLine, meta)
      | Some nextLine \<Rightarrow>
          if nextLine = 0 then Some (endLine + 1, meta)
          else let kv = take nextLine (drop endLine data) in
            case indexByte kv colon of
              None \<Rightarrow> parseHeaders data endLine meta
            | Some c \<Rightarrow> parseHeaders data (endLine + nextLine + 1)
                (AList.update (str_of (take c kv)) (str_of (drop (c + 1) kv)) meta))"

definition ParseMessage :: "byte list \<Rightarrow> int \<Rightarrow> (string \<times> meta \<times> byte list option) option" where
  "ParseMessage data mtype =
     (case indexByte data NL of
        None \<Rightarrow> Some (str_of data, [], None)
      | Some endLine \<Rightarrow> do {
          (e, meta) \<leftarrow> parseHeaders data (endLine + 1) [];
          Some (str_of (take endLine data), meta, if e < length data then Some (drop e data) else None) })"

definition packMeta :: "meta \<Rightarrow> byte list" where
  "packMeta meta = concat (map (\<lambda>(k, v). bytes_of k @ [colon] @ bytes_of v @ [NL]) meta) @ [NL]"

section \<open>Connections\<close>

text \<open>Control messages, as \<open>ParseSocketControlMessage\<close> gives them: credentials (pid, uid, gid) or file descriptors,
  \<open>None\<close> when the payload cannot be parsed.\<close>

datatype ctlMsg = ScmCredentials "(int \<times> u32 \<times> u32) option" | ScmRights "int list option"

fun ParseUnixCredentials :: "ctlMsg \<Rightarrow> (int \<times> u32 \<times> u32) option" where
  "ParseUnixCredentials (ScmCredentials c) = c"
| "ParseUnixCredentials (ScmRights _) = None"

text \<open>One result of \<open>ReadMsgUnix\<close>. The control part is \<open>None\<close> when \<open>oobn\<close> is 0, and \<open>Some (Inl e)\<close> when it cannot be
  split into messages. Data that does not fit stays for the next read.\<close>

record unixRead =
  x_data :: "byte list"
  x_oob :: "(goerr + ctlMsg list) option"
  x_err :: "goerr option"

fun readMsgUnix :: "nat \<Rightarrow> unixRead list \<Rightarrow> unixRead \<times> unixRead list" where
  "readMsgUnix n [] = (\<lparr>x_data = [], x_oob = None, x_err = Some EOF\<rparr>, [])"
| "readMsgUnix n (x # r) =
     (if n < length (x_data x) then (x\<lparr>x_data := take n (x_data x), x_err := None\<rparr>, x\<lparr>x_data := drop n (x_data x), x_oob := None\<rparr> # r)
      else (x, r))"

record udsConn =
  u_msg :: msgConnection
  u_in :: "unixRead list"
  u_out :: writer
  u_conClosed :: bool
  u_Handler :: "nat option"
  u_buffer :: "byte list"
  u_off :: nat
  u_leftoverSize :: nat
  u_Name :: string
  u_Files :: "(int \<times> string) list"
  u_closed :: bool
  u_Pid :: int
  u_Uid :: u32
  u_Gid :: u32
  u_initial :: meta

definition newMsgConnection :: msgConnection where
  "newMsgConnection = \<lparr>mc_Name = [], mc_Subs = None, mc_hasSend = True, mc_gate = False\<rparr>"

text \<open>The connection that \<open>Dial\<close> and \<open>accept\<close> make.\<close>

definition newUdsConn :: "string \<Rightarrow> meta \<Rightarrow> unixRead list \<Rightarrow> writer \<Rightarrow> udsConn" where
  "newUdsConn name initial inp out =
     \<lparr>u_msg = newMsgConnection, u_in = inp, u_out = out, u_conClosed = False, u_Handler = None,
      u_buffer = replicate (32 * 1024) 0, u_off = 0, u_leftoverSize = 0, u_Name = name, u_Files = [],
      u_closed = False, u_Pid = 0, u_Uid = 0, u_Gid = 0, u_initial = initial\<rparr>"

fun addFiles :: "int list \<Rightarrow> nat \<Rightarrow> udsConn \<Rightarrow> udsConn" where
  "addFiles [] j u = u"
| "addFiles (fd # fds) j u =
     addFiles fds (j + 1) (if fd \<noteq> 0 then u\<lparr>u_Files := u_Files u @ [(fd, u_Name u @ ''-socket-'' @ itoa (int j))]\<rparr> else u)"

text \<open>The loop over the control messages. Credentials are always taken from the first message.\<close>

fun handleCtl :: "ctlMsg \<Rightarrow> ctlMsg list \<Rightarrow> udsConn \<Rightarrow> udsConn" where
  "handleCtl first [] u = u"
| "handleCtl first (ScmCredentials _ # ms) u =
     handleCtl first ms (if u_Pid u \<noteq> 0 then u
       else case ParseUnixCredentials first of
           None \<Rightarrow> u | Some (p, ui, gi) \<Rightarrow> u\<lparr>u_Pid := p, u_Uid := ui, u_Gid := gi\<rparr>)"
| "handleCtl first (ScmRights fds # ms) u =
     handleCtl first ms (case fds of None \<Rightarrow> u | Some l \<Rightarrow> addFiles l 0 u)"

definition uds_Read :: "nat \<Rightarrow> udsConn \<Rightarrow> byte list \<times> goerr option \<times> udsConn" where
  "uds_Read n u =
     (let (x, r) = readMsgUnix n (u_in u); u = u\<lparr>u_in := r\<rparr> in
      case x_err x of
        Some e \<Rightarrow> (x_data x, Some e, u)
      | None \<Rightarrow>
          if x_data x = [] \<and> x_oob x = None then (x_data x, Some EOF, u)
          else case x_oob x of
              None \<Rightarrow> (x_data x, None, u)
            | Some (Inl e) \<Rightarrow> (x_data x, Some (ErrMsg (''parse control message: '' @ err_string e)), u)
            | Some (Inr ms) \<Rightarrow> (x_data x, None, case ms of [] \<Rightarrow> u | m # _ \<Rightarrow> handleCtl m ms u))"

definition unix_bytes :: "unixRead list \<Rightarrow> byte list" where
  "unix_bytes r = concat (map x_data r)"

lemma readMsgUnix_bytes: "readMsgUnix n r = (x, r') \<Longrightarrow> unix_bytes r = x_data x @ unix_bytes r'"
  by (cases r) (auto simp: unix_bytes_def split: if_splits)

lemma addFiles_simps [simp]:
  "u_in (addFiles fds j u) = u_in u" "u_buffer (addFiles fds j u) = u_buffer u" "u_off (addFiles fds j u) = u_off u"
  "u_leftoverSize (addFiles fds j u) = u_leftoverSize u" "u_msg (addFiles fds j u) = u_msg u" "u_out (addFiles fds j u) = u_out u"
  "u_Handler (addFiles fds j u) = u_Handler u" "u_closed (addFiles fds j u) = u_closed u" "u_Name (addFiles fds j u) = u_Name u"
  by (induction fds arbitrary: j u) simp_all

lemma handleCtl_simps [simp]:
  "u_in (handleCtl f ms u) = u_in u" "u_buffer (handleCtl f ms u) = u_buffer u" "u_off (handleCtl f ms u) = u_off u"
  "u_leftoverSize (handleCtl f ms u) = u_leftoverSize u" "u_msg (handleCtl f ms u) = u_msg u" "u_out (handleCtl f ms u) = u_out u"
  "u_Handler (handleCtl f ms u) = u_Handler u" "u_closed (handleCtl f ms u) = u_closed u" "u_Name (handleCtl f ms u) = u_Name u"
  by (induction f ms u rule: handleCtl.induct) (simp_all split: option.splits prod.splits)

lemma uds_Read_in: "uds_Read n u = (bs, e, u') \<Longrightarrow> \<exists>x. readMsgUnix n (u_in u) = (x, u_in u') \<and> x_data x = bs"
  by (auto simp: uds_Read_def Let_def split: prod.splits option.splits if_splits sum.splits list.splits)

text \<open>What the loop of \<open>nextMessage\<close> finds in the buffer when it has \<open>endData\<close> bytes: an incomplete frame, a bad
  length, or a frame with \<open>n\<close> bytes of payload.\<close>

datatype frameHead = NeedMore | BadLen | Full nat

definition readHead :: "nat \<Rightarrow> byte list \<Rightarrow> frameHead option" where
  "readHead endData buffer =
     (if endData < 5 then Some NeedMore
      else case le32_val (drop 1 buffer) of
          None \<Rightarrow> None
        | Some w \<Rightarrow>
            (let len1 = unat w in
             Some (if length buffer < len1 \<or> len1 = 0 then BadLen
                   else if endData < len1 + 5 then NeedMore else Full len1)))"

function nextMessageLoop :: "nat \<Rightarrow> udsConn \<Rightarrow> ((int \<times> byte list option \<times> goerr option) \<times> udsConn) option" where
  "nextMessageLoop endData u =
     (case readHead endData (u_buffer u) of
        None \<Rightarrow> None
      | Some BadLen \<Rightarrow> Some ((0, None, Some (ErrMsg ''Message too large'')), u)
      | Some (Full len1) \<Rightarrow>
          if length (u_buffer u) < len1 + 5 then None
          else Some ((uint (u_buffer u ! 0), Some (take len1 (drop 5 (u_buffer u))), None),
            if len1 + 5 < endData then u\<lparr>u_off := len1 + 5, u_leftoverSize := endData - len1 - 5\<rparr>
            else u\<lparr>u_off := 0, u_leftoverSize := 0\<rparr>)
      | Some NeedMore \<Rightarrow>
          if length (u_buffer u) < endData then None
          else (let (bs, err, u') = uds_Read (length (u_buffer u) - endData) u;
                    u' = u'\<lparr>u_buffer := overwrite (u_buffer u') endData bs\<rparr>
                in case err of Some e \<Rightarrow> Some ((0, None, Some e), u')
                   | None \<Rightarrow> if bs = [] then Some ((0, None, Some EOF), u') else nextMessageLoop (endData + length bs) u'))"
  by pat_completeness auto
termination
proof (relation "measure (\<lambda>(_, u). length (unix_bytes (u_in u)))", goal_cases)
  case (2 endData u h x bs y err u' u'')
  then obtain z where z: "readMsgUnix (length (u_buffer u) - endData) (u_in u) = (z, u_in u')" "x_data z = bs"
    using uds_Read_in by metis
  show ?case using 2 readMsgUnix_bytes [OF z(1)] z(2) by simp
qed simp

declare nextMessageLoop.simps [simp del]

definition nextMessage :: "udsConn \<Rightarrow> ((int \<times> byte list option \<times> goerr option) \<times> udsConn) option" where
  "nextMessage u =
     (if 0 < u_leftoverSize u \<and> 0 < u_off u then
        if length (u_buffer u) < u_off u + u_leftoverSize u then None
        else nextMessageLoop (u_leftoverSize u)
          (u\<lparr>u_buffer := overwrite (u_buffer u) 0 (take (u_leftoverSize u) (drop (u_off u) (u_buffer u))), u_leftoverSize := 0\<rparr>)
      else nextMessageLoop 0 u)"

section \<open>Sending, files, closing\<close>

definition uds_write :: "byte list list \<Rightarrow> udsConn \<Rightarrow> goerr option \<times> udsConn" where
  "uds_write ds u =
     (case SendFrameLenBinary (Some (u_out u)) ds of (_, err, Some w) \<Rightarrow> (err, u\<lparr>u_out := w\<rparr>) | (_, err, None) \<Rightarrow> (err, u))"

definition uds_SendMessage :: "message \<Rightarrow> udsConn \<Rightarrow> goerr option \<times> udsConn" where
  "uds_SendMessage m u =
     uds_write [bytes_of (To m), [NL], packMeta (Meta m), case Binary m of Some b \<Rightarrow> b | None \<Rightarrow> []] u"

definition SendMessageDirect :: "string \<Rightarrow> meta \<Rightarrow> byte list \<Rightarrow> udsConn \<Rightarrow> goerr option \<times> udsConn" where
  "SendMessageDirect cmd meta data u = uds_write [bytes_of cmd, [NL], packMeta meta, data] u"

definition uds_File :: "udsConn \<Rightarrow> (int \<times> string) option \<times> udsConn" where
  "uds_File u = (case u_Files u of [] \<Rightarrow> (None, u) | f # fs \<Rightarrow> (Some f, u\<lparr>u_Files := fs\<rparr>))"

definition uds_Close :: "udsConn \<Rightarrow> udsConn" where
  "uds_Close u = u\<lparr>u_closed := True, u_conClosed := True\<rparr>"

section \<open>Client and server\<close>

text \<open>A server: the group that clients must have, \<open>-1\<close> for any. The counter \<open>cnt\<close> for names is global.\<close>

record udsServer =
  s_Name :: string
  s_Gid :: int

definition NewServer :: "string \<Rightarrow> udsServer" where
  "NewServer name = \<lparr>s_Name = name, s_Gid = -1\<rparr>"

definition handshakeClient :: "udsConn \<Rightarrow> (goerr option \<times> udsConn) option" where
  "handshakeClient u = do {
     let (_, u) = SendMessageDirect '':open'' (u_initial u) [] u;
     ((mtype, data, err), u) \<leftarrow> nextMessage u;
     case err of
       Some e \<Rightarrow> Some (Some e, u\<lparr>u_conClosed := True\<rparr>)
     | None \<Rightarrow> do {
         _ \<leftarrow> ParseMessage (case data of Some d \<Rightarrow> d | None \<Rightarrow> []) mtype;
         Some (None, u) } }"

text \<open>\<open>Redial\<close> and \<open>Dial\<close>: \<open>dial\<close> is the outcome of \<open>net.DialUnix\<close>.\<close>

definition Redial :: "goerr + (unixRead list \<times> writer) \<Rightarrow> udsConn \<Rightarrow> (goerr option \<times> udsConn) option" where
  "Redial dial u = (case dial of Inl e \<Rightarrow> Some (Some e, u)
     | Inr (inp, out) \<Rightarrow> handshakeClient (u\<lparr>u_in := inp, u_out := out, u_conClosed := False\<rparr>))"

definition Dial :: "goerr + (unixRead list \<times> writer) \<Rightarrow> string \<Rightarrow> meta \<Rightarrow> (goerr option \<times> udsConn) option" where
  "Dial dial ifname initial = Redial dial (newUdsConn ifname initial [] \<lparr>w_out = [], w_next = []\<rparr>)"

definition accept :: "goerr + (unixRead list \<times> writer) \<Rightarrow> udsServer \<Rightarrow> goerr + udsConn" where
  "accept acc s = (case acc of Inl e \<Rightarrow> Inl e | Inr (inp, out) \<Rightarrow> Inr (newUdsConn (s_Name s) [] inp out))"

definition serverHandshake :: "udsServer \<Rightarrow> int \<Rightarrow> udsConn \<Rightarrow> (goerr option \<times> udsConn \<times> int) option" where
  "serverHandshake s cnt u = do {
     ((_, data, err), u) \<leftarrow> nextMessage u;
     case err of
       Some e \<Rightarrow> Some (Some (ErrMsg (''Failed to read unix creds '' @ err_string e)), u, cnt)
     | None \<Rightarrow>
         if s_Gid s \<noteq> -1 \<and> word_of_int (s_Gid s) \<noteq> u_Gid u then Some (Some (ErrMsg ''Invalid GID''), u, cnt)
         else
           (let u = u\<lparr>u_Name := ''udss:'' @ itoa (uint (u_Uid u)) @ '':'' @ itoa (u_Pid u) @ '':'' @ itoa cnt\<rparr>;
                (_, u) = SendMessageDirect ''ok'' [] [] u
            in Some (None, u, cnt + 1)) }"

text \<open>The loop of \<open>streamCommon\<close>. The source hands the message to \<open>conn.Mesh.Mux.HandleMessageForNode\<close>; no type of the repository has the field
  \<open>Mesh\<close> that this needs, and the file does not compile. The call is the parameter \<open>dispatch\<close>, with a state \<open>h\<close> of its own; \<open>None\<close>: it does not return.
  It gets the message without the pointer to the connection. \<open>conn.mux\<close>, where the connection is registered, is \<open>m\<close>.\<close>

partial_function (option) streamLoop :: "(message \<Rightarrow> 'h \<Rightarrow> 'h option) \<Rightarrow> udsConn \<Rightarrow> mux \<Rightarrow> 'h \<Rightarrow> (udsConn \<times> mux \<times> 'h) option" where
  "streamLoop dispatch u m h =
     (if u_closed u then Some (u, m, h)
      else do {
        ((mtype, data, err), u) \<leftarrow> nextMessage u;
        if err \<noteq> None then Some (u, m, h)
        else do {
          (cmd, meta, payload) \<leftarrow> ParseMessage (case data of Some d \<Rightarrow> d | None \<Rightarrow> []) mtype;
          let msg = \<lparr>Id = [], To = cmd, Meta = meta, From = u_Name u, Time = 0,
              Data = (case payload of Some p \<Rightarrow> if p \<noteq> [] then DataString (str_of p) else NoData | None \<Rightarrow> NoData)\<rparr>;
          let m = (case u_Handler u of Some k \<Rightarrow> HandleMessage (Handler k) cmd meta payload m | None \<Rightarrow> m);
          h \<leftarrow> dispatch msg h;
          streamLoop dispatch u m h } })"

definition udsSubscriptions :: "string list" where
  "udsSubscriptions = [''I'', ''ble'', ''bt'', ''N'', ''wifi'', ''net'']"

definition streamCommon :: "(message \<Rightarrow> 'h \<Rightarrow> 'h option) \<Rightarrow> udsConn \<Rightarrow> mux \<Rightarrow> 'h \<Rightarrow> (udsConn \<times> mux \<times> 'h) option" where
  "streamCommon dispatch u m h = do {
     let u = u\<lparr>u_msg := (u_msg u)\<lparr>mc_Subs := Some udsSubscriptions, mc_Name := u_Name u, mc_gate := True\<rparr>\<rparr>;
     let m = AddConnection (u_Name u) (u_msg u) m;
     (u, m, h) \<leftarrow> streamLoop dispatch u m h;
     Some (u\<lparr>u_conClosed := True\<rparr>, RemoveConnection (u_Name u) m, h) }"

definition serverStream :: "(message \<Rightarrow> 'h \<Rightarrow> 'h option) \<Rightarrow> udsServer \<Rightarrow> int \<Rightarrow> udsConn \<Rightarrow> mux \<Rightarrow> 'h \<Rightarrow> (udsConn \<times> mux \<times> 'h \<times> int) option" where
  "serverStream dispatch s cnt u m h = do {
     (_, u, cnt) \<leftarrow> serverHandshake s cnt u;
     (u, m, h) \<leftarrow> streamCommon dispatch u m h;
     Some (u, m, h, cnt) }"

definition HandleStream :: "(message \<Rightarrow> 'h \<Rightarrow> 'h option) \<Rightarrow> udsConn \<Rightarrow> mux \<Rightarrow> 'h \<Rightarrow> (udsConn \<times> mux \<times> 'h) option" where
  "HandleStream dispatch u m h = streamCommon dispatch u m h"

section \<open>Parsing what was packed\<close>

lemma indexByte_append: "b \<notin> set xs \<Longrightarrow> indexByte (xs @ b # ys) b = Some (length xs)"
  by (induction xs) auto

lemma indexByte_None: "indexByte xs b = None \<longleftrightarrow> b \<notin> set xs"
  by (induction xs) auto

definition headerOk :: "string \<times> string \<Rightarrow> bool" where
  "headerOk kv \<longleftrightarrow> NL \<notin> set (bytes_of (fst kv)) \<and> colon \<notin> set (bytes_of (fst kv)) \<and> NL \<notin> set (bytes_of (snd kv))"

definition headerLine :: "string \<times> string \<Rightarrow> byte list" where
  "headerLine kv = bytes_of (fst kv) @ [colon] @ bytes_of (snd kv) @ [NL]"

lemma packMeta_alt: "packMeta meta = concat (map headerLine meta) @ [NL]"
  by (auto simp: packMeta_def headerLine_def intro!: arg_cong [of _ _ concat])

lemma update_new: "k \<notin> fst ` set al \<Longrightarrow> AList.update k v al = al @ [(k, v)]"
  by (induction al) auto

lemma parseHeaders_end: "drop e data = NL # d \<Longrightarrow> parseHeaders data e acc = Some (e + 1, acc)"
  by (subst parseHeaders.simps) simp

lemma parseHeaders_line:
  assumes "headerOk (k, v)" and "drop e data = headerLine (k, v) @ d"
  shows "parseHeaders data e acc = parseHeaders data (e + length (headerLine (k, v))) (AList.update k v acc)"
proof -
  define kv where "kv = bytes_of k @ [colon] @ bytes_of v"
  have d: "drop e data = kv @ NL # d" using assms(2) by (simp add: headerLine_def kv_def)
  have nl: "NL \<notin> set kv" using assms(1) by (simp add: headerOk_def kv_def)
  have ne: "kv \<noteq> []" by (simp add: kv_def)
  have c: "indexByte kv colon = Some (length k)"
    using assms(1) indexByte_append [of colon "bytes_of k" "bytes_of v"] by (simp add: headerOk_def kv_def)
  have "parseHeaders data e acc = parseHeaders data (e + length kv + 1)
      (AList.update (str_of (take (length k) kv)) (str_of (drop (length k + 1) kv)) acc)"
    using ne by (subst parseHeaders.simps) (simp add: d indexByte_append [OF nl] c)
  then show ?thesis by (simp add: kv_def headerLine_def add.assoc)
qed

lemma parseHeaders_packMeta:
  assumes "list_all headerOk meta" and "drop e data = packMeta meta @ d"
    and "distinct (map fst acc @ map fst meta)"
  shows "parseHeaders data e acc = Some (e + length (packMeta meta), acc @ meta)"
  using assms
proof (induction meta arbitrary: e acc)
  case Nil
  then show ?case by (simp add: packMeta_def parseHeaders_end)
next
  case (Cons x meta)
  obtain k v where x: "x = (k, v)" by (cases x)
  have ok: "headerOk (k, v)" using Cons.prems(1) by (simp add: x)
  have dr: "drop e data = headerLine (k, v) @ packMeta meta @ d" using Cons.prems(2) by (simp add: packMeta_alt x)
  have dr': "drop (e + length (headerLine (k, v))) data = packMeta meta @ d"
    by (simp only: dr drop_drop [symmetric] add.commute [of e]) simp
  have up: "AList.update k v acc = acc @ [(k, v)]" using Cons.prems(3) by (intro update_new) (auto simp: x)
  show ?case
    using Cons.IH [OF _ dr', of "acc @ [(k, v)]"] Cons.prems(1,3)
    by (simp add: parseHeaders_line [OF ok dr] up x packMeta_alt)
qed

definition payload :: "string \<Rightarrow> meta \<Rightarrow> byte list \<Rightarrow> byte list" where
  "payload cmd meta data = bytes_of cmd @ [NL] @ packMeta meta @ data"

definition msgOk :: "string \<Rightarrow> meta \<Rightarrow> bool" where
  "msgOk cmd meta \<longleftrightarrow> NL \<notin> set (bytes_of cmd) \<and> list_all headerOk meta \<and> distinct (map fst meta)"

lemma parseMessage_payload:
  assumes "msgOk cmd meta"
  shows "ParseMessage (payload cmd meta data) t = Some (cmd, meta, if data = [] then None else Some data)"
proof -
  have nl: "NL \<notin> set (bytes_of cmd)" and h: "list_all headerOk meta" and d: "distinct (map fst [] @ map fst meta)"
    using assms by (simp_all add: msgOk_def)
  have i: "indexByte (payload cmd meta data) NL = Some (length cmd)"
    using indexByte_append [OF nl] by (simp add: payload_def)
  have dr: "drop (length cmd + 1) (payload cmd meta data) = packMeta meta @ data" by (simp add: payload_def)
  show ?thesis
    using parseHeaders_packMeta [OF h dr d] i by (simp add: ParseMessage_def) (simp add: payload_def)
qed

section \<open>Frames\<close>

definition plainRead :: "unixRead \<Rightarrow> bool" where
  "plainRead x \<longleftrightarrow> x_data x \<noteq> [] \<and> x_err x = None \<and> (case x_oob x of Some (Inl _) \<Rightarrow> False | _ \<Rightarrow> True)"

definition sameConn :: "udsConn \<Rightarrow> udsConn \<Rightarrow> bool" where
  "sameConn u v \<longleftrightarrow> u_Name v = u_Name u \<and> u_Handler v = u_Handler u \<and> u_closed v = u_closed u \<and> u_msg v = u_msg u
     \<and> u_out v = u_out u \<and> length (u_buffer v) = length (u_buffer u)"

lemma sameConn_trans: "sameConn u v \<Longrightarrow> sameConn v w \<Longrightarrow> sameConn u w"
  by (simp add: sameConn_def)

text \<open>The bytes that were received and not yet given out, and those still to come.\<close>

definition pending :: "udsConn \<Rightarrow> byte list" where
  "pending u = (if 0 < u_leftoverSize u \<and> 0 < u_off u then take (u_leftoverSize u) (drop (u_off u) (u_buffer u)) else [])
     @ unix_bytes (u_in u)"

definition wf_uds :: "udsConn \<Rightarrow> bool" where
  "wf_uds u \<longleftrightarrow> u_off u + u_leftoverSize u \<le> length (u_buffer u) \<and> list_all plainRead (u_in u)"

lemma uds_Read_plain:
  assumes "list_all plainRead (u_in u)" and "u_in u \<noteq> []" and "0 < n"
  shows "\<exists>bs u'. uds_Read n u = (bs, None, u') \<and> bs \<noteq> [] \<and> length bs \<le> n \<and> unix_bytes (u_in u) = bs @ unix_bytes (u_in u')
    \<and> list_all plainRead (u_in u') \<and> sameConn u u' \<and> u_buffer u' = u_buffer u"
proof -
  obtain x r where r: "u_in u = x # r" using assms(2) by (cases "u_in u") auto
  obtain y r' where y: "readMsgUnix n (u_in u) = (y, r')" by (cases "readMsgUnix n (u_in u)")
  have x: "plainRead x" "list_all plainRead r" using assms(1) by (simp_all add: r)
  have y': "x_data y \<noteq> []" "x_err y = None" "length (x_data y) \<le> n" "list_all plainRead r'" "plainRead y"
    using y x assms(3) by (auto simp: r plainRead_def split: if_splits)
  show ?thesis
    using y' readMsgUnix_bytes [OF y]
    by (auto simp: uds_Read_def Let_def y plainRead_def sameConn_def split: option.splits sum.splits list.splits)
qed

lemma length_udsFrame [simp]: "length (udsFrame d) = length d + 5"
  by (simp add: udsFrame_def)

lemma le32_head:
  assumes "udsFrame d @ rest = take e b @ rest2" and "5 \<le> e" and "e \<le> length b" and "length d < 2 ^ 32"
  shows "\<exists>w. le32_val (drop 1 b) = Some w \<and> unat w = length d \<and> b ! 0 = 0"
proof -
  have "b = take e b @ drop e b" by simp
  moreover have "take 5 (take e b @ rest2) = take 5 b" using assms(2,3) by (simp add: min_def)
  then have "take 5 b = 0 # le32_bytes (word_of_nat (length d))" using assms(1) by (simp add: udsFrame_def flip: assms(1))
  then have b: "b = (0 # le32_bytes (word_of_nat (length d))) @ drop 5 b" by (metis append_take_drop_id)
  have "le32_val (drop 1 b) = Some (word_of_nat (length d))" and "b ! 0 = 0"
    by (subst b, simp add: le32_roundtrip)+
  then show ?thesis using assms(4) by (simp add: unat_of_nat)
qed

lemma readHead_frame:
  assumes "take e b @ inp = udsFrame d @ rest" "e \<le> length b" "length d + 5 \<le> length b" "length d < 2 ^ 32" "d \<noteq> []"
  shows "readHead e b = Some (if e < length d + 5 then NeedMore else Full (length d))"
proof (cases "e < 5")
  case False
  then obtain w where "le32_val (drop 1 b) = Some w" "unat w = length d"
    using le32_head [OF assms(1) [symmetric] _ assms(2,4)] by auto
  then show ?thesis using False assms(3,5) by (simp add: readHead_def Let_def)
qed (simp add: readHead_def)

lemma buffered_frame:
  assumes eq: "take e b @ inp = udsFrame d @ rest" and e: "length d + 5 \<le> e" "e \<le> length b"
  shows "uint (b ! 0) = 0" "take (length d) (drop 5 b) = d" "take (e - (length d + 5)) (drop (length d + 5) b) @ inp = rest"
proof -
  have "take (length d + 5) (take e b @ inp) = udsFrame d" by (simp add: eq)
  then have "take (length d + 5) b = udsFrame d" using e by (simp add: min_def)
  then have b: "b = udsFrame d @ drop (length d + 5) b" by (metis append_take_drop_id)
  show "uint (b ! 0) = 0" "take (length d) (drop 5 b) = d"
    by (subst b, simp add: udsFrame_def)+
  have "drop (length d + 5) (take e b @ inp) = rest" by (simp add: eq)
  then show "take (e - (length d + 5)) (drop (length d + 5) b) @ inp = rest" using e by (simp add: drop_take)
qed

lemma nextMessageLoop_frame:
  assumes "take e (u_buffer u) @ unix_bytes (u_in u) = udsFrame d @ rest" and "e \<le> length (u_buffer u)"
    and "length d + 5 \<le> length (u_buffer u)" and "length d < 2 ^ 32" and "d \<noteq> []" and "list_all plainRead (u_in u)"
  shows "\<exists>u'. nextMessageLoop e u = Some ((0, Some d, None), u') \<and> pending u' = rest \<and> wf_uds u' \<and> sameConn u u'"
  using assms
proof (induction e u rule: nextMessageLoop.induct)
  case (1 e u)
  note eq = "1.prems"(1) and e = "1.prems"(2) and fits = "1.prems"(3) and len = "1.prems"(4) and ne = "1.prems"(5)
    and plain = "1.prems"(6)
  note head = readHead_frame [OF eq e fits len ne]
  show ?case
  proof (cases "e < length d + 5")
    case False
    then have h: "readHead e (u_buffer u) = Some (Full (length d))" using head by simp
    show ?thesis
      using h False e fits buffered_frame [OF eq _ e] plain
      by (subst nextMessageLoop.simps) (auto simp: pending_def wf_uds_def sameConn_def)
  next
    case True
    then have h: "readHead e (u_buffer u) = Some NeedMore" using head by simp
    have "length (take e (u_buffer u) @ unix_bytes (u_in u)) = length d + 5 + length rest" by (simp only: eq) simp
    then have "unix_bytes (u_in u) \<noteq> []" using True e by auto
    then have inp: "u_in u \<noteq> []" by (auto simp: unix_bytes_def)
    obtain bs u1 where r: "uds_Read (length (u_buffer u) - e) u = (bs, None, u1)" "bs \<noteq> []" "length bs \<le> length (u_buffer u) - e"
      "unix_bytes (u_in u) = bs @ unix_bytes (u_in u1)" "list_all plainRead (u_in u1)" "sameConn u u1" "u_buffer u1 = u_buffer u"
      using uds_Read_plain [OF plain inp, of "length (u_buffer u) - e"] True fits by auto
    define u2 where "u2 = u1\<lparr>u_buffer := overwrite (u_buffer u1) e bs\<rparr>"
    have step: "nextMessageLoop e u = nextMessageLoop (e + length bs) u2"
      using h e r(1,2) by (subst nextMessageLoop.simps) (simp add: u2_def)
    have lb: "length (u_buffer u2) = length (u_buffer u)" using e r(7) by (simp add: u2_def)
    have tk: "take (e + length bs) (u_buffer u2) = take e (u_buffer u) @ bs"
      using e r(3,7) by (simp add: u2_def take_overwrite_through)
    have rec: "\<exists>u'. nextMessageLoop (e + length bs) u2 = Some ((0, Some d, None), u') \<and> pending u' = rest \<and> wf_uds u' \<and> sameConn u2 u'"
    proof (rule "1.IH" [OF h refl _ r(1) [symmetric] refl refl u2_def refl r(2)])
      show "take (e + length bs) (u_buffer u2) @ unix_bytes (u_in u2) = udsFrame d @ rest"
        using eq r(4) by (simp add: tk) (simp add: u2_def)
    qed (use e r fits len ne lb in \<open>simp_all add: u2_def\<close>)
    have "sameConn u u2" using r(6) lb by (simp add: sameConn_def u2_def)
    then show ?thesis unfolding step using rec by (auto intro: sameConn_trans)
  qed
qed

text \<open>\<open>nextMessage\<close> gives the next frame, however the bytes are cut into reads, and keeps what follows.\<close>

lemma nextMessage_frame:
  assumes "pending u = udsFrame d @ rest" and "wf_uds u" and "d \<noteq> []"
    and "length d + 5 \<le> length (u_buffer u)" and "length (u_buffer u) < 2 ^ 32"
  shows "\<exists>u'. nextMessage u = Some ((0, Some d, None), u') \<and> pending u' = rest \<and> wf_uds u' \<and> sameConn u u'"
proof -
  have len: "length d < 2 ^ 32" using assms(4,5) by simp
  have pl: "list_all plainRead (u_in u)" and wf: "u_off u + u_leftoverSize u \<le> length (u_buffer u)"
    using assms(2) by (simp_all add: wf_uds_def)
  show ?thesis
  proof (cases "0 < u_leftoverSize u \<and> 0 < u_off u")
    case False
    then have nm: "nextMessage u = nextMessageLoop 0 u" and "unix_bytes (u_in u) = udsFrame d @ rest"
      using assms(1) by (auto simp: nextMessage_def pending_def split: if_splits)
    then show ?thesis unfolding nm using assms(3,4) len pl by (intro nextMessageLoop_frame) simp_all
  next
    case True
    define l where "l = take (u_leftoverSize u) (drop (u_off u) (u_buffer u))"
    define v where "v = u\<lparr>u_buffer := overwrite (u_buffer u) 0 l, u_leftoverSize := 0\<rparr>"
    have ll: "length l = u_leftoverSize u" using wf by (simp add: l_def)
    have nm: "nextMessage u = nextMessageLoop (u_leftoverSize u) v"
      using True wf by (simp add: nextMessage_def v_def l_def)
    have tk: "take (u_leftoverSize u) (u_buffer v) = l"
      using wf take_overwrite_through [of 0 l "u_buffer u"] ll by (simp add: v_def)
    have "\<exists>u'. nextMessageLoop (u_leftoverSize u) v = Some ((0, Some d, None), u') \<and> pending u' = rest \<and> wf_uds u' \<and> sameConn v u'"
      by (rule nextMessageLoop_frame) (use assms(1,3,4) True tk len pl wf in \<open>simp_all add: pending_def l_def v_def\<close>)
    moreover have "sameConn u v" using wf by (simp add: sameConn_def v_def)
    ultimately show ?thesis unfolding nm using sameConn_trans by blast
  qed
qed

section \<open>Round trip\<close>

text \<open>A receiver: the next message, parsed.\<close>

definition recvMessage :: "udsConn \<Rightarrow> ((string \<times> meta \<times> byte list option) \<times> udsConn) option" where
  "recvMessage u = do {
     ((t, data, err), u) \<leftarrow> nextMessage u;
     d \<leftarrow> data;
     r \<leftarrow> ParseMessage d t;
     Some (r, u) }"

fun recvMessages :: "nat \<Rightarrow> udsConn \<Rightarrow> ((string \<times> meta \<times> byte list option) list \<times> udsConn) option" where
  "recvMessages 0 u = Some ([], u)"
| "recvMessages (Suc n) u = do { (r, u) \<leftarrow> recvMessage u; (rs, u) \<leftarrow> recvMessages n u; Some (r # rs, u) }"

fun sendMessages :: "(string \<times> meta \<times> byte list) list \<Rightarrow> udsConn \<Rightarrow> udsConn" where
  "sendMessages [] u = u"
| "sendMessages ((cmd, meta, data) # ms) u = sendMessages ms (snd (SendMessageDirect cmd meta data u))"

lemma payload_ne [simp]: "payload cmd meta data \<noteq> []"
  by (simp add: payload_def)

lemma go_write_all: "w_next w = [] \<Longrightarrow> go_write bs w = (length bs, None, w\<lparr>w_out := w_out w @ bs\<rparr>)"
  by (simp add: go_write_def)

lemma sendMessageDirect_out:
  assumes "w_next (u_out u) = []"
  shows "SendMessageDirect cmd meta data u
    = (None, u\<lparr>u_out := (u_out u)\<lparr>w_out := w_out (u_out u) @ udsFrame (payload cmd meta data)\<rparr>\<rparr>)"
  by (simp add: SendMessageDirect_def uds_write_def SendFrameLenBinary_def go_write_all [OF assms] payload_def)

lemma sendMessages_out:
  assumes "w_next (u_out u) = []"
  shows "w_out (u_out (sendMessages ms u))
    = w_out (u_out u) @ concat (map (\<lambda>(cmd, meta, data). udsFrame (payload cmd meta data)) ms)"
  using assms
proof (induction ms arbitrary: u)
  case (Cons m ms)
  obtain cmd meta data where m: "m = (cmd, meta, data)" by (cases m)
  show ?case using Cons by (simp add: m sendMessageDirect_out)
qed simp

lemma recvMessage_payload:
  assumes "pending u = udsFrame (payload cmd meta data) @ rest" and "wf_uds u" and "msgOk cmd meta"
    and "length (payload cmd meta data) + 5 \<le> length (u_buffer u)" and "length (u_buffer u) < 2 ^ 32"
  shows "\<exists>u'. recvMessage u = Some ((cmd, meta, if data = [] then None else Some data), u')
    \<and> pending u' = rest \<and> wf_uds u' \<and> sameConn u u'"
  using nextMessage_frame [OF assms(1,2) payload_ne assms(4,5)] parseMessage_payload [OF assms(3)]
  by (auto simp: recvMessage_def)

lemma recvMessages_payloads:
  assumes "pending u = concat (map (\<lambda>(cmd, meta, data). udsFrame (payload cmd meta data)) ms) @ rest" and "wf_uds u"
    and "\<forall>(cmd, meta, data) \<in> set ms. msgOk cmd meta \<and> length (payload cmd meta data) + 5 \<le> length (u_buffer u)"
    and "length (u_buffer u) < 2 ^ 32"
  shows "\<exists>u'. recvMessages (length ms) u
      = Some (map (\<lambda>(cmd, meta, data). (cmd, meta, if data = [] then None else Some data)) ms, u') \<and> pending u' = rest"
  using assms
proof (induction ms arbitrary: u)
  case (Cons m ms)
  obtain cmd meta data where m: "m = (cmd, meta, data)" by (cases m)
  have p: "pending u = udsFrame (payload cmd meta data)
      @ concat (map (\<lambda>(cmd, meta, data). udsFrame (payload cmd meta data)) ms) @ rest"
    using Cons.prems(1) by (simp add: m)
  obtain u1 where u1: "recvMessage u = Some ((cmd, meta, if data = [] then None else Some data), u1)"
    "pending u1 = concat (map (\<lambda>(cmd, meta, data). udsFrame (payload cmd meta data)) ms) @ rest" "wf_uds u1" "sameConn u u1"
    using recvMessage_payload [OF p] Cons.prems(2,3,4) by (auto simp: m)
  have "\<exists>u'. recvMessages (length ms) u1
      = Some (map (\<lambda>(cmd, meta, data). (cmd, meta, if data = [] then None else Some data)) ms, u') \<and> pending u' = rest"
    using Cons.IH [OF u1(2,3)] Cons.prems(3,4) u1(4) by (simp add: sameConn_def)
  then show ?case using u1(1) by (auto simp: m)
qed simp

text \<open>C6: Messages that one side sends with \<open>SendMessageDirect\<close> are received by the other, with \<open>nextMessage\<close> and
  \<open>ParseMessage\<close>, in order and unchanged (data that is empty arrives as nil), however the kernel cuts the bytes
  into reads, and what follows them stays to be read. Commands have no newline, keys neither newline nor colon,
  values no newline, and every frame fits into the buffer of the receiver.\<close>

theorem uds_roundtrip:
  assumes "unix_bytes (u_in v) = w_out (u_out (sendMessages ms u)) @ rest" and "u_out u = \<lparr>w_out = [], w_next = []\<rparr>"
    and "wf_uds v" and "u_leftoverSize v = 0"
    and "\<forall>(cmd, meta, data) \<in> set ms. msgOk cmd meta \<and> length (payload cmd meta data) + 5 \<le> length (u_buffer v)"
    and "length (u_buffer v) < 2 ^ 32"
  shows "\<exists>v'. recvMessages (length ms) v
      = Some (map (\<lambda>(cmd, meta, data). (cmd, meta, if data = [] then None else Some data)) ms, v') \<and> pending v' = rest"
  by (rule recvMessages_payloads) (use assms sendMessages_out [of u ms] in \<open>simp_all add: pending_def\<close>)

theorem uds_roundtrip_witness:
  "let u = (newUdsConn ''s'' [] [] \<lparr>w_out = [], w_next = []\<rparr>)\<lparr>u_buffer := replicate 40 0\<rparr>;
       sent = w_out (u_out (sendMessages [('':open'', [(''a'', ''b'')], []), (''x/t'', [], [1, 2])] u));
       v = u\<lparr>u_in := [\<lparr>x_data = take 3 sent, x_oob = None, x_err = None\<rparr>,
                     \<lparr>x_data = drop 3 sent, x_oob = Some (Inr [ScmCredentials (Some (7, 8, 9))]), x_err = None\<rparr>]\<rparr>
   in \<exists>v'. recvMessages 2 v = Some ([('':open'', [(''a'', ''b'')], None), (''x/t'', [], Some [1, 2])], v')"
proof -
  define u where "u = (newUdsConn ''s'' [] [] \<lparr>w_out = [], w_next = []\<rparr>)\<lparr>u_buffer := replicate 40 0\<rparr>"
  define ms where "ms = [('':open'', [(''a'', ''b'')], [] :: byte list), (''x/t'', [], [1, 2])]"
  define sent where "sent = w_out (u_out (sendMessages ms u))"
  define v where "v = u\<lparr>u_in := [\<lparr>x_data = take 3 sent, x_oob = None, x_err = None\<rparr>,
                     \<lparr>x_data = drop 3 sent, x_oob = Some (Inr [ScmCredentials (Some (7, 8, 9))]), x_err = None\<rparr>]\<rparr>"
  have s: "sent = concat (map (\<lambda>(cmd, meta, data). udsFrame (payload cmd meta data)) ms)"
    using sendMessages_out [of u ms] by (simp add: sent_def u_def newUdsConn_def)
  have len: "3 < length sent" by (simp add: s ms_def)
  have "\<exists>v'. recvMessages (length ms) v
      = Some (map (\<lambda>(cmd, meta, data). (cmd, meta, if data = [] then None else Some data)) ms, v') \<and> pending v' = []"
  proof (rule uds_roundtrip [of v ms u])
    show "wf_uds v" using len by (auto simp: wf_uds_def v_def u_def newUdsConn_def plainRead_def)
    show "\<forall>(cmd, meta, data) \<in> set ms. msgOk cmd meta \<and> length (payload cmd meta data) + 5 \<le> length (u_buffer v)"
      by (simp add: ms_def v_def u_def msgOk_def headerOk_def payload_def packMeta_def)
  qed (simp_all add: v_def u_def newUdsConn_def unix_bytes_def sent_def)
  then show ?thesis
    unfolding Let_def u_def [symmetric] ms_def [symmetric] sent_def [symmetric] v_def [symmetric]
    by (auto simp: ms_def numeral_2_eq_2)
qed

section \<open>Parsing that does not end\<close>

lemma parseHeaders_lines:
  assumes "list_all headerOk meta" and "drop e data = concat (map headerLine meta) @ d"
  shows "\<exists>acc'. parseHeaders data e acc = parseHeaders data (e + length (concat (map headerLine meta))) acc'"
  using assms
proof (induction meta arbitrary: e acc)
  case (Cons x meta)
  obtain k v where x: "x = (k, v)" by (cases x)
  have ok: "headerOk (k, v)" using Cons.prems(1) by (simp add: x)
  have dr: "drop e data = headerLine (k, v) @ concat (map headerLine meta) @ d" using Cons.prems(2) by (simp add: x)
  have dr': "drop (e + length (headerLine (k, v))) data = concat (map headerLine meta) @ d"
    by (simp only: dr drop_drop [symmetric] add.commute [of e]) simp
  have "\<exists>acc'. parseHeaders data (e + length (headerLine (k, v))) (AList.update k v acc)
      = parseHeaders data (e + length (headerLine (k, v)) + length (concat (map headerLine meta))) acc'"
    using Cons.IH [OF _ dr'] Cons.prems(1) by simp
  then show ?case by (simp add: parseHeaders_line [OF ok dr] x add.assoc)
qed auto

lemma parseHeaders_stuck:
  assumes "line \<noteq> []" and "NL \<notin> set line" and "colon \<notin> set line"
  shows "drop e data = line @ NL # d \<Longrightarrow> parseHeaders data e acc = None"
proof (rule ccontr)
  assume dr: "drop e data = line @ NL # d" and "parseHeaders data e acc \<noteq> None"
  then obtain r where ret: "parseHeaders data e acc = Some r" by auto
  have "drop e data \<noteq> line @ NL # d"
  proof (induction rule: parseHeaders.raw_induct [OF _ ret])
    case (1 f data e acc r)
    then show ?case
      using assms indexByte_append [OF assms(2), of d] indexByte_None [of line colon]
      by (auto simp: Let_def split: option.splits if_splits)
  qed
  then show False using dr by simp
qed

text \<open>C29: \<open>ParseMessage\<close> does not return for a message that has a non-empty header line without a colon: the loop
  continues without moving on. A peer can stop the receiving goroutine with it.\<close>

theorem parseMessage_hangs:
  assumes "NL \<notin> set cmd" and "list_all headerOk meta" and "line \<noteq> []" and "NL \<notin> set line" and "colon \<notin> set line"
  shows "ParseMessage (cmd @ [NL] @ concat (map headerLine meta) @ line @ [NL] @ d) t = None"
proof -
  define data where "data = cmd @ [NL] @ concat (map headerLine meta) @ line @ [NL] @ d"
  have i: "indexByte data NL = Some (length cmd)" using indexByte_append [OF assms(1)] by (simp add: data_def)
  have dr: "drop (length cmd + 1) data = concat (map headerLine meta) @ line @ NL # d" by (simp add: data_def)
  obtain acc where acc: "parseHeaders data (length cmd + 1) []
      = parseHeaders data (length cmd + 1 + length (concat (map headerLine meta))) acc"
    using parseHeaders_lines [OF assms(2) dr] by blast
  have "drop (length (concat (map headerLine meta))) (drop (length cmd + 1) data) = line @ NL # d"
    by (simp only: dr) simp
  then have "drop (length cmd + 1 + length (concat (map headerLine meta))) data = line @ NL # d"
    by (simp only: drop_drop add.commute)
  then have "parseHeaders data (length cmd + 1) [] = None" using acc parseHeaders_stuck [OF assms(3,4,5)] by simp
  then show ?thesis unfolding data_def [symmetric] by (simp add: ParseMessage_def i)
qed

theorem parseMessage_hangs_witness: "ParseMessage (bytes_of ''x'' @ [NL] @ bytes_of ''abc'' @ [NL]) 0 = None"
  using parseMessage_hangs [of "bytes_of ''x''" "[]" "bytes_of ''abc''" "[]" 0] by simp

section \<open>Dispatch\<close>

definition udsMsg :: "string \<Rightarrow> string \<times> meta \<times> byte list \<Rightarrow> message" where
  "udsMsg name x = (case x of (cmd, meta, data) \<Rightarrow>
     \<lparr>Id = [], To = cmd, Meta = meta, From = name, Time = 0, Data = (if data = [] then NoData else DataString (str_of data))\<rparr>)"

definition udsFrames :: "(string \<times> meta \<times> byte list) list \<Rightarrow> byte list" where
  "udsFrames ms = concat (map (\<lambda>(cmd, meta, data). udsFrame (payload cmd meta data)) ms)"

definition fits :: "udsConn \<Rightarrow> string \<times> meta \<times> byte list \<Rightarrow> bool" where
  "fits u x = (case x of (cmd, meta, data) \<Rightarrow> msgOk cmd meta \<and> length (payload cmd meta data) + 5 \<le> length (u_buffer u))"

lemma nextMessage_end:
  assumes "pending u = []" and "wf_uds u"
  shows "\<exists>u'. nextMessage u = Some ((0, None, Some EOF), u') \<and> u_Name u' = u_Name u \<and> u_out u' = u_out u"
proof -
  have nl: "\<not> (0 < u_leftoverSize u \<and> 0 < u_off u)" using assms by (auto simp: pending_def wf_uds_def split: if_splits)
  have inp: "u_in u = []"
    using assms nl by (cases "u_in u") (auto simp: pending_def wf_uds_def unix_bytes_def plainRead_def split: if_splits)
  have "readHead 0 (u_buffer u) = Some NeedMore" by (simp add: readHead_def)
  then show ?thesis
    using nl by (auto simp: nextMessage_def nextMessageLoop.simps [of 0] uds_Read_def inp)
qed

text \<open>The messages, handed over one after the other.\<close>

fun dispatchAll :: "(message \<Rightarrow> 'h \<Rightarrow> 'h option) \<Rightarrow> message list \<Rightarrow> 'h \<Rightarrow> 'h option" where
  "dispatchAll dispatch [] h = Some h"
| "dispatchAll dispatch (msg # ms) h = do { h \<leftarrow> dispatch msg h; dispatchAll dispatch ms h }"

lemma streamLoop_dispatch:
  assumes "pending u = udsFrames ms" and "wf_uds u" and "list_all (fits u) ms" and "length (u_buffer u) < 2 ^ 32"
    and "\<not> u_closed u" and "u_Handler u = None" and "dispatchAll dispatch (map (udsMsg (u_Name u)) ms) h = Some h'"
  shows "\<exists>u'. u_Name u' = u_Name u \<and> u_out u' = u_out u \<and> streamLoop dispatch u m h = Some (u', m, h')"
  using assms
proof (induction ms arbitrary: u h)
  case Nil
  then obtain u' where "nextMessage u = Some ((0, None, Some EOF), u')" "u_Name u' = u_Name u" "u_out u' = u_out u"
    using nextMessage_end [of u] by (auto simp: udsFrames_def)
  then show ?case using Nil.prems(5,7) by (auto simp: streamLoop.simps [of dispatch u])
next
  case (Cons x ms)
  obtain cmd meta data where x: "x = (cmd, meta, data)" by (cases x)
  have p: "pending u = udsFrame (payload cmd meta data) @ udsFrames ms" using Cons.prems(1) by (simp add: udsFrames_def x)
  have ok: "msgOk cmd meta" "length (payload cmd meta data) + 5 \<le> length (u_buffer u)"
    using Cons.prems(3) by (simp_all add: fits_def x)
  obtain u1 where u1: "nextMessage u = Some ((0, Some (payload cmd meta data), None), u1)" "pending u1 = udsFrames ms"
    "wf_uds u1" "sameConn u u1"
    using nextMessage_frame [OF p Cons.prems(2) payload_ne ok(2) Cons.prems(4)] by blast
  have s: "u_Name u1 = u_Name u" "u_Handler u1 = None" "\<not> u_closed u1" "length (u_buffer u1) = length (u_buffer u)" "u_out u1 = u_out u"
    using u1(4) Cons.prems(5,6) by (simp_all add: sameConn_def)
  have ft: "list_all (fits u1) ms" using Cons.prems(3) s(4) by (simp add: fits_def list_all_iff)
  obtain h1 where h1: "dispatch (udsMsg (u_Name u) x) h = Some h1" "dispatchAll dispatch (map (udsMsg (u_Name u1)) ms) h1 = Some h'"
    using Cons.prems(7) s(1) by (auto simp: bind_eq_Some_conv)
  have msg: "\<lparr>Id = [], To = cmd, Meta = meta, From = u_Name u, Time = 0,
      Data = (case (if data = [] then None else Some data) of
        Some p \<Rightarrow> if p \<noteq> [] then DataString (str_of p) else NoData | None \<Rightarrow> NoData)\<rparr> = udsMsg (u_Name u) x"
    by (simp add: udsMsg_def x)
  have step: "streamLoop dispatch u m h = streamLoop dispatch u1 m h1"
    using Cons.prems(5) u1(1) s parseMessage_payload [OF ok(1), of data]
    by (subst streamLoop.simps) (simp add: msg h1(1))
  show ?case using Cons.IH [OF u1(2,3) ft _ s(3,2) h1(2)] s(1,4,5) Cons.prems(4) by (auto simp: step)
qed

lemma uds_write_simps [simp]:
  "u_in (snd (uds_write ds u)) = u_in u" "u_buffer (snd (uds_write ds u)) = u_buffer u" "u_off (snd (uds_write ds u)) = u_off u"
  "u_leftoverSize (snd (uds_write ds u)) = u_leftoverSize u" "u_Name (snd (uds_write ds u)) = u_Name u"
  "u_Handler (snd (uds_write ds u)) = u_Handler u" "u_closed (snd (uds_write ds u)) = u_closed u"
  by (simp_all add: uds_write_def SendFrameLenBinary_def split: prod.splits option.splits)

text \<open>The outcome of the group check, and the name under which the connection goes on: the credentials of the peer when the check passes, and the
  name that \<open>accept\<close> gave it, the name of the server, when it does not.\<close>

definition gidOk :: "udsServer \<Rightarrow> udsConn \<Rightarrow> bool" where
  "gidOk s u \<longleftrightarrow> s_Gid s = -1 \<or> word_of_int (s_Gid s) = u_Gid u"

definition connName :: "udsServer \<Rightarrow> int \<Rightarrow> udsConn \<Rightarrow> string" where
  "connName s cnt u = (if gidOk s u then ''udss:'' @ itoa (uint (u_Uid u)) @ '':'' @ itoa (u_Pid u) @ '':'' @ itoa cnt else u_Name u)"

lemma serverHandshake_continues:
  assumes "pending u = udsFrame d @ rest" and "wf_uds u" and "d \<noteq> []" and "length d + 5 \<le> length (u_buffer u)"
    and "length (u_buffer u) < 2 ^ 32" and "w_next (u_out u) = []" and "nextMessage u = Some (r, u1)"
  shows "\<exists>err v. serverHandshake s cnt u = Some (err, v, if gidOk s u1 then cnt + 1 else cnt)
    \<and> (err = None \<longleftrightarrow> gidOk s u1) \<and> u_Name v = connName s cnt u1
    \<and> w_out (u_out v) = w_out (u_out u) @ (if gidOk s u1 then udsFrame (payload ''ok'' [] []) else [])
    \<and> pending v = rest \<and> wf_uds v \<and> u_closed v = u_closed u \<and> u_Handler v = u_Handler u \<and> length (u_buffer v) = length (u_buffer u)"
proof -
  have u1: "nextMessage u = Some ((0, Some d, None), u1)" "pending u1 = rest" "wf_uds u1" "sameConn u u1"
    using nextMessage_frame [OF assms(1-5)] assms(7) by auto
  define v where "v = (if gidOk s u1 then snd (SendMessageDirect ''ok'' [] [] (u1\<lparr>u_Name := connName s cnt u1\<rparr>)) else u1)"
  have "serverHandshake s cnt u = Some (if gidOk s u1 then None else Some (ErrMsg ''Invalid GID''), v, if gidOk s u1 then cnt + 1 else cnt)"
    by (auto simp: serverHandshake_def u1(1) v_def gidOk_def connName_def Let_def case_prod_beta)
  moreover have "w_out (u_out v) = w_out (u_out u) @ (if gidOk s u1 then udsFrame (payload ''ok'' [] []) else [])"
    using u1(4) assms(6) sendMessageDirect_out [of "u1\<lparr>u_Name := connName s cnt u1\<rparr>"] by (simp add: v_def sameConn_def)
  moreover have "u_Name v = connName s cnt u1" "pending v = rest" "wf_uds v" "u_closed v = u_closed u" "u_Handler v = u_Handler u"
    "length (u_buffer v) = length (u_buffer u)"
    using u1(2-4) by (auto simp: v_def connName_def SendMessageDirect_def pending_def wf_uds_def sameConn_def)
  ultimately show ?thesis by auto
qed

text \<open>C28: \<open>serverStream\<close> on a connection that brings a first frame and then messages, up to the end of the stream. Every message is handed to the
  node in order, with the name of the connection as its origin, whatever the outcome of the group check: \<open>serverStream\<close> drops the error. The check
  decides the rest: when it passes, the connection is named after the credentials that came with the first frame, the counter of names advances and \<open>ok\<close>
  is sent back; when it fails, the connection keeps the name of the server and nothing is sent back. The handlers of \<open>/open\<close> and \<open>/close\<close> are told that name,
  nothing is forwarded, and in the end the socket is closed and nothing is registered under the name. How the node handles a message is a parameter.\<close>

theorem serverStream_dispatches:
  assumes "pending u = udsFrame d @ udsFrames ms" and "wf_uds u" and "d \<noteq> []" and "length d + 5 \<le> length (u_buffer u)"
    and "list_all (fits u) ms" and "length (u_buffer u) < 2 ^ 32"
    and "\<not> u_closed u" and "u_Handler u = None" and "w_next (u_out u) = []"
    and "nextMessage u = Some (r, u1)" and "cid = connName s cnt u1"
    and "dispatchAll dispatch (map (udsMsg cid) ms) h = Some h'"
  shows "\<exists>u' m'. serverStream dispatch s cnt u m h = Some (u', m', h', if gidOk s u1 then cnt + 1 else cnt) \<and> u_conClosed u'
    \<and> w_out (u_out u') = w_out (u_out u) @ (if gidOk s u1 then udsFrame (payload ''ok'' [] []) else [])
    \<and> calls m' = calls m @ notifyCalls ''/open'' cid m @ notifyCalls ''/close'' cid m
    \<and> sends m' = sends m \<and> map_of (connections m') cid = None"
proof -
  obtain err v where v: "serverHandshake s cnt u = Some (err, v, if gidOk s u1 then cnt + 1 else cnt)" "u_Name v = cid"
    "w_out (u_out v) = w_out (u_out u) @ (if gidOk s u1 then udsFrame (payload ''ok'' [] []) else [])"
    "pending v = udsFrames ms" "wf_uds v" "\<not> u_closed v" "u_Handler v = None" "length (u_buffer v) = length (u_buffer u)"
    using serverHandshake_continues [OF assms(1-4,6,9,10), of s cnt] assms(7,8,11) by auto
  define w where "w = v\<lparr>u_msg := (u_msg v)\<lparr>mc_Subs := Some udsSubscriptions, mc_Name := u_Name v, mc_gate := True\<rparr>\<rparr>"
  define m1 where "m1 = AddConnection cid (u_msg w) m"
  have pw: "pending w = pending v" "u_Name w = cid" "u_out w = u_out v" by (simp_all add: pending_def w_def v(2))
  have w: "pending w = udsFrames ms" "wf_uds w" "list_all (fits w) ms" "length (u_buffer w) < 2 ^ 32" "\<not> u_closed w" "u_Handler w = None"
    using v(4-8) assms(5,6) by (simp_all add: pw wf_uds_def fits_def list_all_iff) (simp_all add: w_def)
  obtain w' where w': "u_Name w' = cid" "u_out w' = u_out v" "streamLoop dispatch w m1 h = Some (w', m1, h')"
    using streamLoop_dispatch [OF w, of dispatch h h' m1] assms(12) by (auto simp: pw)
  have "streamCommon dispatch v m h = Some (w'\<lparr>u_conClosed := True\<rparr>, RemoveConnection cid m1, h')"
    unfolding streamCommon_def w_def [symmetric] Let_def pw m1_def [symmetric] by (simp add: w')
  then have "serverStream dispatch s cnt u m h
      = Some (w'\<lparr>u_conClosed := True\<rparr>, RemoveConnection cid m1, h', if gidOk s u1 then cnt + 1 else cnt)"
    by (simp add: serverStream_def v(1))
  moreover have "calls (RemoveConnection cid m1) = calls m @ notifyCalls ''/open'' cid m @ notifyCalls ''/close'' cid m"
    using same_handlers [of m1 m "''/close''" cid] by (simp add: connection_frame m1_def)
  ultimately show ?thesis by (simp add: removeConnection_lookup connection_frame m1_def w'(2) v(3))
qed

text \<open>The witness: a client of group 9 on a server for group 1000. Its message reaches the node under the name of the server.\<close>

theorem serverStream_dispatches_witness:
  "let d = udsFrame (payload '':open'' [] []) @ udsFrame (payload ''x/t'' [] [65]);
       u = (newUdsConn ''s'' [] [\<lparr>x_data = d, x_oob = Some (Inr [ScmCredentials (Some (7, 8, 9))]), x_err = None\<rparr>]
              \<lparr>w_out = [], w_next = []\<rparr>)\<lparr>u_buffer := replicate 40 0\<rparr>
   in \<exists>u' m' c. serverStream (\<lambda>msg h. Some (h @ [msg])) \<lparr>s_Name = ''s'', s_Gid = 1000\<rparr> 0 u NewMux [] = Some (u', m', [udsMsg ''s'' (''x/t'', [], [65])], c)
        \<and> w_out (u_out u') = []"
proof -
  define d where "d = udsFrame (payload '':open'' [] []) @ udsFrame (payload ''x/t'' [] [65])"
  define u where "u = (newUdsConn ''s'' [] [\<lparr>x_data = d, x_oob = Some (Inr [ScmCredentials (Some (7, 8, 9))]), x_err = None\<rparr>]
      \<lparr>w_out = [], w_next = []\<rparr>)\<lparr>u_buffer := replicate 40 0\<rparr>"
  define s where "s = \<lparr>s_Name = ''s'', s_Gid = 1000\<rparr>"
  have pre: "pending u = udsFrame (payload '':open'' [] []) @ udsFrames [(''x/t'', [], [65])]" "wf_uds u" "payload '':open'' [] [] \<noteq> []"
    "length (payload '':open'' [] []) + 5 \<le> length (u_buffer u)" "list_all (fits u) [(''x/t'', [], [65])]" "length (u_buffer u) < 2 ^ 32"
    "\<not> u_closed u" "u_Handler u = None" "w_next (u_out u) = []"
    by (auto simp: d_def u_def newUdsConn_def pending_def unix_bytes_def udsFrames_def wf_uds_def plainRead_def udsFrame_def
        fits_def msgOk_def payload_def packMeta_def)
  obtain r u1 where n: "nextMessage u = Some (r, u1)" using nextMessage_frame [OF pre(1-4,6)] by blast
  have "map_option (\<lambda>(r, u1). (u_Gid u1, u_Name u1)) (nextMessage u) = Some (9, ''s'')" unfolding u_def d_def by code_simp
  then have g: "u_Gid u1 = 9" "u_Name u1 = ''s''" by (simp_all add: n)
  then have c: "''s'' = connName s 0 u1" "\<not> gidOk s u1" by (simp_all add: connName_def gidOk_def s_def)
  have "dispatchAll (\<lambda>msg h. Some (h @ [msg])) (map (udsMsg ''s'') [(''x/t'', [], [65])]) [] = Some [udsMsg ''s'' (''x/t'', [], [65])]" by simp
  from serverStream_dispatches [OF pre n c(1) this, of NewMux] c(2)
  show ?thesis unfolding Let_def d_def [symmetric] u_def [symmetric] s_def [symmetric] by (auto simp: u_def newUdsConn_def)
qed

end
