(* ===== verification/Udp_Oob.thy ===== *)
theory Udp_Oob
  imports Go_Prelude
begin

text \<open>
  \<^verbatim>\<open>src/pkg/udp/conn_oob.go\<close> and the readers of \<^verbatim>\<open>src/pkg/udp/tproxy_udp.go\<close>: control messages of UDP packets, that
  is the ECN bits, the local address of a packet and its original destination.

  Addresses are byte lists of length 4 or 16 as \<open>net.IP\<close>. The layout is that of linux/amd64: a \<open>Cmsghdr\<close> is the
  length (64 bits), the level and the type (32 bits each), in little-endian order. \<open>None\<close> is a panic.
\<close>

section \<open>Control messages\<close>

text \<open>The constants of the system headers.\<close>

abbreviation IPPROTO_IP :: u32 where "IPPROTO_IP \<equiv> 0"
abbreviation IPPROTO_TCP :: u32 where "IPPROTO_TCP \<equiv> 6"
abbreviation IPPROTO_IPV6 :: u32 where "IPPROTO_IPV6 \<equiv> 41"
abbreviation IP_TOS :: u32 where "IP_TOS \<equiv> 1"
abbreviation IP_PKTINFO :: u32 where "IP_PKTINFO \<equiv> 8"
abbreviation IP_RECVORIGDSTADDR :: u32 where "IP_RECVORIGDSTADDR \<equiv> 20"
abbreviation IPV6_PKTINFO :: u32 where "IPV6_PKTINFO \<equiv> 50"
abbreviation IPV6_TCLASS :: u32 where "IPV6_TCLASS \<equiv> 67"
abbreviation IPV6_ORIGDSTADDR :: u32 where "IPV6_ORIGDSTADDR \<equiv> 74"
abbreviation AF_INET :: u16 where "AF_INET \<equiv> 2"
abbreviation AF_INET6 :: u16 where "AF_INET6 \<equiv> 10"
abbreviation EINVAL :: goerr where "EINVAL \<equiv> ErrMsg ''invalid argument''"

definition cmsgAlign :: "nat \<Rightarrow> nat" where
  "cmsgAlign salen = (let sizeOfPtr = 8 in (salen + sizeOfPtr - 1) div sizeOfPtr * sizeOfPtr)"

definition sizeofCmsghdr :: nat where
  "sizeofCmsghdr = 16"

definition cmsgLen :: "nat \<Rightarrow> nat" where
  "cmsgLen datalen = cmsgAlign sizeofCmsghdr + datalen"

record ctrlMsg =
  c_Level :: u32
  c_Type :: u32
  c_Data :: "byte list"

definition le64_bytes :: "u64 \<Rightarrow> byte list" where
  "le64_bytes v = le32_bytes (ucast v) @ le32_bytes (ucast (drop_bit 32 v))"

definition le64_val :: "byte list \<Rightarrow> nat option" where
  "le64_val bs = do {
     lo \<leftarrow> le32_val bs;
     hi \<leftarrow> le32_val (drop 4 bs);
     Some (unat lo + 2 ^ 32 * unat hi) }"

text \<open>The header and data of a message, at the start of the bytes.\<close>

definition putCmsg :: "u32 \<Rightarrow> u32 \<Rightarrow> byte list \<Rightarrow> byte list" where
  "putCmsg level typ data = le64_bytes (word_of_nat (cmsgLen (length data))) @ le32_bytes level @ le32_bytes typ @ data"

text \<open>\<open>ParseSocketControlMessage\<close> of the system library.\<close>

function ParseSocketControlMessage :: "byte list \<Rightarrow> goerr + ctrlMsg list" where
  "ParseSocketControlMessage b =
     (if length b < cmsgLen 0 then Inr []
      else case (le64_val b, le32_val (drop 8 b), le32_val (drop 12 b)) of
          (Some len, Some level, Some typ) \<Rightarrow>
            if len < sizeofCmsghdr \<or> length b < len then Inl EINVAL
            else (case ParseSocketControlMessage (drop (cmsgAlign len) b) of
                Inl e \<Rightarrow> Inl e
              | Inr ms \<Rightarrow> Inr (\<lparr>c_Level = level, c_Type = typ, c_Data = drop (cmsgLen 0) (take len b)\<rparr> # ms))
        | _ \<Rightarrow> Inl EINVAL)"
  by pat_completeness auto
termination
  by (relation "measure length") (auto simp: cmsgLen_def cmsgAlign_def sizeofCmsghdr_def)

declare ParseSocketControlMessage.simps [simp del]

section \<open>Packet info\<close>

record packetInfo =
  pi_addr :: "byte list"
  pi_ifIndex :: u32

text \<open>\<open>net.IP.To4\<close>.\<close>

definition To4 :: "byte list \<Rightarrow> byte list option" where
  "To4 ip = (if length ip = 4 then Some ip
     else if length ip = 16 \<and> take 12 ip = replicate 10 0 @ [0xFF, 0xFF] then Some (drop 12 ip) else None)"

text \<open>\<open>packetInfo.OOB\<close> on Linux: for IPv4, the index is followed by the address, and the last four bytes stay
  zero.\<close>

definition OOB :: "packetInfo option \<Rightarrow> byte list option" where
  "OOB info = (case info of None \<Rightarrow> None
     | Some i \<Rightarrow>
         (case To4 (pi_addr i) of
            Some ip4 \<Rightarrow> Some (putCmsg IPPROTO_TCP IP_PKTINFO (le32_bytes (pi_ifIndex i) @ ip4 @ replicate 4 0))
          | None \<Rightarrow>
              if length (pi_addr i) = 16
              then Some (putCmsg IPPROTO_IPV6 IPV6_PKTINFO (pi_addr i @ le32_bytes (pi_ifIndex i)))
              else None))"

definition ecnMask :: byte where
  "ecnMask = 3"

text \<open>The loop of \<open>ReadPacket\<close> over the control messages: ECN bits, destination and interface.\<close>

definition pktCtrl :: "ctrlMsg \<Rightarrow> byte \<times> byte list option \<times> u32 \<Rightarrow> (byte \<times> byte list option \<times> u32) option" where
  "pktCtrl m s = (case s of (ecn, destIP, ifIndex) \<Rightarrow>
     if c_Level m = IPPROTO_IP then
       if c_Type m = IP_TOS then (case c_Data m of [] \<Rightarrow> None | b # _ \<Rightarrow> Some (b AND ecnMask, destIP, ifIndex))
       else if c_Type m = IP_PKTINFO then
         if length (c_Data m) = 12 then
           (case le32_val (c_Data m) of None \<Rightarrow> None | Some i \<Rightarrow> Some (ecn, Some (take 4 (drop 8 (c_Data m))), i))
         else if length (c_Data m) = 4 then Some (ecn, Some (c_Data m), ifIndex)
         else Some s
       else Some s
     else if c_Level m = IPPROTO_IPV6 then
       if c_Type m = IPV6_TCLASS then (case c_Data m of [] \<Rightarrow> None | b # _ \<Rightarrow> Some (b AND ecnMask, destIP, ifIndex))
       else if c_Type m = IPV6_PKTINFO then
         if length (c_Data m) = 20 then
           (case le32_val (drop 16 (c_Data m)) of None \<Rightarrow> None | Some i \<Rightarrow> Some (ecn, Some (take 16 (c_Data m)), i))
         else Some s
       else Some s
     else Some s)"

fun pktCtrls :: "ctrlMsg list \<Rightarrow> byte \<times> byte list option \<times> u32 \<Rightarrow> (byte \<times> byte list option \<times> u32) option" where
  "pktCtrls [] s = Some s"
| "pktCtrls (m # ms) s = do { s \<leftarrow> pktCtrl m s; pktCtrls ms s }"

record receivedPacket =
  r_remoteAddr :: "byte list \<times> int"
  r_data :: "byte list"
  r_ecn :: byte
  r_info :: "packetInfo option"

definition MaxPacketBufferSize :: nat where
  "MaxPacketBufferSize = 9000"

text \<open>\<open>ReadPacket\<close>: \<open>rd\<close> is the outcome of \<open>ReadMsgUDP\<close> (data, control bytes and address). The packet is cut to the
  capacity of the buffer, which is at least \<open>MaxPacketBufferSize\<close>.\<close>

definition ReadPacket :: "nat \<Rightarrow> goerr + (byte list \<times> byte list \<times> (byte list \<times> int)) \<Rightarrow> (goerr + receivedPacket) option" where
  "ReadPacket bufcap rd = (case rd of Inl e \<Rightarrow> Some (Inl e)
     | Inr (bytes, oob, addr) \<Rightarrow>
         (case ParseSocketControlMessage (take 128 oob) of
            Inl e \<Rightarrow> Some (Inl e)
          | Inr ms \<Rightarrow> do {
              (ecn, destIP, ifIndex) \<leftarrow> pktCtrls ms (0, None, 0);
              Some (Inr \<lparr>r_remoteAddr = addr, r_data = take bufcap bytes, r_ecn = ecn,
                r_info = (case destIP of None \<Rightarrow> None | Some ip \<Rightarrow> Some \<lparr>pi_addr = ip, pi_ifIndex = ifIndex\<rparr>)\<rparr>) }))"

section \<open>Socket setup\<close>

text \<open>\<open>SetReceiveBuffer\<close>: \<open>sizes\<close> are the results of reading the buffer size before and after it is set, \<open>set\<close> the
  outcome of setting it.\<close>

definition SetReceiveBuffer :: "bool \<Rightarrow> goerr + int \<Rightarrow> goerr option \<Rightarrow> goerr + int \<Rightarrow> int \<Rightarrow> goerr option" where
  "SetReceiveBuffer canSet size1 setErr size2 minSize =
     (if \<not> canSet then Some (ErrMsg ''connection doesn't allow setting of receive buffer size. Not a *net.UDPConn?'')
      else case size1 of
          Inl e \<Rightarrow> Some (ErrMsg (''failed to determine receive buffer size: '' @ err_string e))
        | Inr sz \<Rightarrow>
            if sz \<ge> minSize then None
            else case setErr of
                Some e \<Rightarrow> Some (ErrMsg (''failed to increase receive buffer size: '' @ err_string e))
              | None \<Rightarrow>
                  (case size2 of
                     Inl e \<Rightarrow> Some (ErrMsg (''failed to determine receive buffer size: '' @ err_string e))
                   | Inr newSize \<Rightarrow>
                       if newSize = sz then Some (ErrMsg ''failed to increase receive buffer size'')
                       else if newSize < minSize then Some (ErrMsg ''failed to sufficiently increase receive buffer size'')
                       else None))"

text \<open>\<open>newConn\<close>: the outcomes of the socket options for ECN and, when the local address is unspecified, packet info.\<close>

definition newConn :: "goerr option \<Rightarrow> bool \<Rightarrow> goerr option \<Rightarrow> bool \<Rightarrow> bool \<Rightarrow> bool \<Rightarrow> bool \<Rightarrow> goerr + nat" where
  "newConn rawErr unspecified ctlErr ecn4 ecn6 pi4 pi6 =
     (case rawErr of Some e \<Rightarrow> Inl e
      | None \<Rightarrow>
          (case ctlErr of Some e \<Rightarrow> Inl e
           | None \<Rightarrow>
               if \<not> ecn4 \<and> \<not> ecn6 then Inl (ErrMsg ''activating ECN failed for both IPv4 and IPv6'')
               else if unspecified \<and> \<not> pi4 \<and> \<not> pi6 then Inl (ErrMsg ''activating packet info failed for both IPv4 and IPv6'')
               else Inr 128))"

section \<open>Original destination\<close>

text \<open>\<open>net.IPv4\<close>: the 16-byte form.\<close>

definition IPv4 :: "byte list \<Rightarrow> byte list" where
  "IPv4 a = replicate 10 0 @ [0xFF, 0xFF] @ take 4 a"

text \<open>The loop of \<open>ReadFromUDP\<close> (tproxy) over the control messages. For IPv6 the address is copied into a fresh
  array of 16 bytes; for IPv4 the data is read into a \<open>RawSockaddrInet4\<close> of 16 bytes. When that holds the family of
  IPv6, the code reads it as the longer \<open>RawSockaddrInet6\<close>: \<open>mem\<close> are the bytes of memory behind it.\<close>

definition origDst :: "byte list \<Rightarrow> ctrlMsg \<Rightarrow> (byte list \<times> int) option \<Rightarrow> (goerr + (byte list \<times> int) option) option" where
  "origDst mem m dst =
     (if c_Level m = IPPROTO_IPV6 \<and> c_Type m = IPV6_ORIGDSTADDR then
        if length (c_Data m) < 8 then None
        else Some (Inr (Some (take 16 (drop 8 (c_Data m) @ replicate 16 0),
               int (be16 (c_Data m ! 2) (c_Data m ! 3)))))
      else if c_Level m = IPPROTO_IP \<and> c_Type m = IP_RECVORIGDSTADDR then
        if length (c_Data m) < 16 then Some (Inl (ErrMsg ''reading original destination address''))
        else (let fam = be16 (c_Data m ! 1) (c_Data m ! 0); port = int (be16 (c_Data m ! 2) (c_Data m ! 3)) in
          if fam = unat AF_INET then Some (Inr (Some (IPv4 (drop 4 (c_Data m)), port)))
          else if fam = unat AF_INET6 then Some (Inr (Some (take 16 (drop 8 (take 16 (c_Data m)) @ mem), port)))
          else Some (Inl (ErrMsg ''original destination is an unsupported network family'')))
      else Some (Inr dst))"

fun origDsts :: "byte list \<Rightarrow> ctrlMsg list \<Rightarrow> (byte list \<times> int) option \<Rightarrow> (goerr + (byte list \<times> int) option) option" where
  "origDsts mem [] dst = Some (Inr dst)"
| "origDsts mem (m # ms) dst = do {
     r \<leftarrow> origDst mem m dst;
     case r of Inl e \<Rightarrow> Some (Inl e) | Inr dst \<Rightarrow> origDsts mem ms dst }"

definition tproxy_ReadFromUDP :: "byte list \<Rightarrow> nat \<Rightarrow> goerr + (byte list \<times> byte list \<times> (byte list \<times> int))
    \<Rightarrow> (goerr + (byte list \<times> (byte list \<times> int) \<times> (byte list \<times> int))) option" where
  "tproxy_ReadFromUDP mem n rd = (case rd of Inl e \<Rightarrow> Some (Inl e)
     | Inr (b, oob, addr) \<Rightarrow>
         (case ParseSocketControlMessage (take 2048 oob) of
            Inl e \<Rightarrow> Some (Inl (ErrMsg (''parsing socket control message: '' @ err_string e)))
          | Inr ms \<Rightarrow> do {
              r \<leftarrow> origDsts mem ms None;
              Some (case r of Inl e \<Rightarrow> Inl e
                | Inr None \<Rightarrow> Inl (ErrMsg ''unable to obtain original destination'')
                | Inr (Some dst) \<Rightarrow> Inr (take n b, addr, dst)) }))"

section \<open>Round trips\<close>

lemma cmsgLen_eq: "cmsgLen n = 16 + n"
  by (simp add: cmsgLen_def cmsgAlign_def sizeofCmsghdr_def)

lemma length_putCmsg [simp]: "length (putCmsg l t d) = 16 + length d"
  by (simp add: putCmsg_def le64_bytes_def)

lemma le64_head:
  assumes "n < 2 ^ 32"
  shows "le64_val (le64_bytes (word_of_nat n) @ r) = Some n"
proof -
  have n: "unat (word_of_nat n :: u64) = n" using assms by (simp add: unat_of_nat)
  have lo: "unat (ucast (word_of_nat n :: u64) :: u32) = n"
    using assms by (simp add: unsigned_ucast_eq n take_bit_nat_eq_self)
  have "unat (drop_bit 32 (word_of_nat n :: u64)) = n div 2 ^ 32"
    by (simp only: unat_drop_bit_eq n) (rule drop_bit_eq_div)
  then have "unat (drop_bit 32 (word_of_nat n :: u64)) = 0" using assms by simp
  then have "drop_bit 32 (word_of_nat n :: u64) = 0" by (simp add: unat_eq_0)
  then have hi: "unat (ucast (drop_bit 32 (word_of_nat n :: u64)) :: u32) = 0" by simp
  show ?thesis
    by (simp add: le64_val_def le64_bytes_def le32_roundtrip lo hi)
qed

lemma parse_putCmsg:
  assumes "length d < 2 ^ 16"
  shows "ParseSocketControlMessage (putCmsg l t d) = Inr [\<lparr>c_Level = l, c_Type = t, c_Data = d\<rparr>]"
proof -
  define b where "b = putCmsg l t d"
  have lb: "length b = 16 + length d" by (simp add: b_def)
  have 1: "le64_val b = Some (16 + length d)"
    unfolding b_def putCmsg_def by (subst le64_head) (use assms in \<open>simp_all add: cmsgLen_eq\<close>)
  have dr: "drop 8 b = le32_bytes l @ le32_bytes t @ d" "drop 12 b = le32_bytes t @ d" "drop 16 b = d"
    by (simp_all add: b_def putCmsg_def le64_bytes_def)
  have 2: "le32_val (drop 8 b) = Some l" "le32_val (drop 12 b) = Some t" by (simp_all only: dr le32_roundtrip)
  have al: "length b \<le> cmsgAlign (16 + length d)" by (simp add: lb cmsgAlign_def)
  have e: "ParseSocketControlMessage [] = Inr []" by (subst ParseSocketControlMessage.simps) (simp add: cmsgLen_eq)
  have "ParseSocketControlMessage b = Inr [\<lparr>c_Level = l, c_Type = t, c_Data = d\<rparr>]"
    using al lb by (subst ParseSocketControlMessage.simps) (simp add: 1 2 e cmsgLen_eq sizeofCmsghdr_def dr le32_roundtrip)
  then show ?thesis by (simp add: b_def)
qed

text \<open>The packet info that \<open>OOB\<close> writes for an IPv6 address is read back by \<open>ReadPacket\<close>: address and interface.\<close>

theorem packetInfo_roundtrip:
  assumes "length (pi_addr i) = 16" and "To4 (pi_addr i) = None" and "OOB (Some i) = Some oob"
  shows "ReadPacket n (Inr (bs, oob, a)) = Some (Inr \<lparr>r_remoteAddr = a, r_data = take n bs, r_ecn = 0, r_info = Some i\<rparr>)"
proof -
  have oob: "oob = putCmsg IPPROTO_IPV6 IPV6_PKTINFO (pi_addr i @ le32_bytes (pi_ifIndex i))"
    using assms by (simp add: OOB_def)
  have len: "length oob = 36" using assms(1) by (simp add: oob)
  have "le32_val (le32_bytes (pi_ifIndex i)) = Some (pi_ifIndex i)" using le32_roundtrip [of _ "[]"] by simp
  then have "pktCtrl \<lparr>c_Level = IPPROTO_IPV6, c_Type = IPV6_PKTINFO, c_Data = pi_addr i @ le32_bytes (pi_ifIndex i)\<rparr> (0, None, 0)
      = Some (0, Some (pi_addr i), pi_ifIndex i)"
    using assms(1) by (simp add: pktCtrl_def)
  moreover have "ParseSocketControlMessage oob
      = Inr [\<lparr>c_Level = IPPROTO_IPV6, c_Type = IPV6_PKTINFO, c_Data = pi_addr i @ le32_bytes (pi_ifIndex i)\<rparr>]"
    using assms(1) by (simp add: oob parse_putCmsg)
  ultimately show ?thesis by (simp add: ReadPacket_def len)
qed

theorem packetInfo_roundtrip_witness:
  "ReadPacket 9000 (Inr ([1, 2], the (OOB (Some \<lparr>pi_addr = 0xFE # replicate 15 1, pi_ifIndex = 3\<rparr>)), ([], 53)))
    = Some (Inr \<lparr>r_remoteAddr = ([], 53), r_data = [1, 2], r_ecn = 0, r_info = Some \<lparr>pi_addr = 0xFE # replicate 15 1, pi_ifIndex = 3\<rparr>\<rparr>)"
proof -
  define i where "i = \<lparr>pi_addr = (0xFE :: byte) # replicate 15 1, pi_ifIndex = 3\<rparr>"
  have t: "To4 (pi_addr i) = None" by (simp add: i_def To4_def eval_nat_numeral)
  then obtain oob where "OOB (Some i) = Some oob" by (simp add: OOB_def i_def)
  then show ?thesis
    using packetInfo_roundtrip [of i oob 9000 "[1, 2]" "([], 53)"] t by (simp add: i_def)
qed

text \<open>For IPv4 the message carries the level of TCP, which \<open>ReadPacket\<close> passes over; with the right level the address
  would be taken from the four bytes behind the one that \<open>OOB\<close> wrote.\<close>

lemma packetInfo_ipv4_lost:
  assumes "To4 (pi_addr i) = Some ip4" and "OOB (Some i) = Some oob"
  shows "ReadPacket n (Inr (bs, oob, a)) = Some (Inr \<lparr>r_remoteAddr = a, r_data = take n bs, r_ecn = 0, r_info = None\<rparr>)"
    and "pktCtrl \<lparr>c_Level = IPPROTO_IP, c_Type = IP_PKTINFO, c_Data = le32_bytes (pi_ifIndex i) @ ip4 @ replicate 4 0\<rparr> (0, None, 0)
      = Some (0, Some (replicate 4 0), pi_ifIndex i)"
proof -
  have l: "length ip4 = 4" using assms(1) by (auto simp: To4_def split: if_splits)
  have oob: "oob = putCmsg IPPROTO_TCP IP_PKTINFO (le32_bytes (pi_ifIndex i) @ ip4 @ replicate 4 0)"
    using assms by (simp add: OOB_def)
  have len: "length oob = 28" using l by (simp add: oob)
  have "ParseSocketControlMessage oob
      = Inr [\<lparr>c_Level = IPPROTO_TCP, c_Type = IP_PKTINFO, c_Data = le32_bytes (pi_ifIndex i) @ ip4 @ replicate 4 0\<rparr>]"
    using l by (simp add: oob parse_putCmsg)
  then show "ReadPacket n (Inr (bs, oob, a)) = Some (Inr \<lparr>r_remoteAddr = a, r_data = take n bs, r_ecn = 0, r_info = None\<rparr>)"
    by (simp add: ReadPacket_def len pktCtrl_def)
  show "pktCtrl \<lparr>c_Level = IPPROTO_IP, c_Type = IP_PKTINFO, c_Data = le32_bytes (pi_ifIndex i) @ ip4 @ replicate 4 0\<rparr> (0, None, 0)
      = Some (0, Some (replicate 4 0), pi_ifIndex i)"
    using l by (simp add: pktCtrl_def le32_roundtrip)
qed

text \<open>The original destination of a packet as the kernel reports it: a \<open>sockaddr_in6\<close> (family, port, flow, address,
  scope) or a \<open>sockaddr_in\<close> (family, port, address, zeros).\<close>

lemma origDst_ipv6:
  assumes "length ip = 16"
  shows "origDst mem \<lparr>c_Level = IPPROTO_IPV6, c_Type = IPV6_ORIGDSTADDR,
      c_Data = [10, 0] @ put_be16 port @ replicate 4 0 @ ip @ replicate 4 0\<rparr> dst = Some (Inr (Some (ip, int (unat port))))"
  using assms be16_roundtrip [of port] by (auto simp: origDst_def put_be16_def)

lemma origDst_ipv4:
  assumes "length ip = 4"
  shows "origDst mem \<lparr>c_Level = IPPROTO_IP, c_Type = IP_RECVORIGDSTADDR,
      c_Data = [2, 0] @ put_be16 port @ ip @ replicate 8 0\<rparr> dst = Some (Inr (Some (IPv4 ip, int (unat port))))"
  using assms be16_roundtrip [of port] by (auto simp: origDst_def put_be16_def IPv4_def be16_eq Let_def)

end
