(* ===== verification/Udp_Nat.thy ===== *)
theory Udp_Nat
  imports Udp_Oob "HOL-Library.AList"
begin

text \<open>
  \<^verbatim>\<open>src/pkg/udp/udpproxy.go\<close> and the capture loop of \<^verbatim>\<open>src/pkg/udp/tproxy_udp.go\<close>: the UDP NAT. A client, known by its
  address, has an entry in \<open>ActiveUdp\<close>: a \<open>UdpNat\<close> with a socket of its own, from which its packets are sent and
  whose packets go back to it.

  The pointers to \<open>UdpNat\<close> are indices into \<open>l_nats\<close> and sockets are indices into \<open>l_socks\<close>; both lists only grow. A
  socket logs what was sent on it. Packets back to a client are logged in \<open>l_back\<close>, the read loops that were
  started in \<open>l_loops\<close>. Times are nanoseconds since the zero \<open>time.Time\<close>. \<open>net.ListenUDP\<close>, the service discovery
  and the resolver are parameters. \<open>None\<close> is a panic.
\<close>

section \<open>State\<close>

record udpAddr =
  ua_IP :: "byte list"
  ua_Port :: int

text \<open>\<open>UDPAddr.String\<close>, the key of a client, shows the 4-byte form of an address if there is one. Addresses with the
  same text are those with the same port and the same short form.\<close>

type_synonym addrKey = "byte list \<times> int"

definition addrString :: "udpAddr \<Rightarrow> addrKey" where
  "addrString a = ((case To4 (ua_IP a) of Some v \<Rightarrow> v | None \<Rightarrow> ua_IP a), ua_Port a)"

record udpNat =
  n_DestAddr :: udpAddr
  n_UDP :: nat
  n_Closed :: bool
  n_LocalPort :: int
  n_LastRemoteIP :: "byte list"
  n_LastsRemotePort :: u16
  n_ReverseSrcAddr :: "udpAddr option"
  n_Open :: int
  n_LastWrite :: int
  n_LastRead :: int
  n_SentPackets :: int
  n_SentBytes :: int
  n_RcvdPackets :: int
  n_RcvdBytes :: int

definition newUdpNat :: "nat \<Rightarrow> udpAddr \<Rightarrow> udpAddr option \<Rightarrow> int \<Rightarrow> udpNat" where
  "newUdpNat sk dest reverse port =
     \<lparr>n_DestAddr = dest, n_UDP = sk, n_Closed = False, n_LocalPort = port, n_LastRemoteIP = [], n_LastsRemotePort = 0,
      n_ReverseSrcAddr = reverse, n_Open = 0, n_LastWrite = 0, n_LastRead = 0, n_SentPackets = 0, n_SentBytes = 0,
      n_RcvdPackets = 0, n_RcvdBytes = 0\<rparr>"

record sock =
  sk_port :: int
  sk_open :: bool
  sk_sent :: "(byte list \<times> udpAddr) list"

text \<open>A packet back to a client: through the capture writer, with its source address, or from a socket.\<close>

datatype backPkt = ViaWriter "byte list" udpAddr udpAddr | ViaConn nat "byte list" udpAddr

record natLoop =
  rl_nat :: nat
  rl_localAddr :: udpAddr
  rl_acceptConn :: nat
  rl_writer :: bool

record udpListener =
  l_ActiveUdp :: "(addrKey \<times> nat) list"
  l_nats :: "udpNat list"
  l_socks :: "sock list"
  l_ConnTimeout :: int
  l_DNSHandler :: bool
  l_writer :: bool \<comment> \<open>\<open>TransparentUDPWriter\<close>, of the listener or global, is set\<close>
  l_dns :: "(byte list \<times> u16 \<times> byte list \<times> u16 \<times> byte list) list"
  l_loops :: "natLoop list"
  l_back :: "backPkt list"

definition udp_New :: "bool \<Rightarrow> bool \<Rightarrow> udpListener" where
  "udp_New dns writer =
     \<lparr>l_ActiveUdp = [], l_nats = [], l_socks = [], l_ConnTimeout = 60 * 1000000000, l_DNSHandler = dns, l_writer = writer,
      l_dns = [], l_loops = [], l_back = []\<rparr>"

section \<open>Sockets and entries\<close>

definition openSock :: "int \<Rightarrow> udpListener \<Rightarrow> nat \<times> udpListener" where
  "openSock port g = (length (l_socks g), g\<lparr>l_socks := l_socks g @ [\<lparr>sk_port = port, sk_open = True, sk_sent = []\<rparr>]\<rparr>)"

definition closeSock :: "nat \<Rightarrow> udpListener \<Rightarrow> udpListener" where
  "closeSock sk g = g\<lparr>l_socks := (l_socks g)[sk := (l_socks g ! sk)\<lparr>sk_open := False\<rparr>]\<rparr>"

text \<open>\<open>WriteTo\<close> on a socket: on a closed one it fails, and the code ignores the error.\<close>

definition sendOn :: "nat \<Rightarrow> byte list \<Rightarrow> udpAddr \<Rightarrow> udpListener \<Rightarrow> udpListener" where
  "sendOn sk data dst g =
     (if sk_open (l_socks g ! sk)
      then g\<lparr>l_socks := (l_socks g)[sk := (l_socks g ! sk)\<lparr>sk_sent := sk_sent (l_socks g ! sk) @ [(data, dst)]\<rparr>]\<rparr>
      else g)"

definition updNat :: "nat \<Rightarrow> (udpNat \<Rightarrow> udpNat) \<Rightarrow> udpListener \<Rightarrow> udpListener" where
  "updNat n f g = g\<lparr>l_nats := (l_nats g)[n := f (l_nats g ! n)]\<rparr>"

text \<open>A new \<open>UdpNat\<close> is stored in the table, under the lock, and its read loop is started.\<close>

definition addNat :: "udpAddr \<Rightarrow> udpNat \<Rightarrow> nat \<Rightarrow> bool \<Rightarrow> udpListener \<Rightarrow> nat \<times> udpListener" where
  "addNat src nt acceptConn writer g =
     (let n = length (l_nats g) in
      (n, g\<lparr>l_nats := l_nats g @ [nt], l_ActiveUdp := AList.update (addrString src) n (l_ActiveUdp g),
            l_loops := l_loops g @ [\<lparr>rl_nat = n, rl_localAddr = src, rl_acceptConn = acceptConn, rl_writer = writer\<rparr>]\<rparr>))"

section \<open>Cleanup\<close>

text \<open>\<open>Time.Sub\<close> saturates.\<close>

definition timeSub :: "int \<Rightarrow> int \<Rightarrow> int" where
  "timeSub t u = max (- (2 ^ 63)) (min (2 ^ 63 - 1) (t - u))"

definition idle :: "int \<Rightarrow> udpListener \<Rightarrow> nat \<Rightarrow> bool" where
  "idle t0 g n \<longleftrightarrow> timeSub t0 (n_LastWrite (l_nats g ! n)) > l_ConnTimeout g"

text \<open>The first loop of \<open>FreeIdleSockets\<close>, under the lock: the clients to drop, whose entries are marked.\<close>

definition idleScan :: "int \<Rightarrow> udpListener \<Rightarrow> addrKey list \<times> udpListener" where
  "idleScan t0 g =
     (let cs = filter (\<lambda>(k, n). idle t0 g n) (l_ActiveUdp g)
      in (map fst cs, fold (\<lambda>(k, n). updNat n (\<lambda>nt. nt\<lparr>n_Closed := True\<rparr>)) cs g))"

text \<open>The second loop, under the lock again: a client that is not in the table any more is a nil pointer.\<close>

fun idleClose :: "addrKey list \<Rightarrow> udpListener \<Rightarrow> udpListener option" where
  "idleClose [] g = Some g"
| "idleClose (k # ks) g = (case map_of (l_ActiveUdp g) k of
     None \<Rightarrow> None
   | Some n \<Rightarrow> idleClose ks ((closeSock (n_UDP (l_nats g ! n)) g)\<lparr>l_ActiveUdp := filter (\<lambda>(k', _). k' \<noteq> k) (l_ActiveUdp g)\<rparr>))"

definition FreeIdleSockets :: "int \<Rightarrow> udpListener \<Rightarrow> udpListener option" where
  "FreeIdleSockets t0 g = (let (ks, g) = idleScan t0 g in idleClose ks g)"

definition udp_Close :: "udpListener \<Rightarrow> udpListener" where
  "udp_Close g = fold (\<lambda>(k, n) g. closeSock (n_UDP (l_nats g ! n)) g) (l_ActiveUdp g) g"

section \<open>Packets\<close>

text \<open>The end of \<open>HandleUdp\<close>: the packet is sent to the destination of the entry.\<close>

definition natSend :: "int \<Rightarrow> nat \<Rightarrow> byte list \<Rightarrow> udpListener \<Rightarrow> udpListener" where
  "natSend now n data g =
     updNat n (\<lambda>nt. nt\<lparr>n_LastWrite := now, n_SentPackets := n_SentPackets nt + 1,
                       n_SentBytes := n_SentBytes nt + int (length data), n_Open := now\<rparr>)
       (sendOn (n_UDP (l_nats g ! n)) data (n_DestAddr (l_nats g ! n)) g)"

text \<open>What \<open>HandleUdp\<close> does when it found no entry. \<open>listen\<close> is the outcome of \<open>net.ListenUDP\<close>: the local port; \<open>disc\<close>
  what discovery gives for the destination: nothing, or an address, that may not resolve.\<close>

definition handleMiss :: "(goerr + udpAddr) option \<Rightarrow> int \<Rightarrow> goerr + int \<Rightarrow> udpAddr \<Rightarrow> udpAddr \<Rightarrow> byte list
    \<Rightarrow> udpListener \<Rightarrow> udpListener option" where
  "handleMiss disc now listen dst src data g =
     (case listen of
        Inl e \<Rightarrow> FreeIdleSockets now g
      | Inr port \<Rightarrow>
          (let (sk, g) = openSock port g in
           case disc of
             Some (Inl e) \<Rightarrow> Some g
           | Some (Inr a) \<Rightarrow> (let (n, g) = addNat src (newUdpNat sk a (Some dst) port) sk (l_writer g) g in Some (natSend now n data g))
           | None \<Rightarrow> (let (n, g) = addNat src (newUdpNat sk dst None port) sk (l_writer g) g in Some (natSend now n data g))))"

definition HandleUdp :: "(goerr + udpAddr) option \<Rightarrow> int \<Rightarrow> goerr + int \<Rightarrow> byte list \<Rightarrow> u16 \<Rightarrow> byte list \<Rightarrow> u16
    \<Rightarrow> byte list \<Rightarrow> udpListener \<Rightarrow> udpListener option" where
  "HandleUdp disc now listen dstAddr dstPort localAddr localPort data g =
     (if dstPort = 1900 \<or> dstPort = 5353 \<or> dstPort = 123 then Some g
      else case dstAddr of
          [] \<Rightarrow> None
        | b # _ \<Rightarrow>
            if b = 230 then Some g
            else if dstPort = 53 \<and> l_DNSHandler g
            then Some (g\<lparr>l_dns := l_dns g @ [(dstAddr, dstPort, localAddr, localPort, data)]\<rparr>)
            else (let src = \<lparr>ua_IP = localAddr, ua_Port = int (unat localPort)\<rparr>;
                      dst = \<lparr>ua_IP = dstAddr, ua_Port = int (unat dstPort)\<rparr>
                  in case map_of (l_ActiveUdp g) (addrString src) of
                      Some n \<Rightarrow> Some (natSend now n data g)
                    | None \<Rightarrow> handleMiss disc now listen dst src data g))"

text \<open>One round of \<open>remoteConnectionReadLoop\<close> for the loop \<open>l\<close>: a packet from \<open>srcAddr\<close> arrives on the socket of its
  entry. On a closed socket the read fails and the loop ends. The buffer holds 9000 bytes.\<close>

definition remoteRead :: "int \<Rightarrow> natLoop \<Rightarrow> byte list \<Rightarrow> udpAddr \<Rightarrow> udpListener \<Rightarrow> udpListener" where
  "remoteRead now l packet srcAddr g =
     (let n = rl_nat l; nt = l_nats g ! n; data = take 9000 packet in
      if \<not> sk_open (l_socks g ! n_UDP nt) then g
      else
        (let g = updNat n (\<lambda>nt. nt\<lparr>n_LastRemoteIP := ua_IP srcAddr, n_LastsRemotePort := word_of_int (ua_Port srcAddr)\<rparr>) g;
             g = (if rl_writer l
                  then g\<lparr>l_back := l_back g @ [ViaWriter data (rl_localAddr l)
                         (case n_ReverseSrcAddr nt of Some a \<Rightarrow> a | None \<Rightarrow> srcAddr)]\<rparr>
                  else if sk_open (l_socks g ! rl_acceptConn l)
                  then g\<lparr>l_back := l_back g @ [ViaConn (rl_acceptConn l) data (rl_localAddr l)]\<rparr> else g)
         in updNat n (\<lambda>nt. nt\<lparr>n_LastRead := now, n_RcvdPackets := n_RcvdPackets nt + 1,
                             n_RcvdBytes := n_RcvdBytes nt + int (length data)\<rparr>) g))"

text \<open>One round of \<open>forwardReadLoop\<close> on the listening socket \<open>udpL\<close>, which forwards everything to \<open>remoteA\<close>.\<close>

definition forwardRead :: "int \<Rightarrow> goerr + int \<Rightarrow> udpAddr \<Rightarrow> nat \<Rightarrow> byte list \<Rightarrow> udpAddr \<Rightarrow> udpListener \<Rightarrow> udpListener" where
  "forwardRead now listen remoteA udpL packet srcAddr g =
     (let data = take 9000 packet;
          send = (\<lambda>n g. sendOn (n_UDP (l_nats g ! n)) data remoteA
                   (updNat n (\<lambda>nt. nt\<lparr>n_LastWrite := now, n_SentPackets := n_SentPackets nt + 1,
                       n_SentBytes := n_SentBytes nt + int (length data), n_LastRemoteIP := ua_IP srcAddr,
                       n_LastsRemotePort := word_of_int (ua_Port srcAddr)\<rparr>) g))
      in case map_of (l_ActiveUdp g) (addrString srcAddr) of
           Some n \<Rightarrow> send n g
         | None \<Rightarrow>
             (case listen of
                Inl e \<Rightarrow> g
              | Inr port \<Rightarrow>
                  (let (sk, g) = openSock port g;
                       (n, g) = addNat srcAddr ((newUdpNat sk remoteA None port)\<lparr>n_Open := now\<rparr>) udpL False g
                   in send n g)))"

text \<open>The capture loop of TPROXY, one packet: it starts \<open>HandleUdp\<close> with the addresses that \<open>ReadFromUDP\<close> returns, the
  sender first. Here the goroutine runs as a whole; \<open>Nat_Threads\<close> has its steps.\<close>

definition blockingLoop :: "byte list \<Rightarrow> (goerr + udpAddr) option \<Rightarrow> int \<Rightarrow> goerr + int
    \<Rightarrow> goerr + (byte list \<times> byte list \<times> (byte list \<times> int)) \<Rightarrow> udpListener \<Rightarrow> udpListener option" where
  "blockingLoop mem disc now listen rd g = do {
     r \<leftarrow> tproxy_ReadFromUDP mem 1600 rd;
     case r of
       Inl e \<Rightarrow> Some g
     | Inr (data, a1, addr) \<Rightarrow>
         HandleUdp disc now listen (fst a1) (word_of_int (snd a1)) (fst addr) (word_of_int (snd addr)) data g }"

section \<open>The table\<close>

text \<open>The table has every client and every entry at most once, and entries have different sockets.\<close>

definition nat_wf :: "udpListener \<Rightarrow> bool" where
  "nat_wf g \<longleftrightarrow> distinct (map fst (l_ActiveUdp g)) \<and> distinct (map snd (l_ActiveUdp g)) \<and> distinct (map n_UDP (l_nats g))
     \<and> (\<forall>nt \<in> set (l_nats g). n_UDP nt < length (l_socks g))
     \<and> (\<forall>(k, n) \<in> set (l_ActiveUdp g). n < length (l_nats g))"

definition sockOf :: "udpListener \<Rightarrow> nat \<Rightarrow> nat" where
  "sockOf g n = n_UDP (l_nats g ! n)"

text \<open>The sockets of the entries are open.\<close>

definition nat_live :: "udpListener \<Rightarrow> bool" where
  "nat_live g \<longleftrightarrow> (\<forall>n \<in> snd ` set (l_ActiveUdp g). sk_open (l_socks g ! sockOf g n))"

lemma nat_wfD:
  assumes "nat_wf g" "(k, n) \<in> set (l_ActiveUdp g)"
  shows "n < length (l_nats g)" "sockOf g n < length (l_socks g)"
  using assms by (auto simp: nat_wf_def sockOf_def)

lemma sockOf_inj:
  assumes "nat_wf g" "m < length (l_nats g)" "n < length (l_nats g)"
  shows "sockOf g m = sockOf g n \<longleftrightarrow> m = n"
  using assms nth_eq_iff_index_eq [of "map n_UDP (l_nats g)" m n] by (simp add: nat_wf_def sockOf_def)

text \<open>Operations that change neither the table nor which sockets are open.\<close>

definition sameTable :: "udpListener \<Rightarrow> udpListener \<Rightarrow> bool" where
  "sameTable g h \<longleftrightarrow> l_ActiveUdp h = l_ActiveUdp g \<and> map n_UDP (l_nats h) = map n_UDP (l_nats g) \<and> l_loops h = l_loops g
     \<and> length (l_socks g) \<le> length (l_socks h) \<and> (\<forall>i < length (l_socks g). sk_open (l_socks h ! i) = sk_open (l_socks g ! i))"

lemma sameTable_refl [simp]: "sameTable g g"
  by (simp add: sameTable_def)

lemma sameTable_trans: "sameTable g h \<Longrightarrow> sameTable h k \<Longrightarrow> sameTable g k"
  by (auto simp: sameTable_def)

lemma sameTable_nats:
  assumes "sameTable g h"
  shows "length (l_nats h) = length (l_nats g)" "n < length (l_nats g) \<Longrightarrow> sockOf h n = sockOf g n"
proof -
  have m: "map n_UDP (l_nats h) = map n_UDP (l_nats g)" using assms by (simp add: sameTable_def)
  show len: "length (l_nats h) = length (l_nats g)" using arg_cong [OF m, of length] by simp
  show "n < length (l_nats g) \<Longrightarrow> sockOf h n = sockOf g n"
    using arg_cong [OF m, of "\<lambda>xs. xs ! n"] len by (simp add: sockOf_def)
qed

lemma sameTable_wf:
  assumes "sameTable g h" "nat_wf g"
  shows "nat_wf h"
proof -
  have m: "map n_UDP (l_nats h) = map n_UDP (l_nats g)" and so: "length (l_socks g) \<le> length (l_socks h)"
    using assms(1) by (simp_all add: sameTable_def)
  have "\<forall>i \<in> set (map n_UDP (l_nats h)). i < length (l_socks h)" unfolding m using assms(2) so by (auto simp: nat_wf_def)
  then show ?thesis using assms sameTable_nats(1) [OF assms(1)] by (simp add: nat_wf_def sameTable_def)
qed

lemma sameTable_live:
  assumes "sameTable g h" "nat_wf g" "nat_live g"
  shows "nat_live h"
  unfolding nat_live_def
proof
  fix n assume "n \<in> snd ` set (l_ActiveUdp h)"
  then obtain k where kn: "(k, n) \<in> set (l_ActiveUdp g)" using assms(1) by (auto simp: sameTable_def)
  note w = nat_wfD [OF assms(2) kn]
  show "sk_open (l_socks h ! sockOf h n)"
    unfolding sameTable_nats(2) [OF assms(1) w(1)] using assms(1,3) w(2) kn by (force simp: sameTable_def nat_live_def)
qed

lemma updNat_same:
  assumes "\<And>nt. n_UDP (f nt) = n_UDP nt"
  shows "sameTable g (updNat n f g)"
proof -
  have "map n_UDP ((l_nats g)[n := f (l_nats g ! n)]) = map n_UDP (l_nats g)"
    by (cases "n < length (l_nats g)") (auto intro!: nth_equalityI simp: nth_list_update assms)
  then show ?thesis by (simp add: sameTable_def updNat_def)
qed

lemma sendOn_same: "sameTable g (sendOn sk data dst g)"
  by (cases "sk < length (l_socks g)") (auto simp: sameTable_def sendOn_def nth_list_update)

lemma openSock_same: "openSock port g = (sk, h) \<Longrightarrow> sameTable g h"
  by (auto simp: openSock_def sameTable_def nth_append)

lemma remoteRead_same: "sameTable g (remoteRead now l packet a g)"
proof -
  have b: "sameTable g (g\<lparr>l_back := x\<rparr>)" for g x by (simp add: sameTable_def)
  show ?thesis
    unfolding remoteRead_def Let_def
    by (auto intro!: sameTable_refl sameTable_trans [OF updNat_same updNat_same]
        sameTable_trans [OF updNat_same sameTable_trans [OF b updNat_same]])
qed

section \<open>Cleanup\<close>

lemma idleScan_same: "idleScan t0 g = (ks, h) \<Longrightarrow> sameTable g h"
proof -
  have "sameTable g (fold (\<lambda>(k, n). updNat n (\<lambda>nt. nt\<lparr>n_Closed := True\<rparr>)) cs g)" for cs :: "(addrKey \<times> nat) list" and g
  proof (induction cs arbitrary: g)
    case (Cons c cs)
    have "sameTable g (updNat (snd c) (\<lambda>nt. nt\<lparr>n_Closed := True\<rparr>) g)" by (rule updNat_same) simp
    then show ?case using Cons sameTable_trans by (simp add: case_prod_beta)
  qed simp
  then show "idleScan t0 g = (ks, h) \<Longrightarrow> sameTable g h" by (auto simp: idleScan_def Let_def)
qed

lemma idleScan_keys: "idleScan t0 g = (ks, h) \<Longrightarrow> ks = map fst (filter (\<lambda>(k, n). idle t0 g n) (l_ActiveUdp g))"
  by (simp add: idleScan_def Let_def)

text \<open>The second loop panics exactly when a client is not in the table, or is to be dropped twice.\<close>

lemma idleClose_None: "idleClose ks g = None \<longleftrightarrow> \<not> (distinct ks \<and> set ks \<subseteq> fst ` set (l_ActiveUdp g))"
proof (induction ks g rule: idleClose.induct)
  case (2 k ks g)
  show ?case
  proof (cases "map_of (l_ActiveUdp g) k")
    case None
    then have "k \<notin> fst ` set (l_ActiveUdp g)" by (simp add: map_of_eq_None_iff)
    then show ?thesis using None by simp
  next
    case (Some n)
    have "k \<in> fst ` set (l_ActiveUdp g)" using map_of_SomeD [OF Some] by force
    moreover have "fst ` set (filter (\<lambda>(k', _). k' \<noteq> k) (l_ActiveUdp g)) = fst ` set (l_ActiveUdp g) - {k}" by force
    ultimately show ?thesis using 2 [OF Some] Some by (auto simp: closeSock_def)
  qed
qed simp

definition onlyClosed :: "udpListener \<Rightarrow> nat set \<Rightarrow> udpListener \<Rightarrow> bool" where
  "onlyClosed g S h \<longleftrightarrow> length (l_socks h) = length (l_socks g)
     \<and> (\<forall>i < length (l_socks g). sk_open (l_socks h ! i) \<longleftrightarrow> sk_open (l_socks g ! i) \<and> i \<notin> S)"

text \<open>It drops these clients, and closes their sockets and no others.\<close>

lemma idleClose_spec:
  assumes "idleClose ks g = Some h" "nat_wf g"
  shows "l_ActiveUdp h = filter (\<lambda>(k, _). k \<notin> set ks) (l_ActiveUdp g) \<and> l_nats h = l_nats g \<and> l_loops h = l_loops g
    \<and> onlyClosed g {sockOf g n | k n. (k, n) \<in> set (l_ActiveUdp g) \<and> k \<in> set ks} h"
  using assms
proof (induction ks g rule: idleClose.induct)
  case (1 g)
  then show ?case by (simp add: onlyClosed_def case_prod_beta)
next
  case (2 k ks g)
  then obtain n where n: "map_of (l_ActiveUdp g) k = Some n" by (auto split: option.splits)
  define g1 where "g1 = (closeSock (n_UDP (l_nats g ! n)) g)\<lparr>l_ActiveUdp := filter (\<lambda>(k', _). k' \<noteq> k) (l_ActiveUdp g)\<rparr>"
  have g1: "l_ActiveUdp g1 = filter (\<lambda>(k', _). k' \<noteq> k) (l_ActiveUdp g)" "l_nats g1 = l_nats g" "l_loops g1 = l_loops g"
    "sockOf g1 = sockOf g" "l_socks g1 = (l_socks g)[sockOf g n := (l_socks g ! sockOf g n)\<lparr>sk_open := False\<rparr>]"
    by (auto simp: g1_def closeSock_def sockOf_def fun_eq_iff)
  have wf: "nat_wf g1" using 2(3) by (auto simp: nat_wf_def g1 distinct_map_filter)
  have kn: "(k, n) \<in> set (l_ActiveUdp g)" using n by (rule map_of_SomeD)
  have uniq: "m = n" if "(k, m) \<in> set (l_ActiveUdp g)" for m
    using that kn 2(3) by (auto simp: nat_wf_def dest: eq_key_imp_eq_value)
  have h: "idleClose ks g1 = Some h" using 2(2) n by (simp add: g1_def)
  from 2(1) [OF n, folded g1_def, OF h wf]
  have IH: "l_ActiveUdp h = filter (\<lambda>(k, _). k \<notin> set ks) (l_ActiveUdp g1)" "l_nats h = l_nats g1" "l_loops h = l_loops g1"
    "onlyClosed g1 {sockOf g1 n | k n. (k, n) \<in> set (l_ActiveUdp g1) \<and> k \<in> set ks} h" by blast+
  have S: "{sockOf g m | j m. (j, m) \<in> set (l_ActiveUdp g) \<and> j \<in> set (k # ks)}
      = insert (sockOf g n) {sockOf g1 m | j m. (j, m) \<in> set (l_ActiveUdp g1) \<and> j \<in> set ks}" (is "?L = insert _ ?R")
  proof
    show "?L \<subseteq> insert (sockOf g n) ?R"
    proof
      fix i assume "i \<in> ?L"
      then obtain j m where "i = sockOf g m" "(j, m) \<in> set (l_ActiveUdp g)" "j \<in> set (k # ks)" by blast
      then show "i \<in> insert (sockOf g n) ?R" using uniq by (cases j; cases "j = k") (auto simp: g1)
    qed
    show "insert (sockOf g n) ?R \<subseteq> ?L" using kn by (cases k) (auto simp: g1)
  qed
  have "sk_open (l_socks g1 ! i) \<longleftrightarrow> sk_open (l_socks g ! i) \<and> i \<noteq> sockOf g n" if "i < length (l_socks g)" for i
    using that by (cases "sockOf g n = i") (simp_all add: g1)
  then have "onlyClosed g {sockOf g m | j m. (j, m) \<in> set (l_ActiveUdp g) \<and> j \<in> set (k # ks)} h"
    using IH(4) g1(5) unfolding onlyClosed_def S by simp
  then show ?case using IH(1-3) by (auto simp: g1 case_prod_beta intro!: filter_cong)
qed

lemma idleClose_table:
  assumes "idleClose ks g = Some h" "nat_wf g"
  shows "nat_wf h" "nat_live g \<Longrightarrow> nat_live h"
proof -
  note c = idleClose_spec [OF assms]
  have so: "sockOf h = sockOf g" "length (l_socks h) = length (l_socks g)" using c by (simp_all add: sockOf_def fun_eq_iff onlyClosed_def)
  have A: "l_ActiveUdp h = filter (\<lambda>(k, _). k \<notin> set ks) (l_ActiveUdp g)" and N: "l_nats h = l_nats g" using c by blast+
  show "nat_wf h" using assms(2) so(2) unfolding nat_wf_def A N by (auto simp: distinct_map_filter)
  show "nat_live h" if "nat_live g"
    unfolding nat_live_def so(1)
  proof
    fix n assume "n \<in> snd ` set (l_ActiveUdp h)"
    then obtain k where k: "(k, n) \<in> set (l_ActiveUdp g)" "k \<notin> set ks" by (auto simp: A)
    have d: "m \<noteq> n" if "(j, m) \<in> set (l_ActiveUdp g)" "j \<in> set ks" for j m
    proof
      assume "m = n"
      then have "(j, m) = (k, n)" using that k(1) assms(2) inj_onD [of snd "set (l_ActiveUdp g)" "(j, m)" "(k, n)"]
        by (simp add: nat_wf_def distinct_map)
      then show False using that(2) k(2) by simp
    qed
    have "sockOf g n \<notin> {sockOf g m | j m. (j, m) \<in> set (l_ActiveUdp g) \<and> j \<in> set ks}"
      using d sockOf_inj [OF assms(2)] nat_wfD(1) [OF assms(2)] k(1) by blast
    moreover have "sk_open (l_socks g ! sockOf g n)" using that k(1) by (force simp: nat_live_def)
    ultimately show "sk_open (l_socks h ! sockOf g n)"
      using c nat_wfD(2) [OF assms(2) k(1)] unfolding onlyClosed_def by blast
  qed
qed

text \<open>A cleanup that nothing interrupts: it returns, and the clients that stay are those that are not idle.\<close>

lemma freeIdle_spec:
  assumes "nat_wf g"
  shows "\<exists>h. FreeIdleSockets t0 g = Some h \<and> nat_wf h \<and> (nat_live g \<longrightarrow> nat_live h)
    \<and> l_ActiveUdp h = filter (\<lambda>(k, n). \<not> idle t0 g n) (l_ActiveUdp g)
    \<and> onlyClosed g {sockOf g n | k n. (k, n) \<in> set (l_ActiveUdp g) \<and> idle t0 g n} h"
proof -
  obtain ks g1 where s: "idleScan t0 g = (ks, g1)" by (cases "idleScan t0 g")
  note same = idleScan_same [OF s]
  note ks = idleScan_keys [OF s]
  have A: "l_ActiveUdp g1 = l_ActiveUdp g" using same by (simp add: sameTable_def)
  have d: "distinct (map fst (l_ActiveUdp g))" using assms by (simp add: nat_wf_def)
  have "distinct ks" "set ks \<subseteq> fst ` set (l_ActiveUdp g1)" using d by (auto simp: ks A distinct_map_filter)
  then obtain h where h: "idleClose ks g1 = Some h" using idleClose_None [of ks g1] by (cases "idleClose ks g1") auto
  note wf1 = sameTable_wf [OF same assms]
  note c = idleClose_spec [OF h wf1]
  have key: "k \<in> set ks \<longleftrightarrow> idle t0 g n" if "(k, n) \<in> set (l_ActiveUdp g)" for k n
    using that d by (auto simp: ks dest: eq_key_imp_eq_value intro: rev_image_eqI)
  have f: "l_ActiveUdp h = filter (\<lambda>(k, n). \<not> idle t0 g n) (l_ActiveUdp g)"
    using c key unfolding A by (auto intro!: filter_cong)
  have closed: "{sockOf g1 n | k n. (k, n) \<in> set (l_ActiveUdp g1) \<and> k \<in> set ks}
      = {sockOf g n | k n. (k, n) \<in> set (l_ActiveUdp g) \<and> idle t0 g n}"
    unfolding A using key sameTable_nats(2) [OF same] nat_wfD(1) [OF assms] by (auto; metis)
  have len: "length (l_socks g1) = length (l_socks g)" "\<forall>i < length (l_socks g). sk_open (l_socks g1 ! i) = sk_open (l_socks g ! i)"
  proof -
    have "l_socks (fold (\<lambda>(k, n). updNat n (\<lambda>nt. nt\<lparr>n_Closed := True\<rparr>)) cs g) = l_socks g" for cs :: "(addrKey \<times> nat) list" and g
      by (induction cs arbitrary: g) (auto simp: updNat_def)
    then have "l_socks g1 = l_socks g" using s by (auto simp: idleScan_def Let_def)
    then show "length (l_socks g1) = length (l_socks g)" "\<forall>i < length (l_socks g). sk_open (l_socks g1 ! i) = sk_open (l_socks g ! i)"
      by simp_all
  qed
  have "onlyClosed g {sockOf g n | k n. (k, n) \<in> set (l_ActiveUdp g) \<and> idle t0 g n} h"
    using c len unfolding closed by (auto simp: onlyClosed_def)
  then show ?thesis
    using h s f idleClose_table [OF h wf1] sameTable_live [OF same assms] by (auto simp: FreeIdleSockets_def)
qed

section \<open>Properties\<close>

text \<open>C30: A captured packet of a client that has no entry, for a destination that is neither filtered nor DNS nor
  discovered: it leaves from a fresh socket to its destination, and whatever arrives on that socket later, as long as
  the entry is there, goes back through the writer to the address of the client, with the sender as its source and
  cut to 9000 bytes.\<close>

theorem nat_roundtrip:
  assumes "l_writer g" and "\<not> l_DNSHandler g" and "dp \<notin> {1900, 5353, 123}" and "da \<noteq> []" and "hd da \<noteq> 230"
    and "src = \<lparr>ua_IP = la, ua_Port = int (unat lp)\<rparr>" and "map_of (l_ActiveUdp g) (addrString src) = None"
  shows "\<exists>h l. HandleUdp None now (Inr port) da dp la lp data g = Some h
    \<and> map_of (l_ActiveUdp h) (addrString src) = Some (rl_nat l) \<and> l \<in> set (l_loops h)
    \<and> sk_sent (l_socks h ! n_UDP (l_nats h ! rl_nat l)) = [(data, \<lparr>ua_IP = da, ua_Port = int (unat dp)\<rparr>)]
    \<and> l_back (remoteRead later l p a h) = l_back h @ [ViaWriter (take 9000 p) src a]"
proof -
  define dst where "dst = \<lparr>ua_IP = da, ua_Port = int (unat dp)\<rparr>"
  define n where "n = length (l_nats g)"
  define sk where "sk = length (l_socks g)"
  define l where "l = \<lparr>rl_nat = n, rl_localAddr = src, rl_acceptConn = sk, rl_writer = True\<rparr>"
  define h where "h = natSend now n data (snd (addNat src (newUdpNat sk dst None port) sk True (snd (openSock port g))))"
  obtain b bs where da: "da = b # bs" "b \<noteq> 230" using assms(4,5) by (cases da) auto
  have "handleMiss None now (Inr port) dst src data g = Some h"
    using assms(1) by (simp add: handleMiss_def h_def openSock_def addNat_def sk_def n_def Let_def)
  then have hu: "HandleUdp None now (Inr port) da dp la lp data g = Some h"
    using assms(2,3,7) da by (simp add: HandleUdp_def Let_def assms(6) dst_def)
  have facts: "l_nats h ! n = (newUdpNat sk dst None port)\<lparr>n_LastWrite := now, n_SentPackets := 1,
      n_SentBytes := int (length data), n_Open := now\<rparr>"
    "l_socks h ! sk = \<lparr>sk_port = port, sk_open = True, sk_sent = [(data, dst)]\<rparr>" "l_loops h = l_loops g @ [l]"
    "map_of (l_ActiveUdp h) (addrString src) = Some n"
    by (simp_all add: h_def natSend_def sendOn_def updNat_def addNat_def openSock_def newUdpNat_def n_def sk_def l_def
        nth_list_update update_conv' Let_def)
  have "l_back (remoteRead later l p a h) = l_back h @ [ViaWriter (take 9000 p) src a]"
    by (simp add: remoteRead_def Let_def l_def facts(1,2) newUdpNat_def updNat_def)
  then show ?thesis using hu facts by (intro exI [of _ h] exI [of _ l]) (simp add: l_def dst_def newUdpNat_def)
qed

theorem nat_roundtrip_witness:
  "\<exists>h l. HandleUdp None 7 (Inr 4000) [8, 8, 8, 8] 80 [10, 0, 0, 1] 5000 [1] (udp_New False True) = Some h
    \<and> l_back (remoteRead 9 l [2, 3] \<lparr>ua_IP = [9, 9, 9, 9], ua_Port = 80\<rparr> h)
        = l_back h @ [ViaWriter [2, 3] \<lparr>ua_IP = [10, 0, 0, 1], ua_Port = 5000\<rparr> \<lparr>ua_IP = [9, 9, 9, 9], ua_Port = 80\<rparr>]"
  using nat_roundtrip [of "udp_New False True" 80 "[8, 8, 8, 8]" "\<lparr>ua_IP = [10, 0, 0, 1], ua_Port = 5000\<rparr>"
      "[10, 0, 0, 1]" 5000 7 4000 "[1]" 9 "[2, 3]" "\<lparr>ua_IP = [9, 9, 9, 9], ua_Port = 80\<rparr>"]
  by (auto simp: udp_New_def)

section \<open>What goes wrong\<close>

text \<open>A second destination: the packet of a client that has an entry is sent to the destination of the entry, whatever
  destination the packet has.\<close>

lemma nat_second_destination:
  assumes "nat_wf g" "nat_live g" and "map_of (l_ActiveUdp g) (addrString \<lparr>ua_IP = la, ua_Port = int (unat lp)\<rparr>) = Some n"
    and "\<not> l_DNSHandler g" and "dp \<notin> {1900, 5353, 123}" and "da \<noteq> []" and "hd da \<noteq> 230"
  shows "\<exists>h. HandleUdp disc now listen da dp la lp data g = Some h
    \<and> sk_sent (l_socks h ! n_UDP (l_nats g ! n)) = sk_sent (l_socks g ! n_UDP (l_nats g ! n)) @ [(data, n_DestAddr (l_nats g ! n))]"
proof -
  obtain b bs where da: "da = b # bs" "b \<noteq> 230" using assms(6,7) by (cases da) auto
  have n: "(addrString \<lparr>ua_IP = la, ua_Port = int (unat lp)\<rparr>, n) \<in> set (l_ActiveUdp g)" using assms(3) by (rule map_of_SomeD)
  then have "sk_open (l_socks g ! sockOf g n)" using assms(2) by (force simp: nat_live_def)
  then show ?thesis
    using assms(3-5) da nat_wfD(2) [OF assms(1) n] by (simp add: HandleUdp_def Let_def natSend_def updNat_def sendOn_def sockOf_def)
qed

text \<open>Two packets of a new client that are handled at the same time: both find no entry, both open a socket, the second
  one takes the entry. The first socket stays open after the cleanup of everything and after \<open>Close\<close>.\<close>

lemma nat_race_leaks:
  assumes "handleMiss None t1 (Inr p1) d1 src x1 (udp_New dns w) = Some g1" and "handleMiss None t2 (Inr p2) d2 src x2 g1 = Some g2"
  shows "length (l_socks g2) = 2 \<and> sk_open (l_socks g2 ! 0) \<and> map snd (l_ActiveUdp g2) = [1]
    \<and> sk_open (l_socks (udp_Close g2) ! 0)
    \<and> (\<forall>h. FreeIdleSockets t g2 = Some h \<longrightarrow> sk_open (l_socks h ! 0))"
proof -
  note eval = handleMiss_def openSock_def addNat_def natSend_def sendOn_def updNat_def newUdpNat_def udp_New_def Let_def
  have g: "l_ActiveUdp g2 = [(addrString src, 1)]" "length (l_nats g2) = 2" "n_UDP (l_nats g2 ! Suc 0) = 1" "length (l_socks g2) = 2"
    "sk_open (l_socks g2 ! 0)"
    using assms by (auto simp: eval nth_list_update)
  have "sk_open (l_socks (udp_Close g2) ! 0)" by (simp add: udp_Close_def g closeSock_def)
  moreover have "sk_open (l_socks h ! 0)" if "FreeIdleSockets t g2 = Some h" for h
    using that g by (auto simp: FreeIdleSockets_def idleScan_def Let_def updNat_def closeSock_def split: if_splits)
  ultimately show ?thesis using g by simp
qed

text \<open>Two cleanups at the same time: the clients that both found idle are closed by the first, and the second one
  follows a nil pointer. (\<open>HandleUdp\<close> starts a cleanup when no socket can be opened, besides the periodic one.)\<close>

lemma idle_twice_panics:
  assumes "idleClose (k # ks) g = Some h"
  shows "idleClose (k # ks) h = None"
proof -
  have gone: "map_of (l_ActiveUdp h) k = None" if "idleClose ks' g' = Some h" "map_of (l_ActiveUdp g') k = None" for ks' g' h
    using that
  proof (induction ks' arbitrary: g')
    case (Cons a ks')
    have f: "map_of (filter (\<lambda>(k', _). k' \<noteq> a) xs) k = None" if "map_of xs k = None" for xs :: "(addrKey \<times> nat) list"
      using that by (induction xs) (auto split: if_splits)
    show ?case using Cons by (auto simp: f split: option.splits)
  qed simp
  have "map_of (filter (\<lambda>(k', _). k' \<noteq> k) xs) k = None" for xs :: "(addrKey \<times> nat) list"
    by (induction xs) auto
  then show ?thesis using assms gone by (auto split: option.splits)
qed

text \<open>TPROXY capture hands \<open>HandleUdp\<close> the sender as the destination and the original destination as the client: a
  packet that a host sent to a server is sent, from a new socket, back to that host, and the entry is made for the
  server.\<close>

theorem tproxy_reversed:
  fixes cport sport :: u16
  assumes "tproxy_ReadFromUDP mem 1600 rd = Some (Inr (data, (cip, int (unat cport)), (sip, int (unat sport))))"
    and "cport \<notin> {1900, 5353, 123}" and "cip \<noteq> []" and "hd cip \<noteq> 230"
  shows "\<exists>g. blockingLoop mem None now (Inr port) rd (udp_New False writer) = Some g
    \<and> l_ActiveUdp g = [(addrString \<lparr>ua_IP = sip, ua_Port = int (unat sport)\<rparr>, 0)]
    \<and> map sk_sent (l_socks g) = [[(data, \<lparr>ua_IP = cip, ua_Port = int (unat cport)\<rparr>)]]"
proof -
  obtain b bs where "cip = b # bs" "b \<noteq> 230" using assms(3,4) by (cases cip) auto
  moreover have w: "word_of_int (int (unat c)) = c" for c :: u16 by (simp only: of_nat_unat word_of_int_uint)
  have "blockingLoop mem None now (Inr port) rd g = HandleUdp None now (Inr port) cip cport sip sport data g" for g
    by (simp only: blockingLoop_def assms(1) Option.bind_lunit sum.case prod.case fst_conv snd_conv w)
  ultimately show ?thesis
    using assms(2)
    by (simp add: HandleUdp_def handleMiss_def openSock_def addNat_def natSend_def sendOn_def updNat_def
        newUdpNat_def udp_New_def Let_def)
qed

theorem tproxy_reversed_witness:
  "\<exists>g. blockingLoop [] None 7 (Inr 4000)
      (Inr ([1, 2], putCmsg IPPROTO_IP IP_RECVORIGDSTADDR ([2, 0] @ put_be16 80 @ [8, 8, 8, 8] @ replicate 8 0), ([10, 0, 0, 1], 5000)))
      (udp_New False True) = Some g
    \<and> map sk_sent (l_socks g) = [[([1, 2], \<lparr>ua_IP = [10, 0, 0, 1], ua_Port = 5000\<rparr>)]]"
proof -
  define rd where "rd = (Inr ([1, 2], putCmsg IPPROTO_IP IP_RECVORIGDSTADDR ([2, 0] @ put_be16 80 @ [8, 8, 8, 8] @ replicate 8 0),
      ([10, 0, 0, 1], 5000)) :: goerr + (byte list \<times> byte list \<times> (byte list \<times> int)))"
  have "ParseSocketControlMessage (take 2048 (putCmsg IPPROTO_IP IP_RECVORIGDSTADDR ([2, 0] @ put_be16 80 @ [8, 8, 8, 8] @ replicate 8 0)))
      = Inr [\<lparr>c_Level = IPPROTO_IP, c_Type = IP_RECVORIGDSTADDR, c_Data = [2, 0] @ put_be16 80 @ [8, 8, 8, 8] @ replicate 8 0\<rparr>]"
    by (subst take_all) (simp, rule parse_putCmsg, simp)
  then have "tproxy_ReadFromUDP [] 1600 rd = Some (Inr ([1, 2], ([10, 0, 0, 1], int (unat (5000 :: u16))), (IPv4 [8, 8, 8, 8], int (unat (80 :: u16)))))"
    unfolding rd_def tproxy_ReadFromUDP_def using origDst_ipv4 [of "[8, 8, 8, 8]" "[]" 80 None] by simp
  from tproxy_reversed [OF this, of 7 4000 True] show ?thesis unfolding rd_def by auto
qed

end
