(* ===== verification/Nat_Threads.thy ===== *)
theory Nat_Threads
  imports Udp_Nat
begin

text \<open>
  The UDP NAT (\<^verbatim>\<open>src/pkg/udp/udpproxy.go\<close>, \<^verbatim>\<open>src/pkg/udp/tproxy_udp.go\<close>) with its goroutines: one for every captured packet, the loop of a
  forwarded port, the cleanups, the read loops and \<open>Close\<close>. A goroutine is at one of the places between which others can run: the
  parts under the lock, and the calls outside of it. \<open>Udp_Nat\<close> has the same code run as a whole; a goroutine that runs alone does what it says
  (\<open>handle_alone\<close>).
\<close>

section \<open>Goroutines\<close>

text \<open>The packets of the capture loop are slices of its one buffer (\<open>data[0:n]\<close>), which the next read overwrites; the packet of a
  forwarded port stays until its loop is done with it.\<close>

datatype packetData = Captured nat | Owned "byte list"

definition payloadBytes :: "byte list \<Rightarrow> packetData \<Rightarrow> byte list" where
  "payloadBytes buf p = (case p of Captured n \<Rightarrow> take n buf | Owned d \<Rightarrow> d)"

text \<open>A packet on its way: from which client, to which address, and for a forwarded port its socket.\<close>

record natJob =
  j_src :: udpAddr
  j_dst :: udpAddr
  j_data :: packetData
  j_fwd :: "nat option"

datatype natThread =
    Arrived "byte list" u16 "byte list" u16 packetData \<comment> \<open>\<open>HandleUdp\<close> starts\<close>
  | Lookup natJob \<comment> \<open>before the table is read\<close>
  | Miss natJob \<comment> \<open>there was no entry; before \<open>ListenUDP\<close>\<close>
  | Insert natJob udpNat \<comment> \<open>before the new entry is stored\<close>
  | Spawn natJob nat \<comment> \<open>before its read loop is started\<close>
  | Send1 natJob nat \<comment> \<open>before the packet is sent, or counted (forwarded)\<close>
  | Send2 natJob nat \<comment> \<open>before it is counted, or sent (forwarded)\<close>
  | Scan \<comment> \<open>\<open>FreeIdleSockets\<close> starts\<close>
  | Closing "addrKey list" \<comment> \<open>between its two loops\<close>

text \<open>What the system says to one step: the time, the outcome of \<open>ListenUDP\<close>, and what discovery gives.\<close>

record natEnv =
  ev_now :: int
  ev_listen :: "goerr + int"
  ev_disc :: "(goerr + udpAddr) option"

definition newEntry :: "natEnv \<Rightarrow> natJob \<Rightarrow> nat \<Rightarrow> int \<Rightarrow> udpNat option" where
  "newEntry e j sk port = (case j_fwd j of
     Some _ \<Rightarrow> Some ((newUdpNat sk (j_dst j) None port)\<lparr>n_Open := ev_now e\<rparr>)
   | None \<Rightarrow> (case ev_disc e of
       Some (Inl _) \<Rightarrow> None
     | Some (Inr a) \<Rightarrow> Some (newUdpNat sk a (Some (j_dst j)) port)
     | None \<Rightarrow> Some (newUdpNat sk (j_dst j) None port)))"

definition countSent :: "int \<Rightarrow> byte list \<Rightarrow> udpNat \<Rightarrow> udpNat" where
  "countSent now data nt = nt\<lparr>n_LastWrite := now, n_SentPackets := n_SentPackets nt + 1, n_SentBytes := n_SentBytes nt + int (length data)\<rparr>"

text \<open>One step of a goroutine: what becomes of it, and of the listener. \<open>None\<close> is a panic.\<close>

fun natExec :: "natEnv \<Rightarrow> byte list \<Rightarrow> natThread \<Rightarrow> udpListener \<Rightarrow> (natThread list \<times> udpListener) option" where
  "natExec e buf (Arrived da dp la lp d) g =
     (if dp = 1900 \<or> dp = 5353 \<or> dp = 123 then Some ([], g)
      else case da of
          [] \<Rightarrow> None
        | b # _ \<Rightarrow>
            if b = 230 then Some ([], g)
            else if dp = 53 \<and> l_DNSHandler g then Some ([], g\<lparr>l_dns := l_dns g @ [(da, dp, la, lp, payloadBytes buf d)]\<rparr>)
            else Some ([Lookup \<lparr>j_src = \<lparr>ua_IP = la, ua_Port = int (unat lp)\<rparr>, j_dst = \<lparr>ua_IP = da, ua_Port = int (unat dp)\<rparr>,
                                 j_data = d, j_fwd = None\<rparr>], g))"
| "natExec e buf (Lookup j) g = (case map_of (l_ActiveUdp g) (addrString (j_src j)) of
     Some n \<Rightarrow> Some ([Send1 j n], g)
   | None \<Rightarrow> Some ([Miss j], g))"
| "natExec e buf (Miss j) g = (case ev_listen e of
     Inl _ \<Rightarrow> Some (if j_fwd j = None then [Scan] else [], g)
   | Inr port \<Rightarrow> (let (sk, g) = openSock port g in case newEntry e j sk port of
       None \<Rightarrow> Some ([], g)
     | Some nt \<Rightarrow> Some ([Insert j nt], g)))"
| "natExec e buf (Insert j nt) g =
     (let n = length (l_nats g) in
      Some ([Spawn j n], g\<lparr>l_nats := l_nats g @ [nt], l_ActiveUdp := AList.update (addrString (j_src j)) n (l_ActiveUdp g)\<rparr>))"
| "natExec e buf (Spawn j n) g =
     Some ([Send1 j n], g\<lparr>l_loops := l_loops g @ [\<lparr>rl_nat = n, rl_localAddr = j_src j,
       rl_acceptConn = (case j_fwd j of None \<Rightarrow> n_UDP (l_nats g ! n) | Some u \<Rightarrow> u), rl_writer = (j_fwd j = None \<and> l_writer g)\<rparr>]\<rparr>)"
| "natExec e buf (Send1 j n) g =
     (let data = payloadBytes buf (j_data j) in
      Some ([Send2 j n], case j_fwd j of
          None \<Rightarrow> sendOn (n_UDP (l_nats g ! n)) data (n_DestAddr (l_nats g ! n)) g
        | Some _ \<Rightarrow> updNat n (\<lambda>nt. (countSent (ev_now e) data nt)\<lparr>n_LastRemoteIP := ua_IP (j_src j),
            n_LastsRemotePort := word_of_int (ua_Port (j_src j))\<rparr>) g))"
| "natExec e buf (Send2 j n) g =
     (let data = payloadBytes buf (j_data j) in
      Some ([], case j_fwd j of
          None \<Rightarrow> updNat n (\<lambda>nt. (countSent (ev_now e) data nt)\<lparr>n_Open := ev_now e\<rparr>) g
        | Some _ \<Rightarrow> sendOn (n_UDP (l_nats g ! n)) data (j_dst j) g))"
| "natExec e buf Scan g = (let (ks, g) = idleScan (ev_now e) g in Some ([Closing ks], g))"
| "natExec e buf (Closing ks) g = map_option (Pair []) (idleClose ks g)"

section \<open>The system\<close>

record natSys =
  ns_g :: udpListener
  ns_buf :: "byte list"
  ns_threads :: "natThread list"
  ns_closed :: bool
  ns_crashed :: bool

definition natStart :: "bool \<Rightarrow> bool \<Rightarrow> natSys" where
  "natStart dns writer = \<lparr>ns_g = udp_New dns writer, ns_buf = replicate 1600 0, ns_threads = [], ns_closed = False, ns_crashed = False\<rparr>"

fun isClosing :: "natThread \<Rightarrow> bool" where
  "isClosing (Closing _) = True"
| "isClosing _ = False"

text \<open>A step of the system. \<open>safe\<close> restricts the runs to those without two things: packets with an empty destination address, and
  a cleanup that starts while another one is between its loops.\<close>

inductive natStep :: "bool \<Rightarrow> natSys \<Rightarrow> natSys \<Rightarrow> bool" for safe where
  packet: "\<not> ns_crashed s \<Longrightarrow> length data \<le> 1600 \<Longrightarrow> (safe \<longrightarrow> da \<noteq> []) \<Longrightarrow>
    natStep safe s (s\<lparr>ns_buf := overwrite (ns_buf s) 0 data, ns_threads := ns_threads s @ [Arrived da dp la lp (Captured (length data))]\<rparr>)"
| forward: "\<not> ns_crashed s \<Longrightarrow>
    natStep safe s (s\<lparr>ns_threads := ns_threads s @ [Lookup \<lparr>j_src = src, j_dst = remoteA, j_data = Owned (take 9000 data), j_fwd = Some udpL\<rparr>]\<rparr>)"
| periodic: "\<not> ns_crashed s \<Longrightarrow> natStep safe s (s\<lparr>ns_threads := ns_threads s @ [Scan]\<rparr>)"
| run: "\<not> ns_crashed s \<Longrightarrow> ns_threads s = before @ t # after \<Longrightarrow> (safe \<longrightarrow> t = Scan \<longrightarrow> \<not> list_ex isClosing (before @ after)) \<Longrightarrow>
    natExec e (ns_buf s) t (ns_g s) = Some (ts, g) \<Longrightarrow> natStep safe s (s\<lparr>ns_g := g, ns_threads := before @ ts @ after\<rparr>)"
| panic: "\<not> ns_crashed s \<Longrightarrow> ns_threads s = before @ t # after \<Longrightarrow> natExec e (ns_buf s) t (ns_g s) = None \<Longrightarrow>
    natStep safe s (s\<lparr>ns_crashed := True\<rparr>)"
| reply: "\<not> ns_crashed s \<Longrightarrow> l \<in> set (l_loops (ns_g s)) \<Longrightarrow> natStep safe s (s\<lparr>ns_g := remoteRead now l p a (ns_g s)\<rparr>)"
| close: "\<not> ns_crashed s \<Longrightarrow> natStep safe s (s\<lparr>ns_g := udp_Close (ns_g s), ns_closed := True\<rparr>)"

definition natReach :: "bool \<Rightarrow> natSys \<Rightarrow> bool" where
  "natReach safe s \<longleftrightarrow> (\<exists>dns writer. (natStep safe)\<^sup>*\<^sup>* (natStart dns writer) s)"

section \<open>The invariant\<close>

text \<open>Sockets that a goroutine opened and did not store yet, and for which client an entry was made: by its read loop, or by the
  goroutine that is about to start it.\<close>

fun heldSock :: "natThread \<Rightarrow> nat list" where
  "heldSock (Insert j nt) = [n_UDP nt]"
| "heldSock _ = []"

fun spawning :: "natThread \<Rightarrow> (nat \<times> addrKey) list" where
  "spawning (Spawn j n) = [(n, addrString (j_src j))]"
| "spawning _ = []"

definition owners :: "natSys \<Rightarrow> (nat \<times> addrKey) set" where
  "owners s = (\<lambda>l. (rl_nat l, addrString (rl_localAddr l))) ` set (l_loops (ns_g s)) \<union> set (concat (map spawning (ns_threads s)))"

definition held :: "natSys \<Rightarrow> nat list" where
  "held s = concat (map heldSock (ns_threads s))"

definition held_ok :: "natSys \<Rightarrow> bool" where
  "held_ok s \<longleftrightarrow> distinct (map n_UDP (l_nats (ns_g s)) @ held s)
     \<and> (\<forall>sk \<in> set (held s). sk < length (l_socks (ns_g s)) \<and> sk_open (l_socks (ns_g s) ! sk))"

definition owned :: "natSys \<Rightarrow> bool" where
  "owned s \<longleftrightarrow> single_valued (owners s) \<and> (\<forall>(n, k) \<in> owners s. n < length (l_nats (ns_g s)))
     \<and> (\<forall>(k, n) \<in> set (l_ActiveUdp (ns_g s)). (n, k) \<in> owners s)"

definition cleanups_ok :: "natSys \<Rightarrow> bool" where
  "cleanups_ok s \<longleftrightarrow> length (filter isClosing (ns_threads s)) \<le> 1
     \<and> (\<forall>ks. Closing ks \<in> set (filter isClosing (ns_threads s)) \<longrightarrow> distinct ks \<and> set ks \<subseteq> fst ` set (l_ActiveUdp (ns_g s)))"

fun addressed :: "natThread \<Rightarrow> bool" where
  "addressed (Arrived da dp la lp d) = (da \<noteq> [])"
| "addressed _ = True"

definition natInv :: "bool \<Rightarrow> natSys \<Rightarrow> bool" where
  "natInv safe s \<longleftrightarrow> nat_wf (ns_g s) \<and> (\<not> ns_closed s \<longrightarrow> nat_live (ns_g s)) \<and> held_ok s \<and> owned s
     \<and> (safe \<longrightarrow> cleanups_ok s \<and> list_all addressed (ns_threads s) \<and> \<not> ns_crashed s)"

lemma isClosing_iff: "isClosing t \<longleftrightarrow> (\<exists>ks. t = Closing ks)"
  by (cases t) auto

lemma held_same:
  assumes "held_ok s" "sameTable (ns_g s) (ns_g s')" "held s' = held s"
  shows "held_ok s'"
proof -
  have "map n_UDP (l_nats (ns_g s')) = map n_UDP (l_nats (ns_g s))" "length (l_socks (ns_g s)) \<le> length (l_socks (ns_g s'))"
    "\<forall>i < length (l_socks (ns_g s)). sk_open (l_socks (ns_g s') ! i) = sk_open (l_socks (ns_g s) ! i)"
    using assms(2) by (simp_all add: sameTable_def)
  then show ?thesis using assms(1) unfolding held_ok_def assms(3) by fastforce
qed

text \<open>Steps that touch neither the table nor what the goroutines hold.\<close>

lemma natInv_quiet:
  assumes inv: "natInv safe s" and same: "sameTable (ns_g s) (ns_g s')"
    and "held s' = held s" "concat (map spawning (ns_threads s')) = concat (map spawning (ns_threads s))"
    and "filter isClosing (ns_threads s') = filter isClosing (ns_threads s)" "safe \<longrightarrow> list_all addressed (ns_threads s')"
    and "ns_closed s' = ns_closed s" "ns_crashed s' = ns_crashed s"
  shows "natInv safe s'"
proof -
  have o: "owners s' = owners s" using assms(4) same by (simp add: owners_def sameTable_def)
  have "held_ok s'" using held_same [OF _ same assms(3)] inv by (simp add: natInv_def)
  moreover have "owned s'" using inv same sameTable_nats(1) [OF same] by (simp add: natInv_def owned_def o sameTable_def)
  moreover have "cleanups_ok s' = cleanups_ok s" using same by (simp add: cleanups_ok_def assms(5) sameTable_def)
  ultimately show ?thesis
    using inv assms(6-8) sameTable_wf [OF same] sameTable_live [OF same] by (auto simp: natInv_def)
qed

lemma natInv_open:
  assumes inv: "natInv safe s" and t: "ns_threads s = before @ Miss j # after" and new: "openSock port (ns_g s) = (sk, g1)" "n_UDP nt = sk"
  shows "natInv safe (s\<lparr>ns_g := g1, ns_threads := before @ [Insert j nt] @ after\<rparr>)" (is "natInv safe ?s'")
proof -
  note same = openSock_same [OF new(1)]
  have sk: "sk = length (l_socks (ns_g s))" "sk < length (l_socks g1)" "sk_open (l_socks g1 ! sk)" "l_nats g1 = l_nats (ns_g s)"
    "l_loops g1 = l_loops (ns_g s)"
    using new(1) by (auto simp: openSock_def)
  have wf: "nat_wf (ns_g s)" and h: "held_ok s" using inv by (simp_all add: natInv_def)
  define hb ha where "hb = concat (map heldSock before)" and "ha = concat (map heldSock after)"
  have hs: "held s = hb @ ha" "held ?s' = hb @ sk # ha" by (simp_all add: held_def t hb_def ha_def new(2))
  have "sk \<notin> set (map n_UDP (l_nats (ns_g s)) @ hb @ ha)" using wf h by (auto simp: nat_wf_def held_ok_def hs sk(1))
  then have "held_ok ?s'"
    using h same sk(2,3) unfolding held_ok_def hs by (auto simp: sk(4) sameTable_def dest!: bspec intro: less_le_trans)
  moreover have "owners ?s' = owners s" by (simp add: owners_def t sk(5))
  then have "owned ?s'" using inv same by (simp add: natInv_def owned_def sk(4) sameTable_def)
  moreover have "cleanups_ok ?s' = cleanups_ok s" using same by (simp add: cleanups_ok_def t sameTable_def)
  ultimately show ?thesis
    using inv sameTable_wf [OF same] sameTable_live [OF same] by (auto simp: natInv_def t)
qed

lemma update_entry:
  assumes "distinct (map fst xs)" "distinct (map snd xs)" "n \<notin> snd ` set xs"
  shows "distinct (map snd (AList.update k n xs))" "set (AList.update k n xs) = insert (k, n) {x \<in> set xs. fst x \<noteq> k}"
proof -
  have sub: "snd ` set (AList.update k n xs) \<subseteq> insert n (snd ` set xs)" for xs :: "('a \<times> 'b) list" by (induction xs) auto
  show "distinct (map snd (AList.update k n xs))"
    using assms(2,3)
  proof (induction xs)
    case (Cons x xs)
    then show ?case using sub [of xs] by (cases x) auto
  qed simp
  show "set (AList.update k n xs) = insert (k, n) {x \<in> set xs. fst x \<noteq> k}" using assms(1) by (induction xs) force+
qed

lemma natInv_insert:
  assumes inv: "natInv safe s" and t: "ns_threads s = before @ Insert j nt # after"
    and g1: "g1 = (ns_g s)\<lparr>l_nats := l_nats (ns_g s) @ [nt],
      l_ActiveUdp := AList.update (addrString (j_src j)) (length (l_nats (ns_g s))) (l_ActiveUdp (ns_g s))\<rparr>"
  shows "natInv safe (s\<lparr>ns_g := g1, ns_threads := before @ [Spawn j (length (l_nats (ns_g s)))] @ after\<rparr>)" (is "natInv safe ?s'")
proof -
  define N A k where "N = l_nats (ns_g s)" and "A = l_ActiveUdp (ns_g s)" and "k = addrString (j_src j)"
  have wf: "nat_wf (ns_g s)" and h: "held_ok s" and ow: "owned s" using inv by (simp_all add: natInv_def)
  have fresh: "length N \<notin> snd ` set A" using wf by (auto simp: nat_wf_def N_def A_def)
  have A': "distinct (map snd (AList.update k (length N) A))" "set (AList.update k (length N) A) = insert (k, length N) {x \<in> set A. fst x \<noteq> k}"
    using update_entry [OF _ _ fresh] wf by (simp_all add: nat_wf_def A_def)
  have f: "l_ActiveUdp g1 = AList.update k (length N) A" "l_nats g1 = N @ [nt]" "l_socks g1 = l_socks (ns_g s)" "l_loops g1 = l_loops (ns_g s)"
    by (simp_all add: g1 N_def A_def k_def)
  define hb ha where "hb = concat (map heldSock before)" and "ha = concat (map heldSock after)"
  have hs: "held s = hb @ n_UDP nt # ha" "held ?s' = hb @ ha" by (simp_all add: held_def t hb_def ha_def)
  have nt: "n_UDP nt < length (l_socks (ns_g s))" "sk_open (l_socks (ns_g s) ! n_UDP nt)" "n_UDP nt \<notin> set (map n_UDP N)"
    using h by (auto simp: held_ok_def hs N_def)
  have wf': "nat_wf g1"
    using wf nt A' by (auto simp: nat_wf_def f N_def A_def distinct_update less_Suc_eq)
  have so: "sockOf g1 n = (if n = length N then n_UDP nt else sockOf (ns_g s) n)" if "n < Suc (length N)" for n
    using that by (auto simp: sockOf_def f N_def nth_append)
  have live: "nat_live g1" if "nat_live (ns_g s)"
    unfolding nat_live_def
  proof
    fix n assume "n \<in> snd ` set (l_ActiveUdp g1)"
    then consider "n = length N" | k' where "(k', n) \<in> set A" by (auto simp: f A')
    then show "sk_open (l_socks g1 ! sockOf g1 n)"
    proof cases
      case 1
      then show ?thesis using so [of n] nt(2) by (simp add: f)
    next
      case 2
      then have "n < length N" using nat_wfD(1) [OF wf] by (simp add: A_def N_def)
      moreover have "n \<in> snd ` set (l_ActiveUdp (ns_g s))" using 2 by (force simp: A_def)
      ultimately have "n < length N" "sk_open (l_socks (ns_g s) ! sockOf (ns_g s) n)" using that unfolding nat_live_def by blast+
      then show ?thesis using so [of n] by (simp add: f)
    qed
  qed
  have "held_ok ?s'" using h unfolding held_ok_def hs by (auto simp: f N_def)
  moreover have os: "owners ?s' = insert (length N, k) (owners s)" by (auto simp: owners_def t f N_def k_def)
  have "owned ?s'"
    using ow A'(2) unfolding owned_def os by (auto simp: f single_valued_def N_def A_def)
  moreover have "cleanups_ok s \<Longrightarrow> cleanups_ok ?s'"
    using A'(2) by (auto simp: cleanups_ok_def t f A_def) blast+
  ultimately show ?thesis using inv wf' live by (auto simp: natInv_def t N_def)
qed

lemma natInv_spawn:
  assumes inv: "natInv safe s" and t: "ns_threads s = before @ Spawn j n # after"
    and g1: "g1 = (ns_g s)\<lparr>l_loops := l_loops (ns_g s) @ [l]\<rparr>" "rl_nat l = n" "rl_localAddr l = j_src j"
  shows "natInv safe (s\<lparr>ns_g := g1, ns_threads := before @ [Send1 j n] @ after\<rparr>)" (is "natInv safe ?s'")
proof -
  have o: "owners ?s' = owners s" by (auto simp: owners_def t g1)
  have "held ?s' = held s" by (simp add: held_def t)
  then show ?thesis
    using inv unfolding natInv_def held_ok_def owned_def o cleanups_ok_def
    by (simp add: g1(1) t nat_wf_def nat_live_def sockOf_def)
qed

lemma natInv_scan:
  assumes inv: "natInv safe s" and t: "ns_threads s = before @ Scan # after" and sc: "idleScan now (ns_g s) = (ks, g1)"
    and alone: "safe \<longrightarrow> \<not> list_ex isClosing (before @ after)"
  shows "natInv safe (s\<lparr>ns_g := g1, ns_threads := before @ [Closing ks] @ after\<rparr>)" (is "natInv safe ?s'")
proof -
  note same = idleScan_same [OF sc]
  have o: "owners ?s' = owners s" using same by (simp add: owners_def t sameTable_def)
  have "held_ok ?s'" using held_same [of s ?s'] inv same by (simp add: natInv_def held_def t)
  moreover have "owned ?s'" unfolding owned_def o using inv same sameTable_nats(1) [OF same] by (simp add: natInv_def owned_def sameTable_def)
  moreover have "cleanups_ok ?s'" if safe
  proof -
    have "filter isClosing before = []" "filter isClosing after = []" using alone that by (auto simp: filter_empty_conv list_ex_iff)
    moreover have "distinct ks" "set ks \<subseteq> fst ` set (l_ActiveUdp (ns_g s))"
      using inv idleScan_keys [OF sc] by (auto simp: natInv_def nat_wf_def distinct_map_filter)
    ultimately show ?thesis using same by (simp add: cleanups_ok_def sameTable_def)
  qed
  ultimately show ?thesis
    using inv sameTable_wf [OF same] sameTable_live [OF same] by (auto simp: natInv_def t)
qed

text \<open>Closing sockets of entries leaves the sockets that goroutines hold alone.\<close>

lemma held_onlyClosed:
  assumes h: "held_ok s" and wf: "nat_wf (ns_g s)" and c: "onlyClosed (ns_g s) (sockOf (ns_g s) ` S) g1" "S \<subseteq> snd ` set (l_ActiveUdp (ns_g s))"
    and s': "ns_g s' = g1" "l_nats g1 = l_nats (ns_g s)" "held s' = held s"
  shows "held_ok s'"
proof -
  have "sk \<notin> sockOf (ns_g s) ` S" if "sk \<in> set (held s)" for sk
  proof
    assume "sk \<in> sockOf (ns_g s) ` S"
    then obtain k n where "(k, n) \<in> set (l_ActiveUdp (ns_g s))" "sk = sockOf (ns_g s) n" using c(2) by force
    then have "sk \<in> set (map n_UDP (l_nats (ns_g s)))" using nat_wfD(1) [OF wf] by (auto simp: sockOf_def)
    then show False using h that by (auto simp: held_ok_def)
  qed
  then show ?thesis using h c(1) by (simp add: held_ok_def s' onlyClosed_def)
qed

lemma natInv_closing:
  assumes inv: "natInv safe s" and t: "ns_threads s = before @ Closing ks # after" and c: "idleClose ks (ns_g s) = Some g1"
  shows "natInv safe (s\<lparr>ns_g := g1, ns_threads := before @ after\<rparr>)" (is "natInv safe ?s'")
proof -
  have wf: "nat_wf (ns_g s)" using inv by (simp add: natInv_def)
  note sp = idleClose_spec [OF c wf] and tab = idleClose_table [OF c wf]
  define S where "S = {n. \<exists>k. (k, n) \<in> set (l_ActiveUdp (ns_g s)) \<and> k \<in> set ks}"
  have "{sockOf (ns_g s) n | k n. (k, n) \<in> set (l_ActiveUdp (ns_g s)) \<and> k \<in> set ks} = sockOf (ns_g s) ` S" by (auto simp: S_def)
  then have cl: "onlyClosed (ns_g s) (sockOf (ns_g s) ` S) g1" "S \<subseteq> snd ` set (l_ActiveUdp (ns_g s))"
    using sp by (auto simp: S_def intro: rev_image_eqI)
  have h: "held_ok ?s'"
    by (rule held_onlyClosed [OF _ wf cl]) (use inv sp in \<open>simp_all add: natInv_def held_def t\<close>)
  have o: "owners ?s' = owners s" using sp by (simp add: owners_def t)
  have "owned ?s'" unfolding owned_def o using inv sp by (auto simp: natInv_def owned_def)
  moreover have "cleanups_ok ?s'" if safe
  proof -
    have "cleanups_ok s" using inv that by (simp add: natInv_def)
    then have "filter isClosing before = [] \<and> filter isClosing after = []" by (simp add: cleanups_ok_def t)
    then show ?thesis by (simp add: cleanups_ok_def)
  qed
  ultimately show ?thesis using inv tab h by (auto simp: natInv_def t)
qed

lemma udp_Close_spec:
  "l_ActiveUdp (udp_Close g) = l_ActiveUdp g \<and> l_nats (udp_Close g) = l_nats g \<and> l_loops (udp_Close g) = l_loops g
    \<and> onlyClosed g (sockOf g ` snd ` set (l_ActiveUdp g)) (udp_Close g)"
proof -
  define cl where "cl = fold (\<lambda>(k :: addrKey, n) g. closeSock (n_UDP (l_nats g ! n)) g)"
  have "l_ActiveUdp (cl xs h) = l_ActiveUdp h \<and> l_nats (cl xs h) = l_nats h \<and> l_loops (cl xs h) = l_loops h
      \<and> onlyClosed h (sockOf h ` snd ` set xs) (cl xs h)" for xs h
  proof (induction xs arbitrary: h)
    case (Cons x xs)
    define h1 where "h1 = closeSock (n_UDP (l_nats h ! snd x)) h"
    have h1: "l_ActiveUdp h1 = l_ActiveUdp h" "l_nats h1 = l_nats h" "l_loops h1 = l_loops h" "sockOf h1 = sockOf h"
      by (simp_all add: h1_def closeSock_def sockOf_def fun_eq_iff)
    have "onlyClosed h {sockOf h (snd x)} h1"
      unfolding onlyClosed_def
    proof (intro conjI allI impI)
      fix i assume "i < length (l_socks h)"
      then show "sk_open (l_socks h1 ! i) \<longleftrightarrow> sk_open (l_socks h ! i) \<and> i \<notin> {sockOf h (snd x)}"
        by (cases "i = sockOf h (snd x)") (simp_all add: h1_def closeSock_def sockOf_def)
    qed (simp add: h1_def closeSock_def)
    moreover have "cl (x # xs) h = cl xs h1" by (cases x) (simp add: cl_def h1_def)
    ultimately show ?case using Cons.IH [of h1] h1 by (auto simp: onlyClosed_def)
  qed (simp add: cl_def onlyClosed_def)
  then show ?thesis by (simp add: udp_Close_def cl_def)
qed

lemma natInv_close:
  assumes "natInv safe s"
  shows "natInv safe (s\<lparr>ns_g := udp_Close (ns_g s), ns_closed := True\<rparr>)" (is "natInv safe ?s'")
proof -
  note c = udp_Close_spec [of "ns_g s"]
  have wf: "nat_wf (ns_g s)" using assms by (simp add: natInv_def)
  have "nat_wf (udp_Close (ns_g s))" using wf c by (simp add: nat_wf_def onlyClosed_def)
  moreover have "held_ok ?s'"
    by (rule held_onlyClosed [OF _ wf, where S = "snd ` set (l_ActiveUdp (ns_g s))" and ?g1.0 = "udp_Close (ns_g s)"]) (use assms c in \<open>simp_all add: natInv_def held_def\<close>)
  moreover have o: "owners ?s' = owners s" using c by (simp add: owners_def)
  have "owned ?s'" unfolding owned_def o using assms c by (simp add: natInv_def owned_def)
  ultimately show ?thesis using assms c by (simp add: natInv_def cleanups_ok_def)
qed

text \<open>A goroutine, at any place.\<close>

lemma natInv_run:
  assumes inv: "natInv safe s" and t: "ns_threads s = before @ t # after"
    and alone: "safe \<longrightarrow> t = Scan \<longrightarrow> \<not> list_ex isClosing (before @ after)" and ex: "natExec e (ns_buf s) t (ns_g s) = Some (ts, g)"
  shows "natInv safe (s\<lparr>ns_g := g, ns_threads := before @ ts @ after\<rparr>)"
proof -
  have adr: "safe \<longrightarrow> list_all addressed before \<and> list_all addressed after" using inv t by (simp add: natInv_def)
  have quiet: "natInv safe (s\<lparr>ns_g := g, ns_threads := before @ ts @ after\<rparr>)"
    if "sameTable (ns_g s) g" "concat (map heldSock ts) = heldSock t" "concat (map spawning ts) = spawning t"
      "filter isClosing ts = filter isClosing [t]" "list_all addressed ts"
    by (rule natInv_quiet [OF inv]) (use that adr t in \<open>simp_all add: held_def\<close>)
  show ?thesis
  proof (cases t)
    case (Arrived da dp la lp d)
    have "sameTable (ns_g s) ((ns_g s)\<lparr>l_dns := x\<rparr>)" for x by (simp add: sameTable_def)
    then show ?thesis using quiet ex Arrived by (auto split: if_splits list.splits)
  next
    case (Lookup j)
    then show ?thesis using quiet ex by (auto split: option.splits)
  next
    case (Miss j)
    show ?thesis
    proof (cases "ev_listen e")
      case (Inl x)
      then show ?thesis using quiet ex Miss by (auto split: if_splits)
    next
      case (Inr port)
      obtain sk g1 where o: "openSock port (ns_g s) = (sk, g1)" by (cases "openSock port (ns_g s)")
      show ?thesis
      proof (cases "newEntry e j sk port")
        case None
        then show ?thesis using quiet ex Miss Inr o openSock_same [OF o] by auto
      next
        case (Some nt)
        then have "n_UDP nt = sk" by (auto simp: newEntry_def newUdpNat_def split: option.splits sum.splits)
        then show ?thesis using natInv_open [OF inv t [unfolded Miss] o] ex Miss Inr o Some by auto
      qed
    qed
  next
    case (Insert j nt)
    then show ?thesis using natInv_insert [OF inv t [unfolded Insert] refl] ex by (auto simp: Let_def)
  next
    case (Spawn j n)
    then show ?thesis using natInv_spawn [OF inv t [unfolded Spawn] refl] ex by auto
  next
    case (Send1 j n)
    have "sameTable (ns_g s) g" using ex Send1 by (auto simp: Let_def countSent_def sendOn_same intro!: updNat_same split: option.splits)
    then show ?thesis using quiet ex Send1 by (auto simp: Let_def)
  next
    case (Send2 j n)
    have "sameTable (ns_g s) g" using ex Send2 by (auto simp: Let_def countSent_def sendOn_same intro!: updNat_same split: option.splits)
    then show ?thesis using quiet ex Send2 by (auto simp: Let_def)
  next
    case Scan
    then show ?thesis using natInv_scan [OF inv t [unfolded Scan]] alone ex by (auto split: prod.splits)
  next
    case (Closing ks)
    then show ?thesis using natInv_closing [OF inv t [unfolded Closing]] ex by auto
  qed
qed

text \<open>Where a goroutine panics.\<close>

lemma natExec_None:
  "natExec e buf t g = None \<Longrightarrow> \<not> addressed t \<or> (\<exists>ks. t = Closing ks \<and> \<not> (distinct ks \<and> set ks \<subseteq> fst ` set (l_ActiveUdp g)))"
  by (cases t) (auto simp: idleClose_None Let_def case_prod_beta split: if_splits list.splits option.splits sum.splits)

lemma natInv_step: "natStep safe s s' \<Longrightarrow> natInv safe s \<Longrightarrow> natInv safe s'"
proof (induction rule: natStep.induct)
  case (run s before t after e ts g)
  then show ?case by (intro natInv_run)
next
  case (panic s before t after e)
  have "\<not> safe"
  proof
    assume safe
    then have "addressed t" "cleanups_ok s" using panic(2,4) by (simp_all add: natInv_def)
    then show False using natExec_None [OF panic(3)] panic(2) by (auto simp: cleanups_ok_def)
  qed
  then show ?case using panic(4) by (simp add: natInv_def held_ok_def held_def owned_def owners_def)
next
  case (reply s l now p a)
  show ?case by (rule natInv_quiet [OF reply(3)]) (use reply(3) remoteRead_same in \<open>simp_all add: held_def natInv_def\<close>)
next
  case (close s)
  then show ?case by (intro natInv_close)
next
  case (packet s data da dp la lp)
  show ?case by (rule natInv_quiet [OF packet(4)]) (use packet in \<open>simp_all add: held_def natInv_def\<close>)
next
  case (forward s src remoteA data udpL)
  show ?case by (rule natInv_quiet [OF forward(2)]) (use forward in \<open>simp_all add: held_def natInv_def\<close>)
next
  case (periodic s)
  show ?case by (rule natInv_quiet [OF periodic(2)]) (use periodic in \<open>simp_all add: held_def natInv_def\<close>)
qed

lemma natReach_inv:
  assumes "natReach safe s"
  shows "natInv safe s"
proof -
  obtain dns writer where "(natStep safe)\<^sup>*\<^sup>* (natStart dns writer) s" using assms by (auto simp: natReach_def)
  then show ?thesis
  proof (induction rule: rtranclp_induct)
    case base
    show ?case
      by (simp add: natStart_def udp_New_def natInv_def nat_wf_def nat_live_def held_ok_def held_def owned_def owners_def cleanups_ok_def)
  qed (rule natInv_step)
qed

section \<open>A goroutine alone\<close>

text \<open>Up to \<open>k\<close> steps of one goroutine, with the same answers of the system, while nothing else runs.\<close>

fun natAlone :: "natEnv \<Rightarrow> byte list \<Rightarrow> nat \<Rightarrow> natThread list \<times> udpListener \<Rightarrow> (natThread list \<times> udpListener) option" where
  "natAlone e buf (Suc k) (t # ts, g) = do { (ts', g) \<leftarrow> natExec e buf t g; natAlone e buf k (ts' @ ts, g) }"
| "natAlone e buf k x = Some x"

lemma natExec_one: "natExec e buf t g = Some (ts, h) \<Longrightarrow> length ts \<le> 1"
  by (cases t) (auto simp: Let_def case_prod_beta split: if_splits list.splits option.splits sum.splits)

lemma natAlone_steps:
  assumes "natAlone e (ns_buf s) k (ns_threads s, ns_g s) = Some (ts, g)" "length (ns_threads s) \<le> 1" "\<not> ns_crashed s"
  shows "(natStep safe)\<^sup>*\<^sup>* s (s\<lparr>ns_threads := ts, ns_g := g\<rparr>)"
  using assms
proof (induction k arbitrary: s)
  case 0
  then have "s\<lparr>ns_threads := ts, ns_g := g\<rparr> = s" by (cases s) simp
  then show ?case by simp
next
  case (Suc k)
  show ?case
  proof (cases "ns_threads s")
    case (Cons t rest)
    then have t: "ns_threads s = [t]" using Suc.prems(2) by simp
    obtain ts1 g1 where x: "natExec e (ns_buf s) t (ns_g s) = Some (ts1, g1)" "natAlone e (ns_buf s) k (ts1, g1) = Some (ts, g)"
      using Suc.prems(1) by (auto simp: t bind_eq_Some_conv)
    have "natStep safe s (s\<lparr>ns_g := g1, ns_threads := [] @ ts1 @ []\<rparr>)"
      by (rule natStep.run [OF Suc.prems(3) _ _ x(1)]) (simp_all add: t)
    moreover have "(natStep safe)\<^sup>*\<^sup>* (s\<lparr>ns_g := g1, ns_threads := ts1\<rparr>) (s\<lparr>ns_threads := ts, ns_g := g\<rparr>)"
      using Suc.IH [of "s\<lparr>ns_g := g1, ns_threads := ts1\<rparr>"] x(2) natExec_one [OF x(1)] Suc.prems(3) by simp
    ultimately show ?thesis by (simp add: converse_rtranclp_into_rtranclp)
  qed (use Suc.prems(1) in \<open>cases s; simp\<close>)
qed

lemma upd_sock: "n_UDP (l_nats (updNat n f g) ! n) = n_UDP (l_nats g ! n)" if "\<And>nt. n_UDP (f nt) = n_UDP nt"
  by (cases "n < length (l_nats g)") (simp_all add: updNat_def that list_update_beyond)

text \<open>\<open>HandleUdp\<close> and the round of \<open>forwardReadLoop\<close>, as \<open>Udp_Nat\<close> has them, are their goroutines running alone.\<close>

lemma natAlone_done: "map_option (Pair []) x \<bind> natAlone e buf k = map_option (Pair []) x"
  by (cases x; cases k) simp_all

lemma handle_alone:
  "natAlone \<lparr>ev_now = now, ev_listen = listen, ev_disc = disc\<rparr> buf 7 ([Arrived da dp la lp d], g)
     = map_option (Pair []) (HandleUdp disc now listen da dp la lp (payloadBytes buf d) g)"
proof -
  have n: "(7::nat) = Suc (Suc (Suc (Suc (Suc (Suc (Suc 0))))))" by simp
  show ?thesis
    unfolding n
    by (auto simp: HandleUdp_def handleMiss_def natSend_def addNat_def openSock_def newEntry_def newUdpNat_def countSent_def
        FreeIdleSockets_def natAlone_done Let_def case_prod_beta split: list.splits option.splits sum.splits)
qed

lemma forward_alone:
  "natAlone \<lparr>ev_now = now, ev_listen = listen, ev_disc = disc\<rparr> buf 6
      ([Lookup \<lparr>j_src = src, j_dst = remoteA, j_data = Owned (take 9000 packet), j_fwd = Some udpL\<rparr>], g)
     = Some ([], forwardRead now listen remoteA udpL packet src g)"
proof -
  have n: "(6::nat) = Suc (Suc (Suc (Suc (Suc (Suc 0)))))" by simp
  show ?thesis
    unfolding n
    by (auto simp: forwardRead_def addNat_def openSock_def newEntry_def newUdpNat_def countSent_def upd_sock payloadBytes_def
        Let_def case_prod_beta split: option.splits sum.splits)
qed

section \<open>Properties\<close>



text \<open>A new entry is idle until its first packet was counted: its \<open>LastWrite\<close> is the zero time. A cleanup between these steps closes
  the socket of a client that has just come, and drops its entry; the goroutine goes on with the closed socket.\<close>

lemma new_entry_dropped:
  assumes "n_LastWrite nt = 0" "l_ConnTimeout g < t0" "l_ConnTimeout g < 2 ^ 63 - 1"
    and "natExec e buf (Insert j nt) g = Some (ts, g1)" "ev_now e' = t0" "natExec e' buf Scan g1 = Some ([Closing ks], g2)"
  shows "addrString (j_src j) \<in> set ks"
proof -
  have A: "l_ActiveUdp g1 = AList.update (addrString (j_src j)) (length (l_nats g)) (l_ActiveUdp g)" "l_nats g1 = l_nats g @ [nt]"
    "l_ConnTimeout g1 = l_ConnTimeout g"
    using assms(4) by (auto simp: Let_def)
  have "map_of (l_ActiveUdp g1) (addrString (j_src j)) = Some (length (l_nats g))" by (simp add: A update_conv')
  then have "(addrString (j_src j), length (l_nats g)) \<in> set (l_ActiveUdp g1)" by (rule map_of_SomeD)
  moreover have "idle t0 g1 (length (l_nats g))" using assms(1-3) by (simp add: idle_def A timeSub_def)
  moreover have "ks = map fst (filter (\<lambda>(k, n). idle t0 g1 n) (l_ActiveUdp g1))"
    using assms(5,6) idleScan_keys [of t0 g1] by (auto split: prod.splits)
  ultimately show ?thesis by force
qed

text \<open>The capture loop reads the next packet into the buffer that the goroutine of the packet before it still has to send.\<close>

lemma captured_overwritten:
  assumes "length buf = 1600" "length data \<le> 1600" "n \<le> length data"
  shows "payloadBytes (overwrite buf 0 data) (Captured n) = take n data"
proof -
  have "take (length data) (overwrite buf 0 data) = data" using assms(1,2) take_overwrite_through [of 0 data buf] by simp
  then have "take n (overwrite buf 0 data) = take n data" using assms(3) by (metis min.absorb1 take_take)
  then show ?thesis by (simp add: payloadBytes_def)
qed

end
