(* ===== verification/Dns.thy ===== *)
theory Dns
  imports Udp_Oob "HOL-Library.AList"
begin

text \<open>
  \<^verbatim>\<open>src/pkg/dns/\<close> \<open>dns.go\<close> and \<open>dns_http.go\<close>: a DNS proxy that forwards queries, answers those for local domains, keeps
  the names of the addresses that it saw, and serves DNS over TCP, over HTTP and for captured packets.

  The package \<open>miekg/dns\<close> is not part of the sources: packing, unpacking, replies and the exchange with a nameserver
  are the fields of \<open>dnsLib\<close>. \<open>PackBuffer\<close> gets a buffer and gives the packed message and what the buffer then holds: it packs into the buffer
  or, for a message that may not fit, into one of its own. Of a message the model has the fields that the code uses. The entries of
  \<open>dnsByName\<close> and \<open>dnsByAddr\<close> are pointers to shared \<open>DnsEntry\<close> values: indices into \<open>d_entries\<close>. The time is a
  parameter of each operation. \<open>None\<close> is a panic, or a call that does not return.
\<close>

section \<open>Messages\<close>

abbreviation TypeA :: u16 where "TypeA \<equiv> 1"
abbreviation TypeAAAA :: u16 where "TypeAAAA \<equiv> 28"
abbreviation RcodeSuccess :: int where "RcodeSuccess \<equiv> 0"
abbreviation RcodeFormatError :: int where "RcodeFormatError \<equiv> 1"
abbreviation RcodeServerFailure :: int where "RcodeServerFailure \<equiv> 2"
abbreviation RcodeNameError :: int where "RcodeNameError \<equiv> 3"
abbreviation RcodeNotImplemented :: int where "RcodeNotImplemented \<equiv> 4"
abbreviation RcodeRefused :: int where "RcodeRefused \<equiv> 5"
abbreviation OpcodeQuery :: int where "OpcodeQuery \<equiv> 0"

record rr =
  rr_Name :: string
  rr_Rrtype :: u16
  rr_Ttl :: u32
  rr_IP :: "byte list" \<comment> \<open>of an A or AAAA record\<close>

record dnsMsg =
  q_Id :: u16
  q_Opcode :: int
  q_Rcode :: int
  q_Compress :: bool
  q_Question :: "(string \<times> u16) list"
  q_Answer :: "rr list"

record dnsLib =
  lib_Unpack :: "byte list \<Rightarrow> goerr option \<times> dnsMsg"
  lib_Pack :: "dnsMsg \<Rightarrow> byte list"
  lib_PackBuffer :: "dnsMsg \<Rightarrow> byte list \<Rightarrow> goerr option \<times> byte list \<times> byte list" \<comment> \<open>error, message, buffer\<close>
  lib_SetReply :: "dnsMsg \<Rightarrow> dnsMsg"
  lib_Exchange :: "dnsMsg \<Rightarrow> string \<Rightarrow> goerr + dnsMsg"

definition SetRcode :: "dnsLib \<Rightarrow> dnsMsg \<Rightarrow> int \<Rightarrow> dnsMsg" where
  "SetRcode lib req code = (lib_SetReply lib req)\<lparr>q_Rcode := code\<rparr>"

section \<open>State\<close>

record dnsEntry =
  e_ts :: int
  e_Name :: string
  e_IP :: "byte list"
  e_Count :: int
  e_RCount :: int
  e_Lat :: int

text \<open>\<open>net.IP.String\<close>, the key of an address, shows the 4-byte form if there is one.\<close>

definition ipString :: "byte list \<Rightarrow> byte list" where
  "ipString ip = (case To4 ip of Some v \<Rightarrow> v | None \<Rightarrow> ip)"

record dmDns =
  d_entries :: "dnsEntry list"
  d_dnsByAddr :: "(byte list \<times> nat) list"
  d_dnsByName :: "(string \<times> nat) list"
  d_dnsEntries :: "(string \<times> (u16 \<times> rr) list) list"
  d_Nameservers :: "string list option"
  d_Port :: int

definition dns_New :: dmDns where
  "dns_New = \<lparr>d_entries = [], d_dnsByAddr = [], d_dnsByName = [], d_dnsEntries = [], d_Nameservers = None, d_Port = 0\<rparr>"

text \<open>\<open>Provision\<close>, with the outcomes of resolving, listening and the two socket options.\<close>

definition dns_Provision :: "goerr option \<Rightarrow> goerr option \<Rightarrow> goerr option \<Rightarrow> goerr option \<Rightarrow> dmDns \<Rightarrow> goerr option \<times> dmDns" where
  "dns_Provision resolveErr listenErr err6 err4 d =
     (let d = (case d_Nameservers d of None \<Rightarrow> d\<lparr>d_Nameservers := Some [''1.1.1.1:53'']\<rparr> | Some _ \<Rightarrow> d) in
      if resolveErr \<noteq> None then (resolveErr, d)
      else if listenErr \<noteq> None then (listenErr, d)
      else if err6 \<noteq> None \<and> err4 \<noteq> None then (err4, d)
      else (None, d))"

section \<open>Names of addresses\<close>

definition NameByAddr :: "dmDns option \<Rightarrow> byte list \<Rightarrow> dnsEntry option" where
  "NameByAddr s addr = (case s of None \<Rightarrow> None
     | Some d \<Rightarrow> map_option (\<lambda>i. d_entries d ! i) (map_of (d_dnsByAddr d) addr))"

definition HostByAddr :: "dmDns option \<Rightarrow> byte list \<Rightarrow> string + byte list" where
  "HostByAddr s addr = (case NameByAddr s addr of Some e \<Rightarrow> Inl (e_Name e) | None \<Rightarrow> Inr addr)"

definition IPResolve :: "dmDns option \<Rightarrow> byte list \<Rightarrow> string" where
  "IPResolve s ip = (case NameByAddr s ip of Some e \<Rightarrow> e_Name e | None \<Rightarrow> [])"

section \<open>Queries\<close>

definition getRecord :: "string \<Rightarrow> u16 \<Rightarrow> dmDns \<Rightarrow> rr option" where
  "getRecord domain rtype d = (case map_of (d_dnsEntries d) domain of None \<Rightarrow> None | Some rrmap \<Rightarrow> map_of rrmap rtype)"

text \<open>\<open>AddRecord\<close>: the map for a new domain is made, and not stored.\<close>

definition AddRecord :: "string \<Rightarrow> u16 \<Rightarrow> rr \<Rightarrow> dmDns \<Rightarrow> dmDns" where
  "AddRecord domain rtype r d = (case map_of (d_dnsEntries d) domain of
     None \<Rightarrow> d
   | Some rrmap \<Rightarrow> d\<lparr>d_dnsEntries := AList.update domain (AList.update rtype r rrmap) (d_dnsEntries d)\<rparr>)"

definition localQuery :: "dnsMsg \<Rightarrow> dmDns \<Rightarrow> dnsMsg" where
  "localQuery m d = m\<lparr>q_Answer := q_Answer m @ List.map_filter (\<lambda>(n, t). getRecord n t d) (q_Question m)\<rparr>"

text \<open>The loop of \<open>ForwardRealDNS\<close> from the try \<open>try\<close> on, at nameserver \<open>nsIdx\<close>.\<close>

definition finalRcode :: "int \<Rightarrow> bool" where
  "finalRcode c \<longleftrightarrow> c \<in> {RcodeSuccess, RcodeNameError, RcodeFormatError, RcodeRefused, RcodeNotImplemented}"

fun forwardTries :: "dnsLib \<Rightarrow> dnsMsg \<Rightarrow> string list \<Rightarrow> nat \<Rightarrow> nat \<Rightarrow> (goerr + dnsMsg) option" where
  "forwardTries lib req ns nsIdx left =
     (if length ns \<le> nsIdx then None
      else let r = lib_Exchange lib req (ns ! nsIdx) in
        case r of
          Inr m \<Rightarrow> if finalRcode (q_Rcode m) then Some r
                   else if nsIdx + 1 < length ns \<and> 1 < left then forwardTries lib req ns (nsIdx + 1) (left - 1) else Some r
        | Inl e \<Rightarrow> if nsIdx + 1 < length ns \<and> 1 < left then forwardTries lib req ns (nsIdx + 1) (left - 1) else Some r)"

declare forwardTries.simps [simp del]

definition ForwardRealDNS :: "dnsLib \<Rightarrow> dnsMsg \<Rightarrow> dmDns \<Rightarrow> (goerr + dnsMsg) option" where
  "ForwardRealDNS lib req d = forwardTries lib req (case d_Nameservers d of Some ns \<Rightarrow> ns | None \<Rightarrow> []) 0 2"

definition process :: "dnsLib \<Rightarrow> dnsMsg \<Rightarrow> dmDns \<Rightarrow> dnsMsg option" where
  "process lib req d =
     (case q_Question req of [] \<Rightarrow> None
      | (name, _) # _ \<Rightarrow>
          if suffix ''.dm.'' name \<or> suffix ''.m.'' name then
            (let m = (lib_SetReply lib req)\<lparr>q_Compress := False\<rparr>
             in Some (if q_Opcode req = OpcodeQuery then localQuery m d else m))
          else do {
            res \<leftarrow> ForwardRealDNS lib req d;
            Some (case res of Inr m \<Rightarrow> m\<lparr>q_Compress := True\<rparr> | Inl e \<Rightarrow> SetRcode lib req RcodeServerFailure) })"

text \<open>\<open>Do\<close>: the questions are counted by name, and the addresses in the answer get their names.\<close>

definition countQuestion :: "int \<Rightarrow> string \<times> u16 \<Rightarrow> dmDns \<Rightarrow> dmDns" where
  "countQuestion now a d = (case a of (name, qtype) \<Rightarrow>
     if name = [] then d
     else if qtype = TypeA \<or> qtype = TypeAAAA then
       (let (i, d) = (case map_of (d_dnsByName d) name of
            Some i \<Rightarrow> (i, d)
          | None \<Rightarrow> (length (d_entries d),
              d\<lparr>d_entries := d_entries d @ [\<lparr>e_ts = 0, e_Name = name, e_IP = [], e_Count = 0, e_RCount = 0, e_Lat = 0\<rparr>],
                d_dnsByName := AList.update name (length (d_entries d)) (d_dnsByName d)\<rparr>));
            e = d_entries d ! i
        in d\<lparr>d_entries := (d_entries d)[i := e\<lparr>e_Count := e_Count e + 1, e_ts := now\<rparr>]\<rparr>)
     else d)"

definition noteAnswer :: "int \<Rightarrow> rr \<Rightarrow> dmDns \<Rightarrow> dmDns" where
  "noteAnswer now a d = (case map_of (d_dnsByName d) (rr_Name a) of
     None \<Rightarrow> d
   | Some i \<Rightarrow>
       if rr_Rrtype a = TypeA \<or> rr_Rrtype a = TypeAAAA then
         (let d = d\<lparr>d_entries := (d_entries d)[i := (d_entries d ! i)\<lparr>e_IP := rr_IP a\<rparr>]\<rparr>;
              key = ipString (rr_IP a);
              (j, d) = (case map_of (d_dnsByAddr d) key of
                 Some j \<Rightarrow> (j, d) | None \<Rightarrow> (i, d\<lparr>d_dnsByAddr := AList.update key i (d_dnsByAddr d)\<rparr>));
              e = d_entries d ! j;
              e = e\<lparr>e_RCount := e_RCount e + 1\<rparr>
          in d\<lparr>d_entries := (d_entries d)[j := e\<lparr>e_Lat := now - e_ts (d_entries d ! i)\<rparr>]\<rparr>)
       else d)"

definition dns_Do :: "dnsLib \<Rightarrow> int \<Rightarrow> dnsMsg \<Rightarrow> dmDns \<Rightarrow> (dnsMsg \<times> dmDns) option" where
  "dns_Do lib now req d =
     (case q_Question req of
        [] \<Rightarrow> Some (SetRcode lib req RcodeServerFailure, d)
      | (name, _) # _ \<Rightarrow>
          (let parts = split_on (CHR ''.'') name in
           if length parts \<le> 2 \<and> 5 < length (parts ! 0) then Some (SetRcode lib req RcodeNameError, d)
           else (let d = fold (countQuestion now) (q_Question req) d in do {
             res \<leftarrow> process lib req d;
             Some (res, fold (noteAnswer now) (q_Answer res) d) })))"

section \<open>Servers\<close>

text \<open>\<open>ServeDNS\<close> and the function that \<open>Provision\<close> registers: the reply for the writer.\<close>

definition ServeDNS :: "dnsLib \<Rightarrow> int \<Rightarrow> dnsMsg \<Rightarrow> dmDns \<Rightarrow> (dnsMsg \<times> dmDns) option" where
  "ServeDNS lib now req d = dns_Do lib now req d"

text \<open>The loop of \<open>DNSOverTCP\<close>. \<open>resB\<close>, the buffer for the answer, has 4096 bytes; what is written is taken from it, wherever \<open>PackBuffer\<close> put
  the message.\<close>

partial_function (option) tcpLoop :: "dnsLib \<Rightarrow> int \<Rightarrow> byte list \<Rightarrow> byte list \<Rightarrow> nat \<Rightarrow> bool \<Rightarrow> reader \<Rightarrow> writer \<Rightarrow> dmDns
    \<Rightarrow> (goerr option \<times> writer \<times> dmDns) option" where
  "tcpLoop lib now buf resB off needRead inp out d =
     (let (bs, er, inp') = (if needRead then go_read (length buf - off) inp else ([], None, inp));
          nr = (if needRead then length bs else off);
          buf = (if needRead then overwrite buf off bs else buf);
          en = off + nr
      in if needRead \<and> (er \<noteq> None \<or> nr = 0) then Some (er, out, d)
         else if en < 2 then tcpLoop lib now buf resB (off + nr) True inp' out d
         else (let packetLen = be16 (buf ! 0) (buf ! 1) in
           if packetLen + 2 < en then tcpLoop lib now buf resB (off + nr) True inp' out d
           else if length buf < 2 + packetLen then None
           else do {
             (res, d) \<leftarrow> dns_Do lib now (snd (lib_Unpack lib (take packetLen (drop 2 buf)))) d;
             let (_, resBB, b) = lib_PackBuffer lib res (drop 2 resB);
             let resB = put_be16 (word_of_nat (length resBB)) @ b;
             if 4096 < length resBB + 2 then None
             else (let (nw, ew, out) = go_write (take (length resBB + 2) resB) out in
               if ew \<noteq> None then Some (ew, out, d)
               else if nr \<noteq> nw then Some (Some ErrShortWrite, out, d)
               else if 2 + packetLen < en
               then tcpLoop lib now (overwrite buf 0 (take (en - (2 + packetLen)) (drop (2 + packetLen) buf))) resB
                      (en - 2 - packetLen) False inp' out d
               else tcpLoop lib now buf resB off True inp' out d) }))"

definition DNSOverTCP :: "dnsLib \<Rightarrow> int \<Rightarrow> byte list \<Rightarrow> byte list \<Rightarrow> reader \<Rightarrow> writer \<Rightarrow> dmDns \<Rightarrow> (goerr option \<times> writer \<times> dmDns) option" where
  "DNSOverTCP lib now pbuf resB inp out d = tcpLoop lib now pbuf resB 0 True inp out d"

text \<open>Captured packets: the answer, its destination and its source.\<close>

definition dns_HandleUdp :: "dnsLib \<Rightarrow> int \<Rightarrow> byte list \<Rightarrow> u16 \<Rightarrow> byte list \<Rightarrow> u16 \<Rightarrow> byte list \<Rightarrow> dmDns
    \<Rightarrow> ((byte list \<times> (byte list \<times> u16) \<times> (byte list \<times> u16)) \<times> dmDns) option" where
  "dns_HandleUdp lib now dstAddr dstPort localAddr localPort data d = do {
     (res, d) \<leftarrow> dns_Do lib now (snd (lib_Unpack lib data)) d;
     Some ((lib_Pack lib res, (localAddr, localPort), (dstAddr, dstPort)), d) }"

section \<open>DNS over HTTP\<close>

definition sendResTtl :: "dnsMsg \<Rightarrow> u32" where
  "sendResTtl res = fold (\<lambda>a ttl. if rr_Ttl a < ttl then rr_Ttl a else ttl) (q_Answer res) 0"

text \<open>\<open>sendRes\<close>: the headers and the body. The body is taken from the buffer \<open>m\<close>, of 4096 bytes, which held the request.\<close>

definition sendRes :: "dnsLib \<Rightarrow> dnsMsg \<Rightarrow> (string \<times> string) list \<Rightarrow> byte list \<Rightarrow> ((string \<times> string) list \<times> byte list) option" where
  "sendRes lib res hdr m =
     (let (_, resB, m) = lib_PackBuffer lib res m in
      if 4096 < length resB then None
      else Some (hdr @ [(''cache-control'', ''max-age='' @ itoa (uint (sendResTtl res)))], take (length resB) m))"

text \<open>\<open>ServeHTTP\<close>: the parameter \<open>dns\<close> of a GET, decoded (\<open>b64\<close>), or the body of a POST, which \<open>io.ReadFull\<close> reads into a
  buffer of 4096 bytes: a shorter body is an error. \<open>newId\<close> is a random id, \<open>m\<close> the pooled buffer.\<close>

datatype httpMethod = GET | POST | OtherMethod

definition dns_ServeHTTP :: "dnsLib \<Rightarrow> (string \<Rightarrow> goerr + byte list) \<Rightarrow> u16 \<Rightarrow> int \<Rightarrow> httpMethod \<Rightarrow> string list \<Rightarrow> byte list
    \<Rightarrow> byte list \<Rightarrow> dmDns \<Rightarrow> (((string \<times> string) list \<times> byte list) \<times> dmDns) option" where
  "dns_ServeHTTP lib b64 newId now method dnsQ body m d =
     (let hdr = [(''content-type'', ''application/dns-message'')];
          stop = Some ((hdr, []), d);
          serve = (\<lambda>bs. let (err, req) = lib_Unpack lib bs in
             if err \<noteq> None then stop
             else do {
               (res, d) \<leftarrow> dns_Do lib now (req\<lparr>q_Id := newId\<rparr>) d;
               r \<leftarrow> sendRes lib res hdr (overwrite m 0 bs);
               Some (r, d) })
      in case method of
           GET \<Rightarrow> (case dnsQ of
               (c # cs) # _ \<Rightarrow> (case b64 (c # cs) of Inl e \<Rightarrow> stop | Inr bs \<Rightarrow> if 4096 < length bs then None else serve bs)
             | _ \<Rightarrow> serve [])
         | POST \<Rightarrow> if length body < 4096 then stop else serve (take 4096 body)
         | OtherMethod \<Rightarrow> stop)"

text \<open>\<open>ForwardHttp\<close>: \<open>fetch\<close> is the HTTP client, from the URL to a status and a body; \<open>b64e\<close> is the encoding, \<open>m\<close> the
  pooled buffer, of 4096 bytes.\<close>

definition ForwardHttp :: "dnsLib \<Rightarrow> (byte list \<Rightarrow> string) \<Rightarrow> (string \<Rightarrow> goerr + (int \<times> byte list)) \<Rightarrow> string \<Rightarrow> byte list \<Rightarrow> dnsMsg
    \<Rightarrow> goerr + dnsMsg" where
  "ForwardHttp lib b64e fetch base m req =
     (if q_Question req = [] then Inl (ErrMsg ''empty request'')
      else let (err, mm, _) = lib_PackBuffer lib (req\<lparr>q_Id := 0\<rparr>) m in
        case err of Some e \<Rightarrow> Inl e
        | None \<Rightarrow> (case fetch (''https://'' @ base @ ''/dns?dns='' @ b64e mm) of
          Inl e \<Rightarrow> Inl e
        | Inr (status, rm) \<Rightarrow> if status \<noteq> 200 then Inl (ErrMsg ''Error'') else Inr ((snd (lib_Unpack lib rm))\<lparr>q_Id := q_Id req\<rparr>)))"

section \<open>Names of addresses\<close>

text \<open>An entry found by name has that name, and every pointer is valid.\<close>

definition wf_dns :: "dmDns \<Rightarrow> bool" where
  "wf_dns d \<longleftrightarrow> (\<forall>k i. map_of (d_dnsByName d) k = Some i \<longrightarrow> i < length (d_entries d) \<and> e_Name (d_entries d ! i) = k)
     \<and> (\<forall>a i. map_of (d_dnsByAddr d) a = Some i \<longrightarrow> i < length (d_entries d))"

text \<open>What never changes: the name of an entry, the entry of a name, the entry of an address.\<close>

definition dns_ext :: "dmDns \<Rightarrow> dmDns \<Rightarrow> bool" where
  "dns_ext d d' \<longleftrightarrow> length (d_entries d) \<le> length (d_entries d')
     \<and> (\<forall>i < length (d_entries d). e_Name (d_entries d' ! i) = e_Name (d_entries d ! i))
     \<and> (\<forall>k i. map_of (d_dnsByName d) k = Some i \<longrightarrow> map_of (d_dnsByName d') k = Some i)
     \<and> (\<forall>a i. map_of (d_dnsByAddr d) a = Some i \<longrightarrow> map_of (d_dnsByAddr d') a = Some i)"

lemma dns_ext_refl [simp]: "dns_ext d d"
  by (simp add: dns_ext_def)

lemma dns_ext_trans: "dns_ext a b \<Longrightarrow> dns_ext b c \<Longrightarrow> dns_ext a c"
  unfolding dns_ext_def by (metis le_trans less_le_trans)

lemma e_Name_update: "e_Name (xs[i := e] ! j) = (if i = j \<and> i < length xs then e_Name e else e_Name (xs ! j))"
  by (cases "i < length xs") (auto simp: nth_list_update list_update_beyond)

lemma countQuestion_ok:
  assumes "wf_dns d"
  shows "wf_dns (countQuestion now a d) \<and> dns_ext d (countQuestion now a d)"
proof -
  obtain name t where a: "a = (name, t)" by (cases a)
  show ?thesis
  proof (cases "name = [] \<or> t \<noteq> TypeA \<and> t \<noteq> TypeAAAA")
    case True
    then show ?thesis using assms by (auto simp: countQuestion_def a)
  next
    case False
    show ?thesis
    proof (cases "map_of (d_dnsByName d) name")
      case (Some i)
      then show ?thesis using assms False
        by (auto simp: countQuestion_def a Let_def wf_dns_def dns_ext_def e_Name_update)
    next
      case None
      define d1 where "d1 = countQuestion now a d"
      define e0 where "e0 = \<lparr>e_ts = now, e_Name = name, e_IP = [], e_Count = 1, e_RCount = 0, e_Lat = 0\<rparr>"
      have d1: "d_entries d1 = d_entries d @ [e0]" "d_dnsByAddr d1 = d_dnsByAddr d"
        "map_of (d_dnsByName d1) = (map_of (d_dnsByName d))(name \<mapsto> length (d_entries d))"
        using False None by (auto simp: d1_def e0_def countQuestion_def a Let_def update_conv' list_update_append)
      have "wf_dns d1" using assms by (auto simp: wf_dns_def d1 e0_def nth_append intro: less_SucI split: if_splits)
      moreover have "dns_ext d d1" using None by (auto simp: dns_ext_def d1 nth_append)
      ultimately show ?thesis by (simp add: d1_def)
    qed
  qed
qed

lemma countQuestion_known:
  assumes "name \<noteq> []" and "t = TypeA \<or> t = TypeAAAA"
  shows "map_of (d_dnsByName (countQuestion now (name, t) d)) name \<noteq> None"
  using assms by (auto simp: countQuestion_def Let_def update_conv' split: option.splits)

lemma noteAnswer_ok:
  assumes "wf_dns d"
  shows "wf_dns (noteAnswer now a d) \<and> dns_ext d (noteAnswer now a d)"
proof (cases "map_of (d_dnsByName d) (rr_Name a)")
  case None
  then show ?thesis using assms by (simp add: noteAnswer_def)
next
  case (Some i)
  have i: "i < length (d_entries d)" using assms Some by (simp add: wf_dns_def)
  show ?thesis
  proof (cases "rr_Rrtype a = TypeA \<or> rr_Rrtype a = TypeAAAA")
    case False
    then show ?thesis using assms Some by (simp add: noteAnswer_def)
  next
    case True
    define d1 where "d1 = noteAnswer now a d"
    have names: "length (d_entries d1) = length (d_entries d)" "d_dnsByName d1 = d_dnsByName d"
      "\<And>j. e_Name (d_entries d1 ! j) = e_Name (d_entries d ! j)"
      using True Some i by (auto simp: d1_def noteAnswer_def Let_def e_Name_update split: option.splits)
    have addr: "map_of (d_dnsByAddr d1) = (if map_of (d_dnsByAddr d) (ipString (rr_IP a)) = None
        then (map_of (d_dnsByAddr d))(ipString (rr_IP a) \<mapsto> i) else map_of (d_dnsByAddr d))"
      using True Some by (auto simp: d1_def noteAnswer_def Let_def update_conv' split: option.splits)
    have "wf_dns d1" using assms i by (auto simp: wf_dns_def names addr split: if_splits)
    moreover have "dns_ext d d1" by (auto simp: dns_ext_def names addr)
    ultimately show ?thesis by (simp add: d1_def)
  qed
qed

lemma noteAnswer_addr:
  assumes "wf_dns d" and "map_of (d_dnsByName d) (rr_Name a) = Some i" and "rr_Rrtype a = TypeA \<or> rr_Rrtype a = TypeAAAA"
  shows "map_of (d_dnsByAddr (noteAnswer now a d)) (ipString (rr_IP a))
    = Some (case map_of (d_dnsByAddr d) (ipString (rr_IP a)) of Some j \<Rightarrow> j | None \<Rightarrow> i)"
  using assms by (auto simp: noteAnswer_def Let_def update_conv' split: option.splits)

lemma fold_ok:
  assumes "wf_dns d" and "\<And>x d. wf_dns d \<Longrightarrow> wf_dns (f x d) \<and> dns_ext d (f x d)"
  shows "wf_dns (fold f xs d) \<and> dns_ext d (fold f xs d)"
  using assms(1)
proof (induction xs arbitrary: d)
  case (Cons x xs)
  then show ?case using assms(2) [of d x] dns_ext_trans by auto
qed simp

lemma fold_countQuestion_known:
  assumes "wf_dns d" and "(name, t) \<in> set qs" and "name \<noteq> []" and "t = TypeA \<or> t = TypeAAAA"
  shows "map_of (d_dnsByName (fold (countQuestion now) qs d)) name \<noteq> None"
  using assms(1,2)
proof (induction qs arbitrary: d)
  case (Cons q qs)
  have ok: "wf_dns (countQuestion now q d)" using countQuestion_ok [OF Cons.prems(1)] by blast
  show ?case
  proof (cases "q = (name, t)")
    case True
    then obtain i where "map_of (d_dnsByName (countQuestion now q d)) name = Some i"
      using countQuestion_known [OF assms(3,4), of now d] by auto
    then have "map_of (d_dnsByName (fold (countQuestion now) qs (countQuestion now q d))) name = Some i"
      using fold_ok [OF ok, of "countQuestion now" qs] countQuestion_ok by (simp add: dns_ext_def)
    then show ?thesis by simp
  next
    case False
    then show ?thesis using Cons ok by simp
  qed
qed simp

text \<open>C31: A query that is not turned away as a probe, for a name that was asked for with type A or AAAA and whose first
  answer gives it an address: \<open>Do\<close> returns the answer, and afterwards the address has a name. It is the name that the
  address had before, if it had one, and the name that was asked for otherwise. The tables stay well-formed, and no
  address loses its name.\<close>

theorem dns_reverse:
  assumes wf: "wf_dns d" and q: "q_Question req = (qname, qt) # qs"
    and ok: "\<not> (length (split_on (CHR ''.'') qname) \<le> 2 \<and> 5 < length (split_on (CHR ''.'') qname ! 0))"
    and proc: "process lib req (fold (countQuestion now) (q_Question req) d) = Some res" and ans: "q_Answer res = a # rest"
    and asked: "(rr_Name a, t) \<in> set (q_Question req)" "rr_Name a \<noteq> []" "t = TypeA \<or> t = TypeAAAA"
    and rt: "rr_Rrtype a = TypeA \<or> rr_Rrtype a = TypeAAAA"
  shows "\<exists>d'. dns_Do lib now req d = Some (res, d') \<and> wf_dns d'
    \<and> HostByAddr (Some d') (ipString (rr_IP a))
        = (case HostByAddr (Some d) (ipString (rr_IP a)) of Inl n \<Rightarrow> Inl n | Inr _ \<Rightarrow> Inl (rr_Name a))
    \<and> (\<forall>k n. HostByAddr (Some d) k = Inl n \<longrightarrow> HostByAddr (Some d') k = Inl n)"
proof -
  define d1 where "d1 = fold (countQuestion now) (q_Question req) d"
  define d2 where "d2 = noteAnswer now a d1"
  define d3 where "d3 = fold (noteAnswer now) rest d2"
  have d1: "wf_dns d1" "dns_ext d d1" using fold_ok [of d "countQuestion now"] countQuestion_ok wf by (simp_all add: d1_def)
  have d2: "wf_dns d2" "dns_ext d1 d2" using noteAnswer_ok [OF d1(1)] by (simp_all add: d2_def)
  have d3: "wf_dns d3" "dns_ext d2 d3" using fold_ok [of d2 "noteAnswer now"] noteAnswer_ok d2(1) by (simp_all add: d3_def)
  obtain i where i: "map_of (d_dnsByName d1) (rr_Name a) = Some i"
    using fold_countQuestion_known [OF wf asked] by (auto simp: d1_def)
  have addr1: "d_dnsByAddr d1 = d_dnsByAddr d"
  proof -
    have "d_dnsByAddr (fold (countQuestion now) qs d) = d_dnsByAddr d" for qs d
      by (induction qs arbitrary: d) (auto simp: countQuestion_def Let_def split: option.splits)
    then show ?thesis by (simp add: d1_def)
  qed
  have run: "dns_Do lib now req d = Some (res, d3)"
    using ok proc unfolding dns_Do_def q list.case prod.case Let_def
    by (auto simp: q [symmetric] d1_def [symmetric] ans d3_def d2_def)
  have keep: "HostByAddr (Some d3) k = Inl n" if "HostByAddr (Some d) k = Inl n" for k n
    using that wf dns_ext_trans [OF d1(2) dns_ext_trans [OF d2(2) d3(2)]]
    by (auto simp: HostByAddr_def NameByAddr_def dns_ext_def wf_dns_def split: option.splits)
  have "HostByAddr (Some d3) (ipString (rr_IP a))
        = (case HostByAddr (Some d) (ipString (rr_IP a)) of Inl n \<Rightarrow> Inl n | Inr _ \<Rightarrow> Inl (rr_Name a))"
  proof (cases "map_of (d_dnsByAddr d) (ipString (rr_IP a))")
    case (Some j)
    then show ?thesis using keep by (auto simp: HostByAddr_def NameByAddr_def split: sum.splits)
  next
    case None
    then have "map_of (d_dnsByAddr d2) (ipString (rr_IP a)) = Some i"
      using noteAnswer_addr [OF d1(1) i rt, of now] addr1 by (simp add: d2_def)
    moreover have "i < length (d_entries d1)" "e_Name (d_entries d1 ! i) = rr_Name a" using d1(1) i by (auto simp: wf_dns_def)
    ultimately show ?thesis
      using None d2(2) d3(2) by (simp add: HostByAddr_def NameByAddr_def dns_ext_def)
  qed
  then show ?thesis using run d3(1) keep by blast
qed

theorem dns_reverse_witness:
  "let a = \<lparr>rr_Name = ''www.x.org.'', rr_Rrtype = 1, rr_Ttl = 5, rr_IP = [1, 2, 3, 4]\<rparr>;
       req = \<lparr>q_Id = 7, q_Opcode = 0, q_Rcode = 0, q_Compress = False, q_Question = [(''www.x.org.'', 1)], q_Answer = []\<rparr>;
       lib = \<lparr>lib_Unpack = (\<lambda>_. (None, req)), lib_Pack = (\<lambda>_. []), lib_PackBuffer = (\<lambda>_ b. (None, [], b)), lib_SetReply = (\<lambda>r. r),
              lib_Exchange = (\<lambda>r _. Inr (r\<lparr>q_Answer := [a]\<rparr>))\<rparr>
   in \<exists>d'. dns_Do lib 9 req (snd (dns_Provision None None None None dns_New)) = Some (req\<lparr>q_Answer := [a], q_Compress := True\<rparr>, d')
        \<and> HostByAddr (Some d') [1, 2, 3, 4] = Inl ''www.x.org.''"
proof -
  define a where "a = \<lparr>rr_Name = ''www.x.org.'', rr_Rrtype = 1, rr_Ttl = 5, rr_IP = [1, 2, 3, 4]\<rparr>"
  define req where "req = \<lparr>q_Id = 7, q_Opcode = 0, q_Rcode = 0, q_Compress = False, q_Question = [(''www.x.org.'', 1)], q_Answer = []\<rparr>"
  define lib where "lib = \<lparr>lib_Unpack = (\<lambda>_. (None, req)), lib_Pack = (\<lambda>_. []), lib_PackBuffer = (\<lambda>_ b. (None, [], b)), lib_SetReply = (\<lambda>r. r),
              lib_Exchange = (\<lambda>r _. Inr (r\<lparr>q_Answer := [a]\<rparr>))\<rparr>"
  define d where "d = snd (dns_Provision None None None None dns_New)"
  note defs = a_def req_def lib_def d_def dns_Provision_def dns_New_def
  have "\<exists>d'. dns_Do lib 9 req d = Some (req\<lparr>q_Answer := [a], q_Compress := True\<rparr>, d') \<and> wf_dns d'
    \<and> HostByAddr (Some d') (ipString (rr_IP a))
        = (case HostByAddr (Some d) (ipString (rr_IP a)) of Inl n \<Rightarrow> Inl n | Inr _ \<Rightarrow> Inl (rr_Name a))
    \<and> (\<forall>k n. HostByAddr (Some d) k = Inl n \<longrightarrow> HostByAddr (Some d') k = Inl n)"
  proof (rule dns_reverse [where qname = "''www.x.org.''" and qt = 1 and qs = "[]" and rest = "[]" and t = 1])
    show "process lib req (fold (countQuestion 9) (q_Question req) d) = Some (req\<lparr>q_Answer := [a], q_Compress := True\<rparr>)"
      by (simp add: defs process_def ForwardRealDNS_def forwardTries.simps finalRcode_def countQuestion_def Let_def suffix_def)
  qed (simp_all add: defs wf_dns_def)
  then show ?thesis
    unfolding Let_def a_def [symmetric] req_def [symmetric] lib_def [symmetric] d_def [symmetric]
    by (auto simp: HostByAddr_def NameByAddr_def ipString_def To4_def defs)
qed

section \<open>DNS over TCP\<close>

text \<open>What \<open>PackBuffer\<close> does with a message that fits, also before compression: it packs into the start of the buffer.\<close>

definition packsInPlace :: "dnsLib \<Rightarrow> dnsMsg \<Rightarrow> byte list \<Rightarrow> bool" where
  "packsInPlace lib res ans \<longleftrightarrow> (\<forall>b. length b = 4094 \<longrightarrow> lib_PackBuffer lib res b = (None, ans, ans @ drop (length ans) b))"

lemma dnsTCP_writes:
  assumes rd: "2 \<le> length bs" "length bs \<le> length pbuf" and n: "length bs = be16 (bs ! 0) (bs ! 1) + 2"
    and reply: "dns_Do lib now (snd (lib_Unpack lib (drop 2 bs))) d = Some (res, d')"
    and pack: "lib_PackBuffer lib res (drop 2 resB) = (e, ans, b)" "length ans < 4095" "length b = 4094"
    and out: "w_next out = []" and df: "length ans + 2 \<noteq> length bs"
  shows "DNSOverTCP lib now pbuf resB ((bs, None) # r) out d
    = Some (Some ErrShortWrite, out\<lparr>w_out := w_out out @ put_be16 (word_of_nat (length ans)) @ take (length ans) b\<rparr>, d')"
proof -
  define buf where "buf = overwrite pbuf 0 bs"
  have bf: "length buf = length pbuf" "take (length bs) buf = bs"
    using rd take_overwrite_through [of 0 bs pbuf] by (simp_all add: buf_def)
  obtain k where k: "length bs = k + 2" "k = be16 (bs ! 0) (bs ! 1)" using n by blast
  have ne: "bs \<noteq> []" using rd by auto
  have "bs ! 0 = buf ! 0" "bs ! 1 = buf ! 1"
    using rd(1) ne nth_take [of 0 "length bs" buf] nth_take [of 1 "length bs" buf] unfolding bf(2) by simp_all
  then have hd: "be16 (buf ! 0) (buf ! Suc 0) = k" using k by simp
  have "take k (drop 2 buf) = drop 2 (take (length bs) buf)" by (simp add: k(1) drop_take)
  then have tk: "take k (drop 2 buf) = drop 2 bs" by (simp only: bf(2))
  have gr: "go_read (length pbuf) ((bs, None) # r) = (bs, None, r)" using rd by simp
  have wr: "go_write (take (length ans + 2) (put_be16 x @ b)) out
      = (length ans + 2, None, out\<lparr>w_out := w_out out @ put_be16 x @ take (length ans) b\<rparr>)" for x
    using out pack(2,3) by (simp add: go_write_def)
  show ?thesis
    unfolding DNSOverTCP_def
    by (subst tcpLoop.simps)
      (use rd bf reply ne df pack k(1) in \<open>simp add: gr buf_def [symmetric] hd tk Let_def wr del: take_append add_2_eq_Suc' add_2_eq_Suc\<close>)
qed

text \<open>C32: The first read of \<open>DNSOverTCP\<close> gives at least two bytes. If it is exactly one request, the answer of \<open>Do\<close>, packed into the buffer for
  answers, is written with its length in front, and the call returns \<open>io.ErrShortWrite\<close> unless the answer happens to have as many
  bytes as the request. If the length in the first two bytes is larger than the buffer, which has 32 KiB, the call
  panics.\<close>

theorem dnsTCP_first:
  assumes rd: "2 \<le> length bs" "length bs \<le> length pbuf" and len: "n = be16 (bs ! 0) (bs ! 1)"
    and reply: "dns_Do lib now (snd (lib_Unpack lib (drop 2 bs))) d = Some (res, d')"
    and pack: "packsInPlace lib res ans" "length ans < 4095" "length resB = 4096"
    and out: "w_next out = []"
  shows "(length bs = n + 2 \<and> length ans + 2 \<noteq> length bs \<longrightarrow>
      DNSOverTCP lib now pbuf resB ((bs, None) # r) out d
        = Some (Some ErrShortWrite, out\<lparr>w_out := w_out out @ put_be16 (word_of_nat (length ans)) @ ans\<rparr>, d'))
    \<and> (length pbuf < n + 2 \<longrightarrow> DNSOverTCP lib now pbuf resB ((bs, None) # r) out d = None)"
proof -
  define buf where "buf = overwrite pbuf 0 bs"
  have b: "length buf = length pbuf" "take (length bs) buf = bs"
    using rd take_overwrite_through [of 0 bs pbuf] by (simp_all add: buf_def)
  have ne: "bs \<noteq> []" using rd by auto
  then have hd: "be16 (buf ! 0) (buf ! Suc 0) = n"
    using rd b(2) len nth_take [of 0 "length bs" buf] nth_take [of 1 "length bs" buf] by simp
  have gr: "go_read (length pbuf) ((bs, None) # r) = (bs, None, r)" using rd by simp
  have pb: "lib_PackBuffer lib res (drop 2 resB) = (None, ans, ans @ drop (length ans) (drop 2 resB))"
    using pack(1,3) unfolding packsInPlace_def by auto
  have 1: "DNSOverTCP lib now pbuf resB ((bs, None) # r) out d
        = Some (Some ErrShortWrite, out\<lparr>w_out := w_out out @ put_be16 (word_of_nat (length ans)) @ ans\<rparr>, d')"
    if "length bs = n + 2" "length ans + 2 \<noteq> length bs"
    using dnsTCP_writes [OF rd _ reply pb pack(2) _ out that(2)] that(1) len pack(2,3) by simp
  have 2: "DNSOverTCP lib now pbuf resB ((bs, None) # r) out d = None" if "length pbuf < n + 2"
    unfolding DNSOverTCP_def
    by (subst tcpLoop.simps) (use rd b ne that in \<open>simp add: gr buf_def [symmetric] hd Let_def\<close>)
  show ?thesis using 1 2 by blast
qed

theorem dnsTCP_first_witness:
  "let req = \<lparr>q_Id = 7, q_Opcode = 0, q_Rcode = 0, q_Compress = False, q_Question = [], q_Answer = []\<rparr>;
       lib = \<lparr>lib_Unpack = (\<lambda>_. (None, req)), lib_Pack = (\<lambda>_. [1, 2, 3]), lib_PackBuffer = (\<lambda>_ b. (None, [1, 2, 3], [1, 2, 3] @ drop 3 b)),
         lib_SetReply = (\<lambda>r. r), lib_Exchange = (\<lambda>r _. Inr r)\<rparr>;
       out = \<lparr>w_out = [], w_next = []\<rparr>
   in DNSOverTCP lib 9 (replicate 8 0) (replicate 4096 0) [([0, 2, 5, 5], None)] out dns_New
        = Some (Some ErrShortWrite, \<lparr>w_out = [0, 3, 1, 2, 3], w_next = []\<rparr>, dns_New)
      \<and> DNSOverTCP lib 9 (replicate 8 0) (replicate 4096 0) [([255, 255], None)] out dns_New = None"
proof -
  define req where "req = \<lparr>q_Id = 7, q_Opcode = 0, q_Rcode = 0, q_Compress = False, q_Question = [], q_Answer = []\<rparr>"
  define lib where "lib = \<lparr>lib_Unpack = (\<lambda>_. (None, req)), lib_Pack = (\<lambda>_. [1, 2, 3]), lib_PackBuffer = (\<lambda>_ b. (None, [1, 2, 3], [1, 2, 3] @ drop 3 b)),
         lib_SetReply = (\<lambda>r. r), lib_Exchange = (\<lambda>r _. Inr r)\<rparr>"
  have r: "dns_Do lib 9 (snd (lib_Unpack lib x)) dns_New = Some (req\<lparr>q_Rcode := 2\<rparr>, dns_New)" for x
    by (simp add: lib_def req_def dns_Do_def SetRcode_def)
  have l: "packsInPlace lib (req\<lparr>q_Rcode := 2\<rparr>) [1, 2, 3]" by (simp add: lib_def packsInPlace_def numeral_3_eq_3)
  have p: "put_be16 (word_of_nat (length [1, 2, 3 :: byte])) @ [1, 2, 3] = [0, 3, 1, 2, 3]" by (simp add: put_be16_def)
  define out where "out = \<lparr>w_out = [] :: byte list, w_next = []\<rparr>"
  have o: "w_next out = []" "out\<lparr>w_out := w_out out @ xs\<rparr> = \<lparr>w_out = xs, w_next = []\<rparr>" for xs by (simp_all add: out_def)
  have 1: "DNSOverTCP lib 9 (replicate 8 0) (replicate 4096 0) [([0, 2, 5, 5], None)] out dns_New
      = Some (Some ErrShortWrite, out\<lparr>w_out := w_out out @ put_be16 (word_of_nat (length [1, 2, 3 :: byte])) @ [1, 2, 3]\<rparr>, dns_New)"
    by (rule dnsTCP_first [where n = 2, OF _ _ _ r l _ _ o(1), THEN conjunct1, THEN mp]) (simp_all add: be16_eq)
  have 2: "DNSOverTCP lib 9 (replicate 8 0) (replicate 4096 0) [([255, 255], None)] out dns_New = None"
    by (rule dnsTCP_first [where n = 65535, OF _ _ _ r l _ _ o(1), THEN conjunct2, THEN mp]) (simp_all add: be16_eq)
  show ?thesis
    unfolding Let_def req_def [symmetric] lib_def [symmetric] out_def [symmetric] using 1 2 unfolding p o(2) by blast
qed

text \<open>When \<open>PackBuffer\<close> made a buffer of its own, the answer is not in \<open>resB\<close>: the client gets the length of the answer and the bytes that the
  pooled buffer held before.\<close>

lemma dnsTCP_stale:
  assumes "2 \<le> length bs" "length bs \<le> length pbuf" "length bs = be16 (bs ! 0) (bs ! 1) + 2"
    and "dns_Do lib now (snd (lib_Unpack lib (drop 2 bs))) d = Some (res, d')"
    and "lib_PackBuffer lib res (drop 2 resB) = (None, ans, drop 2 resB)" "length ans < 4095" "length resB = 4096"
    and "w_next out = []" "length ans + 2 \<noteq> length bs"
  shows "DNSOverTCP lib now pbuf resB ((bs, None) # r) out d
    = Some (Some ErrShortWrite, out\<lparr>w_out := w_out out @ put_be16 (word_of_nat (length ans)) @ take (length ans) (drop 2 resB)\<rparr>, d')"
  using dnsTCP_writes [OF assms(1-6) _ assms(8,9)] assms(7) by simp

section \<open>Local records and HTTP\<close>

text \<open>Records that are added to a fresh server are not found: queries for local domains have no answers.\<close>

lemma addRecord_lost:
  "getRecord n t (fold (\<lambda>(dom, ty, r). AddRecord dom ty r) rs dns_New) = None"
proof -
  have "d_dnsEntries (fold (\<lambda>(dom, ty, r). AddRecord dom ty r) rs d) = []" if "d_dnsEntries d = []" for d
    using that by (induction rs arbitrary: d) (auto simp: AddRecord_def)
  then show ?thesis by (simp add: getRecord_def dns_New_def)
qed

text \<open>The time to live that \<open>sendRes\<close> announces is 0, whatever the records say.\<close>

lemma sendRes_ttl: "sendResTtl res = 0"
proof -
  have "fold (\<lambda>a ttl. if rr_Ttl a < ttl then rr_Ttl a else ttl) rs 0 = 0" for rs :: "rr list"
    by (induction rs) simp_all
  then show ?thesis by (simp add: sendResTtl_def)
qed

text \<open>A POST with a body of less than 4096 bytes is not answered.\<close>

lemma serveHTTP_post_ignored:
  "length body < 4096 \<Longrightarrow> dns_ServeHTTP lib b64 newId now POST dnsQ body m d
     = Some (([(''content-type'', ''application/dns-message'')], []), d)"
  by (simp add: dns_ServeHTTP_def)

text \<open>\<open>ForwardRealDNS\<close> asks at most two nameservers, and returns the first answer that is final.\<close>

lemma forwardRealDNS_first:
  assumes "d_Nameservers d = Some (s # ss)" and "lib_Exchange lib req s = Inr m" and "finalRcode (q_Rcode m)"
  shows "ForwardRealDNS lib req d = Some (Inr m)"
  using assms by (simp add: ForwardRealDNS_def forwardTries.simps)

lemma forwardRealDNS_second:
  assumes "d_Nameservers d = Some (s1 # s2 # ss)" and "lib_Exchange lib req s1 = Inl e"
  shows "ForwardRealDNS lib req d = Some (lib_Exchange lib req s2)"
  using assms by (simp add: ForwardRealDNS_def forwardTries.simps Let_def split: sum.splits)

end
