(* ===== verification/Discovery.thy ===== *)
theory Discovery
  imports Udp_Nat
begin

text \<open>
  \<^verbatim>\<open>src/pkg/local_discovery/udp_discovery.go\<close>: discovery of nodes on the local networks. A node multicasts signed
  announcements on its interfaces; a receiver checks the signature, keeps the sender by the hash of its public key, and
  answers.

  Signatures and key hashes (\<open>meshauth\<close>) and the JSON encoding are the fields of \<open>discLib\<close>. The interfaces of the system
  and the outcomes of listening are parameters. Sockets are numbers, the open ones are in \<open>d_open\<close>; what is sent is
  logged. Maps are association lists in their order of iteration. \<open>None\<close> is a panic.
\<close>

section \<open>Data\<close>

record nodeAnnounce =
  a_UA :: string
  a_IPs :: "(byte list \<times> int) list"
  a_SSID :: string
  a_AP :: bool
  a_Ack :: bool
  a_Vpn :: string

definition zeroAnnounce :: nodeAnnounce where
  "zeroAnnounce = \<lparr>a_UA = [], a_IPs = [], a_SSID = [], a_AP = False, a_Ack = False, a_Vpn = []\<rparr>"

record node =
  nd_ID :: string
  nd_LastSeen :: int
  nd_Seen :: "int list"
  nd_NodeAnnounce :: "nodeAnnounce option"
  nd_LastSeen4 :: int
  nd_Last4 :: "udpAddr option"
  nd_LastSeen6 :: int
  nd_Last6 :: "udpAddr option"

definition newNode :: "string \<Rightarrow> node" where
  "newNode i = \<lparr>nd_ID = i, nd_LastSeen = 0, nd_Seen = [], nd_NodeAnnounce = None, nd_LastSeen4 = 0, nd_Last4 = None,
     nd_LastSeen6 = 0, nd_Last6 = None\<rparr>"

record activeInterface =
  ai_Name :: string
  ai_IP6LL :: "byte list option"
  ai_IP4 :: "byte list option"
  ai_IPPub :: "byte list list"
  ai_Port :: int
  ai_Port4 :: int
  ai_AndroidAP :: bool
  ai_AndroidAPClient :: bool
  ai_multicast :: bool \<comment> \<open>the flag of \<open>iface\<close>\<close>
  ai_multicastRegisterConn :: "nat option"
  ai_multicastRegisterConn2 :: "nat option"
  ai_unicastUdpServer :: "nat option"
  ai_unicastUdpServer4 :: "nat option"

record llDiscovery =
  d_udpPort :: int
  d_UDPMsgConn :: "nat option"
  d_ActiveInterfaces :: "(string \<times> activeInterface) list"
  d_Name :: string
  d_ActiveP2P :: string
  d_baseListenPort :: int
  d_mcPort :: int
  d_VIP64 :: u64
  d_Nodes :: "(string \<times> node) list option" \<comment> \<open>\<open>None\<close> for the nil map\<close>
  d_pub :: "byte list"
  d_priv :: nat
  d_broken :: bool \<comment> \<open>the global \<open>brokenAndroidNetworks\<close>\<close>
  d_conns :: nat
  d_open :: "nat list"
  d_sent :: "(nat \<times> byte list \<times> udpAddr) list"

text \<open>The zero value, from which \<open>ugate\<close> starts.\<close>

definition zeroDiscovery :: llDiscovery where
  "zeroDiscovery = \<lparr>d_udpPort = 0, d_UDPMsgConn = None, d_ActiveInterfaces = [], d_Name = [], d_ActiveP2P = [],
     d_baseListenPort = 0, d_mcPort = 0, d_VIP64 = 0, d_Nodes = None, d_pub = [], d_priv = 0, d_broken = False,
     d_conns = 0, d_open = [], d_sent = []\<rparr>"

record discLib =
  lib_Sign :: "byte list \<Rightarrow> nat \<Rightarrow> byte list"
  lib_Verify :: "byte list \<Rightarrow> byte list \<Rightarrow> byte list \<Rightarrow> goerr option"
  lib_Pub2ID :: "byte list \<Rightarrow> u64"
  lib_PublicKeyBase32SHA :: "byte list \<Rightarrow> string"
  lib_jsonEncode :: "nodeAnnounce \<Rightarrow> byte list"
  lib_jsonDecode :: "byte list \<Rightarrow> nodeAnnounce" \<comment> \<open>what \<open>json.Unmarshal\<close> leaves in the value, errors included\<close>

section \<open>Addresses\<close>

text \<open>\<open>IP.IsLinkLocalUnicast\<close> and \<open>IP.IsLoopback\<close>.\<close>

definition IsLinkLocalUnicast :: "byte list \<Rightarrow> bool" where
  "IsLinkLocalUnicast ip = (case To4 ip of
     Some v \<Rightarrow> v ! 0 = 169 \<and> v ! 1 = 254
   | None \<Rightarrow> length ip = 16 \<and> ip ! 0 = 0xFE \<and> ip ! 1 AND 0xC0 = 0x80)"

definition IsLoopback :: "byte list \<Rightarrow> bool" where
  "IsLoopback ip = (case To4 ip of Some v \<Rightarrow> v ! 0 = 127 | None \<Rightarrow> ip = replicate 15 0 @ [1])"

text \<open>\<open>IsRFC1918\<close> looks at the first bytes of the address as it is given, also when it is the 16-byte form of an IPv4
  address. The first bytes of an empty address are out of range.\<close>

definition IsRFC1918 :: "byte list option \<Rightarrow> bool option" where
  "IsRFC1918 ipo = (case ipo of None \<Rightarrow> Some False
     | Some ip \<Rightarrow>
         if To4 ip = None then
           if length ip < 1 then None
           else if ip ! 0 = 0xFD then Some True
           else if ip ! 0 \<noteq> 0xFE then Some False
           else if length ip < 2 then None
           else Some (ip ! 1 = 0x80)
         else Some (ip ! 0 = 10 \<or> ip ! 0 = 192 \<and> ip ! 1 = 168 \<or> ip ! 0 = 172 \<and> ip ! 1 AND 0xF0 = 0x10
                    \<or> ip ! 0 = 192 \<and> ip ! 1 = 0 \<and> ip ! 2 = 0))"

fun pubAddrs :: "byte list list \<Rightarrow> (byte list \<times> int) list option" where
  "pubAddrs [] = Some []"
| "pubAddrs (i6 # r) = (if i6 = [] then None
     else do { us \<leftarrow> pubAddrs r; Some (if hd i6 = 0xFD then us else (i6, 5222) # us) })"

fun disc_ips :: "activeInterface list \<Rightarrow> (byte list \<times> int) list option" where
  "disc_ips [] = Some []"
| "disc_ips (a # r) = do {
     us \<leftarrow> pubAddrs (ai_IPPub a);
     loc \<leftarrow> IsRFC1918 (ai_IP4 a);
     rest \<leftarrow> disc_ips r;
     Some (us @ (case ai_IP4 a of Some ip \<Rightarrow> if \<not> loc then [(ip, 5222)] else [] | None \<Rightarrow> []) @ rest) }"

text \<open>\<open>FixIp6ForHTTP\<close>: \<open>ipText\<close> is \<open>IP.String\<close>, and brackets are put around an address with a colon.\<close>

definition joinHostPort :: "string \<Rightarrow> int \<Rightarrow> string" where
  "joinHostPort h port = (if CHR '':'' \<in> set h then ''['' @ h @ '']'' else h) @ '':'' @ itoa port"

definition FixIp6ForHTTP :: "(byte list \<Rightarrow> string) \<Rightarrow> string \<Rightarrow> byte list \<Rightarrow> int \<Rightarrow> string \<Rightarrow> string" where
  "FixIp6ForHTTP ipText activeP2P ip port zone =
     (if To4 ip \<noteq> None then joinHostPort (ipText ip) port
      else if zone \<noteq> [] then
        (let z = (if str_contains zone ''p2p-'' \<and> activeP2P \<noteq> [] then activeP2P else zone)
         in joinHostPort (ipText ip @ ''%25'' @ z) port)
      else joinHostPort (if ip = [] then [] else ipText ip) port)"

section \<open>Announcements\<close>

text \<open>\<open>signedMessage\<close>: the text, the key, and the signature of both.\<close>

definition signedMessage :: "discLib \<Rightarrow> byte list \<Rightarrow> byte list \<Rightarrow> nat \<Rightarrow> byte list option" where
  "signedMessage lib buf pub priv =
     (let res = buf @ pub @ pub in
      if length res < 64 then None
      else (let signed = take (length res - 64) res
            in Some (signed @ take 64 (lib_Sign lib signed priv @ drop (length (lib_Sign lib signed priv)) (drop (length res - 64) res)))))"

text \<open>\<open>mcMessage\<close>: the interface is a pointer, and is followed.\<close>

definition mcMessage :: "discLib \<Rightarrow> llDiscovery \<Rightarrow> activeInterface option \<Rightarrow> bool \<Rightarrow> byte list option" where
  "mcMessage lib d i isAck = do {
     as \<leftarrow> disc_ips (map snd (d_ActiveInterfaces d));
     a \<leftarrow> i;
     let ann = \<lparr>a_UA = d_Name d, a_IPs = as, a_SSID = [], a_AP = (ai_AndroidAP a \<or> str_contains (ai_Name a) ''p2p''),
       a_Ack = isAck, a_Vpn = []\<rparr>;
     signedMessage lib (lib_jsonEncode lib ann) (d_pub d) (d_priv d) }"

abbreviation errMinSize :: goerr where "errMinSize \<equiv> ErrMsg ''too short''"
abbreviation errStart :: goerr where "errStart \<equiv> ErrMsg ''invalid start of message''"
abbreviation selfRegister :: goerr where "selfRegister \<equiv> ErrMsg ''Self register''"

definition seen :: "int \<Rightarrow> nodeAnnounce \<Rightarrow> node \<Rightarrow> node" where
  "seen now ann nd =
     (let since = timeSub now (nd_LastSeen nd) div 1000000000;
          s = (if since > 2 then nd_Seen nd @ [since] else nd_Seen nd);
          s = (if length s > 100 then drop 1 s else s)
      in nd\<lparr>nd_Seen := s, nd_LastSeen := now, nd_NodeAnnounce := Some ann\<rparr>)"

definition processMCAnnounce :: "discLib \<Rightarrow> int \<Rightarrow> byte list \<Rightarrow> llDiscovery \<Rightarrow> ((goerr + string \<times> nodeAnnounce) \<times> llDiscovery) option" where
  "processMCAnnounce lib now data d =
     (let dl = length data in
      if dl < 64 + 64 + 2 then Some (Inl errMinSize, d)
      else if data ! 0 \<noteq> 123 then Some (Inl errStart, d)
      else (let pub = take 64 (drop (dl - 128) data); sig = drop (dl - 64) data in
        case lib_Verify lib (take (dl - 64) data) pub sig of
          Some e \<Rightarrow> Some (Inl e, d)
        | None \<Rightarrow>
            if d_VIP64 d = lib_Pub2ID lib pub then Some (Inl selfRegister, d)
            else (let ann = lib_jsonDecode lib (take (dl - 128) data);
                      i = lib_PublicKeyBase32SHA lib pub in
              case d_Nodes d of
                None \<Rightarrow> None
              | Some ns \<Rightarrow>
                  (let nd = (case map_of ns i of Some nd \<Rightarrow> nd | None \<Rightarrow> newNode i)
                   in Some (Inr (i, ann), d\<lparr>d_Nodes := Some (AList.update i (seen now ann nd) ns)\<rparr>)))))"

section \<open>Receivers\<close>

text \<open>After a valid announcement: the address of the sender is kept, at most every ten seconds for each version of IP.
  \<open>None\<close> in the result when it is too early.\<close>

definition noteAddr :: "int \<Rightarrow> udpAddr \<Rightarrow> node \<Rightarrow> node option" where
  "noteAddr now addr nd =
     (if To4 (ua_IP addr) \<noteq> None then
        if timeSub now (nd_LastSeen4 nd) < 10 * 1000000000 then None
        else Some (nd\<lparr>nd_LastSeen4 := nd_LastSeen nd, nd_Last4 := Some addr\<rparr>)
      else
        if timeSub now (nd_LastSeen6 nd) < 10 * 1000000000 then None
        else Some (nd\<lparr>nd_LastSeen6 := nd_LastSeen nd, nd_Last6 := Some addr\<rparr>))"

definition updNode :: "string \<Rightarrow> node \<Rightarrow> llDiscovery \<Rightarrow> llDiscovery" where
  "updNode i nd d = d\<lparr>d_Nodes := map_option (AList.update i nd) (d_Nodes d)\<rparr>"

definition nodeOf :: "string \<Rightarrow> llDiscovery \<Rightarrow> node option" where
  "nodeOf i d = (case d_Nodes d of None \<Rightarrow> None | Some ns \<Rightarrow> map_of ns i)"

text \<open>One packet in \<open>unicastReaderThread\<close>; the clock is read once for a packet, here and below.\<close>

definition unicastRead :: "discLib \<Rightarrow> int \<Rightarrow> byte list \<Rightarrow> udpAddr \<Rightarrow> llDiscovery \<Rightarrow> llDiscovery option" where
  "unicastRead lib now packet addr d =
     (let rcv = take 1600 packet in
      if length rcv < 129 then Some d
      else do {
        (r, d) \<leftarrow> processMCAnnounce lib now rcv d;
        case r of Inl e \<Rightarrow> Some d
        | Inr (i, ann) \<Rightarrow> do {
            nd \<leftarrow> nodeOf i d;
            Some (case noteAddr now addr nd of None \<Rightarrow> d | Some nd \<Rightarrow> updNode i nd d) } })"

definition sendTo :: "nat option \<Rightarrow> byte list \<Rightarrow> udpAddr \<Rightarrow> llDiscovery \<Rightarrow> llDiscovery" where
  "sendTo c data addr d = (case c of None \<Rightarrow> d
     | Some c \<Rightarrow> if c \<in> set (d_open d) then d\<lparr>d_sent := d_sent d @ [(c, data, addr)]\<rparr> else d)"

text \<open>One packet in \<open>multicastReaderThread\<close> of the interface \<open>iface\<close>; \<open>zone\<close> is the zone of the sender. An announcement
  that is no acknowledgement is acknowledged, to the port of the sender and to the port of this node. The code sets the
  port in the address that it stored as the last one of the node before (\<open>movePort\<close>).\<close>

definition movePort :: "int \<Rightarrow> udpAddr \<Rightarrow> node \<Rightarrow> node" where
  "movePort port addr nd =
     (if To4 (ua_IP addr) \<noteq> None then nd\<lparr>nd_Last4 := Some (addr\<lparr>ua_Port := port\<rparr>)\<rparr>
      else nd\<lparr>nd_Last6 := Some (addr\<lparr>ua_Port := port\<rparr>)\<rparr>)"

definition multicastRead :: "discLib \<Rightarrow> int \<Rightarrow> activeInterface \<Rightarrow> byte list \<Rightarrow> udpAddr \<Rightarrow> string \<Rightarrow> llDiscovery \<Rightarrow> llDiscovery option" where
  "multicastRead lib now iface packet addr zone d =
     (if d_UDPMsgConn d = None then Some d
      else if zone \<noteq> [] \<and> zone \<noteq> ai_Name iface then Some d
      else do {
        (r, d) \<leftarrow> processMCAnnounce lib now (take 1600 packet) d;
        case r of Inl e \<Rightarrow> Some d
        | Inr (i, ann) \<Rightarrow> do {
            nd \<leftarrow> nodeOf i d;
            case noteAddr now addr nd of
              None \<Rightarrow> Some d
            | Some nd \<Rightarrow>
                (let d = updNode i nd d in
                 if a_Ack ann then Some d
                 else do {
                   m \<leftarrow> mcMessage lib d (Some iface) True;
                   Some (updNode i (movePort (d_udpPort d) addr nd)
                     (sendTo (d_UDPMsgConn d) m (addr\<lparr>ua_Port := d_udpPort d\<rparr>) (sendTo (d_UDPMsgConn d) m addr d))) }) } })"

section \<open>Interfaces\<close>

text \<open>An interface of the system: its addresses are an error, or a list with the IP of each \<open>net.IPNet\<close> and \<open>None\<close> for other
  kinds.\<close>

record netIface =
  i_Name :: string
  i_Up :: bool
  i_Multicast :: bool
  i_Addrs :: "goerr + byte list option list"

definition isLoopback :: "byte list option list \<Rightarrow> bool" where
  "isLoopback addrs = list_ex (\<lambda>a. case a of None \<Rightarrow> True | Some ip \<Rightarrow> IsLoopback ip) addrs"

fun localAddrs :: "byte list option list \<Rightarrow> byte list option \<times> byte list option \<times> byte list list
    \<Rightarrow> byte list option \<times> byte list option \<times> byte list list" where
  "localAddrs [] s = s"
| "localAddrs (None # r) s = localAddrs r s"
| "localAddrs (Some ip # r) (ll, ip4, res) =
     localAddrs r (case To4 ip of
         None \<Rightarrow> if IsLinkLocalUnicast ip then (Some ip, ip4, res) else (ll, ip4, res @ [ip])
       | Some v \<Rightarrow> if IsLinkLocalUnicast ip then (ll, ip4, res) else (ll, Some v, res))"

definition ip6Local :: "netIface \<Rightarrow> byte list option \<times> byte list option \<times> byte list list" where
  "ip6Local ifi = (case i_Addrs ifi of
     Inl e \<Rightarrow> (None, None, [])
   | Inr addrs \<Rightarrow> if isLoopback addrs then (None, None, [])
       else if str_contains (i_Name ifi) ''dmesh'' then (None, None, [])
       else localAddrs addrs (None, None, []))"

definition addIface :: "netIface \<Rightarrow> (string \<times> activeInterface) list \<times> string \<Rightarrow> (string \<times> activeInterface) list \<times> string" where
  "addIface ifi s = (case s of (anets, p2p) \<Rightarrow>
     if \<not> i_Up ifi then s
     else if str_contains (i_Name ifi) ''dummy'' then s
     else (let (ip, ip4, ippub) = ip6Local ifi in
       if ip = None \<and> ip4 = None \<and> ippub = [] then s
       else if ip4 = None \<and> i_Name ifi = ''p2p'' then s
       else (let ap = (ip4 = Some [192, 168, 49, 1]);
                 client = (case ip4 of Some v \<Rightarrow> v ! 0 = 192 \<and> v ! 1 = 168 \<and> v ! 2 = 49 \<and> v ! 3 \<noteq> 1 | None \<Rightarrow> False);
                 a = \<lparr>ai_Name = i_Name ifi, ai_IP6LL = ip, ai_IP4 = ip4, ai_IPPub = ippub, ai_Port = 0, ai_Port4 = 0,
                      ai_AndroidAP = ap, ai_AndroidAPClient = (\<not> ap \<and> client), ai_multicast = i_Multicast ifi,
                      ai_multicastRegisterConn = None, ai_multicastRegisterConn2 = None, ai_unicastUdpServer = None,
                      ai_unicastUdpServer4 = None\<rparr>
             in (AList.update (i_Name ifi) a anets, if ap then i_Name ifi else p2p))))"

definition ActiveNetworks :: "goerr + netIface list \<Rightarrow> llDiscovery \<Rightarrow> (goerr + (string \<times> activeInterface) list) \<times> llDiscovery" where
  "ActiveNetworks ifaces d = (case ifaces of
     Inl e \<Rightarrow> (Inl e, d)
   | Inr is \<Rightarrow> (let (anets, p2p) = fold addIface is ([], []) in (Inr anets, d\<lparr>d_ActiveP2P := p2p\<rparr>)))"

definition findActive :: "activeInterface \<Rightarrow> (string \<times> activeInterface) list \<Rightarrow> activeInterface option" where
  "findActive tofind act = map_of act (ai_Name tofind)"

section \<open>Refresh\<close>

definition newDiscConn :: "llDiscovery \<Rightarrow> nat \<times> llDiscovery" where
  "newDiscConn d = (d_conns d, d\<lparr>d_conns := d_conns d + 1, d_open := d_conns d # d_open d\<rparr>)"

definition closeDiscConn :: "nat option \<Rightarrow> llDiscovery \<Rightarrow> llDiscovery" where
  "closeDiscConn c d = (case c of None \<Rightarrow> d | Some c \<Rightarrow> d\<lparr>d_open := filter (\<lambda>x. x \<noteq> c) (d_open d)\<rparr>)"

text \<open>\<open>listen6\<close> and \<open>listen4\<close> try ten ports; \<open>listens\<close> is the outcome of listening on a port, the local port when it
  succeeds. In \<open>listen6\<close> the port is \<open>base + i\<close>, and \<open>base\<close> grows as well.\<close>

fun listenFrom :: "(int \<Rightarrow> int option) \<Rightarrow> int \<Rightarrow> int \<Rightarrow> nat \<Rightarrow> llDiscovery \<Rightarrow> (int \<times> nat) option \<times> llDiscovery" where
  "listenFrom listens port step 0 d = (None, d)"
| "listenFrom listens port step (Suc n) d = (case listens port of
     Some local \<Rightarrow> (let (c, d) = newDiscConn d in (Some (local, c), d))
   | None \<Rightarrow> listenFrom listens (port + step) step n d)"

definition listen6 :: "(int \<Rightarrow> int option) \<Rightarrow> int \<Rightarrow> llDiscovery \<Rightarrow> (int \<times> nat) option \<times> llDiscovery" where
  "listen6 listens base d = listenFrom listens base 2 10 d"

definition listen4 :: "(int \<Rightarrow> int option) \<Rightarrow> int \<Rightarrow> llDiscovery \<Rightarrow> (int \<times> nat) option \<times> llDiscovery" where
  "listen4 listens base d = listenFrom listens base 1 10 d"

text \<open>The first loop of \<open>RefreshNetworks\<close>: sockets of an interface that is still there are passed on, the others are
  closed.\<close>

definition passOn :: "string \<times> activeInterface \<Rightarrow> (string \<times> activeInterface) list \<times> llDiscovery
    \<Rightarrow> (string \<times> activeInterface) list \<times> llDiscovery" where
  "passOn x s = (case x of (_, e) \<Rightarrow> case s of (newAct, d) \<Rightarrow>
     (case findActive e newAct of
        Some a \<Rightarrow> (AList.update (ai_Name e) (a\<lparr>ai_multicastRegisterConn := ai_multicastRegisterConn e,
            ai_multicastRegisterConn2 := ai_multicastRegisterConn2 e, ai_unicastUdpServer := ai_unicastUdpServer e,
            ai_unicastUdpServer4 := ai_unicastUdpServer4 e, ai_Port := ai_Port e\<rparr>) newAct, d)
      | None \<Rightarrow> (newAct, closeDiscConn (ai_multicastRegisterConn2 e) (closeDiscConn (ai_multicastRegisterConn e)
            (closeDiscConn (ai_unicastUdpServer4 e) (closeDiscConn (ai_unicastUdpServer e) d))))))"

text \<open>The outcomes of listening on the ports of an interface, and on the multicast addresses.\<close>

record listenEnv =
  le_bind6 :: "string \<Rightarrow> int \<Rightarrow> int option"
  le_bind4 :: "string \<Rightarrow> int \<Rightarrow> int option"
  le_mc6 :: "string \<Rightarrow> bool"
  le_mc4 :: "string \<Rightarrow> bool"

definition startIface :: "listenEnv \<Rightarrow> activeInterface \<Rightarrow> llDiscovery \<Rightarrow> activeInterface \<times> llDiscovery" where
  "startIface le a d =
     (let a = (if ai_Port a = 0 then a\<lparr>ai_Port := d_baseListenPort d\<rparr> else a);
          (a, d) = (if ai_unicastUdpServer a = None \<and> ai_IP6LL a \<noteq> None then
              (case listen6 (le_bind6 le (ai_Name a)) (d_baseListenPort d) d of
                 (None, d) \<Rightarrow> (a, d) | (Some (port, c), d) \<Rightarrow> (a\<lparr>ai_Port := port, ai_unicastUdpServer := Some c\<rparr>, d))
            else (a, d));
          (a, d) = (if ai_unicastUdpServer4 a = None \<and> ai_IP4 a \<noteq> None then
              (case listen4 (le_bind4 le (ai_Name a)) (d_baseListenPort d) d of
                 (None, d) \<Rightarrow> (a, d) | (Some (port, c), d) \<Rightarrow> (a\<lparr>ai_Port4 := port, ai_unicastUdpServer4 := Some c\<rparr>, d))
            else (a, d))
      in if ai_multicastRegisterConn a \<noteq> None \<or> \<not> ai_multicast a then (a, d)
         else (let (a, d) = (if ai_IP6LL a \<noteq> None \<and> le_mc6 le (ai_Name a)
                  then (let (c, d) = newDiscConn d in (a\<lparr>ai_multicastRegisterConn := Some c\<rparr>, d)) else (a, d))
               in if ai_IP4 a \<noteq> None \<and> ai_multicastRegisterConn2 a = None \<and> le_mc4 le (ai_Name a)
                  then (let (c, d) = newDiscConn d in (a\<lparr>ai_multicastRegisterConn2 := Some c\<rparr>, d)) else (a, d)))"

fun startIfaces :: "listenEnv \<Rightarrow> activeInterface list \<Rightarrow> llDiscovery \<Rightarrow> activeInterface list \<times> llDiscovery" where
  "startIfaces le [] d = ([], d)"
| "startIfaces le (a # as) d = (let (a, d) = startIface le a d; (as, d) = startIfaces le as d in (a # as, d))"

text \<open>\<open>AnnounceMulticast\<close>: two messages on each interface; \<open>nil\<close> is passed for the interface when there is none.\<close>

definition MulticastDiscoveryIP6 :: "byte list" where
  "MulticastDiscoveryIP6 = [0xFF, 0x02] @ replicate 12 0 @ [0x52, 0x27]"

definition MulticastDiscoveryIP4 :: "byte list" where
  "MulticastDiscoveryIP4 = IPv4 [224, 0, 0, 250]"

fun announceIfaces :: "discLib \<Rightarrow> activeInterface list \<Rightarrow> llDiscovery \<Rightarrow> llDiscovery option" where
  "announceIfaces lib [] d = Some d"
| "announceIfaces lib (a # as) d =
     (if ai_unicastUdpServer a = None \<and> ai_unicastUdpServer4 a = None then announceIfaces lib as d
      else do {
        m \<leftarrow> mcMessage lib d (Some a) False;
        let send = (\<lambda>d. sendTo (ai_unicastUdpServer4 a) m \<lparr>ua_IP = MulticastDiscoveryIP4, ua_Port = d_mcPort d\<rparr>
                          (sendTo (d_UDPMsgConn d) m \<lparr>ua_IP = MulticastDiscoveryIP6, ua_Port = d_mcPort d\<rparr> d));
        announceIfaces lib as (send (send d)) })"

definition AnnounceMulticast :: "discLib \<Rightarrow> llDiscovery \<Rightarrow> llDiscovery option" where
  "AnnounceMulticast lib d =
     (if d_UDPMsgConn d = None then Some d
      else if d_ActiveInterfaces d = [] then do {
        m \<leftarrow> mcMessage lib d None False;
        let send = (\<lambda>d. sendTo (d_UDPMsgConn d) m \<lparr>ua_IP = MulticastDiscoveryIP6, ua_Port = d_mcPort d\<rparr> d);
        Some (send (send d)) }
      else announceIfaces lib (map snd (d_ActiveInterfaces d)) d)"

text \<open>\<open>RefreshNetworks\<close>. The interfaces that it found and started are in the local map \<open>newAct\<close>. \<open>AnnounceMulticast\<close> runs in a
  goroutine, whose panic ends the program.\<close>

definition RefreshNetworks :: "discLib \<Rightarrow> listenEnv \<Rightarrow> goerr + netIface list \<Rightarrow> llDiscovery
    \<Rightarrow> ((string \<times> activeInterface) list \<times> llDiscovery) option" where
  "RefreshNetworks lib le ifaces d =
     (if d_broken d then map_option (\<lambda>d. ([], d)) (AnnounceMulticast lib d)
      else case ActiveNetworks ifaces d of
          (Inl e, d) \<Rightarrow> map_option (\<lambda>d. ([], d)) (AnnounceMulticast lib (d\<lparr>d_broken := True\<rparr>))
        | (Inr newAct, d) \<Rightarrow>
            (let (newAct, d) = fold passOn (d_ActiveInterfaces d) (newAct, d);
                 (as, d) = startIfaces le (map snd newAct) d
             in Some (zip (map fst newAct) as, d)))"

text \<open>\<open>Start\<close>: \<open>l1\<close> and \<open>l2\<close> are the outcomes of listening on the port and on any port.\<close>

definition disc_Start :: "discLib \<Rightarrow> listenEnv \<Rightarrow> goerr + netIface list \<Rightarrow> goerr option \<Rightarrow> goerr option \<Rightarrow> llDiscovery
    \<Rightarrow> (goerr option \<times> llDiscovery) option" where
  "disc_Start lib le ifaces l1 l2 d =
     (if l1 \<noteq> None \<and> l2 \<noteq> None then Some (l2, d)
      else (let (c, d) = newDiscConn d; d = d\<lparr>d_UDPMsgConn := Some c\<rparr>
            in map_option (\<lambda>(_, d). (None, d)) (RefreshNetworks lib le ifaces d)))"

section \<open>What an announcement carries\<close>

text \<open>JSON carries an address as text, from which \<open>net.ParseIP\<close> makes the 16-byte form.\<close>

definition To16 :: "byte list \<Rightarrow> byte list" where
  "To16 ip = (if length ip = 4 then IPv4 ip else ip)"

definition parsedAddrs :: "nodeAnnounce \<Rightarrow> nodeAnnounce" where
  "parsedAddrs a = a\<lparr>a_IPs := map (\<lambda>(ip, port). (To16 ip, port)) (a_IPs a)\<rparr>"

definition ipSized :: "activeInterface \<Rightarrow> bool" where
  "ipSized a \<longleftrightarrow> (\<forall>ip \<in> set (ai_IPPub a). length ip = 16) \<and> (\<forall>v. ai_IP4 a = Some v \<longrightarrow> length v = 4)"

lemma pubAddrs_sized:
  assumes "pubAddrs ips = Some us" and "\<forall>ip \<in> set ips. length ip = 16" and "u \<in> set us"
  shows "length (fst u) = 16"
  using assms by (induction ips arbitrary: us) (auto split: if_splits bind_splits)

lemma disc_ips_sized:
  assumes "disc_ips as = Some us" and "\<forall>a \<in> set as. ipSized a" and "u \<in> set us"
  shows "length (fst u) = 4 \<or> length (fst u) = 16"
  using assms
proof (induction as arbitrary: us)
  case (Cons a as)
  then obtain ps l rest where p: "pubAddrs (ai_IPPub a) = Some ps" and rest: "disc_ips as = Some rest"
    and us: "us = ps @ (case ai_IP4 a of Some ip \<Rightarrow> if \<not> l then [(ip, 5222)] else [] | None \<Rightarrow> []) @ rest"
    by (auto split: bind_splits)
  from Cons.prems(3) us consider "u \<in> set ps" | ip where "ai_IP4 a = Some ip" "u = (ip, 5222)" | "u \<in> set rest"
    by (auto split: option.splits if_splits)
  thus ?case
  proof cases
    case 1
    thus ?thesis using pubAddrs_sized [OF p] Cons.prems(2) by (simp add: ipSized_def)
  next
    case 2
    thus ?thesis using Cons.prems(2) by (simp add: ipSized_def)
  next
    case 3
    thus ?thesis using Cons.IH [OF rest] Cons.prems(2) by simp
  qed
qed simp

lemma mcMessage_Some:
  assumes "mcMessage lib d (Some i) ack = Some m"
  obtains us where "disc_ips (map snd (d_ActiveInterfaces d)) = Some us"
    and "signedMessage lib (lib_jsonEncode lib \<lparr>a_UA = d_Name d, a_IPs = us, a_SSID = [],
           a_AP = (ai_AndroidAP i \<or> str_contains (ai_Name i) ''p2p''), a_Ack = ack, a_Vpn = []\<rparr>) (d_pub d) (d_priv d) = Some m"
  using assms by (auto simp: mcMessage_def split: bind_splits)

lemma signedMessage_parts:
  assumes "length pub = 64" and "length (lib_Sign lib (buf @ pub) priv) = 64"
  shows "signedMessage lib buf pub priv = Some (buf @ pub @ lib_Sign lib (buf @ pub) priv)"
  using assms by (simp add: signedMessage_def Let_def)

lemma processMCAnnounce_signed:
  assumes "length pub = 64" and "length sig = 64" and "2 \<le> length buf" and "hd buf = 123"
    and "lib_Verify lib (buf @ pub) pub sig = None" and "d_VIP64 d \<noteq> lib_Pub2ID lib pub" and "d_Nodes d = Some ns"
  shows "processMCAnnounce lib now (buf @ pub @ sig) d =
    Some (Inr (lib_PublicKeyBase32SHA lib pub, lib_jsonDecode lib buf),
      d\<lparr>d_Nodes := Some (AList.update (lib_PublicKeyBase32SHA lib pub) (seen now (lib_jsonDecode lib buf)
        (case map_of ns (lib_PublicKeyBase32SHA lib pub) of Some nd \<Rightarrow> nd | None \<Rightarrow> newNode (lib_PublicKeyBase32SHA lib pub))) ns)\<rparr>)"
proof -
  define data where "data = buf @ pub @ sig"
  have "data ! 0 = 123" using assms(3,4) by (cases buf) (auto simp: data_def)
  moreover have "take (length data - 64) data = buf @ pub" "drop (length data - 64) data = sig"
    "take 64 (drop (length data - 128) data) = pub" "take (length data - 128) data = buf"
    using assms(1,2) by (simp_all add: data_def)
  moreover have "\<not> length data < 64 + 64 + 2" using assms(1-3) by (simp add: data_def)
  ultimately show ?thesis unfolding processMCAnnounce_def Let_def data_def [symmetric]
    using assms(5-7) by (simp only: if_False option.case simp_thms not_False_eq_True)
qed

lemma seen_fields [simp]:
  "nd_NodeAnnounce (seen now ann nd) = Some ann" "nd_LastSeen (seen now ann nd) = now" "nd_ID (seen now ann nd) = nd_ID nd"
  "nd_Last4 (seen now ann nd) = nd_Last4 nd" "nd_Last6 (seen now ann nd) = nd_Last6 nd"
  by (simp_all add: seen_def Let_def)

text \<open>A library for examples, with checksums as signatures.\<close>

definition exampleLib :: discLib where
  "exampleLib = \<lparr>lib_Sign = \<lambda>x k. replicate 63 0 @ [of_nat (length x + k)],
    lib_Verify = \<lambda>x p s. if s = replicate 63 0 @ [of_nat (length x + 3)] then None else Some (ErrMsg ''bad signature''),
    lib_Pub2ID = \<lambda>p. 9, lib_PublicKeyBase32SHA = \<lambda>p. ''peer'',
    lib_jsonEncode = \<lambda>a. [123, if a_AP a then 1 else 0, if a_Ack a then 1 else 0],
    lib_jsonDecode = \<lambda>b. \<lparr>a_UA = ''a'', a_IPs = [(IPv4 [8, 8, 8, 8], 5222)], a_SSID = [], a_AP = (b ! 1 = 1),
       a_Ack = (b ! 2 = 1), a_Vpn = []\<rparr>\<rparr>"

text \<open>A node \<open>A\<close> multicasts its announcement and a node \<open>B\<close> receives it: given signatures of 64 bytes that verify with the
  key of \<open>A\<close>, and JSON that carries an announcement with the addresses in 16-byte form, \<open>B\<close> accepts the announcement, keeps
  it under the hash of the key of \<open>A\<close> with the time of arrival, and leaves its other nodes alone; the content is the name
  of \<open>A\<close>, its public addresses and whether it is an access point or acknowledges. This is about the two formats: it takes a key for \<open>A\<close> and a table
  for \<open>B\<close>, and the repository assigns neither (\<open>pub\<close>, \<open>priv\<close> and \<open>Nodes\<close>); see \<open>discovery_silent\<close> and \<open>announce_nil_nodes\<close> for the code as it is wired.\<close>

theorem announce_roundtrip:
  assumes sign_len: "\<And>x. length (lib_Sign lib x (d_priv A)) = 64"
    and verify: "\<And>x. lib_Verify lib x (d_pub A) (lib_Sign lib x (d_priv A)) = None"
    and json: "\<And>a. a_UA a = d_Name A \<Longrightarrow> a_SSID a = [] \<Longrightarrow> a_Vpn a = [] \<Longrightarrow>
        disc_ips (map snd (d_ActiveInterfaces A)) = Some (a_IPs a) \<Longrightarrow>
        \<forall>u \<in> set (a_IPs a). length (fst u) = 4 \<or> length (fst u) = 16 \<Longrightarrow>
        lib_jsonDecode lib (lib_jsonEncode lib a) = parsedAddrs a"
    and json_start: "\<And>a. 2 \<le> length (lib_jsonEncode lib a) \<and> hd (lib_jsonEncode lib a) = 123"
    and pub_len: "length (d_pub A) = 64"
    and sized: "\<forall>a \<in> set (map snd (d_ActiveInterfaces A)). ipSized a"
    and msg: "mcMessage lib A (Some i) ack = Some m"
    and other: "d_VIP64 B \<noteq> lib_Pub2ID lib (d_pub A)"
    and nodes: "d_Nodes B = Some ns"
  shows "\<exists>us ann B' nd. disc_ips (map snd (d_ActiveInterfaces A)) = Some us \<and>
    ann = \<lparr>a_UA = d_Name A, a_IPs = map (\<lambda>(ip, port). (To16 ip, port)) us, a_SSID = [],
      a_AP = (ai_AndroidAP i \<or> str_contains (ai_Name i) ''p2p''), a_Ack = ack, a_Vpn = []\<rparr> \<and>
    processMCAnnounce lib now m B = Some (Inr (lib_PublicKeyBase32SHA lib (d_pub A), ann), B') \<and>
    nodeOf (lib_PublicKeyBase32SHA lib (d_pub A)) B' = Some nd \<and> nd_NodeAnnounce nd = Some ann \<and> nd_LastSeen nd = now \<and>
    (\<forall>j. j \<noteq> lib_PublicKeyBase32SHA lib (d_pub A) \<longrightarrow> nodeOf j B' = nodeOf j B)"
proof -
  obtain us where us: "disc_ips (map snd (d_ActiveInterfaces A)) = Some us"
    and sm: "signedMessage lib (lib_jsonEncode lib \<lparr>a_UA = d_Name A, a_IPs = us, a_SSID = [],
           a_AP = (ai_AndroidAP i \<or> str_contains (ai_Name i) ''p2p''), a_Ack = ack, a_Vpn = []\<rparr>) (d_pub A) (d_priv A) = Some m"
    using mcMessage_Some [OF msg] by metis
  define a where "a = \<lparr>a_UA = d_Name A, a_IPs = us, a_SSID = [],
           a_AP = (ai_AndroidAP i \<or> str_contains (ai_Name i) ''p2p''), a_Ack = ack, a_Vpn = []\<rparr>"
  define buf where "buf = lib_jsonEncode lib a"
  define k where "k = lib_PublicKeyBase32SHA lib (d_pub A)"
  define nd where "nd = seen now (parsedAddrs a) (case map_of ns k of Some nd \<Rightarrow> nd | None \<Rightarrow> newNode k)"
  have "m = buf @ d_pub A @ lib_Sign lib (buf @ d_pub A) (d_priv A)"
    using sm signedMessage_parts [OF pub_len sign_len] by (simp add: a_def buf_def)
  moreover have "lib_jsonDecode lib buf = parsedAddrs a"
    unfolding buf_def using disc_ips_sized [OF us sized] us by (intro json) (simp_all add: a_def)
  ultimately have p: "processMCAnnounce lib now m B = Some (Inr (k, parsedAddrs a), B\<lparr>d_Nodes := Some (AList.update k nd ns)\<rparr>)"
    using processMCAnnounce_signed [OF pub_len sign_len _ _ verify other nodes, of buf now] json_start [of a]
    unfolding buf_def k_def nd_def by simp
  have "nodeOf k (B\<lparr>d_Nodes := Some (AList.update k nd ns)\<rparr>) = Some nd"
    by (simp add: nodeOf_def update_conv')
  moreover have "\<forall>j. j \<noteq> k \<longrightarrow> nodeOf j (B\<lparr>d_Nodes := Some (AList.update k nd ns)\<rparr>) = nodeOf j B"
    using nodes by (simp add: nodeOf_def update_conv')
  moreover have "parsedAddrs a = \<lparr>a_UA = d_Name A, a_IPs = map (\<lambda>(ip, port). (To16 ip, port)) us, a_SSID = [],
      a_AP = (ai_AndroidAP i \<or> str_contains (ai_Name i) ''p2p''), a_Ack = ack, a_Vpn = []\<rparr>"
    by (simp add: parsedAddrs_def a_def)
  moreover have "nd_NodeAnnounce nd = Some (parsedAddrs a)" "nd_LastSeen nd = now" by (simp_all add: nd_def)
  ultimately show ?thesis using us p unfolding k_def by metis
qed

theorem announce_roundtrip_witness:
  "\<exists>lib A B i m ns.
    (\<forall>x. length (lib_Sign lib x (d_priv A)) = 64) \<and>
    (\<forall>x. lib_Verify lib x (d_pub A) (lib_Sign lib x (d_priv A)) = None) \<and>
    mcMessage lib A (Some i) True = Some m \<and> d_Nodes B = Some ns \<and>
    (\<exists>ann B'. processMCAnnounce lib 5 m B = Some (Inr (''peer'', ann), B') \<and> a_UA ann = ''a'' \<and>
       a_IPs ann = [(IPv4 [8, 8, 8, 8], 5222)] \<and> a_Ack ann)"
proof -
  define lib where "lib = exampleLib"
  define i where "i = \<lparr>ai_Name = ''eth0'', ai_IP6LL = None, ai_IP4 = Some [8, 8, 8, 8], ai_IPPub = [], ai_Port = 0, ai_Port4 = 0,
     ai_AndroidAP = False, ai_AndroidAPClient = False, ai_multicast = True, ai_multicastRegisterConn = None,
     ai_multicastRegisterConn2 = None, ai_unicastUdpServer = None, ai_unicastUdpServer4 = None\<rparr>"
  define A where "A = zeroDiscovery\<lparr>d_Name := ''a'', d_pub := replicate 64 1, d_priv := 3, d_ActiveInterfaces := [(''eth0'', i)]\<rparr>"
  define B where "B = zeroDiscovery\<lparr>d_Nodes := Some []\<rparr>"
  have sign: "length (lib_Sign lib x (d_priv A)) = 64" for x by (simp add: lib_def exampleLib_def)
  have verify: "lib_Verify lib x (d_pub A) (lib_Sign lib x (d_priv A)) = None" for x by (simp add: lib_def exampleLib_def A_def zeroDiscovery_def)
  have ips: "disc_ips (map snd (d_ActiveInterfaces A)) = Some [([8, 8, 8, 8], 5222)]"
    by (simp add: A_def zeroDiscovery_def i_def IsRFC1918_def To4_def)
  have msg: "mcMessage lib A (Some i) True = Some (lib_jsonEncode lib \<lparr>a_UA = ''a'', a_IPs = [([8, 8, 8, 8], 5222)], a_SSID = [],
      a_AP = (ai_AndroidAP i \<or> str_contains (ai_Name i) ''p2p''), a_Ack = True, a_Vpn = []\<rparr> @ d_pub A @
      lib_Sign lib (lib_jsonEncode lib \<lparr>a_UA = ''a'', a_IPs = [([8, 8, 8, 8], 5222)], a_SSID = [],
      a_AP = (ai_AndroidAP i \<or> str_contains (ai_Name i) ''p2p''), a_Ack = True, a_Vpn = []\<rparr> @ d_pub A) (d_priv A))" (is "_ = Some ?m")
  proof -
    have "length (d_pub A) = 64" "d_Name A = ''a''" by (simp_all add: A_def)
    thus ?thesis unfolding mcMessage_def ips by (simp add: Let_def signedMessage_parts [OF _ sign])
  qed
  have nodes: "d_Nodes B = Some []" by (simp add: B_def)
  have "\<exists>us ann B' nd. disc_ips (map snd (d_ActiveInterfaces A)) = Some us \<and>
    ann = \<lparr>a_UA = d_Name A, a_IPs = map (\<lambda>(ip, port). (To16 ip, port)) us, a_SSID = [],
      a_AP = (ai_AndroidAP i \<or> str_contains (ai_Name i) ''p2p''), a_Ack = True, a_Vpn = []\<rparr> \<and>
    processMCAnnounce lib 5 ?m B = Some (Inr (lib_PublicKeyBase32SHA lib (d_pub A), ann), B') \<and>
    nodeOf (lib_PublicKeyBase32SHA lib (d_pub A)) B' = Some nd \<and> nd_NodeAnnounce nd = Some ann \<and> nd_LastSeen nd = 5 \<and>
    (\<forall>j. j \<noteq> lib_PublicKeyBase32SHA lib (d_pub A) \<longrightarrow> nodeOf j B' = nodeOf j B)"
  proof (rule announce_roundtrip [OF sign verify _ _ _ _ msg _ nodes])
    fix a :: nodeAnnounce
    assume "a_UA a = d_Name A" "a_SSID a = []" "a_Vpn a = []" "disc_ips (map snd (d_ActiveInterfaces A)) = Some (a_IPs a)"
    thus "lib_jsonDecode lib (lib_jsonEncode lib a) = parsedAddrs a"
      unfolding ips by (cases a) (auto simp: lib_def exampleLib_def parsedAddrs_def A_def To16_def)
  qed (auto simp: lib_def exampleLib_def A_def B_def zeroDiscovery_def i_def ipSized_def)
  then obtain ann B' where "processMCAnnounce lib 5 ?m B = Some (Inr (''peer'', ann), B')"
    "a_UA ann = ''a''" "a_IPs ann = [(IPv4 [8, 8, 8, 8], 5222)]" "a_Ack ann"
    unfolding ips by (auto simp: A_def To16_def lib_def exampleLib_def)
  thus ?thesis using sign verify msg nodes by metis
qed

section \<open>Authenticity\<close>

lemma processMCAnnounce_cases:
  assumes "processMCAnnounce lib now data d = Some (r, d')"
  obtains e where "r = Inl e" "d' = d"
  | body pub sig ns where "data = body @ pub @ sig" "length pub = 64" "length sig = 64" "2 \<le> length body" "hd body = 123"
      "lib_Verify lib (body @ pub) pub sig = None" "d_VIP64 d \<noteq> lib_Pub2ID lib pub" "d_Nodes d = Some ns"
      "r = Inr (lib_PublicKeyBase32SHA lib pub, lib_jsonDecode lib body)"
      "d' = updNode (lib_PublicKeyBase32SHA lib pub) (seen now (lib_jsonDecode lib body)
          (case map_of ns (lib_PublicKeyBase32SHA lib pub) of Some nd \<Rightarrow> nd | None \<Rightarrow> newNode (lib_PublicKeyBase32SHA lib pub))) d"
proof (cases r)
  case (Inl e)
  thus ?thesis using assms that(1) unfolding processMCAnnounce_def Let_def by (auto split: if_splits option.splits)
next
  case (Inr v)
  define body pub sig where "body = take (length data - 128) data" and "pub = take 64 (drop (length data - 128) data)"
    and "sig = drop (length data - 64) data"
  have len: "130 \<le> length data" and start: "data ! 0 = 123"
    using assms Inr unfolding processMCAnnounce_def Let_def by (auto split: if_splits)
  have front: "take (length data - 64) data = body @ pub"
    using len take_add [of "length data - 128" 64 data] by (simp add: body_def pub_def)
  have data: "data = body @ pub @ sig"
    using append_take_drop_id [of "length data - 64" data] by (simp add: front sig_def)
  have lens: "length pub = 64" "length sig = 64" "2 \<le> length body" using len by (simp_all add: body_def pub_def sig_def)
  have hd: "hd body = 123" using start lens(3) unfolding data by (cases body) auto
  from assms Inr len start have "lib_Verify lib (body @ pub) pub sig = None" "d_VIP64 d \<noteq> lib_Pub2ID lib pub" "d_Nodes d \<noteq> None"
    unfolding processMCAnnounce_def Let_def front pub_def [symmetric] sig_def [symmetric] by (auto split: if_splits option.splits)
  then obtain ns where ok: "lib_Verify lib (body @ pub) pub sig = None" "d_VIP64 d \<noteq> lib_Pub2ID lib pub" "d_Nodes d = Some ns" by auto
  from processMCAnnounce_signed [OF lens hd ok] assms show ?thesis
    unfolding data [symmetric] by (intro that(2) [OF data lens hd ok]) (simp_all add: updNode_def ok)
qed

lemma nodeOf_updNode: "nodeOf j (updNode i nd d) = (if d_Nodes d = None then None else if j = i then Some nd else nodeOf j d)"
  by (auto simp: nodeOf_def updNode_def update_conv')

lemma updNode_fields [simp]:
  "d_ActiveInterfaces (updNode i nd d) = d_ActiveInterfaces d" "d_sent (updNode i nd d) = d_sent d"
  "d_UDPMsgConn (updNode i nd d) = d_UDPMsgConn d" "d_pub (updNode i nd d) = d_pub d" "d_priv (updNode i nd d) = d_priv d"
  "d_Name (updNode i nd d) = d_Name d" "d_open (updNode i nd d) = d_open d" "d_udpPort (updNode i nd d) = d_udpPort d"
  "d_Nodes (updNode i nd d) = map_option (AList.update i nd) (d_Nodes d)"
  by (simp_all add: updNode_def)

lemma sendTo_fields [simp]:
  "d_ActiveInterfaces (sendTo c m a d) = d_ActiveInterfaces d" "d_UDPMsgConn (sendTo c m a d) = d_UDPMsgConn d"
  "d_pub (sendTo c m a d) = d_pub d" "d_priv (sendTo c m a d) = d_priv d" "d_Name (sendTo c m a d) = d_Name d"
  "d_Nodes (sendTo c m a d) = d_Nodes d" "d_udpPort (sendTo c m a d) = d_udpPort d" "d_open (sendTo c m a d) = d_open d"
  by (simp_all add: sendTo_def split: option.splits)

lemma sendTo_sent: "d_sent (sendTo c m a d) = d_sent d @ (case c of Some c \<Rightarrow> if c \<in> set (d_open d) then [(c, m, a)] else [] | None \<Rightarrow> [])"
  by (simp add: sendTo_def split: option.splits)

text \<open>Both readers change only the node that the announcement is from.\<close>

lemma unicastRead_cases:
  assumes "unicastRead lib now packet addr d = Some d'"
  obtains "d' = d"
  | i ann d1 nd where "processMCAnnounce lib now (take 1600 packet) d = Some (Inr (i, ann), d1)" "nodeOf i d1 = Some nd"
      "d' = (case noteAddr now addr nd of None \<Rightarrow> d1 | Some nd \<Rightarrow> updNode i nd d1)"
  using assms processMCAnnounce_cases
  by (fastforce simp: unicastRead_def Let_def split: if_splits bind_splits sum.splits)

lemma multicastRead_cases:
  assumes "multicastRead lib now iface packet addr zone d = Some d'"
  obtains "d' = d"
  | i ann d1 nd where "processMCAnnounce lib now (take 1600 packet) d = Some (Inr (i, ann), d1)" "nodeOf i d1 = Some nd"
      "noteAddr now addr nd = None" "d' = d1"
  | i ann d1 nd nd' where "processMCAnnounce lib now (take 1600 packet) d = Some (Inr (i, ann), d1)" "nodeOf i d1 = Some nd"
      "noteAddr now addr nd = Some nd'" "a_Ack ann" "d' = updNode i nd' d1"
  | i ann d1 nd nd' m where "processMCAnnounce lib now (take 1600 packet) d = Some (Inr (i, ann), d1)" "nodeOf i d1 = Some nd"
      "noteAddr now addr nd = Some nd'" "\<not> a_Ack ann" "mcMessage lib (updNode i nd' d1) (Some iface) True = Some m"
      "d' = updNode i (movePort (d_udpPort d1) addr nd') (sendTo (d_UDPMsgConn d1) m (addr\<lparr>ua_Port := d_udpPort d1\<rparr>)
        (sendTo (d_UDPMsgConn d1) m addr (updNode i nd' d1)))"
proof (cases "d_UDPMsgConn d = None \<or> zone \<noteq> [] \<and> zone \<noteq> ai_Name iface")
  case True
  thus ?thesis using assms that(1) unfolding multicastRead_def by (auto split: if_splits)
next
  case False
  then obtain r d1 where p: "processMCAnnounce lib now (take 1600 packet) d = Some (r, d1)"
    using assms unfolding multicastRead_def by (auto split: bind_splits)
  show ?thesis
  proof (cases r)
    case (Inl e)
    hence "d1 = d" using p processMCAnnounce_cases by blast
    thus ?thesis using assms False p Inl that(1) unfolding multicastRead_def by auto
  next
    case (Inr v)
    obtain i ann where v: "v = (i, ann)" by (cases v)
    have step: "do { nd \<leftarrow> nodeOf i d1; case noteAddr now addr nd of None \<Rightarrow> Some d1 | Some nd \<Rightarrow>
        (let d = updNode i nd d1 in if a_Ack ann then Some d else do { m \<leftarrow> mcMessage lib d (Some iface) True;
           Some (updNode i (movePort (d_udpPort d) addr nd)
             (sendTo (d_UDPMsgConn d) m (addr\<lparr>ua_Port := d_udpPort d\<rparr>) (sendTo (d_UDPMsgConn d) m addr d))) }) } = Some d'"
      using assms False p Inr v unfolding multicastRead_def by (auto split: if_splits)
    then obtain nd where nd: "nodeOf i d1 = Some nd" by (auto split: bind_splits)
    show ?thesis
    proof (cases "noteAddr now addr nd")
      case None
      thus ?thesis using step nd p Inr v that(2) by auto
    next
      case (Some nd')
      thus ?thesis using step nd p Inr v that(3) that(4) by (auto simp: Let_def split: if_splits bind_splits)
    qed
  qed
qed

lemma noteAddr_fields:
  assumes "noteAddr now addr nd = Some nd'"
  shows "nd_ID nd' = nd_ID nd" "nd_Seen nd' = nd_Seen nd" "nd_NodeAnnounce nd' = nd_NodeAnnounce nd" "nd_LastSeen nd' = nd_LastSeen nd"
  using assms by (auto simp: noteAddr_def split: if_splits)

lemma movePort_fields [simp]:
  "nd_ID (movePort port addr nd) = nd_ID nd" "nd_Seen (movePort port addr nd) = nd_Seen nd"
  "nd_NodeAnnounce (movePort port addr nd) = nd_NodeAnnounce nd" "nd_LastSeen (movePort port addr nd) = nd_LastSeen nd"
  by (simp_all add: movePort_def)

lemma read_updates_one:
  assumes "unicastRead lib now packet addr d = Some d' \<or> multicastRead lib now iface packet addr zone d = Some d'" and "d' \<noteq> d"
  obtains j ann d1 nd nd' where "processMCAnnounce lib now (take 1600 packet) d = Some (Inr (j, ann), d1)"
    "nodeOf j d1 = Some nd" "nodeOf j d' = Some nd'" "\<forall>k. k \<noteq> j \<longrightarrow> nodeOf k d' = nodeOf k d1"
    "nd_NodeAnnounce nd' = nd_NodeAnnounce nd" "nd_LastSeen nd' = nd_LastSeen nd"
proof -
  have some: "d_Nodes d1 \<noteq> None" if "nodeOf j d1 = Some nd" for j d1 nd using that by (auto simp: nodeOf_def split: option.splits)
  from assms(1) show ?thesis
  proof
    assume "unicastRead lib now packet addr d = Some d'"
    thus ?thesis
    proof (cases rule: unicastRead_cases)
      case 1
      thus ?thesis using assms(2) by blast
    next
      case (2 j ann d1 nd)
      show ?thesis
        by (rule that [OF 2(1,2), of "case noteAddr now addr nd of None \<Rightarrow> nd | Some nd \<Rightarrow> nd"])
          (use 2 some [OF 2(2)] in \<open>auto simp: nodeOf_updNode noteAddr_fields split: option.splits\<close>)
    qed
  next
    assume "multicastRead lib now iface packet addr zone d = Some d'"
    thus ?thesis
    proof (cases rule: multicastRead_cases)
      case 1
      thus ?thesis using assms(2) by blast
    next
      case (2 j ann d1 nd)
      thus ?thesis using that [OF 2(1,2), of nd] by auto
    next
      case (3 j ann d1 nd nd')
      thus ?thesis using that [OF 3(1,2), of nd'] some [OF 3(2)] by (auto simp: nodeOf_updNode noteAddr_fields)
    next
      case (4 j ann d1 nd nd' m)
      have "nodeOf k (sendTo c x a e) = nodeOf k e" for k c x a e by (simp add: nodeOf_def)
      thus ?thesis using that [OF 4(1,2), of "movePort (d_udpPort d1) addr nd'"] some [OF 4(2)] 4
        by (auto simp: nodeOf_updNode noteAddr_fields)
    qed
  qed
qed

lemma example_accepted:
  "\<exists>d'. unicastRead exampleLib 5 (replicate 2 123 @ replicate 64 1 @ replicate 63 0 @ [69])
       \<lparr>ua_IP = [10, 0, 0, 1], ua_Port = 9\<rparr> (zeroDiscovery\<lparr>d_Nodes := Some []\<rparr>) = Some d' \<and>
     nodeOf ''peer'' d' \<noteq> nodeOf ''peer'' (zeroDiscovery\<lparr>d_Nodes := Some []\<rparr>)"
proof -
  define packet :: "byte list" where "packet = replicate 2 123 @ replicate 64 1 @ replicate 63 0 @ [69]"
  define d where "d = zeroDiscovery\<lparr>d_Nodes := Some []\<rparr>"
  define addr where "addr = \<lparr>ua_IP = [10, 0, 0, 1] :: byte list, ua_Port = 9\<rparr>"
  have p: "processMCAnnounce exampleLib 5 packet d = Some (Inr (''peer'', lib_jsonDecode exampleLib (replicate 2 123)),
      d\<lparr>d_Nodes := Some [(''peer'', seen 5 (lib_jsonDecode exampleLib (replicate 2 123)) (newNode ''peer''))]\<rparr>)"
    unfolding packet_def
    by (subst processMCAnnounce_signed [where ns = "[]"]) (simp_all add: exampleLib_def d_def zeroDiscovery_def hd_replicate)
  have "length packet = 130" by (simp add: packet_def)
  hence t: "take 1600 packet = packet" "\<not> length packet < 129" by simp_all
  define d1 where "d1 = d\<lparr>d_Nodes := Some [(''peer'', seen 5 (lib_jsonDecode exampleLib (replicate 2 123)) (newNode ''peer''))]\<rparr>"
  define nd where "nd = seen 5 (lib_jsonDecode exampleLib (replicate 2 123)) (newNode ''peer'')"
  have nd: "nodeOf ''peer'' d1 = Some nd" by (simp add: nodeOf_def d1_def nd_def)
  have "unicastRead exampleLib 5 packet addr d = Some (case noteAddr 5 addr nd of None \<Rightarrow> d1 | Some nd \<Rightarrow> updNode ''peer'' nd d1)"
    unfolding unicastRead_def t Let_def p d1_def [symmetric] using t(2) nd by simp
  moreover have "nodeOf ''peer'' d = None" by (simp add: nodeOf_def d_def)
  moreover have "d_Nodes d1 \<noteq> None" by (simp add: d1_def)
  ultimately have "\<exists>d'. unicastRead exampleLib 5 packet addr d = Some d' \<and> nodeOf ''peer'' d' \<noteq> nodeOf ''peer'' d"
    using nd by (auto simp: nodeOf_updNode split: option.splits)
  thus ?thesis unfolding packet_def d_def addr_def .
qed

text \<open>C11: A packet changes what a node is recorded as only when it carries a valid announcement of that node: it starts
  with JSON, and its last 64 bytes verify as the signature of the rest with the key before them, whose hash is the node and
  which is not the key of this node. The record then holds that announcement and the time of arrival.\<close>

theorem announce_authentic:
  assumes "unicastRead lib now packet addr d = Some d' \<or> multicastRead lib now iface packet addr zone d = Some d'"
    and "nodeOf i d' \<noteq> nodeOf i d"
  shows "\<exists>body pub sig nd. take 1600 packet = body @ pub @ sig \<and> length pub = 64 \<and> length sig = 64 \<and> hd body = 123 \<and>
    lib_Verify lib (body @ pub) pub sig = None \<and> lib_Pub2ID lib pub \<noteq> d_VIP64 d \<and> i = lib_PublicKeyBase32SHA lib pub \<and>
    nodeOf i d' = Some nd \<and> nd_NodeAnnounce nd = Some (lib_jsonDecode lib body) \<and> nd_LastSeen nd = now"
proof -
  have "d' \<noteq> d" using assms(2) by blast
  with assms(1) obtain j ann d1 nd nd' where p: "processMCAnnounce lib now (take 1600 packet) d = Some (Inr (j, ann), d1)"
    and nd: "nodeOf j d1 = Some nd" and new: "nodeOf j d' = Some nd'" and rest: "\<forall>k. k \<noteq> j \<longrightarrow> nodeOf k d' = nodeOf k d1"
    and same: "nd_NodeAnnounce nd' = nd_NodeAnnounce nd" "nd_LastSeen nd' = nd_LastSeen nd"
    by (rule read_updates_one)
  from p show ?thesis
  proof (cases rule: processMCAnnounce_cases)
    case (2 body pub sig ns)
    have d1: "nodeOf k d1 = nodeOf k d" if "k \<noteq> j" for k using 2 that by (simp add: nodeOf_updNode)
    hence i: "i = j" using assms(2) rest by auto
    have "nd_NodeAnnounce nd = Some (lib_jsonDecode lib body)" "nd_LastSeen nd = now"
      using nd 2 by (auto simp: nodeOf_updNode)
    thus ?thesis using 2 i new same by (intro exI [of _ body] exI [of _ pub] exI [of _ sig] exI [of _ nd']) auto
  qed simp
qed

theorem announce_authentic_witness:
  "\<exists>d'. unicastRead exampleLib 5 (replicate 2 123 @ replicate 64 1 @ replicate 63 0 @ [69])
       \<lparr>ua_IP = [10, 0, 0, 1], ua_Port = 9\<rparr> (zeroDiscovery\<lparr>d_Nodes := Some []\<rparr>) = Some d' \<and>
     (\<exists>nd. nodeOf ''peer'' d' = Some nd \<and> nd_LastSeen nd = 5)"
  using example_accepted announce_authentic [OF disjI1] by blast

section \<open>Well-formed states\<close>

definition nodeWf :: "string \<Rightarrow> node \<Rightarrow> bool" where
  "nodeWf i nd \<longleftrightarrow> nd_ID nd = i \<and> length (nd_Seen nd) \<le> 100 \<and> (\<forall>s \<in> set (nd_Seen nd). 2 < s) \<and> nd_NodeAnnounce nd \<noteq> None \<and>
     (case nd_Last4 nd of None \<Rightarrow> True | Some a \<Rightarrow> To4 (ua_IP a) \<noteq> None) \<and>
     (case nd_Last6 nd of None \<Rightarrow> True | Some a \<Rightarrow> To4 (ua_IP a) = None)"

definition discWf :: "llDiscovery \<Rightarrow> bool" where
  "discWf d \<longleftrightarrow> (case d_Nodes d of None \<Rightarrow> True | Some ns \<Rightarrow> distinct (map fst ns)) \<and>
     (\<forall>i nd. nodeOf i d = Some nd \<longrightarrow> nodeWf i nd)"

lemma discWf_update: "discWf d \<Longrightarrow> nodeWf i nd \<Longrightarrow> discWf (updNode i nd d)"
  by (auto simp: discWf_def nodeOf_updNode distinct_update split: option.splits)

lemma discWf_sendTo [simp]: "discWf (sendTo c m a d) = discWf d"
  by (simp add: discWf_def nodeOf_def)

lemma nodeWf_seen:
  assumes "nodeWf i nd \<or> nd = newNode i" shows "nodeWf i (seen now ann nd)"
  using assms by (auto simp: nodeWf_def seen_def Let_def newNode_def dest: in_set_dropD split: option.splits)

lemma nodeWf_noteAddr: "nodeWf i nd \<Longrightarrow> noteAddr now addr nd = Some nd' \<Longrightarrow> nodeWf i nd'"
  by (auto simp: nodeWf_def noteAddr_def split: if_splits option.splits)

lemma nodeWf_movePort: "nodeWf i nd \<Longrightarrow> nodeWf i (movePort port addr nd)"
  by (auto simp: nodeWf_def movePort_def split: if_splits option.splits)

lemma discWf_announce:
  assumes "processMCAnnounce lib now data d = Some (r, d')" and "discWf d"
  shows "discWf d'"
  using assms(1)
proof (cases rule: processMCAnnounce_cases)
  case (2 body pub sig ns)
  have "nodeWf (lib_PublicKeyBase32SHA lib pub) (seen now (lib_jsonDecode lib body)
      (case map_of ns (lib_PublicKeyBase32SHA lib pub) of Some nd \<Rightarrow> nd | None \<Rightarrow> newNode (lib_PublicKeyBase32SHA lib pub)))"
    using assms(2) 2 by (intro nodeWf_seen) (auto simp: discWf_def nodeOf_def split: option.splits)
  thus ?thesis unfolding 2(10) using assms(2) by (intro discWf_update)
qed (use assms(2) in simp)

lemma discWf_unicastRead:
  assumes "unicastRead lib now packet addr d = Some d'" and "discWf d"
  shows "discWf d'"
  using assms(1)
proof (cases rule: unicastRead_cases)
  case (2 i ann d1 nd)
  have wf: "discWf d1" using 2(1) assms(2) by (rule discWf_announce)
  hence "nodeWf i nd" using 2(2) by (simp add: discWf_def)
  thus ?thesis using 2(3) wf by (auto split: option.splits intro: discWf_update nodeWf_noteAddr)
qed (use assms(2) in simp)

lemma discWf_multicastRead:
  assumes "multicastRead lib now iface packet addr zone d = Some d'" and "discWf d"
  shows "discWf d'"
  using assms(1)
proof (cases rule: multicastRead_cases)
  case (2 i ann d1 nd)
  show ?thesis unfolding 2(4) using 2(1) assms(2) by (rule discWf_announce)
next
  case (3 i ann d1 nd nd')
  have wf: "discWf d1" using 3(1) assms(2) by (rule discWf_announce)
  hence "nodeWf i nd" using 3(2) by (simp add: discWf_def)
  hence "nodeWf i nd'" using 3(3) by (rule nodeWf_noteAddr)
  with wf show ?thesis unfolding 3(5) by (rule discWf_update)
next
  case (4 i ann d1 nd nd' m)
  have wf: "discWf d1" using 4(1) assms(2) by (rule discWf_announce)
  hence "nodeWf i nd" using 4(2) by (simp add: discWf_def)
  hence nd': "nodeWf i nd'" using 4(3) by (rule nodeWf_noteAddr)
  have "discWf (updNode i nd' d1)" using wf nd' by (rule discWf_update)
  hence "discWf (sendTo (d_UDPMsgConn d1) m (addr\<lparr>ua_Port := d_udpPort d1\<rparr>)
      (sendTo (d_UDPMsgConn d1) m addr (updNode i nd' d1)))" by simp
  thus ?thesis unfolding 4(6) using nodeWf_movePort [OF nd'] by (rule discWf_update)
qed (use assms(2) in simp)

section \<open>Refreshing\<close>

text \<open>What the work on interfaces and sockets leaves alone.\<close>

definition discCore :: "llDiscovery \<Rightarrow> (string \<times> activeInterface) list \<times> (string \<times> node) list option \<times>
    (nat \<times> byte list \<times> udpAddr) list \<times> nat option \<times> byte list \<times> nat \<times> string" where
  "discCore d = (d_ActiveInterfaces d, d_Nodes d, d_sent d, d_UDPMsgConn d, d_pub d, d_priv d, d_Name d)"

lemma discCore_newDiscConn [simp]: "discCore (snd (newDiscConn d)) = discCore d"
  by (simp add: newDiscConn_def discCore_def)

lemma discCore_closeDiscConn [simp]: "discCore (closeDiscConn c d) = discCore d"
  by (simp add: closeDiscConn_def discCore_def split: option.splits)

lemma discCore_listenFrom [simp]: "discCore (snd (listenFrom f port step n d)) = discCore d"
  by (induction f port step n d rule: listenFrom.induct) (auto simp: newDiscConn_def discCore_def split: option.splits)

lemma discCore_passOn [simp]: "discCore (snd (passOn x s)) = discCore (snd s)"
  by (simp add: passOn_def split: prod.splits option.splits)

lemma discCore_passOns [simp]: "discCore (snd (fold passOn xs s)) = discCore (snd s)"
  by (induction xs arbitrary: s) simp_all

lemma discCore_listens:
  "listen6 f base d = (r, d') \<Longrightarrow> discCore d' = discCore d" "listen4 f base d = (r, d') \<Longrightarrow> discCore d' = discCore d"
  using discCore_listenFrom by (metis listen6_def listen4_def snd_conv)+

lemma discCore_new: "newDiscConn d = (c, d') \<Longrightarrow> discCore d' = discCore d"
  using discCore_newDiscConn by (metis snd_conv)

lemma discCore_startIface [simp]: "discCore (snd (startIface le a d)) = discCore d"
proof -
  define a0 where "a0 = (if ai_Port a = 0 then a\<lparr>ai_Port := d_baseListenPort d\<rparr> else a)"
  obtain a1 d1 where s1: "(if ai_unicastUdpServer a0 = None \<and> ai_IP6LL a0 \<noteq> None then
       (case listen6 (le_bind6 le (ai_Name a0)) (d_baseListenPort d) d of
          (None, d) \<Rightarrow> (a0, d) | (Some (port, c), d) \<Rightarrow> (a0\<lparr>ai_Port := port, ai_unicastUdpServer := Some c\<rparr>, d))
     else (a0, d)) = (a1, d1)" by fastforce
  have c1: "discCore d1 = discCore d" using s1 by (auto dest: discCore_listens split: if_splits prod.splits option.splits)
  obtain a2 d2 where s2: "(if ai_unicastUdpServer4 a1 = None \<and> ai_IP4 a1 \<noteq> None then
       (case listen4 (le_bind4 le (ai_Name a1)) (d_baseListenPort d1) d1 of
          (None, d) \<Rightarrow> (a1, d) | (Some (port, c), d) \<Rightarrow> (a1\<lparr>ai_Port4 := port, ai_unicastUdpServer4 := Some c\<rparr>, d))
     else (a1, d1)) = (a2, d2)" by fastforce
  have c2: "discCore d2 = discCore d1" using s2 by (auto dest: discCore_listens split: if_splits prod.splits option.splits)
  show ?thesis unfolding startIface_def Let_def a0_def [symmetric] s1 prod.case s2
    using c1 c2 by (auto dest!: discCore_new split: prod.splits)
qed

lemma discCore_startIfaces [simp]: "discCore (snd (startIfaces le as d)) = discCore d"
proof (induction as arbitrary: d)
  case (Cons a as)
  obtain a1 d1 as2 d2 where s: "startIface le a d = (a1, d1)" "startIfaces le as d1 = (as2, d2)" by fastforce
  thus ?case using discCore_startIface [of le a d] Cons.IH [of d1] by simp
qed simp

lemma discCore_ActiveNetworks: "ActiveNetworks ifaces d = (r, d') \<Longrightarrow> discCore d' = discCore d"
  by (auto simp: ActiveNetworks_def Let_def discCore_def split: sum.splits prod.splits)

lemma refresh_ok:
  assumes "\<not> d_broken d"
  shows "\<exists>acts d'. RefreshNetworks lib le (Inr is) d = Some (acts, d') \<and> discCore d' = discCore d"
proof -
  obtain act d1 where a: "ActiveNetworks (Inr is) d = (Inr act, d1)"
    by (cases "fold addIface is ([], [])") (auto simp: ActiveNetworks_def)
  obtain act2 d2 where f: "fold passOn (d_ActiveInterfaces d1) (act, d1) = (act2, d2)" by fastforce
  obtain as d3 where s: "startIfaces le (map snd act2) d2 = (as, d3)" by fastforce
  have "discCore d1 = discCore d" using a by (rule discCore_ActiveNetworks)
  moreover have "discCore d2 = discCore d1" using discCore_passOns [of "d_ActiveInterfaces d1" "(act, d1)"] f by simp
  moreover have "discCore d3 = discCore d2" using discCore_startIfaces [of le "map snd act2" d2] s by simp
  ultimately show ?thesis using assms a f s by (simp add: RefreshNetworks_def)
qed

lemma announce_nil:
  assumes "d_ActiveInterfaces d = []"
  shows "AnnounceMulticast lib d = (if d_UDPMsgConn d = None then Some d else None)"
  using assms by (simp add: AnnounceMulticast_def mcMessage_def)

lemma refresh_broken:
  assumes "d_ActiveInterfaces d = []" and "d_broken d \<or> ifaces = Inl e"
  shows "RefreshNetworks lib le ifaces d =
    (if d_UDPMsgConn d = None then Some ([], d\<lparr>d_broken := True\<rparr>) else None)"
  using assms by (auto simp: RefreshNetworks_def announce_nil ActiveNetworks_def)

lemma listen4_first: "l base = Some port \<Longrightarrow> listen4 l base d = (Some (port, fst (newDiscConn d)), snd (newDiscConn d))"
  by (simp add: listen4_def listenFrom.simps(2) [of _ _ _ 9, simplified] split: prod.splits)

text \<open>\<open>RefreshNetworks\<close> never stores the interfaces that it has started, so that the next call starts the same ones again.\<close>

lemma refresh_leaks:
  assumes "\<not> d_broken d" and "d_ActiveInterfaces d = []" and "le_bind4 le ''eth0'' (d_baseListenPort d) = Some port"
  shows "\<exists>acts d'. RefreshNetworks lib le (Inr [\<lparr>i_Name = ''eth0'', i_Up = True, i_Multicast = False, i_Addrs = Inr [Some [10, 0, 0, 2]]\<rparr>]) d
      = Some (acts, d') \<and> d_ActiveInterfaces d' = [] \<and> d_open d' = d_conns d # d_open d"
  using assms
  by (simp add: RefreshNetworks_def ActiveNetworks_def addIface_def ip6Local_def isLoopback_def IsLoopback_def To4_def
      IsLinkLocalUnicast_def str_contains_def sublist_code startIface_def listen4_first newDiscConn_def Let_def)

section \<open>Runs\<close>

inductive discStep :: "discLib \<Rightarrow> llDiscovery \<Rightarrow> llDiscovery \<Rightarrow> bool" for lib :: discLib where
  refresh: "RefreshNetworks lib le ifaces d = Some (acts, d') \<Longrightarrow> discStep lib d d'"
| announce: "AnnounceMulticast lib d = Some d' \<Longrightarrow> discStep lib d d'"
| unicast: "unicastRead lib now packet addr d = Some d' \<Longrightarrow> discStep lib d d'"
| multicast: "multicastRead lib now iface packet addr zone d = Some d' \<Longrightarrow> discStep lib d d'"

lemma announceIfaces_nodes: "announceIfaces lib as d = Some d' \<Longrightarrow> d_Nodes d' = d_Nodes d"
proof (induction as arbitrary: d)
  case (Cons a as)
  show ?case
  proof (cases "ai_unicastUdpServer a = None \<and> ai_unicastUdpServer4 a = None")
    case True
    thus ?thesis using Cons by simp
  next
    case False
    thus ?thesis using Cons.prems Cons.IH by (auto simp: Let_def split: bind_splits)
  qed
qed simp

lemma announce_nodes: "AnnounceMulticast lib d = Some d' \<Longrightarrow> d_Nodes d' = d_Nodes d"
  by (auto simp: AnnounceMulticast_def mcMessage_def dest: announceIfaces_nodes split: if_splits bind_splits)

lemma refresh_nodes:
  assumes "RefreshNetworks lib le ifaces d = Some (acts, d')"
  shows "d_Nodes d' = d_Nodes d"
proof (cases "d_broken d \<or> (\<exists>e. ifaces = Inl e)")
  case True
  thus ?thesis using assms by (auto simp: RefreshNetworks_def ActiveNetworks_def dest!: announce_nodes split: if_splits)
next
  case False
  then obtain xs where "ifaces = Inr xs" by (cases ifaces) auto
  thus ?thesis using refresh_ok [of d lib le xs] False assms by (auto simp: discCore_def)
qed

lemma discWf_nodes: "d_Nodes d' = d_Nodes d \<Longrightarrow> discWf d \<Longrightarrow> discWf d'"
  by (simp add: discWf_def nodeOf_def)

text \<open>C33: Whatever packets arrive and however often the networks are refreshed, the table of nodes is well formed: each node
  is stored once, under its own identity, with an announcement; at most a hundred intervals are kept for it, each above two
  seconds; its last IPv4 address is an IPv4 address and its last IPv6 address is none.\<close>

theorem discovery_wf:
  assumes "(discStep lib)\<^sup>*\<^sup>* d d'" and "discWf d"
  shows "discWf d'"
  using assms
proof (induction rule: rtranclp_induct)
  case (step d1 d2)
  hence "discWf d1" by simp
  with step.hyps(2) show ?case
    by (cases rule: discStep.cases)
      (auto intro: discWf_nodes refresh_nodes announce_nodes discWf_unicastRead discWf_multicastRead)
qed

theorem discovery_wf_witness:
  "\<exists>d' nd. unicastRead exampleLib 5 (replicate 2 123 @ replicate 64 1 @ replicate 63 0 @ [69])
       \<lparr>ua_IP = [10, 0, 0, 1], ua_Port = 9\<rparr> (zeroDiscovery\<lparr>d_Nodes := Some []\<rparr>) = Some d' \<and>
     nodeOf ''peer'' d' = Some nd \<and> nodeWf ''peer'' nd"
proof -
  define d where "d = zeroDiscovery\<lparr>d_Nodes := Some []\<rparr>"
  obtain d' where d': "unicastRead exampleLib 5 (replicate 2 123 @ replicate 64 1 @ replicate 63 0 @ [69])
       \<lparr>ua_IP = [10, 0, 0, 1], ua_Port = 9\<rparr> d = Some d'" and new: "nodeOf ''peer'' d' \<noteq> nodeOf ''peer'' d"
    using example_accepted unfolding d_def by blast
  have "nodeOf ''peer'' d = None" "discWf d" by (simp_all add: discWf_def nodeOf_def d_def)
  moreover have "(discStep exampleLib)\<^sup>*\<^sup>* d d'" using d' by (intro r_into_rtranclp discStep.unicast)
  ultimately have "discWf d'" "nodeOf ''peer'' d' \<noteq> None" using discovery_wf new by auto
  thus ?thesis using d' unfolding discWf_def d_def by blast
qed

text \<open>What is sent from a state without interfaces: acknowledgements of the node, \<open>ackOf\<close>.\<close>

definition ackOf :: "discLib \<Rightarrow> llDiscovery \<Rightarrow> byte list \<Rightarrow> bool" where
  "ackOf lib d m \<longleftrightarrow> (\<exists>ap. signedMessage lib (lib_jsonEncode lib \<lparr>a_UA = d_Name d, a_IPs = [], a_SSID = [], a_AP = ap,
     a_Ack = True, a_Vpn = []\<rparr>) (d_pub d) (d_priv d) = Some m)"

definition silentFrom :: "discLib \<Rightarrow> llDiscovery \<Rightarrow> llDiscovery \<Rightarrow> bool" where
  "silentFrom lib d d' \<longleftrightarrow> d_ActiveInterfaces d' = [] \<and> d_UDPMsgConn d' = d_UDPMsgConn d \<and> d_Name d' = d_Name d \<and>
     d_pub d' = d_pub d \<and> d_priv d' = d_priv d \<and>
     (\<exists>new. d_sent d' = d_sent d @ new \<and> (\<forall>x \<in> set new. ackOf lib d (fst (snd x))))"

lemma silent_refl: "d_ActiveInterfaces d = [] \<Longrightarrow> silentFrom lib d d"
  by (simp add: silentFrom_def)

lemma silent_trans: "silentFrom lib d1 d2 \<Longrightarrow> silentFrom lib d2 d3 \<Longrightarrow> silentFrom lib d1 d3"
  unfolding silentFrom_def ackOf_def by fastforce

lemma silent_core: "discCore d' = discCore d \<Longrightarrow> d_ActiveInterfaces d = [] \<Longrightarrow> silentFrom lib d d'"
  by (simp add: silentFrom_def discCore_def)

lemma silent_announce:
  assumes "processMCAnnounce lib now data d = Some (r, d')" and "d_ActiveInterfaces d = []"
  shows "silentFrom lib d d'"
  using assms(1) by (cases rule: processMCAnnounce_cases) (use assms(2) in \<open>simp_all add: silentFrom_def\<close>)

lemma silent_updNode: "d_ActiveInterfaces d = [] \<Longrightarrow> silentFrom lib d (updNode i nd d)"
  by (simp add: silentFrom_def)

lemma silent_ack:
  assumes "d_ActiveInterfaces d = []" and "ackOf lib d m"
  shows "silentFrom lib d (updNode i nd (sendTo c m a (sendTo c m a' d)))"
  using assms by (auto simp: silentFrom_def sendTo_sent split: option.splits)

lemma silent_step:
  assumes "discStep lib d d'" and nil: "d_ActiveInterfaces d = []"
  shows "silentFrom lib d d'"
  using assms(1)
proof (cases rule: discStep.cases)
  case (refresh le ifaces acts)
  show ?thesis
  proof (cases "d_broken d \<or> (\<exists>e. ifaces = Inl e)")
    case True
    then obtain e where "d_broken d \<or> ifaces = Inl e" by blast
    from refresh_broken [OF nil this] show ?thesis
      using refresh nil by (auto simp: silentFrom_def split: if_splits)
  next
    case False
    then obtain xs where "ifaces = Inr xs" by (cases ifaces) auto
    thus ?thesis using refresh_ok [of d lib le xs] False refresh nil by (auto intro: silent_core)
  qed
next
  case announce
  thus ?thesis using nil by (auto simp: announce_nil silent_refl split: if_splits)
next
  case (unicast now packet addr)
  thus ?thesis
  proof (cases rule: unicastRead_cases)
    case (2 i ann d1 nd)
    have s: "silentFrom lib d d1" using 2(1) nil by (rule silent_announce)
    hence "d_ActiveInterfaces d1 = []" by (simp add: silentFrom_def)
    thus ?thesis unfolding 2(3) using s silent_trans [OF s silent_updNode] by (auto split: option.splits)
  qed (use nil in \<open>simp add: silent_refl\<close>)
next
  case (multicast now iface packet addr zone)
  thus ?thesis
  proof (cases rule: multicastRead_cases)
    case (2 i ann d1 nd)
    show ?thesis unfolding 2(4) using 2(1) nil by (rule silent_announce)
  next
    case (3 i ann d1 nd nd')
    have s: "silentFrom lib d d1" using 3(1) nil by (rule silent_announce)
    hence "d_ActiveInterfaces d1 = []" by (simp add: silentFrom_def)
    thus ?thesis unfolding 3(5) using silent_trans [OF s silent_updNode] by blast
  next
    case (4 i ann d1 nd nd' m)
    have s: "silentFrom lib d d1" using 4(1) nil by (rule silent_announce)
    hence nil1: "d_ActiveInterfaces d1 = []" by (simp add: silentFrom_def)
    have s1: "silentFrom lib d (updNode i nd' d1)" using silent_trans [OF s silent_updNode [OF nil1]] .
    have "ackOf lib (updNode i nd' d1) m"
      using mcMessage_Some [OF 4(5)] nil1 unfolding ackOf_def by fastforce
    with nil1 show ?thesis unfolding 4(6) by (intro silent_trans [OF s1] silent_ack) simp_all
  qed (use nil in \<open>simp add: silent_refl\<close>)
qed

text \<open>C34: Discovery that starts without active interfaces, as it does, never announces itself: \<open>ActiveInterfaces\<close> stays
  empty, and everything that is sent is a signed acknowledgement. Once the message socket is open, the fallback for
  systems where the interfaces cannot be listed panics, as does \<open>AnnounceMulticast\<close> itself.\<close>

theorem discovery_silent:
  assumes "d_ActiveInterfaces d = []" and "(discStep lib)\<^sup>*\<^sup>* d d'"
  shows "d_ActiveInterfaces d' = [] \<and>
    (\<exists>new. d_sent d' = d_sent d @ new \<and> (\<forall>x \<in> set new. ackOf lib d (fst (snd x)))) \<and>
    (d_UDPMsgConn d \<noteq> None \<longrightarrow> AnnounceMulticast lib d' = None \<and> (\<forall>le e. RefreshNetworks lib le (Inl e) d' = None))"
proof -
  have s: "silentFrom lib d d'" using assms(2)
  proof (induction rule: rtranclp_induct)
    case (step d1 d2)
    hence "d_ActiveInterfaces d1 = []" by (simp add: silentFrom_def)
    with step show ?case by (blast intro: silent_trans silent_step)
  qed (use assms(1) in \<open>rule silent_refl\<close>)
  thus ?thesis unfolding silentFrom_def using announce_nil [of d' lib] refresh_broken [of d' _ _ lib, OF _ disjI2 [OF refl]] by auto
qed

theorem discovery_silent_witness:
  "\<exists>acts d. RefreshNetworks exampleLib \<lparr>le_bind6 = \<lambda>_ _. None, le_bind4 = \<lambda>_ p. Some p, le_mc6 = \<lambda>_. True, le_mc4 = \<lambda>_. True\<rparr>
      (Inr [\<lparr>i_Name = ''eth0'', i_Up = True, i_Multicast = False, i_Addrs = Inr [Some [10, 0, 0, 2]]\<rparr>])
      (zeroDiscovery\<lparr>d_UDPMsgConn := Some 0\<rparr>) = Some (acts, d) \<and> d_ActiveInterfaces d = [] \<and> d_open d = [0] \<and>
    AnnounceMulticast exampleLib d = None"
proof -
  define d0 where "d0 = zeroDiscovery\<lparr>d_UDPMsgConn := Some 0\<rparr>"
  define le where "le = \<lparr>le_bind6 = \<lambda>_ _. None, le_bind4 = \<lambda>_ p. Some p, le_mc6 = \<lambda>_. True, le_mc4 = \<lambda>_. True\<rparr>"
  have d0: "\<not> d_broken d0" "d_ActiveInterfaces d0 = []" "le_bind4 le ''eth0'' (d_baseListenPort d0) = Some 0" "d_UDPMsgConn d0 \<noteq> None"
    "d_open d0 = []" "d_conns d0 = 0" by (simp_all add: d0_def le_def zeroDiscovery_def)
  obtain acts d where r: "RefreshNetworks exampleLib le (Inr [\<lparr>i_Name = ''eth0'', i_Up = True, i_Multicast = False,
      i_Addrs = Inr [Some [10, 0, 0, 2]]\<rparr>]) d0 = Some (acts, d)" "d_open d = [0]"
    using refresh_leaks [OF d0(1-3)] d0(5,6) by metis
  have "(discStep exampleLib)\<^sup>*\<^sup>* d0 d" using r(1) by (intro r_into_rtranclp discStep.refresh)
  from discovery_silent [OF d0(2) this] d0(4) have "d_ActiveInterfaces d = []" "AnnounceMulticast exampleLib d = None" by auto
  thus ?thesis using r unfolding d0_def le_def by metis
qed

section \<open>Boundary cases\<close>

text \<open>In the 16-byte form every IPv4 address looks public, also a private one.\<close>

lemma IsRFC1918_mapped: "length ip = 4 \<Longrightarrow> IsRFC1918 (Some ip) = Some True \<Longrightarrow> IsRFC1918 (Some (IPv4 ip)) = Some False"
  by (simp add: IsRFC1918_def To4_def IPv4_def nth_append)

text \<open>\<open>listen6\<close> skips every second port.\<close>

lemma listenFrom_None: "fst (listenFrom l port step n d) = None \<longleftrightarrow> (\<forall>i < n. l (port + step * int i) = None)"
proof (induction n arbitrary: port)
  case (Suc n)
  show ?case using Suc.IH [of "port + step"]
    by (auto simp: newDiscConn_def All_less_Suc2 algebra_simps split: option.splits)
qed simp

lemma listen6_skips: "fst (listen6 l base d) = None \<longleftrightarrow> (\<forall>i < 10. l (base + 2 * int i) = None)"
  by (simp add: listen6_def listenFrom_None)

text \<open>The map of nodes is never made: the first valid announcement panics.\<close>

lemma announce_nil_nodes:
  assumes "length pub = 64" and "length sig = 64" and "2 \<le> length buf" and "hd buf = 123"
    and "lib_Verify lib (buf @ pub) pub sig = None" and "d_VIP64 d \<noteq> lib_Pub2ID lib pub" and "d_Nodes d = None"
  shows "processMCAnnounce lib now (buf @ pub @ sig) d = None"
proof -
  have "(buf @ pub @ sig) ! 0 = 123" using assms(3,4) by (cases buf) auto
  thus ?thesis using assms by (simp add: processMCAnnounce_def Let_def)
qed

end
