(* ===== verification/Gateway.thy ===== *)
theory Gateway
  imports Nio_Sni Nio_Conn Http_Proxy
begin

text \<open>
  The listeners that put the parts of \<open>nio\<close> together: \<^verbatim>\<open>src/pkg/sni/sni.go\<close> (routing by the server name of a TLS
  connection) and \<^verbatim>\<open>src/pkg/http_proxy/httpproxy_capture.go\<close> (HTTP proxy and \<open>CONNECT\<close>).

  \<open>Mesh.DialContext\<close>, \<open>Mesh.Discover\<close> and \<open>RoundTrip\<close> (\<open>meshauth\<close>, \<open>net/http\<close>) are parameters. A \<open>BufferReader\<close> that is
  handed to \<open>Proxy\<close> is a reader there: \<open>asReader\<close> are the results of its next reads, and \<open>streamReader\<close> those of an
  \<open>InOutStream\<close>. That this is so is the contract \<open>as_reader\<close>. \<open>None\<close> is a panic.
\<close>

section \<open>Values as readers\<close>

text \<open>A buffer in front of a reader: the first reads give the bytes of the buffer.\<close>

definition bufferedReader :: "byte list \<Rightarrow> reader \<Rightarrow> reader" where
  "bufferedReader c r = (if c = [] then r else (c, None) # r)"

definition asReader :: "bufferReader \<Rightarrow> reader" where
  "asReader br = bufferedReader (contents (Buffer br)) (Reader br)"

definition streamReader :: "stream \<Rightarrow> reader" where
  "streamReader s = bufferedReader (case rbuffer s of None \<Rightarrow> [] | Some b \<Rightarrow> contents b) (st_In s)"

text \<open>What \<open>*BufferReader\<close> and \<open>*InOutStream\<close> implement besides \<open>Read\<close> and \<open>Write\<close>.\<close>

definition bufferReaderCaps :: caps where
  "bufferReaderCaps = noCaps\<lparr>isCloser := True\<rparr>"

definition inOutStreamCaps :: caps where
  "inOutStreamCaps = \<lparr>isTCPConn = False, isConn = True, isCloser = True, isCloseWriter = True, isResponseWriter = True, isFlusher = True\<rparr>"

section \<open>SNI routing\<close>

text \<open>\<open>strings.SplitN(s, ".", n)\<close>.\<close>

fun splitDots :: "nat \<Rightarrow> string \<Rightarrow> string list" where
  "splitDots 0 s = []"
| "splitDots (Suc 0) s = [s]"
| "splitDots (Suc (Suc n)) s =
     (case dropWhile (\<lambda>c. c \<noteq> CHR ''.'') s of [] \<Rightarrow> [s]
      | _ # r \<Rightarrow> takeWhile (\<lambda>c. c \<noteq> CHR ''.'') s # splitDots (Suc n) r)"

text \<open>\<open>net.JoinHostPort\<close>.\<close>

definition JoinHostPort :: "string \<Rightarrow> string \<Rightarrow> string" where
  "JoinHostPort h port = (if CHR '':'' \<in> set h then ''['' @ h @ '']'' else h) @ '':'' @ port"

definition sniAddr :: "string \<Rightarrow> string option" where
  "sniAddr sni =
     (if prefix ''outbound_.'' sni then
        (let parts = splitDots 4 sni in if length parts < 4 then None else Some (JoinHostPort (parts ! 3) (parts ! 1)))
      else Some (sni @ '':443''))"

text \<open>Calls of \<open>Close\<close> on the reader and on the writer of a proxied connection.\<close>

definition inCloses :: "proxyState \<Rightarrow> nat" where
  "inCloses p = length (filter (\<lambda>e. e = InClose) (events (p1 p))) + length (filter (\<lambda>e. e = CloseIn) (p_closed p))"

definition outCloses :: "proxyState \<Rightarrow> nat" where
  "outCloses p = length (filter (\<lambda>e. e = OutClose) (events (p2 p))) + length (filter (\<lambda>e. e = CloseW) (p_closed p))"

record sniResult =
  sr_err :: "goerr option"
  sr_dialed :: "string option"
  sr_proxy :: "proxyState option"
  sr_pools :: nio_pools
  sr_connCloses :: nat
  sr_cnt :: "u32 \<times> u32"

text \<open>The deferred calls and, for a proxied connection, those of \<open>Proxy\<close>: closing the \<open>BufferReader\<close> recycles its buffer and
  closes the connection.\<close>

definition sniDone :: "buffer \<Rightarrow> nio_pools \<Rightarrow> u32 \<times> u32 \<Rightarrow> goerr option \<Rightarrow> string option \<Rightarrow> proxyState option \<Rightarrow> sniResult" where
  "sniDone b p cnt err addr ps =
     (let closes = (case ps of None \<Rightarrow> 0 | Some ps \<Rightarrow> inCloses ps);
          wcloses = (case ps of None \<Rightarrow> 0 | Some ps \<Rightarrow> outCloses ps)
      in \<lparr>sr_err = err, sr_dialed = addr, sr_proxy = ps, sr_pools = ((\<lambda>p. snd (Buffer_Recycle b p)) ^^ (closes + 1)) p,
          sr_connCloses = closes + wcloses + 1, sr_cnt = cnt\<rparr>)"

definition sni_HandleConn :: "nat option \<Rightarrow> (string \<Rightarrow> goerr + endpoint) \<Rightarrow> bool \<Rightarrow> endpoint \<Rightarrow> nio_pools \<Rightarrow> u32 \<times> u32 \<Rightarrow> sniResult option" where
  "sni_HandleConn choice dial first conn p cnt =
     (let (s, p) = NewBufferReader choice (e_in conn) p in do {
        ((cn, sni, err), s) \<leftarrow> SniffClientHello s;
        if err \<noteq> None then Some (sniDone (Buffer s) p cnt err None None)
        else if cn = None then Some (sniDone (Buffer s) p cnt (Some (ErrMsg ''Not TLS'')) None None)
        else do {
          addr \<leftarrow> sniAddr sni;
          case dial addr of
            Inl e \<Rightarrow> Some (sniDone (Buffer s) p cnt (Some e) (Some addr) None)
          | Inr nc \<Rightarrow> do {
              (err, ps, cnt) \<leftarrow> Proxy first nc (asReader s, bufferReaderCaps) (e_out conn, e_caps conn) addr cnt;
              Some (sniDone (Buffer s) p cnt err (Some addr) (Some ps)) } } })"

section \<open>The HTTP proxy\<close>

record proxyReq = request +
  hq_Method :: string
  hq_Host :: string
  hq_URLScheme :: string
  hq_URLHost :: string

text \<open>\<open>ForwardHTTP\<close>: the error, the response writer and the number of times the body of the response was closed.\<close>

definition ForwardHTTP :: "(string \<Rightarrow> string option) \<Rightarrow> (proxyReq \<Rightarrow> goerr + response) \<Rightarrow> u32 \<Rightarrow> responseWriter \<Rightarrow> proxyReq \<Rightarrow> string
    \<Rightarrow> (goerr option \<times> responseWriter \<times> nat \<times> u32) option" where
  "ForwardHTTP splitHostPort roundTrip sid w r pathH =
     (let r = r\<lparr>hq_Host := pathH\<rparr>;
          r1 = request.extend (CreateUpstreamRequest splitHostPort (request.truncate r))
             \<lparr>hq_Method = hq_Method r, hq_Host = hq_Host r, hq_URLScheme = ''http'', hq_URLHost = pathH\<rparr>
      in case roundTrip r1 of
        Inl e \<Rightarrow> Some (Some e, w, 0, sid)
      | Inr res \<Rightarrow> do { (w, n, sid) \<leftarrow> SendBackResponse (Some res) None sid w; Some (None, w, n, sid) })"

text \<open>A destination that \<open>Discover\<close> finds: its address and its round tripper.\<close>

type_synonym dest = "string \<times> (proxyReq \<Rightarrow> goerr + response)"

definition hp_proxy :: "(string \<Rightarrow> string option) \<Rightarrow> (string \<Rightarrow> goerr + dest) \<Rightarrow> u32 \<Rightarrow> responseWriter \<Rightarrow> proxyReq
    \<Rightarrow> (bool \<times> responseWriter \<times> u32) option" where
  "hp_proxy splitHostPort discover sid w r = (case discover (hq_Host r) of
     Inl e \<Rightarrow> Some (False, w, sid)
   | Inr (addr, rt) \<Rightarrow>
       if length addr > 0 then do { (_, w, _, sid) \<leftarrow> ForwardHTTP splitHostPort rt sid w r addr; Some (True, w, sid) }
       else Some (True, w, sid))"

definition captureHttpProxyAbsURL :: "(string \<Rightarrow> string option) \<Rightarrow> (string \<Rightarrow> goerr + dest) \<Rightarrow> (proxyReq \<Rightarrow> goerr + response) \<Rightarrow> u32
    \<Rightarrow> responseWriter \<Rightarrow> proxyReq \<Rightarrow> (responseWriter \<times> u32) option" where
  "captureHttpProxyAbsURL splitHostPort discover transport sid w r = do {
     (found, w, sid) \<leftarrow> hp_proxy splitHostPort discover sid w r;
     if found then Some (w, sid)
     else case transport r of
       Inl e \<Rightarrow> Some (http_Error (err_string e) 500 w, sid)
     | Inr resp \<Rightarrow>
         (let w = WriteHeader (rs_Status resp) (w\<lparr>rw_Header := CopyResponseHeaders (rw_Header w) (rs_Header resp)\<rparr>);
              (_, _, _, b) = io_copy (rs_Body resp) (rw_Body w)
          in Some (w\<lparr>rw_Body := b\<rparr>, sid)) }"

text \<open>\<open>handleConnect\<close>. \<open>hijack\<close> is \<open>None\<close> when the response writer is no \<open>Hijacker\<close>; else it fails or gives the connection and
  the bytes that the server has already read from it. After hijacking, writes to the response writer have no effect.\<close>

record connectResult =
  cr_writer :: responseWriter
  cr_client :: "endpoint option" \<comment> \<open>the connection to the client, when it is still open\<close>
  cr_err :: "goerr option"
  cr_proxy :: "proxyState option"
  cr_cnt :: "u32 \<times> u32"

definition okLine :: string where
  "okLine = ''HTTP/1.0 200 OK'' @ [char_of (13 :: nat), char_of (10 :: nat), char_of (13 :: nat), char_of (10 :: nat)]"

definition noHijack :: "responseWriter \<Rightarrow> responseWriter" where
  "noHijack w = (let w = WriteHeader 503 w; (_, _, b) = go_write (bytes_of ''Error - no hijack support'') (rw_Body w) in w\<lparr>rw_Body := b\<rparr>)"

definition connectHost :: "string \<Rightarrow> string" where
  "connectHost host = (if str_contains host '':'' then host else host @ '':443'')"

definition handleConnect :: "(goerr + endpoint \<times> byte list) option \<Rightarrow> (string \<Rightarrow> goerr + endpoint) \<Rightarrow> bool \<Rightarrow> nio_pools \<Rightarrow> u32 \<times> u32
    \<Rightarrow> responseWriter \<Rightarrow> proxyReq \<Rightarrow> connectResult option" where
  "handleConnect hijack dial first p cnt w r = (case hijack of
     None \<Rightarrow> Some \<lparr>cr_writer = noHijack w, cr_client = None, cr_err = None, cr_proxy = None, cr_cnt = cnt\<rparr>
   | Some (Inl e) \<Rightarrow> Some \<lparr>cr_writer = noHijack w, cr_client = None, cr_err = Some e, cr_proxy = None, cr_cnt = cnt\<rparr>
   | Some (Inr (client, buffered)) \<Rightarrow>
       (let str = (GetStream (e_out client, e_caps client) (e_in client, e_caps client) p)\<lparr>Dest := connectHost (hq_URLHost r)\<rparr> in
        case dial (Dest str) of
          Inl e \<Rightarrow> Some \<lparr>cr_writer = w, cr_client = Some client, cr_err = Some e, cr_proxy = None, cr_cnt = cnt\<rparr>
        | Inr nc \<Rightarrow>
            (let (_, _, out) = go_write (bytes_of okLine) (st_Out str) in do {
               (err, ps, cnt) \<leftarrow> Proxy first nc (streamReader str, inOutStreamCaps) (out, inOutStreamCaps) (Dest str) cnt;
               Some \<lparr>cr_writer = w, cr_client = None, cr_err = err, cr_proxy = Some ps, cr_cnt = cnt\<rparr> })))"

text \<open>The handler that \<open>Start\<close> serves.\<close>

datatype proxyOutcome = Connected connectResult | Answered responseWriter u32

definition hp_serve :: "(string \<Rightarrow> string option) \<Rightarrow> (string \<Rightarrow> goerr + dest) \<Rightarrow> (proxyReq \<Rightarrow> goerr + response)
    \<Rightarrow> (goerr + endpoint \<times> byte list) option \<Rightarrow> (string \<Rightarrow> goerr + endpoint) \<Rightarrow> bool \<Rightarrow> nio_pools \<Rightarrow> u32 \<times> u32
    \<Rightarrow> responseWriter \<Rightarrow> proxyReq \<Rightarrow> proxyOutcome option" where
  "hp_serve splitHostPort discover transport hijack dial first p cnt w r =
     (if hq_Method r = ''CONNECT'' then map_option Connected (handleConnect hijack dial first p cnt w r)
      else map_option (\<lambda>(w, sid). Answered w sid) (captureHttpProxyAbsURL splitHostPort discover transport (snd cnt) w r))"

section \<open>Readers\<close>

lemma bufferedReader_bytes [simp]: "reader_bytes (bufferedReader c r) = c @ reader_bytes r"
  by (simp add: bufferedReader_def io_simps)

lemma bufferedReader_plain [simp]: "plain_reader (bufferedReader c r) = plain_reader r"
  by (simp add: bufferedReader_def plain_reader_def)

lemma bufferedReader_read: "c \<noteq> [] \<Longrightarrow> go_read n (bufferedReader c r) = (take n c, None, bufferedReader (drop n c) r)"
  by (simp add: bufferedReader_def)

lemma asReader_bytes: "reader_bytes (asReader br) = br_pending br"
  by (simp add: asReader_def br_pending_def)

lemma asReader_plain: "plain_reader (Reader br) \<Longrightarrow> plain_reader (asReader br)"
  by (simp add: asReader_def)

text \<open>Sequences of reads, of a value with a \<open>Read\<close> method and of a reader.\<close>

fun reads_via :: "('s \<Rightarrow> nat \<Rightarrow> ((byte list \<times> goerr option) \<times> 's) option) \<Rightarrow> nat list \<Rightarrow> 's
    \<Rightarrow> ((byte list \<times> goerr option) list \<times> 's) option" where
  "reads_via get [] s = Some ([], s)"
| "reads_via get (n # ns) s = do { (x, s) \<leftarrow> get s n; (xs, s) \<leftarrow> reads_via get ns s; Some (x # xs, s) }"

fun go_reads :: "nat list \<Rightarrow> reader \<Rightarrow> (byte list \<times> goerr option) list \<times> reader" where
  "go_reads [] r = ([], r)"
| "go_reads (n # ns) r = (let (bs, e, r) = go_read n r; (xs, r) = go_reads ns r in ((bs, e) # xs, r))"

text \<open>The contract of a value that \<open>Proxy\<close> reads from: each read is a read from the reader that it stands for.\<close>

locale as_reader =
  fixes ok :: "'s \<Rightarrow> bool" and abs :: "'s \<Rightarrow> reader" and get :: "'s \<Rightarrow> nat \<Rightarrow> ((byte list \<times> goerr option) \<times> 's) option"
  assumes get_sim: "ok s \<Longrightarrow> \<exists>bs e s'. get s n = Some ((bs, e), s') \<and> ok s' \<and> go_read n (abs s) = (bs, e, abs s')"
begin

lemma reads_sim: "ok s \<Longrightarrow> \<exists>out s'. reads_via get ns s = Some (out, s') \<and> ok s' \<and> go_reads ns (abs s) = (out, abs s')"
proof (induction ns arbitrary: s)
  case (Cons n ns)
  obtain bs e s1 where s1: "get s n = Some ((bs, e), s1)" "ok s1" "go_read n (abs s) = (bs, e, abs s1)"
    using get_sim [OF Cons.prems] by blast
  from Cons.IH [OF s1(2)] s1 show ?case by auto
qed simp

end

interpretation bra: as_reader br_ok asReader BufferReader_Read
proof
  fix br n
  assume ok: "br_ok br"
  let ?b = "Buffer br"
  have wf: "wf_buffer ?b" using ok by (simp add: br_ok_def)
  show "\<exists>bs e br'. BufferReader_Read br n = Some ((bs, e), br') \<and> br_ok br' \<and> go_read n (asReader br) = (bs, e, asReader br')"
  proof (cases "int (b_end ?b) - int (b_off ?b) > 0")
    case True
    have ne: "contents ?b \<noteq> []" using True wf by (auto simp: contents_def wf_buffer_def scap_def)
    define t where "t = take n (contents ?b)"
    have "length t \<le> length (contents ?b)" by (simp add: t_def)
    note adv = contents_advance [OF wf this]
    define br' where "br' = \<lparr>Reader = Reader br, Buffer = ?b\<lparr>b_off := b_off ?b + length t\<rparr>\<rparr>"
    have br': "Reader br' = Reader br" "br_ok br'" "contents (Buffer br') = drop n (contents ?b)"
      using adv by (simp_all add: br'_def br_ok_def t_def min_def del: length_contents split: if_splits)
    have "BufferReader_Read br n = Some ((t, None), br')"
      using True wf by (simp add: BufferReader_Read_def Buffer_ReadBlocking_def buffer_simps br'_def t_def)
    moreover have "go_read n (asReader br) = (t, None, asReader br')"
      using br' ne by (simp add: asReader_def bufferedReader_read t_def)
    ultimately show ?thesis using br'(2) by blast
  next
    case False
    hence "contents ?b = []" using wf by (simp add: wf_buffer_def)
    moreover obtain bs e r where "go_read n (Reader br) = (bs, e, r)" by (metis prod_cases3)
    ultimately show ?thesis using False ok
      by (intro exI [of _ bs] exI [of _ e] exI [of _ "\<lparr>Reader = r, Buffer = Buffer br\<rparr>"])
        (simp add: BufferReader_Read_def Buffer_ReadBlocking_def asReader_def bufferedReader_def br_ok_def)
  qed
qed

interpretation sta: as_reader st_ok streamReader stream_Read
proof
  fix s n
  assume ok: "st_ok s"
  show "\<exists>bs e s'. stream_Read s n = Some ((bs, e), s') \<and> st_ok s' \<and> go_read n (streamReader s) = (bs, e, streamReader s')"
  proof (cases "Buffer_Size (rbuffer s) > 0")
    case True
    then obtain b where b: "rbuffer s = Some b" "wf_buffer b" "b_off b < b_end b"
      using ok by (cases "rbuffer s") (auto simp: Buffer_Size_def st_ok_def)
    have ne: "contents b \<noteq> []" using b by (auto simp: contents_def wf_buffer_def scap_def)
    define t where "t = take n (contents b)"
    have "length t \<le> length (contents b)" by (simp add: t_def)
    note adv = contents_advance [OF b(2) this]
    define b' where "b' = b\<lparr>b_off := b_off b + length t\<rparr>"
    have b': "wf_buffer b'" "contents b' = drop n (contents b)"
      using adv by (simp_all add: b'_def t_def min_def del: length_contents split: if_splits)
    obtain s' where s': "stream_Read s n = Some ((t, None), s')" "rbuffer s' = Some b'" "st_In s' = st_In s"
      using True b by (auto simp: stream_Read_def Buffer_ReadData_def buffer_simps b'_def t_def)
    moreover have "st_ok s'" using s'(2) b'(1) by (simp add: st_ok_def)
    moreover have "go_read n (streamReader s) = (t, None, streamReader s')"
      using s' b b' ne by (simp add: streamReader_def bufferedReader_read t_def)
    ultimately show ?thesis by blast
  next
    case False
    then have c: "(case rbuffer s of None \<Rightarrow> [] | Some b \<Rightarrow> contents b) = []"
      using ok by (auto simp: Buffer_Size_def st_ok_def contents_def split: option.splits)
    obtain bs e r where g: "go_read n (st_In s) = (bs, e, r)" by (metis prod_cases3)
    obtain s' where s': "stream_Read s n = Some ((bs, e), s')" "rbuffer s' = rbuffer s" "st_In s' = r"
      using False g by (auto simp: stream_Read_def log_ev_def Let_def split: if_splits)
    moreover have "st_ok s'" using ok s'(2) by (simp add: st_ok_def)
    ultimately show ?thesis using c g by (auto simp: streamReader_def bufferedReader_def)
  qed
qed

text \<open>C35: What is proxied is what is read: every sequence of reads, of whatever sizes, from a \<open>BufferReader\<close> or an
  \<open>InOutStream\<close> returns, without a panic, the results of the same reads from its buffered bytes followed by the
  underlying reader, errors included, and ends in the corresponding state.\<close>

theorem readers_simulate:
  assumes "br_ok br" and "st_ok s"
  shows "(\<exists>out br'. reads_via BufferReader_Read ns br = Some (out, br') \<and> go_reads ns (asReader br) = (out, asReader br')) \<and>
    (\<exists>out s'. reads_via stream_Read ns s = Some (out, s') \<and> go_reads ns (streamReader s) = (out, streamReader s'))"
  using bra.reads_sim [OF assms(1), of ns] sta.reads_sim [OF assms(2), of ns] by blast

theorem readers_simulate_witness:
  "let br = \<lparr>Reader = [([5], None)], Buffer = \<lparr>b_buf = \<lparr>sarr = [1, 2, 3, 0], slen = 4\<rparr>, b_off = 1, b_end = 3\<rparr>\<rparr>
   in \<exists>br'. reads_via BufferReader_Read [1, 9, 9, 9] br = Some ([([2], None), ([3], None), ([5], None), ([], Some EOF)], br')"
proof -
  let ?br = "\<lparr>Reader = [([5], None)], Buffer = \<lparr>b_buf = \<lparr>sarr = [1, 2, 3, 0], slen = 4\<rparr>, b_off = 1, b_end = 3\<rparr>\<rparr>"
  have ok: "br_ok ?br" "st_ok (ex_stream [([7], None)] None)" by (simp_all add: br_ok_def wf_buffer_def wf_slice_def scap_def st_ok_def)
  have "asReader ?br = [([2, 3], None), ([5], None)]" by (simp add: asReader_def bufferedReader_def contents_def numeral_2_eq_2)
  with readers_simulate [OF ok, of "[1, 9, 9, 9]"] show ?thesis unfolding Let_def by auto
qed

section \<open>SNI\<close>

lemma NewBufferReader_fresh:
  "NewBufferReader choice inp p = (\<lparr>Reader = inp, Buffer = \<lparr>b_buf = make_slice bufSize, b_off = 0, b_end = 0\<rparr>\<rparr>,
     p\<lparr>CountGetBuffer := CountGetBuffer p + 1\<rparr>)"
  by (simp add: NewBufferReader_def GetBuffer_big)

lemma fresh_reader:
  "br_ok \<lparr>Reader = inp, Buffer = \<lparr>b_buf = make_slice bufSize, b_off = 0, b_end = 0\<rparr>\<rparr>"
  "br_pending \<lparr>Reader = inp, Buffer = \<lparr>b_buf = make_slice bufSize, b_off = 0, b_end = 0\<rparr>\<rparr> = reader_bytes inp"
  by (simp_all add: br_ok_def wf_buffer_def br_pending_def contents_def)

lemma splitDots_four:
  assumes "CHR ''.'' \<notin> set a" "CHR ''.'' \<notin> set b" "CHR ''.'' \<notin> set c"
  shows "splitDots 4 (a @ ''.'' @ b @ ''.'' @ c @ ''.'' @ d) = [a, b, c, d]"
proof -
  have tw: "takeWhile (\<lambda>c. c \<noteq> CHR ''.'') (x @ CHR ''.'' # y) = x" "dropWhile (\<lambda>c. c \<noteq> CHR ''.'') (x @ CHR ''.'' # y) = CHR ''.'' # y"
    if "CHR ''.'' \<notin> set x" for x y using that by (induction x) auto
  show ?thesis using assms by (simp add: numeral_eq_Suc tw)
qed

text \<open>The name of a ClientHello at the start of a connection: what the sniffing in \<open>HandleConn\<close> gives.\<close>

lemma sni_sniffed:
  assumes "plain_reader (e_in conn)" "reader_bytes (e_in conn) = tlsRecord v (helloBody h) @ rest" "partsOk h" "length (helloBody h) \<le> 16 * 1024"
    and "h_extensions h = pre @ [serverNameExt name] @ post" "\<forall>x \<in> set (pre @ post). fst x \<noteq> extensionServerName" "\<not> suffix ''.'' name"
  obtains m s where "SniffClientHello \<lparr>Reader = e_in conn, Buffer = \<lparr>b_buf = make_slice bufSize, b_off = 0, b_end = 0\<rparr>\<rparr> = Some ((Some m, name, None), s)"
    "plain_reader (asReader s)" "reader_bytes (asReader s) = reader_bytes (e_in conn)"
  by (rule sniff_name [OF fresh_reader(1) _ _ fresh_reader(2) [THEN trans, OF assms(2)] assms(3-7)])
    (use assms(1) that fresh_reader(2) in \<open>auto simp: asReader_bytes asReader_plain\<close>)

lemma sni_run:
  assumes hello: "plain_reader (e_in conn)" "reader_bytes (e_in conn) = tlsRecord v (helloBody h) @ rest" "partsOk h" "length (helloBody h) \<le> 16 * 1024"
      "h_extensions h = pre @ [serverNameExt name] @ post" "\<forall>x \<in> set (pre @ post). fst x \<noteq> extensionServerName" "\<not> suffix ''.'' name"
    and addr: "sniAddr name = Some addr" "dial addr = Inr nc"
    and ends: "plain_reader (e_in nc)" "w_next (e_out nc) = []" "w_next (e_out conn) = []" "closable (e_caps nc)" "closable (e_caps conn)"
  obtains r ps b where "sni_HandleConn choice dial first conn p cnt = Some r" "sr_err r = None" "sr_dialed r = Some addr" "sr_proxy r = Some ps"
    "w_out (Out (p1 ps)) = w_out (e_out nc) @ reader_bytes (e_in conn)" "w_out (Out (p2 ps)) = w_out (e_out conn) @ reader_bytes (e_in nc)"
    "ioPool (sr_pools r) = b # b # ioPool p" "0 < sr_connCloses r"
proof -
  obtain m s where sn: "SniffClientHello \<lparr>Reader = e_in conn, Buffer = \<lparr>b_buf = make_slice bufSize, b_off = 0, b_end = 0\<rparr>\<rparr> = Some ((Some m, name, None), s)"
    "plain_reader (asReader s)" "reader_bytes (asReader s) = reader_bytes (e_in conn)"
    by (rule sni_sniffed [OF hello])
  obtain ps cnt' where px: "Proxy first nc (asReader s, bufferReaderCaps) (e_out conn, e_caps conn) addr cnt = Some (None, ps, cnt')"
    "w_out (Out (p1 ps)) = w_out (e_out nc) @ reader_bytes (asReader s)" "w_out (Out (p2 ps)) = w_out (e_out conn) @ reader_bytes (e_in nc)"
    "InClose \<notin> set (events (p1 ps))"
    "p_closed ps = [CloseOutConn] @ (if isCloser bufferReaderCaps then [CloseIn] else []) @ (if isCloser (e_caps conn) then [CloseW] else [])"
    by (rule Proxy_complete [where inp = "(asReader s, bufferReaderCaps)" and w = "(e_out conn, e_caps conn)" and outConn = nc])
      (use sn ends in auto)
  have "filter (\<lambda>e. e = InClose) (events (p1 ps)) = []" using px(4) by (auto simp: filter_empty_conv)
  hence closes: "inCloses ps = 1" using px(5) by (simp add: inCloses_def bufferReaderCaps_def)
  define p' where "p' = p\<lparr>CountGetBuffer := CountGetBuffer p + 1\<rparr>"
  have run: "sni_HandleConn choice dial first conn p cnt = Some (sniDone (Buffer s) p' cnt' None (Some addr) (Some ps))"
    using sn(1) addr px(1) by (simp add: sni_HandleConn_def NewBufferReader_fresh p'_def)
  have "ioPool (sr_pools (sniDone (Buffer s) p' cnt' None (Some addr) (Some ps))) =
      replicate 2 ((Buffer s)\<lparr>b_end := 0, b_off := 0\<rparr>) @ ioPool p"
    by (simp add: sniDone_def Let_def closes p'_def numeral_2_eq_2 Buffer_Recycle_def)
  thus ?thesis using px sn by (intro that [OF run]) (auto simp: sniDone_def Let_def numeral_2_eq_2)
qed

text \<open>C4: A TLS connection is routed by its server name: when the client starts with the record of a ClientHello that names
  a server, the handler dials that name on port 443, the server receives every byte that the client sent, the ClientHello
  included, and the client every byte of the server; the handler returns nil, with the connection closed.\<close>

theorem sni_routes:
  assumes "plain_reader (e_in conn)" "reader_bytes (e_in conn) = tlsRecord v (helloBody h) @ rest" "partsOk h" "length (helloBody h) \<le> 16 * 1024"
      "h_extensions h = pre @ [serverNameExt name] @ post" "\<forall>x \<in> set (pre @ post). fst x \<noteq> extensionServerName" "\<not> suffix ''.'' name"
    and "\<not> prefix ''outbound_.'' name" "dial (name @ '':443'') = Inr nc"
    and "plain_reader (e_in nc)" "w_next (e_out nc) = []" "w_next (e_out conn) = []" "closable (e_caps nc)" "closable (e_caps conn)"
  shows "\<exists>r ps. sni_HandleConn choice dial first conn p cnt = Some r \<and> sr_err r = None \<and> sr_dialed r = Some (name @ '':443'') \<and>
    sr_proxy r = Some ps \<and> w_out (Out (p1 ps)) = w_out (e_out nc) @ reader_bytes (e_in conn) \<and>
    w_out (Out (p2 ps)) = w_out (e_out conn) @ reader_bytes (e_in nc) \<and> 0 < sr_connCloses r"
  by (rule sni_run [where dial = dial and addr = "name @ '':443''" and choice = choice and first = first and p = p and cnt = cnt,
        OF assms(1-7) _ assms(9-14)]) (use assms(8) in \<open>auto simp: sniAddr_def\<close>)

definition exampleHello :: "string \<Rightarrow> helloParts" where
  "exampleHello name = \<lparr>h_head = [1, 0, 0, 72], h_vers = 0x303, h_random = replicate 32 7, h_session = [9, 9], h_ciphers = [0x1301],
     h_compression = [0], h_extensions = [(10, [0, 2, 0, 29]), serverNameExt name]\<rparr>"

definition exampleConn :: "string \<Rightarrow> endpoint" where
  "exampleConn name = \<lparr>e_in = [(take 7 (tlsRecord 0x301 (helloBody (exampleHello name))), None),
       (drop 7 (tlsRecord 0x301 (helloBody (exampleHello name))) @ [5], None)],
     e_out = \<lparr>w_out = [], w_next = []\<rparr>, e_caps = tcpCaps\<rparr>"

lemma exampleConn_hello:
  assumes "length name \<le> 100"
  shows "plain_reader (e_in (exampleConn name))"
    "reader_bytes (e_in (exampleConn name)) = tlsRecord 0x301 (helloBody (exampleHello name)) @ [5]"
    "partsOk (exampleHello name)" "length (helloBody (exampleHello name)) \<le> 16 * 1024"
    "h_extensions (exampleHello name) = [(10, [0, 2, 0, 29])] @ [serverNameExt name] @ []"
    "\<forall>x \<in> set ([(10, [0, 2, 0, 29])] @ []). fst x \<noteq> extensionServerName"
proof -
  have "reader_bytes [(take 7 xs, None), (drop 7 xs @ [5], None)] = xs @ [5]" for xs by (simp add: io_simps)
  thus "reader_bytes (e_in (exampleConn name)) = tlsRecord 0x301 (helloBody (exampleHello name)) @ [5]"
    unfolding exampleConn_def by simp
qed (use assms in \<open>simp_all add: exampleConn_def exampleHello_def plain_reader_def partsOk_def helloBody_def helloPrefix_def
    encodeExt_def serverNameExt_def extensionServerName_def\<close>)

definition noPools :: nio_pools where
  "noPools = \<lparr>dataChunkPools = replicate 5 [], CountGetBuffer = 0, CountPutBuffer = 0, ioPool = []\<rparr>"

theorem sni_routes_witness:
  "\<exists>r ps. sni_HandleConn None (\<lambda>a. if a = ''a.b:443'' then Inr \<lparr>e_in = [([7, 8], None)], e_out = \<lparr>w_out = [], w_next = []\<rparr>, e_caps = tcpCaps\<rparr>
        else Inl (ErrMsg ''unknown'')) True (exampleConn ''a.b'') noPools (0, 0) = Some r \<and> sr_proxy r = Some ps \<and>
     w_out (Out (p1 ps)) = tlsRecord 0x301 (helloBody (exampleHello ''a.b'')) @ [5] \<and> w_out (Out (p2 ps)) = [7, 8]"
proof -
  have len: "length ''a.b'' \<le> 100" by simp
  note c = exampleConn_hello [OF len]
  let ?nc = "\<lparr>e_in = [([7, 8], None)], e_out = \<lparr>w_out = [], w_next = []\<rparr>, e_caps = tcpCaps\<rparr>"
  let ?dial = "\<lambda>a. if a = ''a.b:443'' then Inr ?nc else Inl (ErrMsg ''unknown'')"
  have "\<exists>r ps. sni_HandleConn None ?dial True (exampleConn ''a.b'') noPools (0, 0) = Some r \<and> sr_err r = None \<and>
    sr_dialed r = Some (''a.b'' @ '':443'') \<and> sr_proxy r = Some ps \<and>
    w_out (Out (p1 ps)) = w_out (e_out ?nc) @ reader_bytes (e_in (exampleConn ''a.b'')) \<and>
    w_out (Out (p2 ps)) = w_out (e_out (exampleConn ''a.b'')) @ reader_bytes (e_in ?nc) \<and> 0 < sr_connCloses r"
    by (rule sni_routes [OF c]) (simp_all add: suffix_def exampleConn_def plain_reader_def closable_def tcpCaps_def)
  thus ?thesis unfolding c(2) by (auto simp: exampleConn_def io_simps)
qed

text \<open>The buffer of a connection is recycled twice, by \<open>Proxy\<close>, which closes the \<open>BufferReader\<close>, and by the deferred call: the
  pool then gives it to two users.\<close>

lemma sni_recycles_twice:
  assumes "plain_reader (e_in conn)" "reader_bytes (e_in conn) = tlsRecord v (helloBody h) @ rest" "partsOk h" "length (helloBody h) \<le> 16 * 1024"
      "h_extensions h = pre @ [serverNameExt name] @ post" "\<forall>x \<in> set (pre @ post). fst x \<noteq> extensionServerName" "\<not> suffix ''.'' name"
    and "sniAddr name = Some addr" "dial addr = Inr nc"
    and "plain_reader (e_in nc)" "w_next (e_out nc) = []" "w_next (e_out conn) = []" "closable (e_caps nc)" "closable (e_caps conn)"
  shows "\<exists>r b. sni_HandleConn choice dial first conn p cnt = Some r \<and> ioPool (sr_pools r) = b # b # ioPool p"
  by (rule sni_run [where dial = dial and addr = addr and choice = choice and first = first and p = p and cnt = cnt, OF assms]) blast

text \<open>Names of Istio: the comment gives \<open>outbound_.9090_._.prometheus-1-prometheus.mon.svc.cluster.local\<close>; the port that is
  dialed keeps the underscore.\<close>

lemma sniAddr_istio:
  assumes "CHR ''.'' \<notin> set port"
  shows "sniAddr (''outbound_.'' @ port @ ''_._.'' @ svc) = Some (JoinHostPort svc (port @ ''_''))"
proof -
  have "splitDots 4 (''outbound_'' @ ''.'' @ (port @ ''_'') @ ''.'' @ ''_'' @ ''.'' @ svc) = [''outbound_'', port @ ''_'', ''_'', svc]"
    using assms by (intro splitDots_four) auto
  thus ?thesis by (simp add: sniAddr_def)
qed

text \<open>A client can stop the gateway: a ClientHello whose server name starts with \<open>outbound_.\<close> and has less than four
  labels makes the handler index out of range, whatever else the client sends.\<close>

theorem sni_outbound_panics:
  assumes "plain_reader (e_in conn)" "reader_bytes (e_in conn) = tlsRecord v (helloBody h) @ rest" "partsOk h" "length (helloBody h) \<le> 16 * 1024"
      "h_extensions h = pre @ [serverNameExt name] @ post" "\<forall>x \<in> set (pre @ post). fst x \<noteq> extensionServerName" "\<not> suffix ''.'' name"
    and "prefix ''outbound_.'' name" "length (splitDots 4 name) < 4"
  shows "sni_HandleConn choice dial first conn p cnt = None"
  by (rule sni_sniffed [OF assms(1-7)])
    (use assms(8,9) in \<open>simp add: sni_HandleConn_def NewBufferReader_fresh sniAddr_def\<close>)

theorem sni_outbound_panics_witness:
  "sni_HandleConn None (\<lambda>a. Inl (ErrMsg ''unknown'')) True (exampleConn ''outbound_.9090_'') noPools (0, 0) = None"
proof -
  have len: "length ''outbound_.9090_'' \<le> 100" by simp
  show ?thesis
    by (rule sni_outbound_panics [OF exampleConn_hello [OF len]]) (simp_all add: suffix_def numeral_eq_Suc)
qed

section \<open>HTTP proxy\<close>


definition exampleReq :: proxyReq where
  "exampleReq = request.extend ex_request \<lparr>hq_Method = ''GET'', hq_Host = ''h'', hq_URLScheme = [], hq_URLHost = []\<rparr>"

definition exampleWriter :: responseWriter where
  "exampleWriter = \<lparr>rw_Header = [], rw_Status = [], rw_Body = \<lparr>w_out = [], w_next = []\<rparr>, rw_Caps = respCaps\<rparr>"


section \<open>CONNECT\<close>

text \<open>The run of the handler, for the properties here and for handlers in a row.\<close>

lemma connect_run:
  assumes "dial (connectHost (hq_URLHost r)) = Inr nc"
    and "plain_reader (e_in client)" "plain_reader (e_in nc)" "w_next (e_out client) = []" "w_next (e_out nc) = []" "closable (e_caps nc)"
  shows "\<exists>res ps. handleConnect (Some (Inr (client, buffered))) dial first p cnt w r = Some res \<and> cr_err res = None \<and> cr_proxy res = Some ps \<and>
    w_out (Out (p1 ps)) = w_out (e_out nc) @ reader_bytes (e_in client) \<and>
    w_out (Out (p2 ps)) = w_out (e_out client) @ bytes_of okLine @ reader_bytes (e_in nc)"
proof -
  define out where "out = (e_out client)\<lparr>w_out := w_out (e_out client) @ bytes_of okLine\<rparr>"
  define host where "host = connectHost (hq_URLHost r)"
  have wr: "go_write (bytes_of okLine) (e_out client) = (length (bytes_of okLine), None, out)"
    using assms(4) by (simp add: go_write_def out_def)
  obtain ps cnt' where "Proxy first nc (e_in client, inOutStreamCaps) (out, inOutStreamCaps) host cnt = Some (None, ps, cnt')"
    "w_out (Out (p1 ps)) = w_out (e_out nc) @ reader_bytes (e_in client)" "w_out (Out (p2 ps)) = w_out out @ reader_bytes (e_in nc)"
    by (rule Proxy_complete [where inp = "(e_in client, inOutStreamCaps)" and w = "(out, inOutStreamCaps)" and outConn = nc
          and first = first and dest = host and cnt = cnt])
      (use assms in \<open>auto simp: out_def closable_def inOutStreamCaps_def\<close>)
  thus ?thesis using assms(1)
    by (simp add: handleConnect_def host_def [symmetric] GetStream_def NewStream_def streamReader_def bufferedReader_def wr) (simp add: out_def)
qed

text \<open>C37: A tunnel through \<open>CONNECT\<close> relays: the address is dialed, on port 443 when it has none; the client gets the
  \<open>200 OK\<close> line and then every byte of the server, and the server every byte that arrives on the connection. What the
  HTTP server had read ahead (\<open>buffered\<close>) is not part of it: those bytes are lost.\<close>

theorem connect_relays:
  assumes "dial (connectHost (hq_URLHost r)) = Inr nc"
    and "plain_reader (e_in client)" "plain_reader (e_in nc)" "w_next (e_out client) = []" "w_next (e_out nc) = []" "closable (e_caps nc)"
  shows "\<exists>res ps. handleConnect (Some (Inr (client, buffered))) dial first p cnt w r = Some res \<and> cr_err res = None \<and> cr_proxy res = Some ps \<and>
    w_out (Out (p1 ps)) = w_out (e_out nc) @ reader_bytes (e_in client) \<and>
    w_out (Out (p2 ps)) = w_out (e_out client) @ bytes_of okLine @ reader_bytes (e_in nc)"
  using assms by (rule connect_run)

theorem connect_relays_witness:
  "\<exists>res ps. handleConnect (Some (Inr (\<lparr>e_in = [([1], None)], e_out = \<lparr>w_out = [], w_next = []\<rparr>, e_caps = tcpCaps\<rparr>, [9])))
       (\<lambda>a. if a = ''h:443'' then Inr \<lparr>e_in = [([7], None)], e_out = \<lparr>w_out = [], w_next = []\<rparr>, e_caps = tcpCaps\<rparr> else Inl (ErrMsg ''unknown''))
       True noPools (0, 0) exampleWriter (exampleReq\<lparr>hq_URLHost := ''h''\<rparr>) = Some res \<and> cr_proxy res = Some ps \<and>
     w_out (Out (p1 ps)) = [1] \<and> w_out (Out (p2 ps)) = bytes_of okLine @ [7]"
proof -
  define nc where "nc = \<lparr>e_in = [([7], None)] :: reader, e_out = \<lparr>w_out = [], w_next = []\<rparr>, e_caps = tcpCaps\<rparr>"
  define client where "client = \<lparr>e_in = [([1], None)] :: reader, e_out = \<lparr>w_out = [], w_next = []\<rparr>, e_caps = tcpCaps\<rparr>"
  define dial where "dial = (\<lambda>a. if a = ''h:443'' then Inr nc else Inl (ErrMsg ''unknown''))"
  have "\<not> str_contains ''h'' '':''" by (simp add: str_contains_def sublist_code)
  hence d: "dial (connectHost (hq_URLHost (exampleReq\<lparr>hq_URLHost := ''h''\<rparr>))) = Inr nc"
    by (simp add: dial_def connectHost_def)
  have "\<exists>res ps. handleConnect (Some (Inr (client, [9]))) dial True noPools (0, 0) exampleWriter (exampleReq\<lparr>hq_URLHost := ''h''\<rparr>) = Some res \<and>
    cr_err res = None \<and> cr_proxy res = Some ps \<and> w_out (Out (p1 ps)) = w_out (e_out nc) @ reader_bytes (e_in client) \<and>
    w_out (Out (p2 ps)) = w_out (e_out client) @ bytes_of okLine @ reader_bytes (e_in nc)"
    using d by (rule connect_relays) (simp_all add: nc_def client_def plain_reader_def closable_def tcpCaps_def)
  thus ?thesis unfolding dial_def nc_def client_def by (auto simp: io_simps)
qed

text \<open>When the server cannot be dialed the client is not answered and its connection stays open.\<close>

lemma connect_dial_error:
  assumes "dial (connectHost (hq_URLHost r)) = Inl e"
  shows "\<exists>res. handleConnect (Some (Inr (client, buffered))) dial first p cnt w r = Some res \<and> cr_client res = Some client \<and> cr_writer res = w"
  using assms by (simp add: handleConnect_def)

end
