(* ===== verification/Echo.thy ===== *)
theory Echo
  imports Nio_Copy
begin

text \<open>
  \<^verbatim>\<open>src/pkg/echo/echo.go\<close>: the echo handlers that are used to test a gateway. \<open>handleStreams\<close> serves TCP connections and
  raw HTTP bodies, \<open>handle\<close> mesh streams, and \<open>EchoHTTP\<close> plain HTTP requests. Waiting and logging are left out; the
  description of the stream (JSON) and the first line of \<open>EchoHTTP\<close> are parameters.
\<close>

datatype echoEvent = EchoInClose | EchoOutClose | EchoCloseWrite | EchoFlush

record echoState =
  er_in :: reader
  er_out :: writer
  er_Received :: nat
  er_first :: byte \<comment> \<open>\<open>d[0]\<close>\<close>
  er_writeClosed :: bool
  er_events :: "echoEvent list"

definition echoWrite :: "byte list \<Rightarrow> echoState \<Rightarrow> echoState" where
  "echoWrite bs s = s\<lparr>er_out := snd (snd (go_write bs (er_out s)))\<rparr>"

definition echoEmit :: "bool \<Rightarrow> echoEvent \<Rightarrow> echoState \<Rightarrow> echoState" where
  "echoEmit c e s = (if c then s\<lparr>er_events := er_events s @ [e]\<rparr> else s)"

text \<open>One read: the bytes, the error, and the state with the bytes at the front of the buffer.\<close>

definition echoRead :: "echoState \<Rightarrow> byte list \<times> goerr option \<times> echoState" where
  "echoRead s = (let (bs, err, r) = go_read 2048 (er_in s) in
     (bs, err, s\<lparr>er_in := r, er_Received := er_Received s + length bs, er_first := (if bs = [] then er_first s else hd bs)\<rparr>))"

text \<open>The end of the stream, and what happens to the bytes of a read. The test for a graceful close looks at the first byte
  of the buffer also when nothing was read.\<close>

definition echoEnd :: "bool \<Rightarrow> caps \<Rightarrow> caps \<Rightarrow> byte list \<Rightarrow> goerr \<Rightarrow> echoState \<Rightarrow> echoState" where
  "echoEnd serverFirst inC outC bs err s =
     (if err = EOF \<and> serverFirst
      then echoEmit (isCloseWriter outC) EchoCloseWrite (echoWrite (be32_bytes (of_nat (length bs))) s)
      else echoEmit (isCloser outC) EchoOutClose (echoEmit (isCloser inC) EchoInClose s))"

definition echoBytes :: "caps \<Rightarrow> byte list \<Rightarrow> echoState \<Rightarrow> echoState" where
  "echoBytes outC bs s =
     (let s = (if er_first s = 0 \<and> isCloseWriter outC then (echoEmit True EchoCloseWrite s)\<lparr>er_writeClosed := True\<rparr> else s);
          s = (if er_writeClosed s then s else echoWrite bs s)
      in echoEmit (isFlusher outC) EchoFlush s)"

lemma echoBytes_in [simp]: "er_in (echoBytes outC bs s) = er_in s"
  by (simp add: echoBytes_def echoEmit_def echoWrite_def Let_def)

function echoLoop :: "bool \<Rightarrow> caps \<Rightarrow> caps \<Rightarrow> echoState \<Rightarrow> echoState" where
  "echoLoop serverFirst inC outC s =
     (let (bs, err, s') = echoRead s in
      case err of Some e \<Rightarrow> echoEnd serverFirst inC outC bs e s'
      | None \<Rightarrow> echoLoop serverFirst inC outC (echoBytes outC bs s'))"
  by pat_completeness auto
termination
proof (relation "measure (\<lambda>(sf, i, outC, s). reader_size (er_in s))", simp)
  fix sf i outC s x bs y err s'
  assume "x = echoRead s" "(bs, y) = x" "(err, s') = y" "err = None"
  hence "echoRead s = (bs, None, s')" by simp
  then obtain r where "go_read 2048 (er_in s) = (bs, None, r)" "er_in s' = r"
    by (auto simp: echoRead_def Let_def split: prod.splits)
  thus "((sf, i, outC, echoBytes outC bs s'), sf, i, outC, s) \<in> measure (\<lambda>(sf, i, outC, s). reader_size (er_in s))"
    using go_read_size [of 2048 "er_in s"] by simp
qed

declare echoLoop.simps [simp del]

definition helloWorld :: "byte list" where
  "helloWorld = bytes_of (''Hello world'' @ [char_of (10 :: nat)])"

definition handleStreams :: "bool \<Rightarrow> nat \<Rightarrow> reader \<times> caps \<Rightarrow> writer \<times> caps \<Rightarrow> echoState" where
  "handleStreams serverFirst received inp out =
     (let s = \<lparr>er_in = fst inp, er_out = fst out, er_Received = received, er_first = 0, er_writeClosed = False, er_events = []\<rparr>;
          s = (if serverFirst then echoWrite helloWorld s else s)
      in echoLoop serverFirst (snd inp) (snd out) s)"

text \<open>\<open>handle\<close>, with the description of the stream; \<open>ServeTCP\<close>, \<open>Handle\<close> and the rest of \<open>ServeHTTP\<close> only call it or
  \<open>handleStreams\<close>. The result has the error, what is left unread, and the output.\<close>

definition echo_handle :: "byte list \<Rightarrow> bool \<Rightarrow> reader \<Rightarrow> writer \<Rightarrow> goerr option \<times> reader \<times> writer" where
  "echo_handle info serverFirst r w =
     (let b = info @ [10];
          w = (if serverFirst then snd (snd (go_write b w)) else w);
          (bs, err, r) = go_read 2048 r
      in case err of Some e \<Rightarrow> (Some e, r, w)
         | None \<Rightarrow>
             (let w = (if serverFirst then w else snd (snd (go_write b w)));
                  w = snd (snd (go_write bs w));
                  (_, _, r, w) = io_copy r w
              in (None, r, w)))"

function echoHTTPLoop :: "reader \<Rightarrow> writer \<Rightarrow> reader \<times> writer" where
  "echoHTTPLoop r w =
     (let (bs, err, r') = go_read 1024 r in
      case err of Some e \<Rightarrow> (r', snd (snd (go_write (bytes_of (''Err '' @ err_string e)) w)))
      | None \<Rightarrow> echoHTTPLoop r' (snd (snd (go_write bs w))))"
  by pat_completeness auto
termination
  by (relation "measure (\<lambda>(r, w). reader_size r)") (auto dest!: sym [of "(_, _, _)" "go_read _ _"] go_read_size)

declare echoHTTPLoop.simps [simp del]

definition EchoHTTP :: "byte list \<Rightarrow> reader \<Rightarrow> writer \<Rightarrow> reader \<times> writer" where
  "EchoHTTP line r w = echoHTTPLoop r (snd (snd (go_write line w)))"

section \<open>What is echoed\<close>

lemma echoWrite_fields [simp]:
  "er_in (echoWrite bs s) = er_in s" "er_Received (echoWrite bs s) = er_Received s" "er_first (echoWrite bs s) = er_first s"
  "er_writeClosed (echoWrite bs s) = er_writeClosed s" "er_events (echoWrite bs s) = er_events s"
  "w_next (er_out s) = [] \<Longrightarrow> w_out (er_out (echoWrite bs s)) = w_out (er_out s) @ bs \<and> w_next (er_out (echoWrite bs s)) = []"
  by (simp_all add: echoWrite_def go_write_def)

lemma echoEmit_fields [simp]:
  "er_in (echoEmit c e s) = er_in s" "er_Received (echoEmit c e s) = er_Received s" "er_first (echoEmit c e s) = er_first s"
  "er_writeClosed (echoEmit c e s) = er_writeClosed s" "er_out (echoEmit c e s) = er_out s"
  "er_events (echoEmit c e s) = er_events s @ (if c then [e] else [])"
  by (simp_all add: echoEmit_def)

lemma echoRead_spec:
  assumes "echoRead s = (bs, err, s')"
  shows "go_read 2048 (er_in s) = (bs, err, er_in s')" "er_Received s' = er_Received s + length bs"
    "er_first s' = (if bs = [] then er_first s else hd bs)" "er_out s' = er_out s" "er_writeClosed s' = er_writeClosed s"
    "er_events s' = er_events s"
  using assms by (auto simp: echoRead_def Let_def split: prod.splits)

text \<open>The stream does not ask for a graceful close: no byte is zero, and the first read is not empty.\<close>

definition noStop :: "caps \<Rightarrow> echoState \<Rightarrow> bool" where
  "noStop outC s \<longleftrightarrow> (isCloseWriter outC \<longrightarrow> 0 \<notin> set (reader_bytes (er_in s)) \<and> (er_first s \<noteq> 0 \<or> er_in s = [] \<or> fst (hd (er_in s)) \<noteq> []))"

lemma echoLoop_complete:
  assumes "plain_reader (er_in s)" "w_next (er_out s) = []" "\<not> er_writeClosed s" "noStop outC s"
  shows "let s' = echoLoop serverFirst inC outC s in
    w_out (er_out s') = w_out (er_out s) @ reader_bytes (er_in s) @ (if serverFirst then be32_bytes 0 else []) \<and>
    er_Received s' = er_Received s + length (reader_bytes (er_in s)) \<and> reader_bytes (er_in s') = []"
  using assms
proof (induction serverFirst inC outC s rule: echoLoop.induct)
  case (1 serverFirst inC outC s)
  obtain bs err s1 where rd: "echoRead s = (bs, err, s1)" by (metis prod_cases3)
  note s1 = echoRead_spec [OF rd]
  have bytes: "reader_bytes (er_in s) = bs @ reader_bytes (er_in s1)" by (rule go_read_bytes [OF s1(1)])
  have plain: "plain_reader (er_in s1)" "err \<noteq> None \<longrightarrow> bs = [] \<and> reader_bytes (er_in s) = [] \<and> reader_bytes (er_in s1) = []"
    using go_read_plain [OF "1.prems"(1) s1(1)] by auto
  show ?case
  proof (cases err)
    case (Some e)
    have "e = EOF" using s1(1) "1.prems"(1) Some by (cases "er_in s") (auto simp: plain_reader_def split: if_splits)
    with Some show ?thesis using plain "1.prems"(2) s1 by (auto simp: echoLoop.simps [of serverFirst inC outC s] rd echoEnd_def Let_def)
  next
    case None
    define s2 where "s2 = echoBytes outC bs s1"
    have first: "er_first s1 \<noteq> 0 \<or> \<not> isCloseWriter outC"
    proof (cases "bs = []")
      case True
      hence "er_in s \<noteq> [] \<and> fst (hd (er_in s)) = []" using s1(1) None by (cases "er_in s") (auto split: if_splits)
      thus ?thesis using "1.prems"(4) s1(3) True by (auto simp: noStop_def)
    next
      case False
      hence "hd bs \<in> set (reader_bytes (er_in s))" using bytes by simp
      thus ?thesis using "1.prems"(4) s1(3) False by (auto simp: noStop_def)
    qed
    have s2: "er_in s2 = er_in s1" "er_Received s2 = er_Received s1" "\<not> er_writeClosed s2" "er_first s2 = er_first s1"
      "w_out (er_out s2) = w_out (er_out s) @ bs" "w_next (er_out s2) = []"
      using first "1.prems"(2,3) s1 by (auto simp: s2_def echoBytes_def Let_def)
    have "noStop outC s2" using "1.prems"(4) first s2(1,4) bytes by (auto simp: noStop_def)
    from "1.IH" [OF rd [symmetric] refl refl None, folded s2_def] plain(1) s2 this
    have "let s' = echoLoop serverFirst inC outC s2 in
      w_out (er_out s') = w_out (er_out s2) @ reader_bytes (er_in s2) @ (if serverFirst then be32_bytes 0 else []) \<and>
      er_Received s' = er_Received s2 + length (reader_bytes (er_in s2)) \<and> reader_bytes (er_in s') = []" by simp
    moreover have "echoLoop serverFirst inC outC s = echoLoop serverFirst inC outC s2"
      by (simp add: echoLoop.simps [of serverFirst inC outC s] rd None s2_def)
    ultimately show ?thesis using s2 s1(2) bytes by (simp add: Let_def)
  qed
qed

text \<open>The echo server echoes: when the client ends its stream normally, and never sends a zero byte or starts with an
  empty read (which ask for a graceful close), every byte that was received is sent back, in order, after the greeting
  and before four zero bytes when the server talks first; \<open>Received\<close> counts them.\<close>

theorem echo_complete:
  assumes "plain_reader (fst inp)" "w_next (fst out) = []"
    and "isCloseWriter (snd out) \<Longrightarrow> 0 \<notin> set (reader_bytes (fst inp)) \<and> (fst inp = [] \<or> fst (hd (fst inp)) \<noteq> [])"
  shows "w_out (er_out (handleStreams serverFirst received inp out)) = w_out (fst out) @ (if serverFirst then helloWorld else []) @
      reader_bytes (fst inp) @ (if serverFirst then [0, 0, 0, 0] else []) \<and>
    er_Received (handleStreams serverFirst received inp out) = received + length (reader_bytes (fst inp))"
proof -
  define s where "s = (let s = \<lparr>er_in = fst inp, er_out = fst out, er_Received = received, er_first = 0, er_writeClosed = False, er_events = []\<rparr>
     in if serverFirst then echoWrite helloWorld s else s)"
  have s: "er_in s = fst inp" "er_Received s = received" "\<not> er_writeClosed s" "w_next (er_out s) = []"
    "w_out (er_out s) = w_out (fst out) @ (if serverFirst then helloWorld else [])"
    using assms(2) by (simp_all add: s_def Let_def)
  have run: "handleStreams serverFirst received inp out = echoLoop serverFirst (snd inp) (snd out) s"
    by (simp add: handleStreams_def s_def Let_def)
  have "noStop (snd out) s" using assms(3) s(1) by (simp add: noStop_def)
  from echoLoop_complete [of s "snd out" serverFirst "snd inp"] assms(1) s this
  show ?thesis unfolding run by (simp add: Let_def be32_bytes_def)
qed

theorem echo_complete_witness:
  "w_out (er_out (handleStreams True 0 ([([1, 2], None), ([3], None)], tcpCaps) (\<lparr>w_out = [], w_next = []\<rparr>, tcpCaps))) =
     helloWorld @ [1, 2, 3, 0, 0, 0, 0]"
proof -
  let ?inp = "([([1, 2], None), ([3], None)], tcpCaps) :: reader \<times> caps"
  let ?out = "(\<lparr>w_out = [], w_next = []\<rparr>, tcpCaps) :: writer \<times> caps"
  have "plain_reader (fst ?inp)" "w_next (fst ?out) = []"
    "isCloseWriter (snd ?out) \<Longrightarrow> 0 \<notin> set (reader_bytes (fst ?inp)) \<and> (fst ?inp = [] \<or> fst (hd (fst ?inp)) \<noteq> [])"
    by (simp_all add: plain_reader_def io_simps)
  from echo_complete [OF this, of True 0] show ?thesis by (simp add: io_simps)
qed

text \<open>An empty first read is taken for the request to close: the buffer starts with zeros.\<close>

lemma echo_empty_read_closes:
  "er_out (handleStreams False 0 ([([], None), ([1, 2], None)], tcpCaps) (\<lparr>w_out = [], w_next = []\<rparr>, tcpCaps)) = \<lparr>w_out = [], w_next = []\<rparr>"
  by (simp add: handleStreams_def echoLoop.simps echoRead_def echoBytes_def echoEnd_def echoEmit_def tcpCaps_def)

text \<open>\<open>EchoHTTP\<close> and \<open>handle\<close> drop the bytes of a read that also returns an error, such as the end of the body.\<close>

lemma echoHTTP_drops:
  "length bs \<le> 1024 \<Longrightarrow> w_next w = [] \<Longrightarrow>
   w_out (snd (EchoHTTP line [(bs, Some EOF)] w)) = w_out w @ line @ bytes_of (''Err '' @ err_string EOF)"
  by (simp add: EchoHTTP_def echoHTTPLoop.simps go_write_def)

lemma handle_drops: "length bs \<le> 2048 \<Longrightarrow> echo_handle info False [(bs, Some e)] w = (Some e, [], w)"
  by (simp add: echo_handle_def)

end
