(* ===== verification/Reverse.thy ===== *)
theory Reverse
  imports Go_Prelude "HOL-Library.AList"
begin

text \<open>
  Two small servers. \<^verbatim>\<open>src/pkg/h2r/h2r.go\<close>: the gateway side of reverse HTTP/2, a table of the connections on which
  requests can be sent back to a peer. Connections (\<open>http2.ClientConn\<close>) are numbers; the transport and the destination
  are parameters. \<^verbatim>\<open>src/pkg/smtpd/smtp.go\<close>: the session of a mail server, driven by \<open>go-smtp\<close>. \<open>None\<close> is a panic.
\<close>

section \<open>Reverse HTTP/2\<close>

record h2peer =
  pr_RoundTripper :: "nat option"

record h2r =
  h2_peers :: "(string \<times> h2peer) list option" \<comment> \<open>\<open>None\<close> for the nil map\<close>

definition h2r_New :: h2r where
  "h2r_New = \<lparr>h2_peers = None\<rparr>"

text \<open>\<open>RoundTripper\<close> returns the pointer as an interface: a missing peer is a nil pointer in an interface that is not nil.
  \<open>h2r_send\<close> is a use of it.\<close>

definition h2r_RoundTripper :: "string \<Rightarrow> h2r \<Rightarrow> h2peer option" where
  "h2r_RoundTripper k t = Option.bind (h2_peers t) (\<lambda>ps. map_of ps k)"

definition h2r_send :: "string \<Rightarrow> h2r \<Rightarrow> nat option" where
  "h2r_send k t = Option.bind (h2r_RoundTripper k t) pr_RoundTripper"

text \<open>\<open>ServeHTTP\<close> up to the wait and after it; \<open>cc\<close> is the connection, or \<open>None\<close> when it could not be made. The peer is
  never removed from the table, so that the pointer the handler holds is the peer of the table.\<close>

definition h2r_ServeStart :: "string \<Rightarrow> nat option \<Rightarrow> h2r \<Rightarrow> h2r option" where
  "h2r_ServeStart k cc t = (case cc of None \<Rightarrow> Some t
     | Some c \<Rightarrow> (case h2_peers t of None \<Rightarrow> None
         | Some ps \<Rightarrow> Some (t\<lparr>h2_peers := Some (AList.update k \<lparr>pr_RoundTripper = Some c\<rparr> ps)\<rparr>)))"

definition h2r_ServeEnd :: "string \<Rightarrow> nat \<Rightarrow> h2r \<Rightarrow> h2r" where
  "h2r_ServeEnd k c t = (case h2_peers t of None \<Rightarrow> t
     | Some ps \<Rightarrow> (case map_of ps k of None \<Rightarrow> t
         | Some n \<Rightarrow> if pr_RoundTripper n = Some c then t\<lparr>h2_peers := Some (AList.update k (n\<lparr>pr_RoundTripper := None\<rparr>) ps)\<rparr> else t))"

text \<open>\<open>DialMux\<close>: the request that opens the reverse direction. The result is the round tripper and the error, and whether a
  server was started on the stream.\<close>

definition h2r_DialMux :: "(string \<times> string \<Rightarrow> goerr + 'a) \<Rightarrow> string \<Rightarrow> (nat option \<times> goerr option) \<times> bool" where
  "h2r_DialMux roundTrip addr = (case roundTrip (''POST'', ''https://'' @ addr @ ''/h2r/'') of
     Inl e \<Rightarrow> ((None, Some e), False)
   | Inr res \<Rightarrow> ((None, None), True))"

text \<open>Handlers run concurrently, and the table is locked while it is changed. \<open>rv_active\<close> are the handlers that wait, with
  their connections; \<open>rv_latest\<close> is the last connection that was made for a peer; connections are numbered in order.\<close>

record reverse =
  rv_h2r :: h2r
  rv_active :: "(string \<times> nat) list"
  rv_latest :: "string \<Rightarrow> nat option"
  rv_next :: nat

inductive revStep :: "reverse \<Rightarrow> reverse \<Rightarrow> bool" where
  start: "h2r_ServeStart k (Some (rv_next s)) (rv_h2r s) = Some t \<Longrightarrow>
    revStep s (s\<lparr>rv_h2r := t, rv_active := (k, rv_next s) # rv_active s, rv_latest := (rv_latest s)(k := Some (rv_next s)), rv_next := rv_next s + 1\<rparr>)"
| failed: "h2r_ServeStart k None (rv_h2r s) = Some t \<Longrightarrow> revStep s (s\<lparr>rv_h2r := t\<rparr>)"
| stop: "(k, c) \<in> set (rv_active s) \<Longrightarrow>
    revStep s (s\<lparr>rv_h2r := h2r_ServeEnd k c (rv_h2r s), rv_active := filter (\<lambda>x. x \<noteq> (k, c)) (rv_active s)\<rparr>)"

section \<open>Mail sessions\<close>

record smtpConn =
  sc_From :: string
  sc_MailOpts :: "string option"
  sc_RcptOpts :: "string option"
  sc_To :: "string list"

definition smtp_NewSession :: smtpConn where
  "smtp_NewSession = \<lparr>sc_From = [], sc_MailOpts = None, sc_RcptOpts = None, sc_To = []\<rparr>"

definition smtp_Mail :: "string \<Rightarrow> string option \<Rightarrow> smtpConn \<Rightarrow> smtpConn" where
  "smtp_Mail from opts s = s\<lparr>sc_From := from, sc_MailOpts := opts\<rparr>"

definition smtp_Rcpt :: "string \<Rightarrow> string option \<Rightarrow> smtpConn \<Rightarrow> smtpConn" where
  "smtp_Rcpt to opts s = s\<lparr>sc_RcptOpts := opts, sc_To := sc_To s @ [to]\<rparr>"

text \<open>\<open>Data\<close> reads the message and logs it, with the sender and the recipients of the session.\<close>

definition smtp_Data :: "goerr + byte list \<Rightarrow> smtpConn \<Rightarrow> goerr option \<times> (string \<times> string list \<times> byte list) option" where
  "smtp_Data r s = (case r of Inl e \<Rightarrow> (Some e, None) | Inr b \<Rightarrow> (None, Some (sc_From s, sc_To s, b)))"

definition smtp_Reset :: "smtpConn \<Rightarrow> smtpConn" where
  "smtp_Reset s = s"

text \<open>One message of a session, as \<open>go-smtp\<close> drives it: it resets the session after the data.\<close>

definition smtp_message :: "string \<Rightarrow> string list \<Rightarrow> byte list \<Rightarrow> smtpConn \<Rightarrow> (string \<times> string list \<times> byte list) option \<times> smtpConn" where
  "smtp_message from rcpts b s =
     (let s = fold (\<lambda>to s. smtp_Rcpt to None s) rcpts (smtp_Mail from None s)
      in (snd (smtp_Data (Inr b) s), smtp_Reset s))"

section \<open>Properties\<close>

text \<open>The table of peers: what it holds for a peer is the last connection, while its handler waits.\<close>

definition revInv :: "reverse \<Rightarrow> bool" where
  "revInv s \<longleftrightarrow> h2_peers (rv_h2r s) \<noteq> None \<and> (\<forall>k c. (k, c) \<in> set (rv_active s) \<longrightarrow> c < rv_next s) \<and>
     (\<forall>k c. rv_latest s k = Some c \<longrightarrow> c < rv_next s) \<and>
     (\<forall>k c. h2r_send k (rv_h2r s) = Some c \<longleftrightarrow> rv_latest s k = Some c \<and> (k, c) \<in> set (rv_active s))"

lemma send_start:
  "h2r_ServeStart k (Some c) t = Some t' \<Longrightarrow> h2r_send j t' = (if j = k then Some c else h2r_send j t) \<and> h2_peers t' \<noteq> None"
  by (auto simp: h2r_ServeStart_def h2r_send_def h2r_RoundTripper_def update_conv' split: option.splits)

lemma send_end:
  "h2r_send j (h2r_ServeEnd k c t) = (if j = k \<and> h2r_send k t = Some c then None else h2r_send j t)"
  by (auto simp: h2r_ServeEnd_def h2r_send_def h2r_RoundTripper_def update_conv' split: option.splits)

lemma peers_end: "h2_peers (h2r_ServeEnd k c t) = None \<longleftrightarrow> h2_peers t = None"
  by (auto simp: h2r_ServeEnd_def split: option.splits)

lemma revInv_step:
  assumes "revStep s s'" "revInv s"
  shows "revInv s'"
  using assms
proof (cases rule: revStep.cases)
  case (start k t)
  note st = send_start [OF start(2)]
  have "(k, rv_next s) \<notin> set (rv_active s)" using assms(2) by (auto simp: revInv_def)
  thus ?thesis using assms(2) st unfolding start(1) revInv_def by (auto simp: less_Suc_eq)
next
  case (failed k t)
  thus ?thesis using assms(2) by (auto simp: h2r_ServeStart_def revInv_def)
next
  case (stop k c)
  show ?thesis using assms(2) unfolding stop(1) revInv_def by (auto simp: send_end peers_end)
qed

text \<open>Reverse connections: once there is a table, in every run of concurrent handlers, requests for a peer are sent on the connection that the
  peer made last, as long as that connection is open, and on none otherwise; the end of an older connection does not
  take a newer one away. No code of the repository makes the table (\<open>h2r_new_panics\<close>): this is what the handlers would keep if it were made.\<close>

theorem reverse_latest:
  assumes "revStep\<^sup>*\<^sup>* \<lparr>rv_h2r = \<lparr>h2_peers = Some []\<rparr>, rv_active = [], rv_latest = \<lambda>_. None, rv_next = 0\<rparr> s"
  shows "h2r_send k (rv_h2r s) = Some c \<longleftrightarrow> rv_latest s k = Some c \<and> (k, c) \<in> set (rv_active s)"
proof -
  have "revInv s" using assms
  proof (induction rule: rtranclp_induct)
    case base
    show ?case by (simp add: revInv_def h2r_send_def h2r_RoundTripper_def)
  qed (rule revInv_step)
  thus ?thesis by (simp add: revInv_def)
qed

theorem reverse_latest_witness:
  "h2r_send ''a'' (h2r_ServeEnd ''a'' 0 \<lparr>h2_peers = Some [(''a'', \<lparr>pr_RoundTripper = Some 1\<rparr>)]\<rparr>) = Some 1"
proof -
  define s0 where "s0 = \<lparr>rv_h2r = \<lparr>h2_peers = Some []\<rparr>, rv_active = [], rv_latest = \<lambda>_. None, rv_next = 0\<rparr>"
  define s1 where "s1 = s0\<lparr>rv_h2r := \<lparr>h2_peers = Some [(''a'', \<lparr>pr_RoundTripper = Some 0\<rparr>)]\<rparr>, rv_active := [(''a'', 0)],
    rv_latest := (rv_latest s0)(''a'' := Some 0), rv_next := 1\<rparr>"
  define s2 where "s2 = s1\<lparr>rv_h2r := \<lparr>h2_peers = Some [(''a'', \<lparr>pr_RoundTripper = Some 1\<rparr>)]\<rparr>, rv_active := [(''a'', 1), (''a'', 0)],
    rv_latest := (rv_latest s1)(''a'' := Some 1), rv_next := 2\<rparr>"
  define s3 where "s3 = s2\<lparr>rv_h2r := h2r_ServeEnd ''a'' 0 (rv_h2r s2), rv_active := [(''a'', 1)]\<rparr>"
  have "revStep s0 s1" using revStep.start [of "''a''" s0 "rv_h2r s1"] by (simp add: s0_def s1_def h2r_ServeStart_def)
  moreover have "revStep s1 s2" using revStep.start [of "''a''" s1 "rv_h2r s2"] by (simp add: s0_def s1_def s2_def h2r_ServeStart_def numeral_2_eq_2)
  moreover have "revStep s2 s3" using revStep.stop [of "''a''" 0 s2] by (simp add: s0_def s1_def s2_def s3_def)
  ultimately have "revStep\<^sup>*\<^sup>* s0 s3" by (meson r_into_rtranclp rtranclp_trans)
  from reverse_latest [OF this [unfolded s0_def], of "''a''" 1] show ?thesis
    by (simp add: s3_def s2_def s1_def)
qed

text \<open>The table is never made: the first peer panics.\<close>

lemma h2r_new_panics: "h2r_ServeStart k (Some c) h2r_New = None"
  by (simp add: h2r_ServeStart_def h2r_New_def)

text \<open>A session keeps the recipients of earlier messages: the next message is also for them.\<close>

lemma smtp_rcpts: "sc_To (fold (\<lambda>to s. smtp_Rcpt to None s) rcpts s) = sc_To s @ rcpts \<and> sc_From (fold (\<lambda>to s. smtp_Rcpt to None s) rcpts s) = sc_From s"
  by (induction rcpts arbitrary: s) (simp_all add: smtp_Rcpt_def)

lemma smtp_recipients_kept:
  "fst (smtp_message from2 r2 b2 (snd (smtp_message from1 r1 b1 smtp_NewSession))) = Some (from2, r1 @ r2, b2)"
  by (simp add: smtp_message_def smtp_Data_def smtp_Reset_def smtp_rcpts smtp_Mail_def smtp_NewSession_def Let_def)

end
