(* ===== verification/Watcher.thy ===== *)
theory Watcher
  imports Udp_Oob "HOL-Library.AList"
begin

text \<open>
  \<^verbatim>\<open>src/cmd/watcher.go\<close>: the crawler that finds all nodes of the mesh, from the neighbors of the local node on.

  \<open>fetch\<close> is the outcome of a request for the neighbors of a node: \<open>None\<close> for every error, else the decoded map in its
  order of iteration. The mesh does not change during a crawl. \<open>Path\<close> is a Go slice: an array, known by its number
  in \<open>wa_arrays\<close>, a length and a capacity; \<open>append\<close> writes into the array while there is room, and arrays are shared.
  \<open>grow\<close> is the capacity of the array that \<open>append\<close> makes for a slice of the given capacity.
\<close>

section \<open>Slices of strings\<close>

record pathSlice =
  ps_arr :: nat
  ps_len :: nat
  ps_cap :: nat

definition nilPath :: pathSlice where
  "nilPath = \<lparr>ps_arr = 0, ps_len = 0, ps_cap = 0\<rparr>"

definition pathValue :: "string list list \<Rightarrow> pathSlice \<Rightarrow> string list" where
  "pathValue arrays p = (if ps_len p = 0 then [] else take (ps_len p) (arrays ! ps_arr p))"

definition pathAppend :: "(nat \<Rightarrow> nat) \<Rightarrow> pathSlice \<Rightarrow> string \<Rightarrow> string list list \<Rightarrow> pathSlice \<times> string list list" where
  "pathAppend grow p x arrays =
     (if ps_len p < ps_cap p then (p\<lparr>ps_len := ps_len p + 1\<rparr>, arrays[ps_arr p := (arrays ! ps_arr p)[ps_len p := x]])
      else (let c = max (ps_len p + 1) (grow (ps_cap p)) in
        (\<lparr>ps_arr = length arrays, ps_len = ps_len p + 1, ps_cap = c\<rparr>,
         arrays @ [pathValue arrays p @ [x] @ replicate (c - ps_len p - 1) []])))"

section \<open>The watcher\<close>

record nodeWatcher =
  w_Node :: string
  w_Path :: pathSlice
  w_dirty :: bool
  w_ip6 :: "byte list"
  w_idhex :: string
  w_New :: bool

record watcher =
  wa_nodes :: "(u64 \<times> nodeWatcher) list option" \<comment> \<open>\<open>None\<close> for the nil map\<close>
  wa_arrays :: "string list list"

fun hexDigits :: "nat \<Rightarrow> string" where
  "hexDigits n = (if n < 16 then [''0123456789abcdef'' ! n] else hexDigits (n div 16) @ [''0123456789abcdef'' ! (n mod 16)])"

declare hexDigits.simps [simp del]

definition toIP6 :: "u64 \<Rightarrow> byte list" where
  "toIP6 k = [0xFD, 0, 0, 0, 0, 0, 0, 0] @ map (\<lambda>i. ucast (drop_bit (56 - 8 * i) k)) [0..<8]"

definition addNeighbor :: "pathSlice \<Rightarrow> u64 \<times> string \<Rightarrow> (u64 \<times> nodeWatcher) list \<Rightarrow> (u64 \<times> nodeWatcher) list" where
  "addNeighbor path x ns = (case x of (k, v) \<Rightarrow>
     if map_of ns k = None
     then ns @ [(k, \<lparr>w_Node = v, w_Path = path, w_dirty = True, w_ip6 = toIP6 k, w_idhex = hexDigits (unat k), w_New = True\<rparr>)]
     else ns)"

definition neighbors :: "(string \<Rightarrow> (u64 \<times> string) list option) \<Rightarrow> string \<Rightarrow> pathSlice \<Rightarrow> watcher
    \<Rightarrow> (u64 \<times> string) list option \<times> watcher" where
  "neighbors fetch url path wa = (case fetch url of
     None \<Rightarrow> (None, wa)
   | Some conn \<Rightarrow> (Some conn, case wa_nodes wa of None \<Rightarrow> wa
       | Some ns \<Rightarrow> wa\<lparr>wa_nodes := Some (fold (addNeighbor path) conn ns)\<rparr>))"

definition localUrl :: string where
  "localUrl = ''http://127.0.0.1:5227/dmesh/ip6''"

text \<open>\<open>ipText\<close> is \<open>IPAddr.String\<close>, which has colons here, so that \<open>JoinHostPort\<close> adds brackets.\<close>

definition nodeUrl :: "(byte list \<Rightarrow> string) \<Rightarrow> byte list \<Rightarrow> string" where
  "nodeUrl ipText ip = ''http://'' @ (if CHR '':'' \<in> set (ipText ip) then ''['' @ ipText ip @ '']'' else ipText ip) @ '':5227/dmesh/ip6''"

text \<open>The start of \<open>crawl\<close>, and the visit of a dirty node in its loop.\<close>

definition crawlStart :: "(string \<Rightarrow> (u64 \<times> string) list option) \<Rightarrow> watcher \<Rightarrow> watcher" where
  "crawlStart fetch wa = snd (neighbors fetch localUrl nilPath
     (wa\<lparr>wa_nodes := map_option (map (\<lambda>(k, v). (k, v\<lparr>w_dirty := True, w_New := False\<rparr>))) (wa_nodes wa)\<rparr>))"

definition crawlVisit :: "(byte list \<Rightarrow> string) \<Rightarrow> (nat \<Rightarrow> nat) \<Rightarrow> (string \<Rightarrow> (u64 \<times> string) list option) \<Rightarrow> u64 \<Rightarrow> nodeWatcher
    \<Rightarrow> watcher \<Rightarrow> watcher" where
  "crawlVisit ipText grow fetch k v wa =
     (let (path, arrays) = pathAppend grow (w_Path v) (w_idhex v) (wa_arrays wa);
          wa = snd (neighbors fetch (nodeUrl ipText (w_ip6 v)) path (wa\<lparr>wa_arrays := arrays\<rparr>))
      in wa\<lparr>wa_nodes := map_option (map (\<lambda>(j, w). (j, if j = k then w\<lparr>w_dirty := False\<rparr> else w))) (wa_nodes wa)\<rparr>)"

text \<open>The nested loops: Go ranges over the map in any order, and may or may not reach nodes that are added meanwhile; the outer
  loop repeats until no node is dirty. So any dirty node may be next.\<close>

inductive crawlStep :: "(byte list \<Rightarrow> string) \<Rightarrow> (nat \<Rightarrow> nat) \<Rightarrow> (string \<Rightarrow> (u64 \<times> string) list option) \<Rightarrow> watcher \<Rightarrow> watcher \<Rightarrow> bool"
  for ipText grow fetch where
  visit: "wa_nodes wa = Some ns \<Longrightarrow> map_of ns k = Some v \<Longrightarrow> w_dirty v \<Longrightarrow> crawlStep ipText grow fetch wa (crawlVisit ipText grow fetch k v wa)"

section \<open>Keys\<close>

definition keys :: "watcher \<Rightarrow> u64 set" where
  "keys wa = (case wa_nodes wa of None \<Rightarrow> {} | Some ns \<Rightarrow> fst ` set ns)"

definition nodeAt :: "watcher \<Rightarrow> u64 \<Rightarrow> nodeWatcher option" where
  "nodeAt wa k = Option.bind (wa_nodes wa) (\<lambda>ns. map_of ns k)"

definition clean :: "watcher \<Rightarrow> u64 set" where
  "clean wa = {k. \<exists>v. nodeAt wa k = Some v \<and> \<not> w_dirty v}"

lemma keys_nodeAt: "k \<in> keys wa \<longleftrightarrow> nodeAt wa k \<noteq> None"
  by (cases "wa_nodes wa") (simp_all add: keys_def nodeAt_def map_of_eq_None_iff)

lemma map_of_addNeighbor:
  "map_of (addNeighbor path x ns) k = (case map_of ns k of Some v \<Rightarrow> Some v
     | None \<Rightarrow> if k = fst x then Some \<lparr>w_Node = snd x, w_Path = path, w_dirty = True, w_ip6 = toIP6 k, w_idhex = hexDigits (unat k), w_New = True\<rparr> else None)"
  by (auto simp: addNeighbor_def map_add_def split: prod.splits option.splits)

lemma map_of_addNeighbors:
  "map_of (fold (addNeighbor path) conn ns) k = (case map_of ns k of Some v \<Rightarrow> Some v
     | None \<Rightarrow> map_option (\<lambda>v. \<lparr>w_Node = v, w_Path = path, w_dirty = True, w_ip6 = toIP6 k, w_idhex = hexDigits (unat k), w_New = True\<rparr>) (map_of conn k))"
  by (induction conn arbitrary: ns) (auto simp: map_of_addNeighbor split: option.splits prod.splits)

text \<open>What a request adds: the neighbors that were not known, dirty and new.\<close>

lemma nodeAt_neighbors:
  assumes "wa_nodes wa \<noteq> None"
  shows "nodeAt (snd (neighbors fetch url path wa)) k = (case nodeAt wa k of Some v \<Rightarrow> Some v
     | None \<Rightarrow> Option.bind (fetch url) (\<lambda>conn. map_option (\<lambda>v. \<lparr>w_Node = v, w_Path = path, w_dirty = True, w_ip6 = toIP6 k,
         w_idhex = hexDigits (unat k), w_New = True\<rparr>) (map_of conn k)))"
    and "wa_nodes (snd (neighbors fetch url path wa)) \<noteq> None"
  using assms by (auto simp: neighbors_def nodeAt_def map_of_addNeighbors split: option.splits)

lemma nodeAt_map:
  "nodeAt (wa\<lparr>wa_nodes := map_option (map (\<lambda>(j, w). (j, f j w))) (wa_nodes wa)\<rparr>) k = map_option (f k) (nodeAt wa k)"
proof -
  have "map_of (map (\<lambda>(j, w). (j, f j w)) ns) k = map_option (f k) (map_of ns k)" for ns :: "(u64 \<times> nodeWatcher) list"
    by (induction ns) auto
  thus ?thesis by (cases "wa_nodes wa") (simp_all add: nodeAt_def)
qed

section \<open>The crawl\<close>

definition adj :: "(byte list \<Rightarrow> string) \<Rightarrow> (string \<Rightarrow> (u64 \<times> string) list option) \<Rightarrow> u64 \<Rightarrow> u64 set" where
  "adj ipText fetch k = (case fetch (nodeUrl ipText (toIP6 k)) of None \<Rightarrow> {} | Some conn \<Rightarrow> fst ` set conn)"

definition roots :: "(string \<Rightarrow> (u64 \<times> string) list option) \<Rightarrow> u64 set" where
  "roots fetch = (case fetch localUrl of None \<Rightarrow> {} | Some conn \<Rightarrow> fst ` set conn)"

definition meshReach :: "(byte list \<Rightarrow> string) \<Rightarrow> (string \<Rightarrow> (u64 \<times> string) list option) \<Rightarrow> u64 set \<Rightarrow> u64 set" where
  "meshReach ipText fetch K = {k. \<exists>r \<in> K. (\<lambda>a b. b \<in> adj ipText fetch a)\<^sup>*\<^sup>* r k}"

definition crawlInv :: "(byte list \<Rightarrow> string) \<Rightarrow> (string \<Rightarrow> (u64 \<times> string) list option) \<Rightarrow> u64 set \<Rightarrow> watcher \<Rightarrow> bool" where
  "crawlInv ipText fetch K wa \<longleftrightarrow> wa_nodes wa \<noteq> None \<and> K \<union> roots fetch \<subseteq> keys wa \<and>
     (\<forall>k v. nodeAt wa k = Some v \<longrightarrow> w_ip6 v = toIP6 k \<and> (w_New v \<longleftrightarrow> k \<notin> K) \<and> k \<in> meshReach ipText fetch (K \<union> roots fetch) \<and>
        (\<not> w_dirty v \<longrightarrow> adj ipText fetch k \<subseteq> keys wa))"

lemma nodeAt_visit:
  assumes "nodeAt wa k = Some v" "w_ip6 v = toIP6 k"
  obtains path where
    "\<And>j. nodeAt (crawlVisit ipText grow fetch k v wa) j = (if j = k then Some (v\<lparr>w_dirty := False\<rparr>) else case nodeAt wa j of Some w \<Rightarrow> Some w
      | None \<Rightarrow> Option.bind (fetch (nodeUrl ipText (toIP6 k))) (\<lambda>conn. map_option (\<lambda>x. \<lparr>w_Node = x, w_Path = path, w_dirty = True,
          w_ip6 = toIP6 j, w_idhex = hexDigits (unat j), w_New = True\<rparr>) (map_of conn j)))"
    "wa_nodes (crawlVisit ipText grow fetch k v wa) \<noteq> None"
proof -
  obtain path arrays where pa: "pathAppend grow (w_Path v) (w_idhex v) (wa_arrays wa) = (path, arrays)" by fastforce
  define wa1 where "wa1 = wa\<lparr>wa_arrays := arrays\<rparr>"
  have n1: "wa_nodes wa1 \<noteq> None" "\<And>j. nodeAt wa1 j = nodeAt wa j" using assms(1) by (auto simp: wa1_def nodeAt_def split: bind_splits)
  define wa2 where "wa2 = snd (neighbors fetch (nodeUrl ipText (toIP6 k)) path wa1)"
  note n2 = nodeAt_neighbors [OF n1(1), of fetch "nodeUrl ipText (toIP6 k)" path, folded wa2_def]
  have visit: "crawlVisit ipText grow fetch k v wa = wa2\<lparr>wa_nodes := map_option (map (\<lambda>(j, w). (j, if j = k then w\<lparr>w_dirty := False\<rparr> else w))) (wa_nodes wa2)\<rparr>"
    by (simp add: crawlVisit_def pa assms(2) wa2_def wa1_def Let_def)
  show ?thesis
  proof (rule that [of path])
    show "wa_nodes (crawlVisit ipText grow fetch k v wa) \<noteq> None" using n2(2) by (simp add: visit)
    show "nodeAt (crawlVisit ipText grow fetch k v wa) j = (if j = k then Some (v\<lparr>w_dirty := False\<rparr>) else case nodeAt wa j of Some w \<Rightarrow> Some w
      | None \<Rightarrow> Option.bind (fetch (nodeUrl ipText (toIP6 k))) (\<lambda>conn. map_option (\<lambda>x. \<lparr>w_Node = x, w_Path = path, w_dirty = True,
          w_ip6 = toIP6 j, w_idhex = hexDigits (unat j), w_New = True\<rparr>) (map_of conn j)))" for j
      unfolding visit nodeAt_map [where f = "\<lambda>j w. if j = k then w\<lparr>w_dirty := False\<rparr> else w"] n2(1) n1(2)
      using assms(1) by (auto simp: option.map_comp o_def split: option.splits bind_splits)
  qed
qed

lemma reach_step: "k \<in> meshReach ipText fetch K \<Longrightarrow> j \<in> adj ipText fetch k \<Longrightarrow> j \<in> meshReach ipText fetch K"
  unfolding meshReach_def by (auto intro: rtranclp.rtrancl_into_rtrancl)

lemma crawlInv_visit:
  assumes inv: "crawlInv ipText fetch K wa" and k: "nodeAt wa k = Some v"
  shows "crawlInv ipText fetch K (crawlVisit ipText grow fetch k v wa)"
proof -
  have v: "w_ip6 v = toIP6 k" "w_New v \<longleftrightarrow> k \<notin> K" "k \<in> meshReach ipText fetch (K \<union> roots fetch)"
    using inv k by (auto simp: crawlInv_def)
  define wa' where "wa' = crawlVisit ipText grow fetch k v wa"
  obtain path where n: "\<And>j. nodeAt wa' j = (if j = k then Some (v\<lparr>w_dirty := False\<rparr>) else case nodeAt wa j of Some w \<Rightarrow> Some w
      | None \<Rightarrow> Option.bind (fetch (nodeUrl ipText (toIP6 k))) (\<lambda>conn. map_option (\<lambda>x. \<lparr>w_Node = x, w_Path = path, w_dirty = True,
          w_ip6 = toIP6 j, w_idhex = hexDigits (unat j), w_New = True\<rparr>) (map_of conn j)))"
    and ne: "wa_nodes wa' \<noteq> None"
    unfolding wa'_def using nodeAt_visit [OF k v(1), of ipText grow fetch] by metis
  have mono: "keys wa \<subseteq> keys wa'" using n k by (auto simp: keys_nodeAt split: option.splits)
  have closed: "adj ipText fetch k \<subseteq> keys wa'"
  proof
    fix j
    assume "j \<in> adj ipText fetch k"
    then obtain conn where "fetch (nodeUrl ipText (toIP6 k)) = Some conn" "j \<in> fst ` set conn"
      by (auto simp: adj_def split: option.splits)
    moreover from this have "map_of conn j \<noteq> None" by (simp add: map_of_eq_None_iff)
    ultimately show "j \<in> keys wa'" using n [of j] by (auto simp: keys_nodeAt split: option.splits)
  qed
  have "w_ip6 w = toIP6 j \<and> (w_New w \<longleftrightarrow> j \<notin> K) \<and> j \<in> meshReach ipText fetch (K \<union> roots fetch) \<and> (\<not> w_dirty w \<longrightarrow> adj ipText fetch j \<subseteq> keys wa')"
    if j: "nodeAt wa' j = Some w" for j w
  proof (cases "j = k")
    case True
    thus ?thesis using j n [of k] v closed by auto
  next
    case False
    show ?thesis
    proof (cases "nodeAt wa j")
      case (Some u)
      hence "w = u" using j n [of j] False by simp
      thus ?thesis using inv Some mono unfolding crawlInv_def by blast
    next
      case None
      then obtain conn x where c: "fetch (nodeUrl ipText (toIP6 k)) = Some conn" "map_of conn j = Some x" and w: "w = \<lparr>w_Node = x, w_Path = path, w_dirty = True,
          w_ip6 = toIP6 j, w_idhex = hexDigits (unat j), w_New = True\<rparr>"
        using j n [of j] False by (auto split: bind_splits)
      have "j \<in> adj ipText fetch k" using c by (auto simp: adj_def dest: map_of_SomeD intro: rev_image_eqI)
      moreover have "j \<notin> K" using None inv by (auto simp: crawlInv_def keys_nodeAt)
      ultimately show ?thesis using w reach_step [OF v(3)] by simp
    qed
  qed
  thus ?thesis using inv ne mono unfolding crawlInv_def wa'_def [symmetric] by blast
qed

text \<open>Every visit makes one more node clean.\<close>

lemma clean_visit:
  assumes "nodeAt wa k = Some v" "w_dirty v" "w_ip6 v = toIP6 k"
  shows "clean (crawlVisit ipText grow fetch k v wa) = insert k (clean wa)" "k \<notin> clean wa"
proof -
  show "k \<notin> clean wa" using assms by (simp add: clean_def)
  show "clean (crawlVisit ipText grow fetch k v wa) = insert k (clean wa)"
    by (rule nodeAt_visit [OF assms(1,3), of ipText grow fetch])
      (auto simp: clean_def split: option.splits bind_splits if_splits)
qed

lemma crawlInv_start:
  assumes "wa_nodes wa \<noteq> None" "\<forall>k v. nodeAt wa k = Some v \<longrightarrow> w_ip6 v = toIP6 k"
  shows "crawlInv ipText fetch (keys wa) (crawlStart fetch wa)"
proof -
  define wa1 where "wa1 = wa\<lparr>wa_nodes := map_option (map (\<lambda>(k, v). (k, v\<lparr>w_dirty := True, w_New := False\<rparr>))) (wa_nodes wa)\<rparr>"
  have n1: "wa_nodes wa1 \<noteq> None" "\<And>k. nodeAt wa1 k = map_option (\<lambda>v. v\<lparr>w_dirty := True, w_New := False\<rparr>) (nodeAt wa k)"
    using assms(1) nodeAt_map [where f = "\<lambda>_ v. v\<lparr>w_dirty := True, w_New := False\<rparr>"] by (auto simp: wa1_def)
  define wa2 where "wa2 = crawlStart fetch wa"
  note n2 = nodeAt_neighbors [OF n1(1), of fetch localUrl nilPath, folded crawlStart_def [of fetch wa, folded wa1_def], folded wa2_def]
  have sub: "keys wa \<subseteq> keys wa2" by (auto simp: keys_nodeAt n2(1) n1(2) split: option.splits)
  have root: "roots fetch \<subseteq> keys wa2"
    by (auto simp: keys_nodeAt n2(1) roots_def map_of_eq_None_iff dest: weak_map_of_SomeI split: option.splits bind_splits)
  have "w_ip6 v = toIP6 k \<and> (w_New v \<longleftrightarrow> k \<notin> keys wa) \<and> k \<in> meshReach ipText fetch (keys wa \<union> roots fetch) \<and> w_dirty v"
    if k: "nodeAt wa2 k = Some v" for k v
  proof (cases "nodeAt wa k")
    case (Some u)
    hence "v = u\<lparr>w_dirty := True, w_New := False\<rparr>" "k \<in> keys wa" using k by (auto simp: n2(1) n1(2) keys_nodeAt)
    thus ?thesis using Some assms(2) by (auto simp: meshReach_def)
  next
    case None
    then obtain conn x where c: "fetch localUrl = Some conn" "map_of conn k = Some x" and v: "v = \<lparr>w_Node = x, w_Path = nilPath, w_dirty = True, w_ip6 = toIP6 k,
         w_idhex = hexDigits (unat k), w_New = True\<rparr>"
      using k by (auto simp: n2(1) n1(2) split: bind_splits)
    have "k \<in> roots fetch" using c by (auto simp: roots_def dest: map_of_SomeD intro: rev_image_eqI)
    thus ?thesis using None v by (auto simp: meshReach_def keys_nodeAt)
  qed
  thus ?thesis using n2(2) sub root unfolding crawlInv_def wa2_def [symmetric] by blast
qed

lemma crawlInv_step: "crawlStep ipText grow fetch wa wa' \<Longrightarrow> crawlInv ipText fetch K wa \<Longrightarrow>
    crawlInv ipText fetch K wa' \<and> (\<exists>k. k \<notin> clean wa \<and> clean wa' = insert k (clean wa))"
proof (induction rule: crawlStep.induct)
  case (visit wa ns k v)
  have k: "nodeAt wa k = Some v" using visit by (simp add: nodeAt_def)
  moreover have "w_ip6 v = toIP6 k" using visit k by (simp add: crawlInv_def)
  ultimately show ?case using crawlInv_visit [OF visit.prems k] clean_visit [OF k visit.hyps(3)] by blast
qed

lemma crawl_runs:
  assumes "(crawlStep ipText grow fetch ^^ n) wa wa'" "crawlInv ipText fetch K wa"
  shows "crawlInv ipText fetch K wa' \<and> card (clean wa') = card (clean wa) + n"
  using assms(1)
proof (induction n arbitrary: wa')
  case (Suc n)
  then obtain wa1 where w: "(crawlStep ipText grow fetch ^^ n) wa wa1" "crawlStep ipText grow fetch wa1 wa'" by auto
  have "crawlInv ipText fetch K wa1" and card: "card (clean wa1) = card (clean wa) + n" using Suc.IH [OF w(1)] by auto
  from crawlInv_step [OF w(2) this(1)] obtain k where "crawlInv ipText fetch K wa'" "k \<notin> clean wa1" "clean wa' = insert k (clean wa1)" by blast
  thus ?case using card by simp
qed (use assms(2) in auto)

lemma crawl_closed:
  assumes "crawlInv ipText fetch K wa" "\<forall>k v. nodeAt wa k = Some v \<longrightarrow> \<not> w_dirty v"
  shows "keys wa = meshReach ipText fetch (K \<union> roots fetch)"
proof
  show "keys wa \<subseteq> meshReach ipText fetch (K \<union> roots fetch)" using assms(1) by (auto simp: crawlInv_def keys_nodeAt)
  have closed: "adj ipText fetch k \<subseteq> keys wa" if "k \<in> keys wa" for k
    using assms that unfolding crawlInv_def keys_nodeAt by blast
  have "k \<in> keys wa" if "(\<lambda>a b. b \<in> adj ipText fetch a)\<^sup>*\<^sup>* r k" "r \<in> keys wa" for r k
    using that(1)
  proof (induction rule: rtranclp_induct)
    case (step a b)
    thus ?case using closed by blast
  qed (use that(2) in simp)
  thus "meshReach ipText fetch (K \<union> roots fetch) \<subseteq> keys wa"
    using assms(1) unfolding crawlInv_def meshReach_def by blast
qed

lemma card_u64: "card (S :: u64 set) \<le> 2 ^ 64"
  using card_mono [of UNIV S] by (simp add: card_word)

text \<open>C38: The crawl finds the mesh: in whatever order the dirty nodes are visited, the loop ends, after at most one visit of each
  node, and cannot stop early; when it ends, the nodes that are known are exactly those that can be reached from the
  neighbors of this node and the nodes known before, and the ones marked as new are those that were not known before.\<close>

theorem crawl_complete:
  assumes "wa_nodes wa \<noteq> None" "\<forall>k v. nodeAt wa k = Some v \<longrightarrow> w_ip6 v = toIP6 k"
    and "(crawlStep ipText grow fetch ^^ n) (crawlStart fetch wa) wa'"
  shows "n \<le> card (keys wa') \<and> n \<le> 2 ^ 64 \<and>
    ((\<exists>wa''. crawlStep ipText grow fetch wa' wa'') \<or>
     keys wa' = meshReach ipText fetch (keys wa \<union> roots fetch) \<and> (\<forall>k v. nodeAt wa' k = Some v \<longrightarrow> (w_New v \<longleftrightarrow> k \<notin> keys wa)))"
proof -
  have inv: "crawlInv ipText fetch (keys wa) wa'" and card: "n \<le> card (clean wa')"
    using crawl_runs [OF assms(3) crawlInv_start [OF assms(1,2)]] by auto
  have "clean wa' \<subseteq> keys wa'" by (auto simp: clean_def keys_nodeAt)
  hence n: "n \<le> card (keys wa')" using card card_mono [of "keys wa'" "clean wa'"] by simp
  have n64: "n \<le> 2 ^ 64" using n card_u64 [of "keys wa'"] by linarith
  show ?thesis
  proof (cases "\<exists>k v. nodeAt wa' k = Some v \<and> w_dirty v")
    case True
    then obtain ns k v where "wa_nodes wa' = Some ns" "map_of ns k = Some v" "w_dirty v" by (auto simp: nodeAt_def split: bind_splits)
    thus ?thesis using n n64 crawlStep.visit by blast
  next
    case False
    thus ?thesis using n n64 crawl_closed [OF inv] inv by (auto simp: crawlInv_def)
  qed
qed

theorem crawl_complete_witness:
  "\<exists>wa'. crawlStep (\<lambda>ip. ''::'') (\<lambda>n. 2 * n) (\<lambda>url. if url = localUrl then Some [(7, ''a'')] else None)
       (crawlStart (\<lambda>url. if url = localUrl then Some [(7, ''a'')] else None) \<lparr>wa_nodes = Some [], wa_arrays = []\<rparr>) wa' \<and> 7 \<in> keys wa' \<and>
     keys wa' = meshReach (\<lambda>ip. ''::'') (\<lambda>url. if url = localUrl then Some [(7, ''a'')] else None) {7}"
proof -
  define fetch :: "string \<Rightarrow> (u64 \<times> string) list option" where "fetch = (\<lambda>url. if url = localUrl then Some [(7, ''a'')] else None)"
  define wa where "wa = \<lparr>wa_nodes = Some [], wa_arrays = []\<rparr>"
  define v where "v = \<lparr>w_Node = ''a'', w_Path = nilPath, w_dirty = True, w_ip6 = toIP6 7, w_idhex = hexDigits (unat (7 :: u64)), w_New = True\<rparr>"
  have start: "crawlStart fetch wa = \<lparr>wa_nodes = Some [(7, v)], wa_arrays = []\<rparr>"
    by (simp add: crawlStart_def neighbors_def fetch_def wa_def addNeighbor_def v_def)
  have other: "nodeUrl (\<lambda>ip. ''::'') ip \<noteq> localUrl" for ip by (simp add: nodeUrl_def localUrl_def)
  define wa' where "wa' = crawlVisit (\<lambda>ip. ''::'') (\<lambda>n. 2 * n) fetch 7 v (crawlStart fetch wa)"
  have step: "crawlStep (\<lambda>ip. ''::'') (\<lambda>n. 2 * n) fetch (crawlStart fetch wa) wa'"
    unfolding wa'_def by (rule crawlStep.visit [where ns = "[(7, v)]"]) (simp_all add: start v_def)
  have nodes: "wa_nodes wa' = Some [(7, v\<lparr>w_dirty := False\<rparr>)]"
  proof -
    have "fetch (nodeUrl (\<lambda>ip. ''::'') ip) = None" for ip using other by (simp add: fetch_def)
    thus ?thesis unfolding wa'_def start crawlVisit_def neighbors_def by (simp split: prod.splits)
  qed
  have fin: "\<not> (\<exists>wa''. crawlStep (\<lambda>ip. ''::'') (\<lambda>n. 2 * n) fetch wa' wa'')"
    using nodes by (auto elim!: crawlStep.cases split: if_splits)
  have "(crawlStep (\<lambda>ip. ''::'') (\<lambda>n. 2 * n) fetch ^^ 1) (crawlStart fetch wa) wa'" using step by auto
  from crawl_complete [OF _ _ this] fin have "keys wa' = meshReach (\<lambda>ip. ''::'') fetch (keys wa \<union> roots fetch)"
    by (simp add: wa_def nodeAt_def)
  moreover have "keys wa \<union> roots fetch = {7}" by (simp add: wa_def keys_def roots_def fetch_def)
  ultimately have "keys wa' = meshReach (\<lambda>ip. ''::'') fetch {7}" by simp
  moreover have "7 \<in> keys wa'" using nodes by (simp add: keys_def)
  ultimately show ?thesis using step unfolding fetch_def wa_def by blast
qed

text \<open>Paths are not what they should be: when two nodes share a path that has room in its array, which is so from the third hop
  on, the path that is made for the second one overwrites the one that was made for the first.\<close>

lemma path_overwritten:
  assumes "ps_len p < ps_cap p" "ps_arr p < length arrays" "length (arrays ! ps_arr p) = ps_cap p"
    and "pathAppend grow p x arrays = (p1, arrays1)" "pathAppend grow p y arrays1 = (p2, arrays2)"
  shows "pathValue arrays2 p1 = pathValue arrays p @ [y]"
proof -
  have len: "length (take (ps_len p) (arrays ! ps_arr p)) = ps_len p" using assms(1,3) by simp
  have "take (Suc (ps_len p)) ((arrays ! ps_arr p)[ps_len p := y]) = take (ps_len p) (arrays ! ps_arr p) @ [y]"
    using assms(1,3) by (simp add: take_Suc_conv_app_nth)
  thus ?thesis using assms len by (auto simp: pathAppend_def pathValue_def)
qed

end
