(* ===== verification/Quiche.thy ===== *)
theory Quiche
  imports Go_Prelude "HOL-Library.AList"
begin

text \<open>
  \<^verbatim>\<open>src/pkg/ext/cfquiche/quiche.go\<close>: a QUIC client and a QUIC server over the \<open>quiche\<close> library. The server demultiplexes
  datagrams by the destination connection id, and accepts a new connection only after a stateless retry: the client must
  come back, from the same address, with the token that the server sent there.

  The library is the record \<open>quicheLib\<close>: its connections are values of a type \<open>'q\<close>, and each call gives the connection
  after it. An address is known by its text (\<open>addr.String()\<close>). A socket logs the datagrams that it accepted and has the
  outcomes of its next writes; what it receives is a list of events. The table of connections is an association list in its
  order of iteration; its key is the text of the connection id. \<open>None\<close> is a call that never returns.
\<close>

section \<open>The library and the data\<close>

datatype quicheErr = ErrDone | QErr string | NetErr goerr

record qHeader =
  h_Version :: u32
  h_SCID :: "byte list"
  h_DCID :: "byte list"
  h_Token :: "byte list"

record 'q quicheLib =
  q_ProtocolVersion :: u32
  q_MaxConnIDLen :: nat
  q_HeaderInfo :: "nat \<Rightarrow> nat \<Rightarrow> byte list \<Rightarrow> quicheErr + qHeader" \<comment> \<open>capacities of the ids and of the token, packet\<close>
  q_NegotiateVersion :: "byte list \<Rightarrow> byte list \<Rightarrow> nat \<Rightarrow> quicheErr + byte list" \<comment> \<open>scid, dcid, room\<close>
  q_Retry :: "byte list \<Rightarrow> byte list \<Rightarrow> byte list \<Rightarrow> byte list \<Rightarrow> nat \<Rightarrow> quicheErr + byte list"
  q_Accept :: "byte list \<Rightarrow> byte list \<Rightarrow> 'q"
  q_Connect :: "string \<Rightarrow> byte list \<Rightarrow> 'q"
  q_Recv :: "byte list \<Rightarrow> 'q \<Rightarrow> quicheErr option \<times> 'q"
  q_Send :: "nat \<Rightarrow> 'q \<Rightarrow> (quicheErr + byte list) \<times> 'q"
  q_Close :: "bool \<Rightarrow> nat \<Rightarrow> byte list \<Rightarrow> 'q \<Rightarrow> 'q"
  q_IsClosed :: "'q \<Rightarrow> bool"
  q_IsEstablished :: "'q \<Rightarrow> bool"
  q_Timeout :: "'q \<Rightarrow> int"
  q_OnTimeout :: "'q \<Rightarrow> 'q"
  q_ReadableNext :: "'q \<Rightarrow> nat option \<times> 'q"
  q_StreamRecv :: "nat \<Rightarrow> nat \<Rightarrow> 'q \<Rightarrow> (quicheErr + byte list \<times> bool) \<times> 'q"
  q_StreamSend :: "nat \<Rightarrow> byte list \<Rightarrow> bool \<Rightarrow> 'q \<Rightarrow> quicheErr option \<times> 'q"

definition maxDatagramSize :: nat where "maxDatagramSize = 1232"
definition bufferSize :: nat where "bufferSize = 2048"
definition httpRequestStreamID :: nat where "httpRequestStreamID = 4"
definition maxTokenLen :: nat where "maxTokenLen = 64"

text \<open>The socket: datagrams written, with their destination, and the outcomes of the next writes (none left: success).\<close>

record qsocket =
  so_sent :: "(string \<times> byte list) list"
  so_outs :: "goerr option list"

definition sockWrite :: "byte list \<Rightarrow> string \<Rightarrow> qsocket \<Rightarrow> goerr option \<times> qsocket" where
  "sockWrite bs addr so = (case so_outs so of
     Some e # r \<Rightarrow> (Some e, so\<lparr>so_outs := r\<rparr>)
   | _ \<Rightarrow> (None, so\<lparr>so_sent := so_sent so @ [(addr, bs)], so_outs := tl (so_outs so)\<rparr>))"

record 'q serverConn =
  sc_addr :: string
  sc_conn :: 'q

text \<open>The server; \<open>sv_rand\<close> gives the results of \<open>newConnID\<close>, of which \<open>sv_used\<close> are used up. \<open>sv_deadline\<close> is the read
  deadline of the socket, from now (\<open>None\<close>: the zero time, for no deadline).\<close>

record 'q server =
  sv_socket :: qsocket
  sv_conns :: "(byte list \<times> 'q serverConn) list"
  sv_noRetry :: bool
  sv_rand :: "nat \<Rightarrow> byte list"
  sv_used :: nat
  sv_deadline :: "int option"

definition newConnID :: "'q server \<Rightarrow> byte list \<times> 'q server" where
  "newConnID s = (sv_rand s (sv_used s), s\<lparr>sv_used := sv_used s + 1\<rparr>)"

text \<open>\<open>hostname\<close>: the text before the last colon.\<close>

definition quicheHostname :: "string \<Rightarrow> string" where
  "quicheHostname addr = (if CHR '':'' \<in> set addr then rev (tl (dropWhile (\<lambda>c. c \<noteq> CHR '':'') (rev addr))) else addr)"

section \<open>Tokens\<close>

definition mintToken :: "string \<Rightarrow> qHeader \<Rightarrow> byte list" where
  "mintToken addr h = bytes_of ''quiche'' @ bytes_of addr @ h_DCID h"

definition validateToken :: "string \<Rightarrow> byte list \<Rightarrow> byte list" where
  "validateToken addr token =
     (if length token < 6 \<or> take 6 token \<noteq> bytes_of ''quiche'' then []
      else let token = drop 6 token in
        if length token < length addr \<or> take (length addr) token \<noteq> bytes_of addr then []
        else drop (length addr) token)"

section \<open>The server\<close>

definition server_headerInfo :: "'q quicheLib \<Rightarrow> byte list \<Rightarrow> quicheErr + qHeader" where
  "server_headerInfo lib buf = q_HeaderInfo lib (q_MaxConnIDLen lib) maxTokenLen buf"

text \<open>Both replies are built in the buffer of the packet, within its length.\<close>

definition server_negotiate :: "'q quicheLib \<Rightarrow> string \<Rightarrow> qHeader \<Rightarrow> byte list \<Rightarrow> 'q server \<Rightarrow> quicheErr option \<times> 'q server" where
  "server_negotiate lib addr h buf s = (case q_NegotiateVersion lib (h_SCID h) (h_DCID h) (length buf) of
     Inl e \<Rightarrow> (Some e, s)
   | Inr bs \<Rightarrow> let (e, so) = sockWrite bs addr (sv_socket s) in (map_option NetErr e, s\<lparr>sv_socket := so\<rparr>))"

definition server_retry :: "'q quicheLib \<Rightarrow> string \<Rightarrow> qHeader \<Rightarrow> byte list \<Rightarrow> byte list \<Rightarrow> 'q server \<Rightarrow> quicheErr option \<times> 'q server" where
  "server_retry lib addr h scid buf s = (case q_Retry lib (h_SCID h) (h_DCID h) scid (mintToken addr h) (length buf) of
     Inl e \<Rightarrow> (Some e, s)
   | Inr bs \<Rightarrow> let (e, so) = sockWrite bs addr (sv_socket s) in (map_option NetErr e, s\<lparr>sv_socket := so\<rparr>))"

text \<open>\<open>recvStream\<close> answers on each readable stream; a stream whose \<open>StreamRecv\<close> fails is passed over.\<close>

partial_function (option) server_recvStream :: "'q quicheLib \<Rightarrow> nat \<Rightarrow> 'q \<Rightarrow> 'q option" where
  "server_recvStream lib room q = (case q_ReadableNext lib q of
     (None, q) \<Rightarrow> Some q
   | (Some i, q) \<Rightarrow> (case q_StreamRecv lib i room q of
       (Inl _, q) \<Rightarrow> server_recvStream lib room q
     | (Inr _, q) \<Rightarrow> (case q_StreamSend lib i (bytes_of ''Not Found'') True q of
         (None, q) \<Rightarrow> server_recvStream lib room q
       | (Some _, q) \<Rightarrow> server_recvStream lib room (q_Close lib False 1 (bytes_of ''fail'') q))))"

text \<open>The second half of \<open>recv\<close>: the packet is for the connection \<open>c\<close>, which the table has at \<open>key\<close>.\<close>

definition putConn :: "byte list \<Rightarrow> string \<Rightarrow> 'q \<Rightarrow> 'q server \<Rightarrow> 'q server" where
  "putConn key addr q s = s\<lparr>sv_conns := AList.update key \<lparr>sc_addr = addr, sc_conn = q\<rparr> (sv_conns s)\<rparr>"

definition server_process :: "'q quicheLib \<Rightarrow> byte list \<Rightarrow> byte list \<Rightarrow> 'q serverConn \<Rightarrow> 'q server \<Rightarrow> 'q server option" where
  "server_process lib buf key c s = (case q_Recv lib buf (sc_conn c) of
     (Some ErrDone, q) \<Rightarrow> Some (putConn key (sc_addr c) q s)
   | (Some _, q) \<Rightarrow> Some (putConn key (sc_addr c) (q_Close lib False 1 (bytes_of ''fail'') q) s)
   | (None, q) \<Rightarrow>
       if q_IsEstablished lib q then map_option (\<lambda>q. putConn key (sc_addr c) q s) (server_recvStream lib bufferSize q)
       else Some (putConn key (sc_addr c) q s))"

definition server_accept :: "'q quicheLib \<Rightarrow> byte list \<Rightarrow> byte list \<Rightarrow> string \<Rightarrow> byte list \<Rightarrow> 'q server \<Rightarrow> 'q server option" where
  "server_accept lib scid odcid addr buf s =
     (let q = q_Accept lib scid odcid
      in server_process lib buf scid \<lparr>sc_addr = addr, sc_conn = q\<rparr> (putConn scid addr q s))"

definition server_recv :: "'q quicheLib \<Rightarrow> byte list \<Rightarrow> string \<Rightarrow> 'q server \<Rightarrow> 'q server option" where
  "server_recv lib buf addr s = (case server_headerInfo lib buf of
     Inl _ \<Rightarrow> Some s
   | Inr h \<Rightarrow> (case map_of (sv_conns s) (h_DCID h) of
       Some c \<Rightarrow> server_process lib buf (h_DCID h) c s
     | None \<Rightarrow>
         if h_Version h \<noteq> q_ProtocolVersion lib then Some (snd (server_negotiate lib addr h buf s))
         else if sv_noRetry s then let (scid, s) = newConnID s in server_accept lib scid [] addr buf s
         else if h_Token h = [] then let (scid, s) = newConnID s in Some (snd (server_retry lib addr h scid buf s))
         else let odcid = validateToken addr (h_Token h) in
           if odcid = [] then Some s
           else server_accept lib (h_DCID h) odcid addr buf s))"

definition server_readDeadline :: "'q quicheLib \<Rightarrow> 'q server \<Rightarrow> int option" where
  "server_readDeadline lib s =
     (let minTimeout = fold (\<lambda>(_, c) m. let t = q_Timeout lib (sc_conn c) in if t < m then t else m) (sv_conns s) 0
      in if minTimeout > 0 then Some minTimeout else None)"

text \<open>\<open>send\<close>: one datagram of each connection; a failed write ends the loop.\<close>

fun sendConns :: "'q quicheLib \<Rightarrow> nat \<Rightarrow> (byte list \<times> 'q serverConn) list \<Rightarrow> qsocket
    \<Rightarrow> goerr option \<times> (byte list \<times> 'q serverConn) list \<times> qsocket" where
  "sendConns lib room [] so = (None, [], so)"
| "sendConns lib room ((k, c) # cs) so = (case q_Send lib room (sc_conn c) of
     (Inl ErrDone, q) \<Rightarrow>
       let (e, cs, so) = sendConns lib room cs so in (e, (k, c\<lparr>sc_conn := q\<rparr>) # cs, so)
   | (Inl _, q) \<Rightarrow>
       let (e, cs, so) = sendConns lib room cs so
       in (e, (k, c\<lparr>sc_conn := q_Close lib False 1 (bytes_of ''fail'') q\<rparr>) # cs, so)
   | (Inr bs, q) \<Rightarrow> (case sockWrite bs (sc_addr c) so of
       (Some e, so) \<Rightarrow> (Some e, (k, c\<lparr>sc_conn := q\<rparr>) # cs, so)
     | (None, so) \<Rightarrow>
         let (e, cs, so) = sendConns lib room cs so in (e, (k, c\<lparr>sc_conn := q\<rparr>) # cs, so)))"

definition server_send :: "'q quicheLib \<Rightarrow> nat \<Rightarrow> 'q server \<Rightarrow> goerr option \<times> 'q server" where
  "server_send lib room s = (let (e, cs, so) = sendConns lib room (sv_conns s) (sv_socket s)
     in (e, s\<lparr>sv_conns := cs, sv_socket := so\<rparr>))"

definition server_close :: "'q quicheLib \<Rightarrow> 'q server \<Rightarrow> 'q server" where
  "server_close lib s = s\<lparr>sv_conns := filter (\<lambda>(_, c). \<not> q_IsClosed lib (sc_conn c)) (sv_conns s)\<rparr>"

text \<open>One round of \<open>listen\<close>, for what the socket does in it: the deadline cannot be set, the read fails, or a datagram
  arrives, of which the buffer keeps what fits.\<close>

datatype qevent = DeadlineErr goerr | ReadErr goerr | Packet "byte list" string

definition listenRound :: "'q quicheLib \<Rightarrow> qevent \<Rightarrow> 'q server \<Rightarrow> (goerr option \<times> 'q server) option" where
  "listenRound lib ev s = (let s = s\<lparr>sv_deadline := server_readDeadline lib s\<rparr>;
       finish = (\<lambda>s. (None, server_close lib (snd (server_send lib maxDatagramSize s))))
     in case ev of
       DeadlineErr e \<Rightarrow> Some (Some e, s)
     | ReadErr e \<Rightarrow>
         if e = ErrDeadlineExceeded then
           Some (finish (s\<lparr>sv_conns := map (\<lambda>(k, c). (k, c\<lparr>sc_conn := q_OnTimeout lib (sc_conn c)\<rparr>)) (sv_conns s)\<rparr>))
         else Some (Some e, s)
     | Packet bs addr \<Rightarrow> map_option finish (server_recv lib (take bufferSize bs) addr s))"

text \<open>\<open>listen\<close> on the events to come; after the last one it is still waiting, with no error.\<close>

fun server_listen :: "'q quicheLib \<Rightarrow> qevent list \<Rightarrow> 'q server \<Rightarrow> (goerr option \<times> 'q server) option" where
  "server_listen lib [] s = Some (None, s)"
| "server_listen lib (ev # evs) s = (case listenRound lib ev s of
     None \<Rightarrow> None
   | Some (Some e, s) \<Rightarrow> Some (Some e, s)
   | Some (None, s) \<Rightarrow> server_listen lib evs s)"

text \<open>The function \<open>listen\<close> starts it on a new socket, without connections.\<close>

definition quicheListen :: "'q quicheLib \<Rightarrow> (goerr + qsocket) \<Rightarrow> (nat \<Rightarrow> byte list) \<Rightarrow> qevent list \<Rightarrow> (goerr option \<times> 'q server option) option" where
  "quicheListen lib sock rand evs = (case sock of
     Inl e \<Rightarrow> Some (Some e, None)
   | Inr so \<Rightarrow> map_option (\<lambda>(e, s). (e, Some s)) (server_listen lib evs
       \<lparr>sv_socket = so, sv_conns = [], sv_noRetry = False, sv_rand = rand, sv_used = 0, sv_deadline = None\<rparr>))"

section \<open>The client\<close>

text \<open>\<open>cl_in\<close> are the results of the next reads of the socket; when none is left a read blocks. \<open>cl_setErr\<close> is the outcome of
  \<open>SetReadDeadline\<close>.\<close>

record 'q client =
  cl_conn :: 'q
  cl_socket :: qsocket
  cl_in :: "(goerr + byte list) list"
  cl_setErr :: "goerr option"
  cl_deadline :: "int option"

definition client_readDeadline :: "'q quicheLib \<Rightarrow> 'q client \<Rightarrow> int option" where
  "client_readDeadline lib c = (let t = q_Timeout lib (cl_conn c) in if t > 0 then Some t else None)"

definition client_recv :: "'q quicheLib \<Rightarrow> 'q client \<Rightarrow> (quicheErr option \<times> 'q client) option" where
  "client_recv lib c = (case cl_setErr c of
     Some e \<Rightarrow> Some (Some (NetErr e), c)
   | None \<Rightarrow> let c = c\<lparr>cl_deadline := client_readDeadline lib c\<rparr> in
     (case cl_in c of
       [] \<Rightarrow> None
     | Inl e # r \<Rightarrow>
         if e = ErrDeadlineExceeded then Some (None, c\<lparr>cl_in := r, cl_conn := q_OnTimeout lib (cl_conn c)\<rparr>)
         else Some (Some (NetErr e), c\<lparr>cl_in := r\<rparr>)
     | Inr bs # r \<Rightarrow> (case q_Recv lib (take bufferSize bs) (cl_conn c) of
         (Some ErrDone, q) \<Rightarrow> Some (None, c\<lparr>cl_in := r, cl_conn := q\<rparr>)
       | (e, q) \<Rightarrow> Some (e, c\<lparr>cl_in := r, cl_conn := q\<rparr>))))"

text \<open>\<open>send\<close>: the datagrams of the connection go to the socket, until it has no more.\<close>

partial_function (option) client_send :: "'q quicheLib \<Rightarrow> nat \<Rightarrow> 'q client \<Rightarrow> (quicheErr option \<times> 'q client) option" where
  "client_send lib room c = (case q_Send lib room (cl_conn c) of
     (Inl ErrDone, q) \<Rightarrow> Some (None, c\<lparr>cl_conn := q\<rparr>)
   | (Inl e, q) \<Rightarrow> Some (Some e, c\<lparr>cl_conn := q\<rparr>)
   | (Inr bs, q) \<Rightarrow> (case sockWrite bs [] (cl_socket c) of
       (Some e, so) \<Rightarrow> Some (Some (NetErr e), c\<lparr>cl_conn := q, cl_socket := so\<rparr>)
     | (None, so) \<Rightarrow> client_send lib room (c\<lparr>cl_conn := q, cl_socket := so\<rparr>)))"

text \<open>The loop of \<open>connect\<close>.\<close>

partial_function (option) connectLoop :: "'q quicheLib \<Rightarrow> 'q client \<Rightarrow> (quicheErr option \<times> 'q client) option" where
  "connectLoop lib c = (case client_recv lib c of
     None \<Rightarrow> None
   | Some (Some e, c) \<Rightarrow> Some (Some e, c)
   | Some (None, c) \<Rightarrow>
       if q_IsClosed lib (cl_conn c) then Some (None, c)
       else if q_IsEstablished lib (cl_conn c) then Some (None, c)
       else (case client_send lib maxDatagramSize c of
         None \<Rightarrow> None
       | Some (Some e, c) \<Rightarrow> Some (Some e, c)
       | Some (None, c) \<Rightarrow> connectLoop lib c))"

definition client_connect :: "'q quicheLib \<Rightarrow> 'q client \<Rightarrow> (quicheErr option \<times> 'q client) option" where
  "client_connect lib c = (case client_send lib bufferSize c of
     None \<Rightarrow> None
   | Some (Some e, c) \<Rightarrow> Some (Some e, c)
   | Some (None, c) \<Rightarrow> connectLoop lib c)"

text \<open>The function \<open>connect\<close>, up to its goroutines. \<open>sock\<close> is the outcome of \<open>dialUDP\<close>, with what the socket will receive;
  \<open>scid\<close> the result of \<open>newConnID\<close>.\<close>

definition quicheConnect :: "'q quicheLib \<Rightarrow> (goerr + (goerr + byte list) list) \<Rightarrow> byte list \<Rightarrow> string
    \<Rightarrow> (quicheErr + 'q client) option" where
  "quicheConnect lib sock scid addr = (case sock of
     Inl e \<Rightarrow> Some (Inl (NetErr e))
   | Inr ins \<Rightarrow> (case client_connect lib \<lparr>cl_conn = q_Connect lib (quicheHostname addr) scid,
         cl_socket = \<lparr>so_sent = [], so_outs = []\<rparr>, cl_in = ins, cl_setErr = None, cl_deadline = None\<rparr> of
       None \<Rightarrow> None
     | Some (Some e, _) \<Rightarrow> Some (Inl e)
     | Some (None, c) \<Rightarrow> Some (Inr c)))"

text \<open>\<open>DialMux\<close>: \<open>config\<close> is the outcome of \<open>newConfig\<close>.\<close>

definition quicheDialMux :: "'q quicheLib \<Rightarrow> quicheErr option \<Rightarrow> (goerr + (goerr + byte list) list) \<Rightarrow> byte list \<Rightarrow> string
    \<Rightarrow> (quicheErr + 'q client) option" where
  "quicheDialMux lib config sock scid addr = (case config of
     Some e \<Rightarrow> Some (Inl e)
   | None \<Rightarrow> quicheConnect lib sock scid addr)"

text \<open>The two goroutines that \<open>connect\<close> starts.\<close>

partial_function (option) clientSender :: "'q quicheLib \<Rightarrow> 'q client \<Rightarrow> 'q client option" where
  "clientSender lib c = (case client_send lib maxDatagramSize c of
     None \<Rightarrow> None
   | Some (Some _, c) \<Rightarrow> Some c
   | Some (None, c) \<Rightarrow> if q_IsClosed lib (cl_conn c) then Some c else clientSender lib c)"

partial_function (option) clientReceiver :: "'q quicheLib \<Rightarrow> 'q client \<Rightarrow> 'q client option" where
  "clientReceiver lib c = (case client_recv lib c of
     None \<Rightarrow> None
   | Some (Some _, c) \<Rightarrow> Some c
   | Some (None, c) \<Rightarrow>
       if q_IsClosed lib (cl_conn c) then Some c
       else (case client_send lib maxDatagramSize c of
         None \<Rightarrow> None
       | Some (Some _, c) \<Rightarrow> Some c
       | Some (None, c) \<Rightarrow> clientReceiver lib c))"

partial_function (option) client_recvStream :: "'q quicheLib \<Rightarrow> nat \<Rightarrow> 'q client \<Rightarrow> 'q client option" where
  "client_recvStream lib room c = (case q_ReadableNext lib (cl_conn c) of
     (None, q) \<Rightarrow> Some (c\<lparr>cl_conn := q\<rparr>)
   | (Some i, q) \<Rightarrow> (case q_StreamRecv lib i room q of
       (Inl _, q) \<Rightarrow> client_recvStream lib room (c\<lparr>cl_conn := q\<rparr>)
     | (Inr _, q) \<Rightarrow> client_recvStream lib room (c\<lparr>cl_conn :=
         if i = httpRequestStreamID then q_Close lib True 0 (bytes_of ''bye'') q else q\<rparr>)))"

text \<open>\<open>RoundTrip\<close> sends a fixed text and returns neither a response nor an error.\<close>

definition client_RoundTrip :: "'q quicheLib \<Rightarrow> 'q client \<Rightarrow> 'q client" where
  "client_RoundTrip lib c = c\<lparr>cl_conn := snd (q_StreamSend lib 1 (bytes_of ''Hello'') True (cl_conn c))\<rparr>"

section \<open>Tokens\<close>

text \<open>What a token says about an address: exactly that the token goes on with the text of the address.\<close>

lemma take_append_drop_eq: "n = length x \<Longrightarrow> (take n t = x \<and> n \<le> length t) = (\<exists>r. t = x @ r)"
  by (metis append_eq_conv_conj append_take_drop_id le_add1 length_append)

lemma validateToken_iff:
  "validateToken addr token = odcid \<and> odcid \<noteq> [] \<longleftrightarrow> token = bytes_of ''quiche'' @ bytes_of addr @ odcid \<and> odcid \<noteq> []"
proof
  assume v: "validateToken addr token = odcid \<and> odcid \<noteq> []"
  then have "take 6 token = bytes_of ''quiche''" "take (length addr) (drop 6 token) = bytes_of addr"
    "odcid = drop (length addr) (drop 6 token)"
    by (auto simp: validateToken_def Let_def split: if_splits)
  then show "token = bytes_of ''quiche'' @ bytes_of addr @ odcid \<and> odcid \<noteq> []"
    using v append_take_drop_id by metis
qed (simp add: validateToken_def)

lemma validateToken_mint:
  "validateToken a (mintToken b h) = odcid \<and> odcid \<noteq> [] \<longleftrightarrow> bytes_of b @ h_DCID h = bytes_of a @ odcid \<and> odcid \<noteq> []"
  by (simp add: validateToken_iff mintToken_def del: bytes_of_Cons)

section \<open>The table of connections\<close>

lemma sendConns_keys: "map (\<lambda>(k, c). (k, sc_addr c)) (fst (snd (sendConns lib room cs so))) = map (\<lambda>(k, c). (k, sc_addr c)) cs"
  by (induction lib room cs so rule: sendConns.induct)
    (auto simp: Let_def split: prod.splits sum.splits quicheErr.splits option.splits)

text \<open>The connections, by their key and their address.\<close>

definition connAddrs :: "'q server \<Rightarrow> (byte list \<times> string) list" where
  "connAddrs s = map (\<lambda>(k, c). (k, sc_addr c)) (sv_conns s)"

lemma connAddrs_simps [simp]:
  "connAddrs (s\<lparr>sv_deadline := d\<rparr>) = connAddrs s" "connAddrs (s\<lparr>sv_socket := so\<rparr>) = connAddrs s"
  "connAddrs (s\<lparr>sv_used := n\<rparr>) = connAddrs s"
  by (simp_all add: connAddrs_def)

lemma connAddrs_send: "connAddrs (snd (server_send lib room s)) = connAddrs s"
  using sendConns_keys [of lib room "sv_conns s" "sv_socket s"]
  by (simp add: server_send_def connAddrs_def Let_def split_beta)

lemma connAddrs_close: "set (connAddrs (server_close lib s)) \<subseteq> set (connAddrs s)"
  by (auto simp: server_close_def connAddrs_def)

lemma map_update: "map (\<lambda>(k, c). (k, f c)) (AList.update k v xs) = AList.update k (f v) (map (\<lambda>(k, c). (k, f c)) xs)"
  by (induction xs) auto

lemma set_alist_update: "set (AList.update k v xs) \<subseteq> insert (k, v) (set xs)"
  by (induction xs) auto

lemma update_same: "map_of xs k = Some v \<Longrightarrow> AList.update k v xs = xs"
  by (induction xs) auto

lemma update_fresh: "map_of xs k = None \<Longrightarrow> AList.update k v xs = xs @ [(k, v)]"
  by (induction xs) (auto split: if_splits)

lemma connAddrs_put: "connAddrs (putConn k a q s) = AList.update k a (connAddrs s)"
  by (simp add: putConn_def connAddrs_def map_update)

lemma connAddrs_lookup: "map_of (connAddrs s) k = map_option sc_addr (map_of (sv_conns s) k)"
  by (simp add: connAddrs_def map_of_map)

text \<open>A packet for a connection changes the state of that connection only.\<close>

lemma process_puts:
  "server_process lib buf key c s = Some s' \<Longrightarrow> \<exists>q. s' = putConn key (sc_addr c) q s"
  by (auto simp: server_process_def split: prod.splits option.splits quicheErr.splits if_splits)

lemma putConn_twice: "putConn k a q (putConn k a q' s) = putConn k a q s"
  by (simp add: putConn_def)

lemma accept_puts:
  "server_accept lib scid odcid addr buf s = Some s' \<Longrightarrow> \<exists>q. s' = putConn scid addr q s"
  by (auto simp: server_accept_def Let_def putConn_twice dest!: process_puts)

lemma putConn_noRetry [simp]: "sv_noRetry (putConn k a q s) = sv_noRetry s"
  by (simp add: putConn_def)

lemma replies_keep:
  "connAddrs (snd (server_negotiate lib addr h buf s)) = connAddrs s" "sv_noRetry (snd (server_negotiate lib addr h buf s)) = sv_noRetry s"
  "connAddrs (snd (server_retry lib addr h scid buf s)) = connAddrs s" "sv_noRetry (snd (server_retry lib addr h scid buf s)) = sv_noRetry s"
  by (simp_all add: server_negotiate_def server_retry_def Let_def split_beta split: sum.splits)

text \<open>Which key and address an event may add: that of a packet with a token for the address it comes from.\<close>

definition validated :: "'q quicheLib \<Rightarrow> qevent list \<Rightarrow> byte list \<times> string \<Rightarrow> bool" where
  "validated lib evs ka = (\<exists>bs h odcid. Packet bs (snd ka) \<in> set evs \<and> server_headerInfo lib (take bufferSize bs) = Inr h
     \<and> h_DCID h = fst ka \<and> h_Version h = q_ProtocolVersion lib \<and> odcid \<noteq> []
     \<and> h_Token h = bytes_of ''quiche'' @ bytes_of (snd ka) @ odcid)"

lemma recv_validated:
  assumes r: "server_recv lib (take bufferSize bs) addr s = Some s'" and "\<not> sv_noRetry s"
  shows "set (connAddrs s') \<subseteq> set (connAddrs s) \<union> {ka. validated lib [Packet bs addr] ka} \<and> \<not> sv_noRetry s'"
proof (cases "server_headerInfo lib (take bufferSize bs)")
  case (Inl e)
  then show ?thesis using assms by (simp add: server_recv_def)
next
  case (Inr h)
  show ?thesis
  proof (cases "map_of (sv_conns s) (h_DCID h)")
    case (Some c)
    then obtain q where "s' = putConn (h_DCID h) (sc_addr c) q s"
      using r Inr by (auto simp: server_recv_def dest: process_puts)
    moreover have "map_of (connAddrs s) (h_DCID h) = Some (sc_addr c)" using Some by (simp add: connAddrs_lookup)
    ultimately show ?thesis using assms(2) by (simp add: connAddrs_put update_same)
  next
    case None
    show ?thesis
    proof (cases "h_Version h = q_ProtocolVersion lib \<and> validateToken addr (h_Token h) \<noteq> []")
      case True
      then have ne: "h_Token h \<noteq> []" by (auto simp: validateToken_def)
      obtain q where q: "s' = putConn (h_DCID h) addr q s"
        using r Inr None True ne assms(2) by (auto simp: server_recv_def Let_def dest: accept_puts)
      have "h_Token h = bytes_of ''quiche'' @ bytes_of addr @ validateToken addr (h_Token h)"
        using True validateToken_iff by blast
      then have "validated lib [Packet bs addr] (h_DCID h, addr)"
        using Inr True unfolding validated_def by fastforce
      then show ?thesis using q assms(2) set_alist_update by (fastforce simp: connAddrs_put)
    next
      case False
      then show ?thesis using r Inr None assms(2)
        by (auto simp: server_recv_def newConnID_def replies_keep Let_def split: if_splits)
    qed
  qed
qed

lemma round_validated:
  assumes "listenRound lib ev s = Some (e, s')" and "\<not> sv_noRetry s"
  shows "set (connAddrs s') \<subseteq> set (connAddrs s) \<union> {ka. validated lib [ev] ka} \<and> \<not> sv_noRetry s'"
proof -
  have fin: "set (connAddrs (server_close lib (snd (server_send lib n t)))) \<subseteq> set (connAddrs t)"
    "sv_noRetry (server_close lib (snd (server_send lib n t))) = sv_noRetry t" for n t
    using connAddrs_close [of lib "snd (server_send lib n t)"] connAddrs_send [of lib n t]
    by (auto simp: server_close_def server_send_def split_beta)
  have tick: "connAddrs (t\<lparr>sv_conns := map (\<lambda>(k, c). (k, c\<lparr>sc_conn := q_OnTimeout lib (sc_conn c)\<rparr>)) (sv_conns t)\<rparr>) = connAddrs t" for t
    by (simp add: connAddrs_def comp_def split_beta)
  show ?thesis
  proof (cases ev)
    case (Packet bs addr)
    then obtain t where "server_recv lib (take bufferSize bs) addr (s\<lparr>sv_deadline := server_readDeadline lib s\<rparr>) = Some t"
      and "s' = server_close lib (snd (server_send lib maxDatagramSize t))"
      using assms(1) by (auto simp: listenRound_def Let_def)
    then show ?thesis using recv_validated [of lib bs addr _ t] fin [of maxDatagramSize t] assms(2) Packet by fastforce
  next
    case (ReadErr x)
    define u where "u = s\<lparr>sv_deadline := server_readDeadline lib s\<rparr>"
    define t where "t = u\<lparr>sv_conns := map (\<lambda>(k, c). (k, c\<lparr>sc_conn := q_OnTimeout lib (sc_conn c)\<rparr>)) (sv_conns u)\<rparr>"
    have "connAddrs t = connAddrs s" "sv_noRetry t = sv_noRetry s" using tick [of u] by (simp_all add: t_def u_def)
    moreover have "s' = u \<or> s' = server_close lib (snd (server_send lib maxDatagramSize t))"
      using assms(1) ReadErr by (auto simp: listenRound_def Let_def t_def u_def split: if_splits)
    ultimately show ?thesis using fin [of maxDatagramSize t] assms(2) by (auto simp: u_def)
  next
    case (DeadlineErr x)
    then show ?thesis using assms by (auto simp: listenRound_def Let_def)
  qed
qed

lemma validated_mono: "validated lib evs ka \<Longrightarrow> set evs \<subseteq> set evs' \<Longrightarrow> validated lib evs' ka"
  unfolding validated_def by blast

lemma listen_validated:
  assumes "server_listen lib evs s = Some (e, s')" and "\<not> sv_noRetry s"
  shows "set (connAddrs s') \<subseteq> set (connAddrs s) \<union> {ka. validated lib evs ka}"
  using assms
proof (induction lib evs s rule: server_listen.induct)
  case (2 lib ev evs s)
  obtain x t where t: "listenRound lib ev s = Some (x, t)" using "2.prems" by (cases "listenRound lib ev s") auto
  have now: "set (connAddrs t) \<subseteq> set (connAddrs s) \<union> {ka. validated lib [ev] ka} \<and> \<not> sv_noRetry t"
    by (rule round_validated [OF t "2.prems"(2)])
  have m: "{ka. validated lib [ev] ka} \<subseteq> {ka. validated lib (ev # evs) ka}" "{ka. validated lib evs ka} \<subseteq> {ka. validated lib (ev # evs) ka}"
    by (auto elim: validated_mono)
  show ?case
  proof (cases x)
    case None
    then have "set (connAddrs s') \<subseteq> set (connAddrs t) \<union> {ka. validated lib evs ka}"
      using "2.IH" [OF t refl None] "2.prems" t now by simp
    then show ?thesis using now m by blast
  next
    case (Some err)
    then show ?thesis using "2.prems" t now m by auto
  qed
qed simp

section \<open>The handshake with retry\<close>

lemma listenRound_packet:
  assumes "server_recv lib (take bufferSize bs) addr (s\<lparr>sv_deadline := server_readDeadline lib s\<rparr>) = Some t"
  shows "listenRound lib (Packet bs addr) s = Some (None, server_close lib (snd (server_send lib maxDatagramSize t)))"
  using assms by (simp add: listenRound_def Let_def)

text \<open>A small library for the examples. A packet is the destination and the source id, of two bytes each, and the token; the
  state of a connection is the number of its readable streams.\<close>

definition tinyQuiche :: "nat quicheLib" where
  "tinyQuiche = \<lparr>q_ProtocolVersion = 1, q_MaxConnIDLen = 20,
     q_HeaderInfo = (\<lambda>m n bs. if length bs < 4 \<or> n < length bs - 4 then Inl (QErr ''short'')
        else Inr \<lparr>h_Version = 1, h_SCID = take 2 (drop 2 bs), h_DCID = take 2 bs, h_Token = drop 4 bs\<rparr>),
     q_NegotiateVersion = (\<lambda>scid dcid n. Inr (scid @ dcid)),
     q_Retry = (\<lambda>scid dcid new token n. Inr (new @ scid @ token)),
     q_Accept = (\<lambda>scid odcid. length odcid), q_Connect = (\<lambda>host scid. 0),
     q_Recv = (\<lambda>bs q. (None, q)), q_Send = (\<lambda>n q. (Inl ErrDone, q)), q_Close = (\<lambda>app e why q. q),
     q_IsClosed = (\<lambda>q. False), q_IsEstablished = (\<lambda>q. True), q_Timeout = (\<lambda>q. 5), q_OnTimeout = id,
     q_ReadableNext = (\<lambda>q. if q = 0 then (None, 0) else (Some q, q - 1)),
     q_StreamRecv = (\<lambda>i n q. (Inr ([], True), q)), q_StreamSend = (\<lambda>i bs fin q. (None, q))\<rparr>"

definition tinyServer :: "nat server" where
  "tinyServer = \<lparr>sv_socket = \<lparr>so_sent = [], so_outs = []\<rparr>, sv_conns = [], sv_noRetry = False,
     sv_rand = (\<lambda>n. [9, of_nat n]), sv_used = 0, sv_deadline = None\<rparr>"

text \<open>C12: What it takes to open a connection. While the server asks for retries, every connection in its table was opened by a packet that
  came from the address of the connection, whose version is the one spoken, whose destination id is the key of the connection, and whose token has
  the form \<open>quiche\<close>, text of that address, non-empty id. This is the form of the token only. Tokens are not protected (\<open>TODO: crypto\<close>),
  so this is no proof that the sender can receive at its address: a token of that form is accepted whoever made it (lemma \<open>token_made_up\<close>), in the
  first packet as well, and a token minted for one address may read as one for another (lemma \<open>token_other_address\<close>).\<close>

theorem conns_validated:
  assumes "quicheListen lib (Inr so) rand evs = Some (e, Some s)" and "(k, c) \<in> set (sv_conns s)"
  shows "\<exists>bs h odcid. Packet bs (sc_addr c) \<in> set evs \<and> server_headerInfo lib (take bufferSize bs) = Inr h
     \<and> h_DCID h = k \<and> h_Version h = q_ProtocolVersion lib \<and> odcid \<noteq> []
     \<and> h_Token h = bytes_of ''quiche'' @ bytes_of (sc_addr c) @ odcid"
proof -
  have "(k, sc_addr c) \<in> set (connAddrs s)" using assms(2) by (force simp: connAddrs_def)
  then have "validated lib evs (k, sc_addr c)"
    using assms(1) listen_validated [of lib evs _ e s] by (fastforce simp: quicheListen_def connAddrs_def)
  then show ?thesis by (auto simp: validated_def)
qed

text \<open>The two packets of a handshake.\<close>

lemma recv_initial:
  assumes "server_headerInfo lib p = Inr h" "map_of (sv_conns s) (h_DCID h) = None" "h_Version h = q_ProtocolVersion lib"
    and "h_Token h = []" "\<not> sv_noRetry s"
    and "q_Retry lib (h_SCID h) (h_DCID h) (sv_rand s (sv_used s)) (mintToken addr h) (length p) = Inr pkt"
    and "so_outs (sv_socket s) = []"
  shows "server_recv lib p addr s = Some (s\<lparr>sv_used := sv_used s + 1,
     sv_socket := (sv_socket s)\<lparr>so_sent := so_sent (sv_socket s) @ [(addr, pkt)]\<rparr>\<rparr>)"
  using assms by (simp add: server_recv_def newConnID_def server_retry_def sockWrite_def)

lemma recv_token:
  assumes "server_headerInfo lib p = Inr h" "map_of (sv_conns s) (h_DCID h) = None" "h_Version h = q_ProtocolVersion lib"
    and "h_Token h = mintToken addr h0" "h_DCID h0 \<noteq> []" "\<not> sv_noRetry s"
  shows "server_recv lib p addr s = server_accept lib (h_DCID h) (h_DCID h0) addr p s"
proof -
  have "validateToken addr (h_Token h) = h_DCID h0"
    using validateToken_mint [of addr addr h0 "h_DCID h0"] assms by simp
  moreover have "h_Token h \<noteq> []" using assms by (simp add: mintToken_def)
  ultimately show ?thesis using assms by (simp add: server_recv_def)
qed

text \<open>C39: The retry handshake. A first packet, without a token, leaves no state but a retry packet, sent to where it came from,
  with a fresh connection id and a token. When the client comes back from the same address to that id, with that token, the
  server accepts the connection under the fresh id, with the original destination id of the first packet, and gives it the
  packet.\<close>

theorem retry_handshake:
  assumes "server_headerInfo lib p1 = Inr h1" "h_Version h1 = q_ProtocolVersion lib" "h_Token h1 = []" "h_DCID h1 \<noteq> []"
    and "\<not> sv_noRetry s" "so_outs (sv_socket s) = []" "scid = sv_rand s (sv_used s)"
    and "map_of (sv_conns s) (h_DCID h1) = None" "map_of (sv_conns s) scid = None"
    and "q_Retry lib (h_SCID h1) (h_DCID h1) scid (mintToken addr h1) (length p1) = Inr pkt"
    and "server_headerInfo lib p2 = Inr h2" "h_Version h2 = q_ProtocolVersion lib" "h_DCID h2 = scid" "h_Token h2 = mintToken addr h1"
  shows "\<exists>s1. server_recv lib p1 addr s = Some s1 \<and> sv_conns s1 = sv_conns s
     \<and> so_sent (sv_socket s1) = so_sent (sv_socket s) @ [(addr, pkt)]
     \<and> server_recv lib p2 addr s1 = server_accept lib scid (h_DCID h1) addr p2 s1
     \<and> (\<forall>s2. server_recv lib p2 addr s1 = Some s2 \<longrightarrow> (\<exists>c. sv_conns s2 = sv_conns s @ [(scid, c)] \<and> sc_addr c = addr))"
proof -
  define s1 where "s1 = s\<lparr>sv_used := sv_used s + 1, sv_socket := (sv_socket s)\<lparr>so_sent := so_sent (sv_socket s) @ [(addr, pkt)]\<rparr>\<rparr>"
  have one: "server_recv lib p1 addr s = Some s1"
    unfolding s1_def using assms by (intro recv_initial [where h = h1]) auto
  have two: "server_recv lib p2 addr s1 = server_accept lib scid (h_DCID h1) addr p2 s1"
    using recv_token [of lib p2 h2 s1 addr h1] assms by (simp add: s1_def)
  have "\<exists>c. sv_conns s2 = sv_conns s @ [(scid, c)] \<and> sc_addr c = addr" if "server_recv lib p2 addr s1 = Some s2" for s2
    using that assms(9) unfolding two by (auto dest!: accept_puts simp: putConn_def s1_def update_fresh)
  then show ?thesis using one two by (auto simp: s1_def)
qed

section \<open>Faults\<close>

text \<open>The least of the timeouts is taken from zero downwards, so it is never positive: the server never sets a deadline, and
  the timers of its connections never run.\<close>

lemma server_no_deadline: "server_readDeadline lib s = None"
proof -
  have "fold (\<lambda>(_, c) m. let t = q_Timeout lib (sc_conn c) in if t < m then t else m) cs m \<le> (m :: int)" for cs m
  proof (induction cs arbitrary: m)
    case (Cons a cs)
    show ?case using Cons.IH [of "if q_Timeout lib (sc_conn (snd a)) < m then q_Timeout lib (sc_conn (snd a)) else m"]
      by (auto simp: Let_def split_beta split: if_splits)
  qed simp
  from this [of "sv_conns s" 0] show ?thesis by (simp add: server_readDeadline_def Let_def not_less)
qed

text \<open>The token of an address is accepted from every address whose text continues into the connection id.\<close>

lemma token_other_address:
  "validateToken ''10.0.0.1:44'' (mintToken ''10.0.0.1:4'' \<lparr>h_Version = 1, h_SCID = [], h_DCID = bytes_of ''4abcdefg'', h_Token = []\<rparr>)
     = bytes_of ''abcdefg''"
  by (simp add: validateToken_def mintToken_def)

text \<open>A token needs no retry packet and no secret: whoever writes the bytes \<open>quiche\<close>, the address and some id into the first packet gets a
  connection, under the destination id of their choice.\<close>

lemma token_made_up:
  assumes "server_headerInfo lib p = Inr h" "map_of (sv_conns s) (h_DCID h) = None" "h_Version h = q_ProtocolVersion lib"
    and "h_Token h = bytes_of ''quiche'' @ bytes_of addr @ odcid" "odcid \<noteq> []" "\<not> sv_noRetry s"
  shows "server_recv lib p addr s = server_accept lib (h_DCID h) odcid addr p s"
  using recv_token [OF assms(1-3), of addr "h\<lparr>h_DCID := odcid\<rparr>"] assms(4-6) by (simp add: mintToken_def)

text \<open>A token is minted for an address of any length, but a header holds 64 bytes of it: with ids of 20 bytes, a client whose
  address has more than 38 characters (IPv6) can never present the token that it got.\<close>

lemma long_token_lost:
  assumes "\<And>m n buf h. q_HeaderInfo lib m n buf = Inr h \<Longrightarrow> length (h_Token h) \<le> n"
    and "58 < length addr + length (h_DCID h)" and "server_headerInfo lib buf = Inr h'"
  shows "h_Token h' \<noteq> mintToken addr h"
  using assms(1) [OF assms(3) [unfolded server_headerInfo_def]] assms(2) by (auto simp: mintToken_def maxTokenLen_def)

text \<open>Witnesses of the handshake.\<close>

definition tinyToken :: "byte list" where
  "tinyToken = bytes_of ''quichea:1'' @ [1, 1]"

lemma tiny_recv:
  "server_recv tinyQuiche [1, 1, 2, 2] ''a:1'' tinyServer = Some (tinyServer\<lparr>sv_used := 1,
     sv_socket := \<lparr>so_sent = [(''a:1'', [9, 0, 2, 2] @ tinyToken)], so_outs = []\<rparr>\<rparr>)"
  by (simp add: server_recv_def server_headerInfo_def tinyQuiche_def tinyServer_def newConnID_def server_retry_def sockWrite_def
      mintToken_def tinyToken_def maxTokenLen_def)

theorem retry_handshake_witness:
  "\<exists>s1. server_recv tinyQuiche [1, 1, 2, 2] ''a:1'' tinyServer = Some s1 \<and> sv_conns s1 = []
     \<and> so_sent (sv_socket s1) = [(''a:1'', [9, 0, 2, 2] @ tinyToken)]
     \<and> server_recv tinyQuiche ([9, 0, 2, 2] @ tinyToken) ''a:1'' s1 = server_accept tinyQuiche [9, 0] [1, 1] ''a:1'' ([9, 0, 2, 2] @ tinyToken) s1"
proof -
  define h1 where "h1 = \<lparr>h_Version = 1, h_SCID = [2, 2], h_DCID = [1, 1], h_Token = []\<rparr>"
  define h2 where "h2 = \<lparr>h_Version = 1, h_SCID = [2, 2], h_DCID = [9, 0], h_Token = tinyToken\<rparr>"
  have "\<exists>s1. server_recv tinyQuiche [1, 1, 2, 2] ''a:1'' tinyServer = Some s1 \<and> sv_conns s1 = sv_conns tinyServer
     \<and> so_sent (sv_socket s1) = so_sent (sv_socket tinyServer) @ [(''a:1'', [9, 0, 2, 2] @ tinyToken)]
     \<and> server_recv tinyQuiche ([9, 0, 2, 2] @ tinyToken) ''a:1'' s1
       = server_accept tinyQuiche [9, 0] (h_DCID h1) ''a:1'' ([9, 0, 2, 2] @ tinyToken) s1
     \<and> (\<forall>s2. server_recv tinyQuiche ([9, 0, 2, 2] @ tinyToken) ''a:1'' s1 = Some s2
       \<longrightarrow> (\<exists>c. sv_conns s2 = sv_conns tinyServer @ [([9, 0], c)] \<and> sc_addr c = ''a:1''))"
    by (rule retry_handshake [where ?h2.0 = h2])
      (simp_all add: h1_def h2_def server_headerInfo_def tinyQuiche_def tinyServer_def mintToken_def tinyToken_def maxTokenLen_def)
  then show ?thesis by (auto simp: tinyServer_def h1_def)
qed

section \<open>Termination\<close>

text \<open>The readable streams run out: \<open>left\<close> counts those that an iteration has still to give.\<close>

definition drains :: "'q quicheLib \<Rightarrow> ('q \<Rightarrow> nat) \<Rightarrow> bool" where
  "drains lib left \<longleftrightarrow> (\<forall>q i q'. q_ReadableNext lib q = (Some i, q') \<longrightarrow> left q' < left q)
     \<and> (\<forall>i n q. left (snd (q_StreamRecv lib i n q)) \<le> left q) \<and> (\<forall>i bs fin q. left (snd (q_StreamSend lib i bs fin q)) \<le> left q)
     \<and> (\<forall>app e why q. left (q_Close lib app e why q) \<le> left q)"

lemma drainsD:
  assumes "drains lib left"
  shows "q_ReadableNext lib q = (Some i, q') \<Longrightarrow> left q' < left q" and "q_StreamRecv lib i n q = (r, q') \<Longrightarrow> left q' \<le> left q"
    and "q_StreamSend lib i bs fin q = (x, q') \<Longrightarrow> left q' \<le> left q" and "left (q_Close lib app e why q) \<le> left q"
  using assms unfolding drains_def by (metis snd_conv)+

lemma recvStream_returns:
  assumes "drains lib left"
  shows "\<exists>q'. server_recvStream lib room q = Some q'"
proof (induction "left q" arbitrary: q rule: less_induct)
  case less
  note le = drainsD [OF assms]
  show ?case
    by (subst server_recvStream.simps)
      (auto split: prod.splits option.splits sum.splits intro!: less
        dest!: le(1) le(2) le(3) intro: le_less_trans [OF le(4)])
qed

lemma server_recv_returns:
  assumes "drains lib left"
  shows "\<exists>s'. server_recv lib buf addr s = Some s'"
proof -
  have p: "\<exists>s'. server_process lib buf key c t = Some s'" for key c t
    using recvStream_returns [OF assms]
    by (auto simp: server_process_def split: prod.splits option.splits quicheErr.splits)
  show ?thesis
    using p by (auto simp: server_recv_def server_accept_def newConnID_def Let_def split: sum.splits option.splits)
qed

text \<open>The server cannot be stopped by a packet: whatever arrives, from wherever, each packet is handled to its end and
  the server goes on to the next; it stops only for an error of its socket.\<close>

theorem listen_survives:
  assumes "drains lib left"
  shows "\<exists>e s'. server_listen lib evs s = Some (e, s')
     \<and> (\<forall>x. e = Some x \<longrightarrow> DeadlineErr x \<in> set evs \<or> ReadErr x \<in> set evs \<and> x \<noteq> ErrDeadlineExceeded)"
proof (induction evs arbitrary: s)
  case (Cons ev evs)
  have r: "\<exists>x t. listenRound lib ev s = Some (x, t) \<and> (\<forall>y. x = Some y \<longrightarrow> ev = DeadlineErr y \<or> ev = ReadErr y \<and> y \<noteq> ErrDeadlineExceeded)"
  proof (cases ev)
    case (Packet bs addr)
    then show ?thesis
      using server_recv_returns [OF assms, of "take bufferSize bs" addr "s\<lparr>sv_deadline := server_readDeadline lib s\<rparr>"]
      by (auto dest: listenRound_packet)
  qed (auto simp: listenRound_def Let_def)
  then obtain x t where "listenRound lib ev s = Some (x, t)" "\<And>y. x = Some y \<Longrightarrow> ev = DeadlineErr y \<or> ev = ReadErr y \<and> y \<noteq> ErrDeadlineExceeded"
    by blast
  then show ?case using Cons.IH [of t] by (cases x) auto
qed simp

text \<open>The witness: two packets of the handshake, a foreign packet, and the loss of the socket.\<close>

lemma tiny_drains: "drains tinyQuiche id"
  by (auto simp: drains_def tinyQuiche_def split: if_splits)

theorem listen_survives_witness:
  "\<exists>e s'. server_listen tinyQuiche [Packet [1, 1, 2, 2] ''a:1'', Packet ([9, 0, 2, 2] @ tinyToken) ''a:1'', Packet [0] ''b:2'', ReadErr EOF]
     tinyServer = Some (e, s')"
  using listen_survives [OF tiny_drains,
      of "[Packet [1, 1, 2, 2] ''a:1'', Packet ([9, 0, 2, 2] @ tinyToken) ''a:1'', Packet [0] ''b:2'', ReadErr EOF]" tinyServer]
  by blast

lemma tiny_stream: "server_recvStream tinyQuiche room n = Some 0"
  by (induction n) (subst server_recvStream.simps, simp add: tinyQuiche_def)+

lemma tiny_listen:
  "quicheListen tinyQuiche (Inr \<lparr>so_sent = [], so_outs = []\<rparr>) (\<lambda>n. [9, of_nat n]) [Packet ([9, 0, 2, 2] @ tinyToken) ''a:1'']
     = Some (None, Some (tinyServer\<lparr>sv_conns := [([9, 0], \<lparr>sc_addr = ''a:1'', sc_conn = 0\<rparr>)]\<rparr>))"
proof -
  have "server_headerInfo tinyQuiche (take bufferSize ([9, 0, 2, 2] @ tinyToken))
    = Inr \<lparr>h_Version = 1, h_SCID = [2, 2], h_DCID = [9, 0], h_Token = tinyToken\<rparr>"
    by (simp add: server_headerInfo_def tinyQuiche_def tinyToken_def bufferSize_def maxTokenLen_def)
  moreover have "validateToken ''a:1'' tinyToken = [1, 1]" "tinyToken \<noteq> []"
    by (simp_all add: validateToken_def tinyToken_def)
  moreover have "q_ProtocolVersion tinyQuiche = 1" "q_Recv tinyQuiche bs q = (None, q)" "q_IsEstablished tinyQuiche q"
    "q_Send tinyQuiche n q = (Inl ErrDone, q)" "\<not> q_IsClosed tinyQuiche q" for bs q n
    by (simp_all add: tinyQuiche_def)
  ultimately show ?thesis
    by (simp add: quicheListen_def listenRound_def server_recv_def server_accept_def server_process_def tiny_stream server_no_deadline
        putConn_def server_send_def server_close_def tinyServer_def)
qed

theorem conns_validated_witness:
  "\<exists>bs h odcid. Packet bs ''a:1'' \<in> set [Packet ([9, 0, 2, 2] @ tinyToken) ''a:1'']
     \<and> server_headerInfo tinyQuiche (take bufferSize bs) = Inr h \<and> h_DCID h = [9, 0] \<and> h_Version h = q_ProtocolVersion tinyQuiche
     \<and> odcid \<noteq> [] \<and> h_Token h = bytes_of ''quiche'' @ bytes_of ''a:1'' @ odcid"
  using conns_validated [OF tiny_listen, of "[9, 0]" "\<lparr>sc_addr = ''a:1'', sc_conn = 0\<rparr>"] by simp

section \<open>The two ways to send\<close>

text \<open>\<open>queue\<close> gives the datagrams that a connection has ready.\<close>

definition sendsQueue :: "'q quicheLib \<Rightarrow> nat \<Rightarrow> ('q \<Rightarrow> byte list list) \<Rightarrow> bool" where
  "sendsQueue lib room queue \<longleftrightarrow> (\<forall>q. case queue q of
       [] \<Rightarrow> q_Send lib room q = (Inl ErrDone, q)
     | d # ds \<Rightarrow> fst (q_Send lib room q) = Inr d \<and> queue (snd (q_Send lib room q)) = ds)"

lemma sendsQueueD:
  assumes "sendsQueue lib room queue"
  shows "queue q = [] \<Longrightarrow> q_Send lib room q = (Inl ErrDone, q)"
    and "queue q = d # ds \<Longrightarrow> \<exists>q'. q_Send lib room q = (Inr d, q') \<and> queue q' = ds"
  using assms [unfolded sendsQueue_def, rule_format, of q] by (auto simp: prod_eq_iff intro: exI [of _ "snd (q_Send lib room q)"])

lemma sockWrite_ok: "so_outs so = [] \<Longrightarrow> sockWrite bs addr so = (None, so\<lparr>so_sent := so_sent so @ [(addr, bs)]\<rparr>)"
  by (cases so) (simp add: sockWrite_def)

text \<open>The client sends all of them, in order.\<close>

lemma client_send_complete:
  assumes "sendsQueue lib room queue" and "so_outs (cl_socket c) = []"
  shows "\<exists>c'. client_send lib room c = Some (None, c') \<and> queue (cl_conn c') = []
     \<and> so_sent (cl_socket c') = so_sent (cl_socket c) @ map (Pair []) (queue (cl_conn c)) \<and> cl_in c' = cl_in c"
  using assms(2)
proof (induction "queue (cl_conn c)" arbitrary: c)
  case Nil
  then show ?case using sendsQueueD(1) [OF assms(1), of "cl_conn c"] by (simp add: client_send.simps)
next
  case (Cons d ds)
  obtain q' where q: "q_Send lib room (cl_conn c) = (Inr d, q')" "queue q' = ds"
    using sendsQueueD(2) [OF assms(1)] Cons.hyps(2) by metis
  define c1 where "c1 = c\<lparr>cl_conn := q', cl_socket := (cl_socket c)\<lparr>so_sent := so_sent (cl_socket c) @ [([], d)]\<rparr>\<rparr>"
  have "client_send lib room c = client_send lib room c1"
    using q(1) Cons.prems by (subst client_send.simps) (simp add: sockWrite_ok c1_def)
  moreover obtain c' where "client_send lib room c1 = Some (None, c') \<and> queue (cl_conn c') = []
     \<and> so_sent (cl_socket c') = so_sent (cl_socket c1) @ map (Pair []) (queue (cl_conn c1)) \<and> cl_in c' = cl_in c1"
    using Cons.hyps(1) [of c1] q(2) Cons.prems by (auto simp: c1_def)
  ultimately show ?case using q(2) Cons.hyps(2) [symmetric] by (simp add: c1_def)
qed

text \<open>The server sends the first of each connection only; and as it sets no deadline, it then waits for another packet.\<close>

lemma server_send_one:
  assumes "sendsQueue lib room queue" and "so_outs so = []"
  shows "so_sent (snd (snd (sendConns lib room cs so))) = so_sent so @
     concat (map (\<lambda>(k, c). map (Pair (sc_addr c)) (take 1 (queue (sc_conn c)))) cs)"
  using assms(2)
proof (induction cs arbitrary: so)
  case (Cons kc cs)
  obtain k c where kc: "kc = (k, c)" by (cases kc)
  show ?case
  proof (cases "queue (sc_conn c)")
    case Nil
    then show ?thesis using sendsQueueD(1) [OF assms(1) Nil] Cons by (simp add: kc split_beta Let_def)
  next
    case (Cons d ds)
    obtain q' where q: "q_Send lib room (sc_conn c) = (Inr d, q')" using sendsQueueD(2) [OF assms(1) Cons] by blast
    show ?thesis using q Cons.IH [of "so\<lparr>so_sent := so_sent so @ [(sc_addr c, d)]\<rparr>"] Cons.prems Cons
      by (simp add: kc split_beta Let_def sockWrite_ok)
  qed
qed simp

text \<open>A connection that is closed before it is established counts as connected: \<open>connect\<close> returns no error.\<close>

lemma connect_closed_ok:
  assumes "client_send lib bufferSize c = Some (None, c1)" "client_recv lib c1 = Some (None, c2)" "q_IsClosed lib (cl_conn c2)"
  shows "client_connect lib c = Some (None, c2)"
  using assms by (simp add: client_connect_def connectLoop.simps [of lib c1])

text \<open>The first goroutine does not wait: on an open connection with nothing to send it turns forever.\<close>

lemma clientSender_spins:
  assumes "q_Send lib maxDatagramSize (cl_conn c) = (Inl ErrDone, cl_conn c)" and "\<not> q_IsClosed lib (cl_conn c)"
  shows "clientSender lib c = None"
proof -
  have same: "client_send lib maxDatagramSize c = Some (None, c)" using assms(1) by (subst client_send.simps) simp
  have never: "l = lib \<longrightarrow> d \<noteq> c" if "clientSender l d = Some r" for l d r
  proof (induction rule: clientSender.raw_induct [OF _ that])
    case (1 f l d r)
    then show ?case using same assms(2) by (auto split: option.splits prod.splits if_splits)
  qed
  show ?thesis using never [of lib c] by (cases "clientSender lib c") auto
qed

end
