(* ===== verification/Quic.thy ===== *)
theory Quic
  imports Gateway
begin

text \<open>
  \<^verbatim>\<open>src/pkg/quic/quic.go\<close> and \<^verbatim>\<open>src/pkg/quic/mux.go\<close>: the raw streams of QUIC. A stream starts with a header that names the
  destination; the handler dials it, answers with a header of its own, and relays. The code is written on \<open>nio2\<close>, the copy
  of \<open>nio\<close>: its \<open>GetStream\<close>, \<open>ReadHeader\<close>, \<open>SendHeader\<close> and \<open>Proxy\<close> are those of the theories of \<open>nio\<close>.

  The QUIC library is a parameter: a stream is a reader and a writer, a session the outcomes of its calls.
  \<open>readMIMEHeader\<close> stands for the parser of \<open>net/textproto\<close>, as in \<open>ReadHeader\<close>.
\<close>

section \<open>Ports\<close>

text \<open>\<open>GetPort\<close>, which \<^verbatim>\<open>src/cmd/ugate_core.go\<close> has as well. \<open>splitHostPort\<close> gives the port of an address, \<open>None\<close> for an error.
  \<open>strconv.Atoi\<close> takes a sign and decimal digits within 64 bits; the port is then cut to 32 bits.\<close>

definition Atoi :: "string \<Rightarrow> int option" where
  "Atoi s = (let (neg, ds) = (case s of c # r \<Rightarrow> if c = CHR ''-'' then (True, r) else if c = CHR ''+'' then (False, r) else (False, s)
       | [] \<Rightarrow> (False, [])); v = (if neg then - int (digits_val ds) else int (digits_val ds))
     in if ds \<noteq> [] \<and> list_all is_digit ds \<and> - (2 ^ 63) \<le> v \<and> v < 2 ^ 63 then Some v else None)"

definition GetPort :: "(string \<Rightarrow> string option) \<Rightarrow> string \<Rightarrow> 32 word \<Rightarrow> 32 word" where
  "GetPort splitHostPort a dp = (if a = [] then dp
     else case splitHostPort a of None \<Rightarrow> dp
     | Some p \<Rightarrow> (case Atoi p of None \<Rightarrow> dp | Some pp \<Rightarrow> of_int pp))"

section \<open>Raw streams\<close>

definition quicStreamCaps :: caps where
  "quicStreamCaps = \<lparr>isTCPConn = False, isConn = False, isCloser = True, isCloseWriter = False, isResponseWriter = False, isFlusher = False\<rparr>"

text \<open>The function that the handler stores as \<open>PostDialHandler\<close>. Its arguments, the connection and the error, are not used; the
  error of \<open>SendHeader\<close> is dropped.\<close>

definition rawPostDial :: "stream \<Rightarrow> stream option" where
  "rawPostDial str = (let (h, str) = stream_Header [] str; h = Header_Set h ''status'' ''200''; str = str\<lparr>OutHeader := Some h\<rparr> in do {
     (_, w, str) \<leftarrow> SendHeader (st_Out str) h str;
     Some (str\<lparr>st_Out := w\<rparr>) })"

text \<open>\<open>handleRaw\<close>: the stream at its end, and the state of the proxy when there is one.\<close>

record rawResult =
  rr_stream :: stream
  rr_proxy :: "(goerr option \<times> proxyState) option"
  rr_cnt :: "u32 \<times> u32"

definition handleRaw :: "(byte list \<Rightarrow> header) \<Rightarrow> (string \<Rightarrow> goerr + endpoint) \<Rightarrow> bool \<Rightarrow> nio_pools \<Rightarrow> u32 \<times> u32 \<Rightarrow> reader \<Rightarrow> writer
    \<Rightarrow> rawResult option" where
  "handleRaw readMIMEHeader dial first p cnt inp out = do {
     (err, inp, str) \<leftarrow> ReadHeader readMIMEHeader inp (GetStream (out, quicStreamCaps) (inp, quicStreamCaps) p);
     let str = str\<lparr>st_In := inp\<rparr>;
     if err \<noteq> None then Some \<lparr>rr_stream = str, rr_proxy = None, rr_cnt = cnt\<rparr>
     else let str = str\<lparr>Dest := Header_Get (InHeader str) ''dest'', PostDialHandler := True\<rparr> in
       case dial (Dest str) of
         Inl _ \<Rightarrow> do {
           str \<leftarrow> rawPostDial str;
           Some \<lparr>rr_stream = str, rr_proxy = None, rr_cnt = cnt\<rparr> }
       | Inr nc \<Rightarrow> do {
           str \<leftarrow> rawPostDial str;
           (err, ps, cnt) \<leftarrow> Proxy first nc (streamReader str, inOutStreamCaps) (st_Out str, inOutStreamCaps) (Dest str) cnt;
           Some \<lparr>rr_stream = str, rr_proxy = Some (err, ps), rr_cnt = cnt\<rparr> } }"

section \<open>Sessions\<close>

text \<open>\<open>DialMux\<close> and \<open>DialContext\<close>: the outcomes of resolving, listening, dialing the session and opening a stream. A session is a
  number; the goroutines that \<open>DialMux\<close> starts accept streams and messages until the session ends.\<close>

record quicMUX =
  qm_client :: bool
  qm_Addr :: string
  qm_s :: "nat option"

definition quic_DialMux :: "(string \<Rightarrow> goerr + string) \<Rightarrow> goerr option \<Rightarrow> (string \<Rightarrow> goerr + nat) \<Rightarrow> quicMUX \<Rightarrow> goerr option \<times> quicMUX" where
  "quic_DialMux resolve listenErr dialEarly ugc = (case resolve (qm_Addr ugc) of
     Inl e \<Rightarrow> (Some e, ugc)
   | Inr a \<Rightarrow> (case listenErr of Some e \<Rightarrow> (Some e, ugc)
     | None \<Rightarrow> (case dialEarly a of Inl e \<Rightarrow> (Some e, ugc) | Inr s \<Rightarrow> (None, ugc\<lparr>qm_s := Some s\<rparr>))))"

definition mux_DialContext :: "(nat \<Rightarrow> goerr + endpoint) \<Rightarrow> quicMUX \<Rightarrow> (goerr + endpoint) option" where
  "mux_DialContext openStream ugs = map_option openStream (qm_s ugs)"

definition quic_DialContext :: "(string \<Rightarrow> goerr + string) \<Rightarrow> goerr option \<Rightarrow> (string \<Rightarrow> goerr + nat) \<Rightarrow> (nat \<Rightarrow> goerr + endpoint) \<Rightarrow> string
    \<Rightarrow> (goerr + endpoint) option" where
  "quic_DialContext resolve listenErr dialEarly openStream addr =
     (let (err, ugc) = quic_DialMux resolve listenErr dialEarly \<lparr>qm_client = True, qm_Addr = addr, qm_s = None\<rparr>
      in case err of Some e \<Rightarrow> Some (Inl e) | None \<Rightarrow> mux_DialContext openStream ugc)"

text \<open>The loops that accept streams (in \<open>DialMux\<close> and in \<open>Start\<close>) and messages: on the results to come, what is handled.\<close>

fun acceptLoop :: "(goerr + 'a) list \<Rightarrow> 'a list" where
  "acceptLoop [] = []"
| "acceptLoop (Inl e # r) = []"
| "acceptLoop (Inr x # r) = x # acceptLoop r"

definition handleMessages :: "(goerr + byte list) list \<Rightarrow> byte list list" where
  "handleMessages ds = filter (\<lambda>d. d \<noteq> []) (acceptLoop ds)"

section \<open>Reading the header\<close>

text \<open>\<open>io.ReadFull\<close> takes exactly the bytes it is asked for, however the connection delivers them.\<close>

lemma readFull_exact:
  assumes "plain_reader r" "length got \<le> n" "n \<le> length got + length (reader_bytes r)"
  shows "\<exists>bs r'. readFull n got r = Some ((got @ bs, None), r') \<and> length (got @ bs) = n \<and> reader_bytes r = bs @ reader_bytes r' \<and> plain_reader r'"
  using assms
proof (induction "reader_size r" arbitrary: got r rule: less_induct)
  case less
  show ?case
  proof (cases "length got = n")
    case True
    then show ?thesis using less.prems(1) by (intro exI [of _ "[]"] exI [of _ r]) (simp add: readFull.simps [of n got r])
  next
    case False
    then have lt: "length got < n" using less.prems(2) by simp
    obtain bs e r' where rd: "go_read (n - length got) r = (bs, e, r')" by (metis prod_cases3)
    note b = go_read_bytes [OF rd] and l = go_read_length [OF rd] and pl = go_read_plain [OF less.prems(1) rd]
    have e: "e = None" using pl less.prems(3) lt by (cases e) auto
    have step: "readFull n got r = (if length (got @ bs) \<ge> n then Some ((got @ bs, None), r') else readFull n (got @ bs) r')"
      by (subst readFull.simps) (use lt rd e in \<open>simp add: Let_def\<close>)
    show ?thesis
    proof (cases "length (got @ bs) \<ge> n")
      case True
      then show ?thesis using step b l pl lt by auto
    next
      case False
      have "reader_size r' < reader_size r" using go_read_size [OF rd [unfolded e]] lt by simp
      from less.hyps [OF this, of "got @ bs"] False pl less.prems(3) b
      obtain cs r'' where "readFull n (got @ bs) r' = Some (((got @ bs) @ cs, None), r'')" "length ((got @ bs) @ cs) = n"
        "reader_bytes r' = cs @ reader_bytes r''" "plain_reader r''" by auto
      then show ?thesis using step False b by (intro exI [of _ "bs @ cs"] exI [of _ r'']) simp
    qed
  qed
qed

text \<open>A header in the form that \<open>ReadHeader\<close> reads: a byte, the length and the text.\<close>

lemma ReadHeader_frame:
  assumes "plain_reader r" "reader_bytes r = t # le32_bytes (of_nat (length hdr)) @ hdr @ rest" "length hdr \<le> 32768"
  shows "\<exists>r'. ReadHeader parse r s = Some (None, r', s\<lparr>InHeader := parse hdr\<rparr>) \<and> reader_bytes r' = rest \<and> plain_reader r'"
proof -
  let ?n = "of_nat (length hdr) :: u32"
  have n: "unat ?n = length hdr" "\<not> ?n > 32 * 1024"
    using assms(3) by (simp_all add: unsigned_of_nat take_bit_nat_eq_self word_less_nat_alt)
  obtain h r1 where r1: "readFull 5 [] r = Some ((h, None), r1)" "length h = 5" "reader_bytes r = h @ reader_bytes r1" "plain_reader r1"
    using readFull_exact [OF assms(1), of "[]" 5] assms(2) by (auto simp: length_endian)
  have eq: "h @ reader_bytes r1 = (t # le32_bytes ?n) @ hdr @ rest" using trans [OF r1(3) [symmetric] assms(2)] by simp
  have "length h = length (t # le32_bytes ?n)" using r1(2) by (simp add: length_endian)
  note h = append_eq_append_conv [THEN iffD1, OF disjI1 [OF this] eq, THEN conjunct1]
    append_eq_append_conv [THEN iffD1, OF disjI1 [OF this] eq, THEN conjunct2]
  have "length hdr \<le> length (reader_bytes r1)" by (simp add: h(2))
  then obtain bs r2 where r2: "readFull (length hdr) [] r1 = Some ((bs, None), r2)" "length bs = length hdr" "reader_bytes r1 = bs @ reader_bytes r2" "plain_reader r2"
    using readFull_exact [OF r1(4), of "[]" "length hdr"] by auto
  have "bs @ reader_bytes r2 = hdr @ rest" using trans [OF r2(3) [symmetric] h(2)] .
  from append_eq_append_conv [THEN iffD1, OF disjI1 [OF r2(2)] this] have bs: "bs = hdr" "reader_bytes r2 = rest" by simp_all
  have "le32_val (drop 1 (h @ replicate (5 - length h) 0)) = Some ?n" using h(1) r1(2) le32_roundtrip [of ?n "[]"] by simp
  then have "ReadHeader parse r s = Some (None, r2, s\<lparr>InHeader := parse hdr\<rparr>)"
    using n r1(1) r2(1) bs(1) by (simp add: ReadHeader_def)
  then show ?thesis using bs(2) r2(4) by blast
qed

section \<open>The answer\<close>

text \<open>What the handler answers: the pair \<open>Status: 200\<close> in binary, the start of which the length is written over, and again as text.\<close>

definition rawReply :: "byte list" where
  "rawReply = 1 # le32_bytes 26 @ bytes_of ''tus'' @ [6] @ bytes_of ''200'' @ [0, 2, 0, 0, 0, 0]
     @ bytes_of ''Status: 200'' @ [13, 10]"

lemma status_set: "Header_Set [] ''status'' ''200'' = [(''Status'', [''200''])]"
  by code_simp

lemma status_text: "headerText (str\<lparr>OutHeader := Some [(''Status'', [''200''])]\<rparr>) = bytes_of ''Status: 200'' @ [13, 10]"
  by (simp add: headerText_def header_strings_def header_value_def is_token_def is_space_def
      of_char_char_of_byte [of 13, simplified] of_char_char_of_byte [of 10, simplified])

lemma rawPostDial_spec:
  assumes "wbuffer str = None" "OutHeader str = None" "w_next (st_Out str) = []" "st_OutCaps str = quicStreamCaps"
  shows "\<exists>str'. rawPostDial str = Some str' \<and> st_Out str' = (st_Out str)\<lparr>w_out := w_out (st_Out str) @ rawReply\<rparr>
    \<and> Dest str' = Dest str \<and> st_In str' = st_In str \<and> rbuffer str' = rbuffer str"
proof -
  define s1 where "s1 = str\<lparr>OutHeader := Some [(''Status'', [''200''])]\<rparr>"
  have pb: "pairBytes (''Status'', ''200'') = 1 # 12 # bytes_of ''Status'' @ 6 # bytes_of ''200''"
    by (simp add: pairBytes_def varint_bytes_def uvarint_bytes.simps)
  obtain bb p where "SendHeader (st_Out str) [(''Status'', [''200''])] s1
     = Some (None, (st_Out str)\<lparr>w_out := w_out (st_Out str) @ rawReply\<rparr>, s1\<lparr>st_pools := p, wbuffer := Some bb\<rparr>)"
    using SendHeader_sends [of s1 "st_Out str" "[(''Status'', [''200''])]" "[(''Status'', ''200'')]" 1
        "12 # bytes_of ''Status'' @ 6 # bytes_of ''200'' @ [0, 2, 0, 0, 0, 0] @ bytes_of ''Status: 200'' @ [13, 10]"] assms
    by (auto simp: s1_def status_text pb rawReply_def)
  then show ?thesis using assms
    by (simp add: rawPostDial_def stream_Header_def quicStreamCaps_def status_set s1_def [symmetric]) (simp add: s1_def)
qed

section \<open>Properties\<close>

text \<open>The run of the handler, for the properties here and for handlers in a row.\<close>

lemma raw_run:
  assumes "plain_reader inp" "reader_bytes inp = t # le32_bytes (of_nat (length hdr)) @ hdr @ rest" "length hdr \<le> 32768"
    and "dial (Header_Get (parse hdr) ''dest'') = Inr nc" "plain_reader (e_in nc)" "w_next (e_out nc) = []" "closable (e_caps nc)" "w_next out = []"
  shows "\<exists>res ps. handleRaw parse dial first p cnt inp out = Some res \<and> rr_proxy res = Some (None, ps)
    \<and> w_out (Out (p1 ps)) = w_out (e_out nc) @ rest
    \<and> w_out (Out (p2 ps)) = w_out out @ rawReply @ reader_bytes (e_in nc)"
proof -
  define s0 where "s0 = GetStream (out, quicStreamCaps) (inp, quicStreamCaps) p"
  obtain r' where r: "ReadHeader parse inp s0 = Some (None, r', s0\<lparr>InHeader := parse hdr\<rparr>)" "reader_bytes r' = rest" "plain_reader r'"
    using ReadHeader_frame [OF assms(1-3)] by blast
  define d where "d = Header_Get (parse hdr) ''dest''"
  define s1 where "s1 = s0\<lparr>InHeader := parse hdr, st_In := r', Dest := d, PostDialHandler := True\<rparr>"
  obtain s2 where s2: "rawPostDial s1 = Some s2" "st_Out s2 = out\<lparr>w_out := w_out out @ rawReply\<rparr>" "Dest s2 = d" "st_In s2 = r'" "rbuffer s2 = None"
    using rawPostDial_spec [of s1] assms(8) by (auto simp: s1_def s0_def GetStream_def NewStream_def)
  have "streamReader s2 = r'" using s2 by (simp add: streamReader_def bufferedReader_def)
  moreover obtain ps cnt' where "Proxy first nc (r', inOutStreamCaps) (st_Out s2, inOutStreamCaps) d cnt = Some (None, ps, cnt')"
    "w_out (Out (p1 ps)) = w_out (e_out nc) @ reader_bytes r'" "w_out (Out (p2 ps)) = w_out (st_Out s2) @ reader_bytes (e_in nc)"
    by (rule Proxy_complete [where inp = "(r', inOutStreamCaps)" and w = "(st_Out s2, inOutStreamCaps)" and outConn = nc
          and first = first and dest = d and cnt = cnt])
      (use assms r s2 in \<open>auto simp: closable_def inOutStreamCaps_def\<close>)
  ultimately show ?thesis using r s2 assms(4)
    by (simp add: handleRaw_def s0_def [symmetric] d_def [symmetric] s1_def [symmetric])
qed

text \<open>C15: Raw streams are relayed. When a stream starts with a header, delivered in whatever pieces, that names a destination which
  can be dialed, the destination receives exactly the bytes that follow the header, and the stream receives the fixed answer of the
  handler followed by exactly the bytes of the destination.\<close>

theorem raw_relays:
  assumes "plain_reader inp" "reader_bytes inp = t # le32_bytes (of_nat (length hdr)) @ hdr @ rest" "length hdr \<le> 32768"
    and "dial (Header_Get (parse hdr) ''dest'') = Inr nc" "plain_reader (e_in nc)" "w_next (e_out nc) = []" "closable (e_caps nc)" "w_next out = []"
  shows "\<exists>res ps. handleRaw parse dial first p cnt inp out = Some res \<and> rr_proxy res = Some (None, ps)
    \<and> w_out (Out (p1 ps)) = w_out (e_out nc) @ rest
    \<and> w_out (Out (p2 ps)) = w_out out @ rawReply @ reader_bytes (e_in nc)"
  using assms by (rule raw_run)

theorem raw_relays_witness:
  "\<exists>res ps. handleRaw (\<lambda>bs. [(''Dest'', [str_of bs])]) (\<lambda>a. if a = ''h:1'' then Inr \<lparr>e_in = [([7], None)], e_out = \<lparr>w_out = [], w_next = []\<rparr>, e_caps = tcpCaps\<rparr>
      else Inl (ErrMsg ''unknown'')) True noPools (0, 0) [([2, 3, 0], None), (0 # 0 # bytes_of ''h:'', None), (bytes_of ''1'' @ [5, 6], None)]
      \<lparr>w_out = [], w_next = []\<rparr> = Some res \<and> rr_proxy res = Some (None, ps)
    \<and> w_out (Out (p1 ps)) = [5, 6] \<and> w_out (Out (p2 ps)) = rawReply @ [7]"
proof -
  define nc where "nc = \<lparr>e_in = [([7], None)] :: reader, e_out = \<lparr>w_out = [], w_next = []\<rparr>, e_caps = tcpCaps\<rparr>"
  define dial where "dial = (\<lambda>a. if a = ''h:1'' then Inr nc else Inl (ErrMsg ''unknown''))"
  define parse :: "byte list \<Rightarrow> header" where "parse = (\<lambda>bs. [(''Dest'', [str_of bs])])"
  define inp :: reader where "inp = [([2, 3, 0], None), (0 # 0 # bytes_of ''h:'', None), (bytes_of ''1'' @ [5, 6], None)]"
  have "Header_Get (parse (bytes_of ''h:1'')) ''dest'' = ''h:1''"
    unfolding parse_def str_of_bytes_of by code_simp
  then have d: "dial (Header_Get (parse (bytes_of ''h:1'')) ''dest'') = Inr nc" by (simp add: dial_def)
  have r: "reader_bytes inp = 2 # le32_bytes (of_nat (length (bytes_of ''h:1''))) @ bytes_of ''h:1'' @ [5, 6]"
    by (simp add: inp_def io_simps le32_bytes_def)
  have "\<exists>res ps. handleRaw parse dial True noPools (0, 0) inp \<lparr>w_out = [], w_next = []\<rparr> = Some res \<and> rr_proxy res = Some (None, ps)
    \<and> w_out (Out (p1 ps)) = w_out (e_out nc) @ [5, 6] \<and> w_out (Out (p2 ps)) = w_out \<lparr>w_out = [], w_next = []\<rparr> @ rawReply @ reader_bytes (e_in nc)"
    by (rule raw_relays [where parse = parse and hdr = "bytes_of ''h:1''" and dial = dial and nc = nc and inp = inp, OF _ r _ d])
      (simp_all add: inp_def nc_def plain_reader_def closable_def tcpCaps_def)
  then show ?thesis unfolding dial_def nc_def parse_def inp_def by (auto simp: io_simps)
qed

text \<open>A destination that cannot be dialed gets the same answer, status 200; nothing is relayed, and the stream is left open.\<close>

lemma raw_dial_error:
  assumes "plain_reader inp" "reader_bytes inp = t # le32_bytes (of_nat (length hdr)) @ hdr @ rest" "length hdr \<le> 32768"
    and "dial (Header_Get (parse hdr) ''dest'') = Inl e" "w_next out = []"
  shows "\<exists>res. handleRaw parse dial first p cnt inp out = Some res \<and> rr_proxy res = None
    \<and> w_out (st_Out (rr_stream res)) = w_out out @ rawReply"
proof -
  define s0 where "s0 = GetStream (out, quicStreamCaps) (inp, quicStreamCaps) p"
  obtain r' where r: "ReadHeader parse inp s0 = Some (None, r', s0\<lparr>InHeader := parse hdr\<rparr>)"
    using ReadHeader_frame [OF assms(1-3)] by blast
  define d where "d = Header_Get (parse hdr) ''dest''"
  define s1 where "s1 = s0\<lparr>InHeader := parse hdr, st_In := r', Dest := d, PostDialHandler := True\<rparr>"
  obtain s2 where s2: "rawPostDial s1 = Some s2" "st_Out s2 = out\<lparr>w_out := w_out out @ rawReply\<rparr>"
    using rawPostDial_spec [of s1] assms(5) by (auto simp: s1_def s0_def GetStream_def NewStream_def)
  then show ?thesis using r assms(4) by (simp add: handleRaw_def s0_def [symmetric] d_def [symmetric] s1_def [symmetric])
qed

text \<open>A port number above 32 bits is cut: the address names one port and another is used.\<close>

lemma getPort_wraps: "GetPort (\<lambda>_. Some ''4294967376'') '':4294967376'' 8443 = 80"
  by (simp add: GetPort_def Atoi_def is_digit_def digits_val_def)

end
