(* ===== verification/Passkey.thy ===== *)
theory Passkey
  imports Http_Proxy "HOL-Library.AList"
begin

text \<open>
  \<^verbatim>\<open>src/pkg/passkey/passkey_server.go\<close>: a WebAuthn server. It issues challenges, registers public keys by their credential id, and
  accepts a login when the assertion verifies under the stored key, with the challenge issued to the user and a signature counter
  that protects against replay.

  The \<open>passkey\<close> library, JSON and base64 are the fields of \<open>passkeyLib\<close>, for keys of a type \<open>'k\<close>. The two maps, each under its
  own lock, are association lists. A request carries the outcome of \<open>GenerateChallenge\<close>, its body is what \<open>io.ReadAll\<close> gives.
  \<open>None\<close> is a panic. The handlers are given as a whole, for requests one after the other, and split at their locks, for requests
  that run at the same time.
\<close>

section \<open>The library and the state\<close>

datatype pkErr = PasskeyError string int | OtherErr string

record authData =
  au_CredID :: "byte list"
  au_PublicKey :: "byte list"
  au_SignCount :: u32

record 'k passkeyLib =
  pk_ParseAttestationObject :: "string \<Rightarrow> pkErr + byte list"
  pk_ParseAuthData :: "byte list \<Rightarrow> pkErr + authData"
  pk_ConvertCOSEKeyToECDSA :: "byte list \<Rightarrow> pkErr + 'k"
  pk_VerifyAssertion :: "byte list \<Rightarrow> string \<Rightarrow> string \<Rightarrow> string \<Rightarrow> u32 \<Rightarrow> 'k \<Rightarrow> pkErr + u32"
  pk_RegisterReq :: "byte list \<Rightarrow> string \<times> string" \<comment> \<open>attestation and user id, as \<open>json.Unmarshal\<close> leaves them\<close>
  pk_LoginReq :: "byte list \<Rightarrow> (string \<times> string) option" \<comment> \<open>raw id and user id, \<open>None\<close> for an error\<close>
  pk_RawURLEncoding :: "byte list \<Rightarrow> string"
  pk_Encode :: "(string \<times> string) list \<Rightarrow> byte list"

record 'k credential =
  cd_Key :: "'k option" \<comment> \<open>\<open>None\<close>: the nil pointer\<close>
  cd_SignCount :: u32

record 'k passkeyState =
  ps_db :: "(string \<times> 'k credential) list"
  ps_challenges :: "(string \<times> string) list"

definition newPasskeyState :: "'k passkeyState" where
  "newPasskeyState = \<lparr>ps_db = [], ps_challenges = []\<rparr>"

section \<open>The credential store\<close>

definition StoreCredential :: "string \<Rightarrow> string \<Rightarrow> 'k \<Rightarrow> u32 \<Rightarrow> 'k passkeyState \<Rightarrow> 'k passkeyState" where
  "StoreCredential userID credID pubKey signCount st =
     st\<lparr>ps_db := AList.update credID \<lparr>cd_Key = Some pubKey, cd_SignCount = signCount\<rparr> (ps_db st)\<rparr>"

definition LookupCredential :: "string \<Rightarrow> 'k passkeyState \<Rightarrow> goerr + 'k option \<times> u32" where
  "LookupCredential credID st = (case map_of (ps_db st) credID of
     None \<Rightarrow> Inl (ErrMsg ''not found'')
   | Some r \<Rightarrow> Inr (cd_Key r, cd_SignCount r))"

definition UpdateSignCount :: "string \<Rightarrow> u32 \<Rightarrow> 'k passkeyState \<Rightarrow> 'k passkeyState" where
  "UpdateSignCount credID newCount st =
     (let r = (case map_of (ps_db st) credID of None \<Rightarrow> \<lparr>cd_Key = None, cd_SignCount = 0\<rparr> | Some r \<Rightarrow> r)
      in st\<lparr>ps_db := AList.update credID (r\<lparr>cd_SignCount := newCount\<rparr>) (ps_db st)\<rparr>)"

section \<open>The handlers\<close>

definition handlePasskeyError :: "pkErr \<Rightarrow> responseWriter \<Rightarrow> responseWriter" where
  "handlePasskeyError err w = (case err of
     PasskeyError msg status \<Rightarrow> http_Error msg status w
   | OtherErr _ \<Rightarrow> http_Error ''internal server error'' 500 w)"

definition sendJson :: "'k passkeyLib \<Rightarrow> (string \<times> string) list \<Rightarrow> responseWriter \<Rightarrow> responseWriter" where
  "sendJson lib m w = (let w = w\<lparr>rw_Header := Header_Set (rw_Header w) ''Content-Type'' ''application/json''\<rparr>;
     (_, _, b) = go_write (pk_Encode lib m) (rw_Body w) in w\<lparr>rw_Body := b\<rparr>)"

text \<open>What a registration extracts: the credential id, the key and the counter.\<close>

definition attested :: "'k passkeyLib \<Rightarrow> byte list \<Rightarrow> pkErr + string \<times> 'k \<times> u32" where
  "attested lib body = (case pk_ParseAttestationObject lib (fst (pk_RegisterReq lib body)) of
     Inl e \<Rightarrow> Inl e
   | Inr att \<Rightarrow> (case pk_ParseAuthData lib att of
       Inl e \<Rightarrow> Inl e
     | Inr au \<Rightarrow> (case pk_ConvertCOSEKeyToECDSA lib (au_PublicKey au) of
         Inl e \<Rightarrow> Inl e
       | Inr k \<Rightarrow> Inr (pk_RawURLEncoding lib (au_CredID au), k, au_SignCount au))))"

definition handleRegisterFinish :: "'k passkeyLib \<Rightarrow> byte list \<Rightarrow> responseWriter \<Rightarrow> 'k passkeyState \<Rightarrow> responseWriter \<times> 'k passkeyState" where
  "handleRegisterFinish lib body w st = (case attested lib body of
     Inl e \<Rightarrow> (handlePasskeyError e w, st)
   | Inr (credID, k, n) \<Rightarrow>
       (let (_, _, b) = go_write (bytes_of ''registration OK'') (rw_Body w)
        in (w\<lparr>rw_Body := b\<rparr>, StoreCredential (snd (pk_RegisterReq lib body)) credID k n st)))"

text \<open>The three locked sections of a login: the lookup, the challenge (absent: the empty string) with the verification, and the
  new counter.\<close>

definition origin :: string where "origin = ''http://localhost:8080''"
definition rpID :: string where "rpID = ''localhost''"

definition loginLookup :: "'k passkeyLib \<Rightarrow> byte list \<Rightarrow> responseWriter \<Rightarrow> 'k passkeyState \<Rightarrow> responseWriter + string \<times> string \<times> 'k option \<times> u32" where
  "loginLookup lib body w st = (case pk_LoginReq lib body of
     None \<Rightarrow> Inl (http_Error ''invalid json'' 400 w)
   | Some (rawID, userID) \<Rightarrow> (case LookupCredential rawID st of
       Inl e \<Rightarrow> Inl (http_Error (err_string e) 400 w)
     | Inr (k, n) \<Rightarrow> Inr (rawID, userID, k, n)))"

definition expectedChallenge :: "string \<Rightarrow> 'k passkeyState \<Rightarrow> string" where
  "expectedChallenge userID st = (case map_of (ps_challenges st) userID of None \<Rightarrow> [] | Some c \<Rightarrow> c)"

definition loginVerify :: "'k passkeyLib \<Rightarrow> byte list \<Rightarrow> responseWriter \<Rightarrow> string \<Rightarrow> 'k option \<Rightarrow> u32 \<Rightarrow> 'k passkeyState \<Rightarrow> (responseWriter + u32) option" where
  "loginVerify lib body w userID k n st = (case k of
     None \<Rightarrow> None
   | Some k \<Rightarrow> (case pk_VerifyAssertion lib body origin rpID (expectedChallenge userID st) n k of
       Inl e \<Rightarrow> Some (Inl (handlePasskeyError e w))
     | Inr m \<Rightarrow> Some (Inr m)))"

definition loginOK :: "'k passkeyLib \<Rightarrow> string \<Rightarrow> responseWriter \<Rightarrow> responseWriter" where
  "loginOK lib userID w = sendJson lib [(''message'', ''login OK''), (''user'', userID)] w"

definition handleLoginFinish :: "'k passkeyLib \<Rightarrow> byte list \<Rightarrow> responseWriter \<Rightarrow> 'k passkeyState \<Rightarrow> (responseWriter \<times> 'k passkeyState) option" where
  "handleLoginFinish lib body w st = (case loginLookup lib body w st of
     Inl w \<Rightarrow> Some (w, st)
   | Inr (rawID, userID, k, n) \<Rightarrow> (case loginVerify lib body w userID k n st of
       None \<Rightarrow> None
     | Some (Inl w) \<Rightarrow> Some (w, st)
     | Some (Inr m) \<Rightarrow> Some (loginOK lib userID w, UpdateSignCount rawID m st)))"

definition handleChallenge :: "'k passkeyLib \<Rightarrow> (pkErr + string) \<Rightarrow> string \<Rightarrow> responseWriter \<Rightarrow> 'k passkeyState \<Rightarrow> responseWriter \<times> 'k passkeyState" where
  "handleChallenge lib generated userID w st =
     (if userID = [] then (http_Error ''user_id required'' 400 w, st)
      else case generated of
        Inl e \<Rightarrow> (handlePasskeyError e w, st)
      | Inr chal \<Rightarrow> (sendJson lib [(''challenge'', chal)] w, st\<lparr>ps_challenges := AList.update userID chal (ps_challenges st)\<rparr>))"

text \<open>\<open>ServeHTTP\<close>. \<open>pq_page\<close> is the outcome of opening the embedded page.\<close>

record passkeyReq =
  pq_Path :: string
  pq_userID :: string
  pq_Body :: "byte list"
  pq_generated :: "pkErr + string"
  pq_page :: "goerr + reader"

definition passkey_ServeHTTP :: "'k passkeyLib \<Rightarrow> passkeyReq \<Rightarrow> responseWriter \<Rightarrow> 'k passkeyState \<Rightarrow> (responseWriter \<times> 'k passkeyState) option" where
  "passkey_ServeHTTP lib r w st =
     (if pq_Path r = ''/webauthn/challenge'' then Some (handleChallenge lib (pq_generated r) (pq_userID r) w st)
      else if pq_Path r = ''/webauthn/register'' then Some (handleRegisterFinish lib (pq_Body r) w st)
      else if pq_Path r = ''/webauthn/login'' then handleLoginFinish lib (pq_Body r) w st
      else case pq_page r of
        Inl _ \<Rightarrow> Some (http_Error ''internal server error'' 500 w, st)
      | Inr f \<Rightarrow> let (_, _, _, b) = io_copy f (rw_Body w) in Some (w\<lparr>rw_Body := b\<rparr>, st))"

text \<open>The server on requests one after the other; \<open>w\<close> is a new response.\<close>

fun passkeyServe :: "'k passkeyLib \<Rightarrow> responseWriter \<Rightarrow> passkeyReq list \<Rightarrow> 'k passkeyState \<Rightarrow> (responseWriter list \<times> 'k passkeyState) option" where
  "passkeyServe lib w [] st = Some ([], st)"
| "passkeyServe lib w (r # rs) st = do {
     (x, st) \<leftarrow> passkey_ServeHTTP lib r w st;
     (xs, st) \<leftarrow> passkeyServe lib w rs st;
     Some (x # xs, st) }"

section \<open>Logins\<close>

text \<open>A login is accepted, for a credential and a user, with a new counter.\<close>

definition accepts :: "'k passkeyLib \<Rightarrow> byte list \<Rightarrow> 'k passkeyState \<Rightarrow> string \<Rightarrow> string \<Rightarrow> u32 \<Rightarrow> bool" where
  "accepts lib body st rawID userID m \<longleftrightarrow> pk_LoginReq lib body = Some (rawID, userID)
     \<and> (\<exists>k n. map_of (ps_db st) rawID = Some \<lparr>cd_Key = Some k, cd_SignCount = n\<rparr>
          \<and> pk_VerifyAssertion lib body origin rpID (expectedChallenge userID st) n k = Inr m)"

lemma login_accepted:
  "accepts lib body st rawID userID m \<Longrightarrow> handleLoginFinish lib body w st = Some (loginOK lib userID w, UpdateSignCount rawID m st)"
  by (auto simp: accepts_def handleLoginFinish_def loginLookup_def LookupCredential_def loginVerify_def)

text \<open>No key of the store is nil.\<close>

definition keysSet :: "'k passkeyState \<Rightarrow> bool" where
  "keysSet st \<longleftrightarrow> (\<forall>c r. map_of (ps_db st) c = Some r \<longrightarrow> cd_Key r \<noteq> None)"

lemma login_rejected:
  assumes "keysSet st" "\<nexists>rawID userID m. accepts lib body st rawID userID m"
  shows "\<exists>w'. handleLoginFinish lib body w st = Some (w', st)"
proof (cases "pk_LoginReq lib body")
  case (Some ru)
  obtain rawID userID where ru: "ru = (rawID, userID)" by (cases ru)
  show ?thesis
  proof (cases "map_of (ps_db st) rawID")
    case (Some r)
    then obtain k n where r: "map_of (ps_db st) rawID = Some \<lparr>cd_Key = Some k, cd_SignCount = n\<rparr>"
      using assms(1) by (cases r) (fastforce simp: keysSet_def)
    then obtain e where "pk_VerifyAssertion lib body origin rpID (expectedChallenge userID st) n k = Inl e"
      using assms(2) \<open>pk_LoginReq lib body = Some ru\<close> ru by (cases "pk_VerifyAssertion lib body origin rpID (expectedChallenge userID st) n k")
        (auto simp: accepts_def)
    then show ?thesis using r \<open>pk_LoginReq lib body = Some ru\<close> ru
      by (simp add: handleLoginFinish_def loginLookup_def LookupCredential_def loginVerify_def)
  qed (use \<open>pk_LoginReq lib body = Some ru\<close> ru in \<open>simp add: handleLoginFinish_def loginLookup_def LookupCredential_def\<close>)
qed (simp add: handleLoginFinish_def loginLookup_def)

text \<open>What a request does to the state.\<close>

lemma serve_effect:
  assumes "keysSet st" "passkey_ServeHTTP lib r w st = Some (x, st')"
  shows "st' = st
    \<or> pq_Path r = ''/webauthn/challenge'' \<and> (\<exists>chal. pq_generated r = Inr chal
         \<and> st' = st\<lparr>ps_challenges := AList.update (pq_userID r) chal (ps_challenges st)\<rparr>)
    \<or> pq_Path r = ''/webauthn/register'' \<and> (\<exists>u c k n. attested lib (pq_Body r) = Inr (c, k, n) \<and> st' = StoreCredential u c k n st)
    \<or> pq_Path r = ''/webauthn/login'' \<and> (\<exists>c u m. accepts lib (pq_Body r) st c u m \<and> st' = UpdateSignCount c m st)"
proof (cases "pq_Path r = ''/webauthn/login''")
  case True
  then have h: "handleLoginFinish lib (pq_Body r) w st = Some (x, st')" using assms(2) by (simp add: passkey_ServeHTTP_def)
  show ?thesis
  proof (cases "\<exists>c u m. accepts lib (pq_Body r) st c u m")
    case True
    then obtain c u m where a: "accepts lib (pq_Body r) st c u m" by blast
    then have "st' = UpdateSignCount c m st" using h login_accepted [OF a, of w] by simp
    then show ?thesis using a \<open>pq_Path r = _\<close> by blast
  next
    case False
    then show ?thesis using login_rejected [OF assms(1), of lib "pq_Body r" w] h by auto
  qed
next
  case False
  then show ?thesis using assms(2)
    by (auto simp: passkey_ServeHTTP_def handleChallenge_def handleRegisterFinish_def Let_def split_beta split: if_splits sum.splits)
qed

lemma serve_keysSet:
  assumes "keysSet st" "passkey_ServeHTTP lib r w st = Some (x, st')"
  shows "keysSet st'"
  using serve_effect [OF assms] assms(1)
  by (auto simp: keysSet_def StoreCredential_def UpdateSignCount_def update_conv' accepts_def Let_def split: if_splits)

lemma serve_returns:
  assumes "keysSet st"
  shows "\<exists>x st'. passkey_ServeHTTP lib r w st = Some (x, st')"
proof -
  have "\<exists>x st'. handleLoginFinish lib b w st = Some (x, st')" for b
    using login_rejected [OF assms, of lib b w] login_accepted [of lib b st _ _ _ w] by blast
  then show ?thesis by (auto simp: passkey_ServeHTTP_def split_beta split: sum.splits)
qed

text \<open>The challenges that requests issued for a user, in order. The store has the last one, and nothing removes it.\<close>

definition issuedFor :: "string \<Rightarrow> passkeyReq list \<Rightarrow> string list" where
  "issuedFor u reqs = concat (map (\<lambda>q. if pq_Path q = ''/webauthn/challenge'' \<and> pq_userID q = u \<and> u \<noteq> []
     then (case pq_generated q of Inl e \<Rightarrow> [] | Inr c \<Rightarrow> [c]) else []) reqs)"

definition lastChallenge :: "string list \<Rightarrow> string option \<Rightarrow> string option" where
  "lastChallenge cs old = (if cs = [] then old else Some (last cs))"

lemma serve_challenges:
  "passkey_ServeHTTP lib q w st = Some (x, st') \<Longrightarrow>
     map_of (ps_challenges st') u = lastChallenge (issuedFor u [q]) (map_of (ps_challenges st) u)"
  by (auto simp: passkey_ServeHTTP_def handleChallenge_def handleRegisterFinish_def handleLoginFinish_def StoreCredential_def UpdateSignCount_def
      issuedFor_def lastChallenge_def update_conv' Let_def split_beta split: if_splits sum.splits option.splits prod.splits)

lemma run_challenges:
  assumes "passkeyServe lib w reqs st = Some (xs, st')"
  shows "map_of (ps_challenges st') u = lastChallenge (issuedFor u reqs) (map_of (ps_challenges st) u)"
  using assms
proof (induction reqs arbitrary: st xs)
  case Nil
  then show ?case by (simp add: issuedFor_def lastChallenge_def)
next
  case (Cons q reqs)
  then obtain x st1 ys where "passkey_ServeHTTP lib q w st = Some (x, st1)" "passkeyServe lib w reqs st1 = Some (ys, st')"
    by (auto simp: bind_eq_Some_conv)
  moreover have "issuedFor u (q # reqs) = issuedFor u [q] @ issuedFor u reqs" by (simp add: issuedFor_def)
  ultimately show ?case using Cons.IH [of st1 ys] serve_challenges [of lib q w st x st1 u] by (simp add: lastChallenge_def)
qed

text \<open>What the store has, in terms of the requests served so far.\<close>

definition explained :: "'k passkeyLib \<Rightarrow> passkeyReq list \<Rightarrow> 'k passkeyState \<Rightarrow> bool" where
  "explained lib reqs st \<longleftrightarrow>
     (\<forall>c r. map_of (ps_db st) c = Some r \<longrightarrow> (\<exists>q \<in> set reqs. \<exists>k n. pq_Path q = ''/webauthn/register''
         \<and> attested lib (pq_Body q) = Inr (c, k, n) \<and> cd_Key r = Some k))"

lemma explained_keysSet: "explained lib reqs st \<Longrightarrow> keysSet st"
  by (fastforce simp: explained_def keysSet_def)

lemma explained_more: "explained lib reqs st \<Longrightarrow> explained lib (reqs @ [q]) st"
  unfolding explained_def set_append by blast

lemma explained_step:
  assumes e: "explained lib reqs st" and "passkey_ServeHTTP lib q w st = Some (x, st')"
  shows "explained lib (reqs @ [q]) st'"
  using serve_effect [OF explained_keysSet [OF e] assms(2)]
proof (elim disjE conjE exE)
  fix chal assume "pq_Path q = ''/webauthn/challenge''" "pq_generated q = Inr chal"
    "st' = st\<lparr>ps_challenges := AList.update (pq_userID q) chal (ps_challenges st)\<rparr>"
  then show ?thesis using explained_more [OF e, of q] by (auto simp: explained_def update_conv')
next
  fix u c k n assume "pq_Path q = ''/webauthn/register''" "attested lib (pq_Body q) = Inr (c, k, n)" "st' = StoreCredential u c k n st"
  then show ?thesis using explained_more [OF e, of q] by (auto simp: explained_def StoreCredential_def update_conv')
next
  fix c u m assume "accepts lib (pq_Body q) st c u m" "st' = UpdateSignCount c m st"
  then show ?thesis using explained_more [OF e, of q] by (fastforce simp: explained_def UpdateSignCount_def update_conv' accepts_def Let_def)
qed (use explained_more [OF e] in simp)

lemma explained_run:
  assumes "explained lib before st" "passkeyServe lib w reqs st = Some (xs, st')"
  shows "explained lib (before @ reqs) st'"
  using assms
proof (induction reqs arbitrary: before st xs)
  case (Cons q reqs)
  then obtain x st1 ys where "passkey_ServeHTTP lib q w st = Some (x, st1)" "passkeyServe lib w reqs st1 = Some (ys, st')"
    by (auto simp: bind_eq_Some_conv)
  with Cons.IH [of "before @ [q]" st1 ys] explained_step [OF Cons.prems(1)] show ?case by simp
qed simp

lemma run_returns:
  assumes "keysSet st"
  shows "\<exists>xs st'. passkeyServe lib w reqs st = Some (xs, st')"
  using assms
proof (induction reqs arbitrary: st)
  case (Cons q reqs)
  obtain x st1 where "passkey_ServeHTTP lib q w st = Some (x, st1)" using serve_returns [OF Cons.prems] by blast
  moreover from this have "keysSet st1" using serve_keysSet [OF Cons.prems] by blast
  ultimately show ?case using Cons.IH [of st1] by auto
qed simp

text \<open>C13: Logins, for requests one after the other. The server answers every sequence of requests without a panic; and a login at any
  time either gets an error, with no change, or its assertion verifies, with the fixed origin and relying party, under the key of
  an earlier registration of that credential, and against the challenge that was issued last for the named user: if none was ever
  issued for that user, against the empty string.\<close>

theorem login_authentic:
  "\<exists>xs st. passkeyServe lib w reqs newPasskeyState = Some (xs, st) \<and>
    (\<exists>w' st'. handleLoginFinish lib body w st = Some (w', st') \<and>
      ((\<exists>msg code. w' = http_Error msg code w \<and> st' = st) \<or>
       (\<exists>rawID userID k n m. w' = loginOK lib userID w \<and> st' = UpdateSignCount rawID m st
          \<and> pk_LoginReq lib body = Some (rawID, userID)
          \<and> pk_VerifyAssertion lib body ''http://localhost:8080'' ''localhost'' (expectedChallenge userID st) n k = Inr m
          \<and> (\<exists>q \<in> set reqs. \<exists>n. pq_Path q = ''/webauthn/register'' \<and> attested lib (pq_Body q) = Inr (rawID, k, n))
          \<and> expectedChallenge userID st = (if issuedFor userID reqs = [] then [] else last (issuedFor userID reqs)))))"
proof -
  have e0: "explained lib [] newPasskeyState" by (simp add: explained_def newPasskeyState_def)
  obtain xs st where run: "passkeyServe lib w reqs newPasskeyState = Some (xs, st)"
    using run_returns [OF explained_keysSet [OF e0]] by blast
  have e: "explained lib reqs st" using explained_run [OF e0 run] by simp
  show ?thesis
  proof (cases "\<exists>c u m. accepts lib body st c u m")
    case True
    then obtain c u m where a: "accepts lib body st c u m" by blast
    then obtain k n where k: "pk_LoginReq lib body = Some (c, u)" "map_of (ps_db st) c = Some \<lparr>cd_Key = Some k, cd_SignCount = n\<rparr>"
      "pk_VerifyAssertion lib body origin rpID (expectedChallenge u st) n k = Inr m" by (auto simp: accepts_def)
    have "\<exists>q \<in> set reqs. \<exists>n. pq_Path q = ''/webauthn/register'' \<and> attested lib (pq_Body q) = Inr (c, k, n)"
      using e k(2) by (fastforce simp: explained_def)
    moreover have "expectedChallenge u st = (if issuedFor u reqs = [] then [] else last (issuedFor u reqs))"
      using run_challenges [OF run, of u] by (simp add: expectedChallenge_def lastChallenge_def newPasskeyState_def)
    ultimately show ?thesis using run login_accepted [OF a, of w] k(1,3) unfolding origin_def rpID_def by blast
  next
    case False
    then obtain w' where "handleLoginFinish lib body w st = Some (w', st)" using login_rejected [OF explained_keysSet [OF e], of lib body w] by blast
    moreover have "\<exists>msg code. w' = http_Error msg code w"
      using calculation False by (auto simp: handleLoginFinish_def loginLookup_def loginVerify_def handlePasskeyError_def LookupCredential_def accepts_def
          split: option.splits sum.splits pkErr.splits prod.splits)
    ultimately show ?thesis using run by blast
  qed
qed

section \<open>Replay\<close>

text \<open>What the library documents of the counter: the new count is that of the assertion, and above the stored one.\<close>

definition counterChecked :: "'k passkeyLib \<Rightarrow> (byte list \<Rightarrow> u32) \<Rightarrow> bool" where
  "counterChecked lib count \<longleftrightarrow> (\<forall>body o' rp chal n k m. pk_VerifyAssertion lib body o' rp chal n k = Inr m \<longrightarrow> n < m \<and> m = count body)"

lemma count_kept:
  assumes "counterChecked lib count" "passkeyServe lib w reqs st = Some (xs, st')" "keysSet st"
    and "\<forall>q \<in> set reqs. \<forall>k n. pq_Path q = ''/webauthn/register'' \<longrightarrow> attested lib (pq_Body q) \<noteq> Inr (c, k, n)"
    and "map_of (ps_db st) c = Some r" "m \<le> cd_SignCount r"
  shows "\<exists>r'. map_of (ps_db st') c = Some r' \<and> m \<le> cd_SignCount r'"
  using assms(2-)
proof (induction reqs arbitrary: st xs r)
  case (Cons q reqs)
  then obtain x st1 ys where s: "passkey_ServeHTTP lib q w st = Some (x, st1)" and rest: "passkeyServe lib w reqs st1 = Some (ys, st')"
    by (auto simp: bind_eq_Some_conv)
  have "\<exists>r'. map_of (ps_db st1) c = Some r' \<and> m \<le> cd_SignCount r'"
    using serve_effect [OF Cons.prems(2) s]
  proof (elim disjE conjE exE)
    fix d u n assume "accepts lib (pq_Body q) st d u n" "st1 = UpdateSignCount d n st"
    moreover from this have "d = c \<Longrightarrow> cd_SignCount r < n" using assms(1) Cons.prems(4) by (auto simp: accepts_def counterChecked_def)
    ultimately show ?thesis using Cons.prems(4,5) by (auto simp: UpdateSignCount_def update_conv' Let_def)
  qed (use Cons.prems in \<open>auto simp: StoreCredential_def update_conv'\<close>)
  then show ?case using Cons.IH [OF rest serve_keysSet [OF Cons.prems(2) s]] Cons.prems(3) by auto
qed simp

text \<open>C40: Replay protection, for requests one after the other: after a login, the same assertion is not accepted again, whatever
  requests come in between, unless one of them registers the credential again.\<close>

theorem login_no_replay:
  assumes "counterChecked lib count" and "keysSet st" and "accepts lib body st rawID userID m"
    and "passkeyServe lib w reqs (UpdateSignCount rawID m st) = Some (xs, st')"
    and "\<forall>q \<in> set reqs. \<forall>k n. pq_Path q = ''/webauthn/register'' \<longrightarrow> attested lib (pq_Body q) \<noteq> Inr (rawID, k, n)"
  shows "\<not> accepts lib body st' rawID' userID' m'"
proof
  assume again: "accepts lib body st' rawID' userID' m'"
  have same: "rawID' = rawID" using again assms(3) by (simp add: accepts_def)
  define r where "r = (case map_of (ps_db st) rawID of None \<Rightarrow> \<lparr>cd_Key = None, cd_SignCount = 0\<rparr> | Some r \<Rightarrow> r)\<lparr>cd_SignCount := m\<rparr>"
  have r: "map_of (ps_db (UpdateSignCount rawID m st)) rawID = Some r" "m = cd_SignCount r"
    by (simp_all add: UpdateSignCount_def update_conv' Let_def r_def)
  have "keysSet (UpdateSignCount rawID m st)"
    using assms(2,3) by (auto simp: keysSet_def UpdateSignCount_def update_conv' accepts_def Let_def split: if_splits)
  from count_kept [OF assms(1,4) this assms(5) r(1)] r(2)
  obtain r' where r': "map_of (ps_db st') rawID = Some r'" "m \<le> cd_SignCount r'" by auto
  have "m = count body" using assms(1,3) by (auto simp: accepts_def counterChecked_def)
  moreover have "cd_SignCount r' < m' \<and> m' = count body"
    using again r'(1) same assms(1) by (auto simp: accepts_def counterChecked_def)
  ultimately show False using r'(2) by (auto simp: not_less [symmetric])
qed

text \<open>The witness: an assertion is its counter, and it verifies when that is above the stored one.\<close>

definition tinyPasskey :: "nat passkeyLib" where
  "tinyPasskey = \<lparr>pk_ParseAttestationObject = (\<lambda>a. Inr (bytes_of a)), pk_ParseAuthData = (\<lambda>bs. Inr \<lparr>au_CredID = bs, au_PublicKey = [], au_SignCount = 0\<rparr>),
     pk_ConvertCOSEKeyToECDSA = (\<lambda>bs. Inr 0), pk_VerifyAssertion = (\<lambda>body o' rp chal n k. let m = ucast (hd body) in if n < m then Inr m else Inl (OtherErr ''count'')),
     pk_RegisterReq = (\<lambda>bs. (str_of bs, ''u'')), pk_LoginReq = (\<lambda>bs. Some (''c'', ''u'')), pk_RawURLEncoding = str_of, pk_Encode = (\<lambda>m. [])\<rparr>"

definition tinyPasskeyState :: "nat passkeyState" where
  "tinyPasskeyState = \<lparr>ps_db = [(''c'', \<lparr>cd_Key = Some 0, cd_SignCount = 0\<rparr>)], ps_challenges = []\<rparr>"

theorem login_no_replay_witness:
  "accepts tinyPasskey [5] tinyPasskeyState ''c'' ''u'' 5 \<and>
   \<not> accepts tinyPasskey [5] (UpdateSignCount ''c'' 5 tinyPasskeyState) ''c'' ''u'' 5"
proof -
  have a: "accepts tinyPasskey [5] tinyPasskeyState ''c'' ''u'' 5"
    by (simp add: accepts_def tinyPasskey_def tinyPasskeyState_def Let_def)
  have c: "counterChecked tinyPasskey (\<lambda>body. ucast (hd body))"
    by (auto simp: counterChecked_def tinyPasskey_def Let_def split: if_splits)
  have k: "keysSet tinyPasskeyState" by (simp add: keysSet_def tinyPasskeyState_def)
  show ?thesis using a login_no_replay [OF c k a, of undefined "[]"] by simp
qed

section \<open>Requests at the same time\<close>

text \<open>A login as a thread, between its locked sections.\<close>

datatype 'k pkThread = PkStart "byte list" | PkLooked "byte list" string string "'k option" u32 | PkVerified string string u32 | PkDone responseWriter

inductive pkStep :: "'k passkeyLib \<Rightarrow> responseWriter \<Rightarrow> 'k passkeyState \<times> 'k pkThread list \<Rightarrow> 'k passkeyState \<times> 'k pkThread list \<Rightarrow> bool"
  for lib w where
  lookup: "i < length ts \<Longrightarrow> ts ! i = PkStart body \<Longrightarrow> loginLookup lib body w st = Inr (rawID, userID, k, n) \<Longrightarrow>
     pkStep lib w (st, ts) (st, ts[i := PkLooked body rawID userID k n])"
| unknown: "i < length ts \<Longrightarrow> ts ! i = PkStart body \<Longrightarrow> loginLookup lib body w st = Inl w' \<Longrightarrow>
     pkStep lib w (st, ts) (st, ts[i := PkDone w'])"
| verify: "i < length ts \<Longrightarrow> ts ! i = PkLooked body rawID userID k n \<Longrightarrow> loginVerify lib body w userID k n st = Some (Inr m) \<Longrightarrow>
     pkStep lib w (st, ts) (st, ts[i := PkVerified rawID userID m])"
| refuse: "i < length ts \<Longrightarrow> ts ! i = PkLooked body rawID userID k n \<Longrightarrow> loginVerify lib body w userID k n st = Some (Inl w') \<Longrightarrow>
     pkStep lib w (st, ts) (st, ts[i := PkDone w'])"
| finish: "i < length ts \<Longrightarrow> ts ! i = PkVerified rawID userID m \<Longrightarrow>
     pkStep lib w (st, ts) (UpdateSignCount rawID m st, ts[i := PkDone (loginOK lib userID w)])"

text \<open>A thread alone does what the handler does.\<close>

lemma thread_alone:
  assumes "accepts lib body st rawID userID m"
  shows "(pkStep lib w)\<^sup>*\<^sup>* (st, [PkStart body]) (UpdateSignCount rawID m st, [PkDone (loginOK lib userID w)])"
proof -
  obtain k n where k: "pk_LoginReq lib body = Some (rawID, userID)" "map_of (ps_db st) rawID = Some \<lparr>cd_Key = Some k, cd_SignCount = n\<rparr>"
    "pk_VerifyAssertion lib body origin rpID (expectedChallenge userID st) n k = Inr m" using assms by (auto simp: accepts_def)
  have s1: "pkStep lib w (st, [PkStart body]) (st, [PkLooked body rawID userID (Some k) n])"
    using pkStep.lookup [of 0 "[PkStart body]" body lib w st rawID userID "Some k" n] k by (simp add: loginLookup_def LookupCredential_def)
  have s2: "pkStep lib w (st, [PkLooked body rawID userID (Some k) n]) (st, [PkVerified rawID userID m])"
    using pkStep.verify [of 0 "[PkLooked body rawID userID (Some k) n]" body rawID userID "Some k" n lib w st m] k by (simp add: loginVerify_def)
  have s3: "pkStep lib w (st, [PkVerified rawID userID m]) (UpdateSignCount rawID m st, [PkDone (loginOK lib userID w)])"
    using pkStep.finish [of 0 "[PkVerified rawID userID m]" rawID userID m lib w st] by simp
  show ?thesis using s1 s2 s3 by (meson converse_rtranclp_into_rtranclp rtranclp.rtrancl_refl)
qed

text \<open>But the counter is read under one lock and written under another: an assertion that is sent twice at the same time is
  accepted twice, whatever the library checks.\<close>

lemma login_race:
  assumes "accepts lib body st rawID userID m"
  shows "\<exists>st'. (pkStep lib w)\<^sup>*\<^sup>* (st, [PkStart body, PkStart body]) (st', [PkDone (loginOK lib userID w), PkDone (loginOK lib userID w)])"
proof -
  obtain k n where k: "pk_LoginReq lib body = Some (rawID, userID)" "map_of (ps_db st) rawID = Some \<lparr>cd_Key = Some k, cd_SignCount = n\<rparr>"
    "pk_VerifyAssertion lib body origin rpID (expectedChallenge userID st) n k = Inr m" using assms by (auto simp: accepts_def)
  have l: "loginLookup lib body w st = Inr (rawID, userID, Some k, n)" using k by (simp add: loginLookup_def LookupCredential_def)
  have v: "loginVerify lib body w userID (Some k) n st = Some (Inr m)" using k by (simp add: loginVerify_def)
  let ?l = "PkLooked body rawID userID (Some k) n" and ?v = "PkVerified rawID userID m" and ?d = "PkDone (loginOK lib userID w)"
  have s1: "pkStep lib w (st, [PkStart body, PkStart body]) (st, [?l, PkStart body])"
    using pkStep.lookup [of 0 "[PkStart body, PkStart body]", OF _ _ l] by simp
  have s2: "pkStep lib w (st, [?l, PkStart body]) (st, [?l, ?l])" using pkStep.lookup [of 1 "[?l, PkStart body]", OF _ _ l] by simp
  have s3: "pkStep lib w (st, [?l, ?l]) (st, [?v, ?l])" using pkStep.verify [of 0 "[?l, ?l]", OF _ _ v] by simp
  have s4: "pkStep lib w (st, [?v, ?l]) (st, [?v, ?v])" using pkStep.verify [of 1 "[?v, ?l]", OF _ _ v] by simp
  have s5: "pkStep lib w (st, [?v, ?v]) (UpdateSignCount rawID m st, [?d, ?v])" using pkStep.finish [of 0 "[?v, ?v]" rawID userID m lib w st] by simp
  have s6: "pkStep lib w (UpdateSignCount rawID m st, [?d, ?v]) (UpdateSignCount rawID m (UpdateSignCount rawID m st), [?d, ?d])"
    using pkStep.finish [of 1 "[?d, ?v]" rawID userID m lib w "UpdateSignCount rawID m st"] by simp
  show ?thesis using s1 s2 s3 s4 s5 s6 by (meson converse_rtranclp_into_rtranclp rtranclp.rtrancl_refl)
qed

section \<open>Whose login\<close>

text \<open>The store forgets the user of a registration, and a login does not compare: whoever holds a registered credential gets a
  challenge for any user, signs it, and is logged in as that user.\<close>

lemma registered_user_ignored: "StoreCredential u c k n st = StoreCredential v c k n st"
  by (simp add: StoreCredential_def)

lemma login_as_anyone:
  assumes "pk_LoginReq lib body = Some (c, victim)" "pk_VerifyAssertion lib body origin rpID chal n k = Inr m" "victim \<noteq> []"
  shows "handleLoginFinish lib body w (snd (handleChallenge lib (Inr chal) victim w (StoreCredential attacker c k n st)))
    = Some (loginOK lib victim w, UpdateSignCount c m (snd (handleChallenge lib (Inr chal) victim w (StoreCredential attacker c k n st))))"
  using assms
  by (intro login_accepted) (auto simp: accepts_def StoreCredential_def handleChallenge_def expectedChallenge_def update_conv')

text \<open>A login does not use up its challenge.\<close>

lemma challenge_kept: "expectedChallenge u (UpdateSignCount c m st) = expectedChallenge u st"
  by (simp add: expectedChallenge_def UpdateSignCount_def Let_def)

end
