(* ===== verification/Oidc.thy ===== *)
theory Oidc
  imports Go_Prelude "HOL-Library.AList"
begin

text \<open>
  \<^verbatim>\<open>src/pkg/oidc/gooidc.go\<close>: checking tokens with OpenID Connect. \<open>InitJWT\<close> finds a verifier for each issuer, \<open>CheckJwt\<close> checks a
  token with the verifier of its issuer and then its audience; \<open>Verify\<close> and \<open>Init\<close> do so for one trust configuration.

  The libraries are the fields of \<open>oidcLib\<close>, for verifiers of a type \<open>'v\<close> and keys of a type \<open>'k\<close>. A context is not modelled.
  The map of verifiers is an association list, \<open>None\<close> for the nil map; of a map only the lookups matter here.
\<close>

section \<open>The libraries and the data\<close>

record idToken =
  it_Issuer :: string
  it_Audience :: "string list"
  it_Subject :: string

record ('v, 'k) oidcLib =
  oi_NewProvider :: "string \<Rightarrow> goerr + 'v" \<comment> \<open>\<open>oidc.NewProvider(issuer)\<close> and its \<open>Verifier\<close>\<close>
  oi_NewVerifier :: "string \<Rightarrow> string \<Rightarrow> 'v" \<comment> \<open>for an issuer and the address of its keys\<close>
  oi_Verify :: "'v \<Rightarrow> string \<Rightarrow> goerr + idToken"
  oi_DecodeJWT :: "string \<Rightarrow> string option" \<comment> \<open>the issuer that the token claims\<close>
  oi_DecodeString :: "string \<Rightarrow> goerr + byte list" \<comment> \<open>\<open>base64.RawURLEncoding\<close>\<close>
  oi_KeySet :: "string \<Rightarrow> goerr + (string \<times> 'k) list" \<comment> \<open>\<open>jose.JSONWebKeySet\<close>\<close>

text \<open>\<open>TrustConfig.Key\<close> has any type: a verifier or something else.\<close>

datatype 'v trustKey = IDTokenVerifier 'v | OtherKey

record ('v, 'k) trustConfig =
  tc_Issuer :: string
  tc_JwksUri :: string
  tc_Jwks :: string
  tc_Key :: "'v trustKey option"
  tc_KeysByKid :: "(string \<times> 'k) list"

record 'v authOIDC =
  ao_jwtProviders :: "(string \<times> 'v) list option"
  ao_Audience :: string

section \<open>The operations\<close>

definition ConvertJWKS :: "('v, 'k) oidcLib \<Rightarrow> ('v, 'k) trustConfig \<Rightarrow> goerr option \<times> ('v, 'k) trustConfig" where
  "ConvertJWKS lib i = (case oi_KeySet lib (tc_Jwks i) of
     Inl e \<Rightarrow> (Some e, i)
   | Inr ks \<Rightarrow> (None, i\<lparr>tc_KeysByKid := fold (\<lambda>(kid, k). AList.update kid k) ks []\<rparr>))"

definition setProvider :: "string \<Rightarrow> 'v \<Rightarrow> 'v authOIDC \<Rightarrow> 'v authOIDC" where
  "setProvider iss ver a = a\<lparr>ao_jwtProviders := map_option (AList.update iss ver) (ao_jwtProviders a)\<rparr>"

definition oidc_Init :: "('v, 'k) oidcLib \<Rightarrow> ('v, 'k) trustConfig \<Rightarrow> 'v authOIDC \<Rightarrow> goerr option \<times> ('v, 'k) trustConfig \<times> 'v authOIDC" where
  "oidc_Init lib v a =
     (let a = (if ao_jwtProviders a = None then a\<lparr>ao_jwtProviders := Some []\<rparr> else a);
          found = (if tc_JwksUri v \<noteq> [] then Inr (oi_NewVerifier lib (tc_Issuer v) (tc_JwksUri v)) else oi_NewProvider lib (tc_Issuer v))
      in case found of
        Inl e \<Rightarrow> (Some e, v, a)
      | Inr ver \<Rightarrow> (None, v\<lparr>tc_Key := Some (IDTokenVerifier ver)\<rparr>, setProvider (tc_Issuer v) ver a))"

definition oidc_Verify :: "('v, 'k) oidcLib \<Rightarrow> ('v, 'k) trustConfig \<Rightarrow> string \<Rightarrow> 'v authOIDC \<Rightarrow> goerr option \<times> ('v, 'k) trustConfig \<times> 'v authOIDC" where
  "oidc_Verify lib v raw a =
     (let (err, v, a) = (if tc_Key v = None then oidc_Init lib v a else (None, v, a)) in
      if err \<noteq> None then (err, v, a)
      else case tc_Key v of
        Some (IDTokenVerifier ver) \<Rightarrow> ((case oi_Verify lib ver raw of Inl e \<Rightarrow> Some e | Inr _ \<Rightarrow> None), v, a)
      | _ \<Rightarrow> (None, v, a))"

fun initIssuers :: "('v, 'k) oidcLib \<Rightarrow> string list \<Rightarrow> 'v authOIDC \<Rightarrow> 'v authOIDC" where
  "initIssuers lib [] a = a"
| "initIssuers lib (i # is) a = (case oi_NewProvider lib i of
     Inl e \<Rightarrow> initIssuers lib is a
   | Inr ver \<Rightarrow> initIssuers lib is (setProvider i ver a))"

definition InitJWT :: "('v, 'k) oidcLib \<Rightarrow> string list \<Rightarrow> 'v authOIDC \<Rightarrow> 'v authOIDC" where
  "InitJWT lib issuers a = (let a = a\<lparr>ao_jwtProviders := Some []\<rparr> in if issuers = [] then a else initIssuers lib issuers a)"

text \<open>\<open>parseJWT\<close>: the payload of a token. Two parts are enough, though the message asks for three.\<close>

definition parseJWT :: "('v, 'k) oidcLib \<Rightarrow> string \<Rightarrow> goerr + byte list" where
  "parseJWT lib p = (case split_on (CHR ''.'') p of
     _ # payload # _ \<Rightarrow> (case oi_DecodeString lib payload of
         Inl e \<Rightarrow> Inl (ErrMsg (''oidc: malformed jwt payload: '' @ err_string e))
       | Inr bs \<Rightarrow> Inr bs)
   | parts \<Rightarrow> Inl (ErrMsg (''oidc: malformed jwt, expected 3 parts got '' @ itoa (int (length parts)))))"

definition CheckJwt :: "('v, 'k) oidcLib \<Rightarrow> string \<Rightarrow> 'v authOIDC \<Rightarrow> goerr + (string \<times> string) list" where
  "CheckJwt lib password a = (case oi_DecodeJWT lib password of
     None \<Rightarrow> Inl (ErrMsg ''invalid JWT'')
   | Some iss \<Rightarrow> (case Option.bind (ao_jwtProviders a) (\<lambda>m. map_of m iss) of
       None \<Rightarrow> Inl (ErrMsg ''unknown issuer '')
     | Some ver \<Rightarrow> (case oi_Verify lib ver password of
         Inl e \<Rightarrow> Inl e
       | Inr idt \<Rightarrow> (case it_Audience idt of
           [] \<Rightarrow> Inl (ErrMsg ''Invalid audience'')
         | aud # _ \<Rightarrow> if prefix (ao_Audience a) aud then Inr [(''sub'', it_Subject idt)] else Inl (ErrMsg ''Invalid audience'')))))"

section \<open>Which verifiers are known\<close>

lemma setProvider_lookup:
  "ao_jwtProviders a = Some m \<Longrightarrow> \<exists>m'. ao_jwtProviders (setProvider i v a) = Some m' \<and> map_of m' = (map_of m)(i \<mapsto> v)"
  by (simp add: setProvider_def update_conv')

lemma initIssuers_lookup:
  assumes "ao_jwtProviders a = Some m"
  shows "\<exists>m'. ao_jwtProviders (initIssuers lib is a) = Some m' \<and>
    (\<forall>i. map_of m' i = (if i \<in> set is \<and> (\<exists>v. oi_NewProvider lib i = Inr v) then Some (projr (oi_NewProvider lib i)) else map_of m i))"
  using assms
proof (induction "is" arbitrary: a m)
  case (Cons i js)
  show ?case
  proof (cases "oi_NewProvider lib i")
    case (Inl e)
    with Cons.IH [OF Cons.prems] show ?thesis by auto
  next
    case (Inr v)
    obtain m1 where m1: "ao_jwtProviders (setProvider i v a) = Some m1" "map_of m1 = (map_of m)(i \<mapsto> v)"
      using setProvider_lookup [OF Cons.prems, of i v] by blast
    from Cons.IH [OF m1(1)] m1(2) Inr show ?thesis by auto
  qed
qed simp

lemma audience_kept: "ao_Audience (initIssuers lib is a) = ao_Audience a"
  by (induction lib "is" a rule: initIssuers.induct) (auto simp: setProvider_def split: sum.splits)

lemma InitJWT_lookup:
  "\<exists>m. ao_jwtProviders (InitJWT lib is a) = Some m \<and> ao_Audience (InitJWT lib is a) = ao_Audience a \<and>
    (\<forall>i v. map_of m i = Some v \<longleftrightarrow> i \<in> set is \<and> oi_NewProvider lib i = Inr v)"
proof (cases "is = []")
  case False
  define a0 where "a0 = a\<lparr>ao_jwtProviders := Some []\<rparr>"
  obtain m where m: "ao_jwtProviders (initIssuers lib is a0) = Some m"
    "\<And>i. map_of m i = (if i \<in> set is \<and> (\<exists>v. oi_NewProvider lib i = Inr v) then Some (projr (oi_NewProvider lib i)) else None)"
    using initIssuers_lookup [of a0 "[]" lib "is"] by (auto simp: a0_def)
  have "map_of m i = Some v \<longleftrightarrow> i \<in> set is \<and> oi_NewProvider lib i = Inr v" for i v
    by (cases "oi_NewProvider lib i") (auto simp: m(2))
  moreover have "InitJWT lib is a = initIssuers lib is a0" using False by (simp add: InitJWT_def a0_def)
  ultimately show ?thesis using m(1) audience_kept [of lib "is" a0] by (auto simp: a0_def)
qed (simp add: InitJWT_def)

section \<open>Properties\<close>

text \<open>C14: Token check. After \<open>InitJWT\<close>, a token is accepted exactly when the issuer that it claims is configured and could be
  reached, the verifier of that issuer accepts it, and its first audience starts with the configured one; the result is then its
  subject, as the verifier has it. An issuer that could not be reached does not affect the others.\<close>

theorem checkJwt_iff:
  "CheckJwt lib password (InitJWT lib issuers a) = Inr claims \<longleftrightarrow>
    (\<exists>iss ver idt aud auds. oi_DecodeJWT lib password = Some iss \<and> iss \<in> set issuers \<and> oi_NewProvider lib iss = Inr ver
       \<and> oi_Verify lib ver password = Inr idt \<and> it_Audience idt = aud # auds \<and> prefix (ao_Audience a) aud
       \<and> claims = [(''sub'', it_Subject idt)])"
proof -
  obtain m where m: "ao_jwtProviders (InitJWT lib issuers a) = Some m" "ao_Audience (InitJWT lib issuers a) = ao_Audience a"
    "\<And>i v. map_of m i = Some v \<longleftrightarrow> i \<in> set issuers \<and> oi_NewProvider lib i = Inr v"
    using InitJWT_lookup [of lib issuers a] by (elim exE conjE) (erule that, assumption, simp)
  show ?thesis
  proof (cases "oi_DecodeJWT lib password")
    case (Some iss)
    show ?thesis
    proof (cases "map_of m iss")
      case None
      then have "\<not> (iss \<in> set issuers \<and> oi_NewProvider lib iss = Inr v)" for v using m(3) [of iss v] by simp
      then show ?thesis using Some None m(1) by (auto simp: CheckJwt_def)
    next
      case (Some ver)
      then have "iss \<in> set issuers" "oi_NewProvider lib iss = Inr ver" using m(3) [of iss ver] by simp_all
      moreover have "CheckJwt lib password (InitJWT lib issuers a) = (case oi_Verify lib ver password of Inl e \<Rightarrow> Inl e
        | Inr idt \<Rightarrow> (case it_Audience idt of [] \<Rightarrow> Inl (ErrMsg ''Invalid audience'')
            | aud # _ \<Rightarrow> if prefix (ao_Audience a) aud then Inr [(''sub'', it_Subject idt)] else Inl (ErrMsg ''Invalid audience'')))"
        using \<open>oi_DecodeJWT lib password = _\<close> Some m(1) by (simp add: CheckJwt_def m(2) cong: sum.case_cong list.case_cong)
      ultimately show ?thesis using \<open>oi_DecodeJWT lib password = _\<close>
        by (cases "oi_Verify lib ver password") (auto split: list.splits)
    qed
  qed (simp add: CheckJwt_def)
qed

text \<open>A trust configuration: a token is accepted by its verifier; but a key of any other type accepts every token.\<close>

lemma verify_sound:
  assumes "oidc_Verify lib v raw a = (None, v', a')"
  shows "tc_Key v = Some OtherKey \<or> (\<exists>ver idt. tc_Key v' = Some (IDTokenVerifier ver) \<and> oi_Verify lib ver raw = Inr idt)"
  using assms by (auto simp: oidc_Verify_def oidc_Init_def Let_def split: if_splits prod.splits option.splits trustKey.splits sum.splits)

lemma verify_other_key: "tc_Key v = Some OtherKey \<Longrightarrow> oidc_Verify lib v raw a = (None, v, a)"
  by (simp add: oidc_Verify_def)

text \<open>The audience is compared as a prefix.\<close>

lemma audience_prefix:
  assumes "oi_DecodeJWT lib t = Some iss" "ao_jwtProviders a = Some [(iss, ver)]" "ao_Audience a = ''https://mesh.example''"
    and "oi_Verify lib ver t = Inr \<lparr>it_Issuer = iss, it_Audience = [''https://mesh.example.evil.org''], it_Subject = s\<rparr>"
  shows "CheckJwt lib t a = Inr [(''sub'', s)]"
  using assms by (simp add: CheckJwt_def)

text \<open>The keys of a key set are found by their id, the last one of an id.\<close>

lemma convertJWKS_lookup:
  assumes "oi_KeySet lib (tc_Jwks i) = Inr ks"
  shows "map_of (tc_KeysByKid (snd (ConvertJWKS lib i))) kid = map_of (rev ks) kid"
proof -
  have "map_of (fold (\<lambda>(kid, k). AList.update kid k) ks m) kid = (case map_of (rev ks) kid of Some k \<Rightarrow> Some k | None \<Rightarrow> map_of m kid)" for m
    by (induction ks arbitrary: m) (auto simp: update_conv' map_add_def split: option.splits)
  then show ?thesis using assms by (simp add: ConvertJWKS_def split: option.splits)
qed

text \<open>A token of two parts passes, although the message asks for three.\<close>

lemma parseJWT_two_parts:
  assumes "CHR ''.'' \<notin> set h" "CHR ''.'' \<notin> set b" "oi_DecodeString lib b = Inr bs"
  shows "parseJWT lib (h @ CHR ''.'' # b) = Inr bs"
  using assms by (simp add: parseJWT_def split_on_append split_on_single)

end
