(* ===== verification/Ipfs.thy ===== *)
theory Ipfs
  imports Go_Prelude
begin

text \<open>
  \<^verbatim>\<open>src/pkg/ipfs/dht.go\<close> and \<^verbatim>\<open>src/pkg/ipfs/watch.go\<close>: a node of the libp2p DHT with an HTTP interface. What the package decides
  itself is modelled: the addresses it listens on and announces, its identity and DHT mode, the bootstrap, the iterator over found
  peers, the records of names, the counters of the connection gater and its HTTP handler.

  The libraries are the fields of \<open>ipfsLib\<close>. Peer ids and multiaddresses are their texts. A channel is the list of what it will
  deliver before it is closed. \<open>None\<close> is a panic.
\<close>

section \<open>Libraries and data\<close>

record addrInfo =
  pa_ID :: string
  pa_Addrs :: "string list"

record 'r ipfsLib =
  ip_Decode :: "string \<Rightarrow> goerr + string" \<comment> \<open>\<open>peer.Decode\<close>\<close>
  ip_NewMultiaddr :: "string \<Rightarrow> goerr + string"
  ip_AddrInfoFromP2pAddr :: "string \<Rightarrow> goerr + addrInfo"
  ip_FindPeer :: "string \<Rightarrow> goerr + addrInfo"
  ip_FindProvidersAsync :: "string \<Rightarrow> int \<Rightarrow> addrInfo list"
  ip_text :: "addrInfo \<Rightarrow> string" \<comment> \<open>format \<open>%v\<close>\<close>
  ip_RoutingKey :: "string \<Rightarrow> string"
  ip_MarshalRecord :: "'r \<Rightarrow> goerr + byte list"
  ip_UnmarshalRecord :: "byte list \<Rightarrow> goerr + 'r"

section \<open>Addresses\<close>

text \<open>The addresses that \<open>Init\<close> listens on.\<close>

definition listenAddrs :: "int \<Rightarrow> string list" where
  "listenAddrs p2pport = [''/ip4/0.0.0.0/tcp/'' @ itoa p2pport, ''/ip4/0.0.0.0/udp/'' @ itoa (p2pport + 1) @ ''/quic'',
     ''/ip4/0.0.0.0/tcp/'' @ itoa (p2pport + 2) @ ''/ws'', ''/ip4/0.0.0.0/udp/'' @ itoa (p2pport + 3) @ ''/quic/webtransport'']"

text \<open>The function given to \<open>AddrsFactory\<close>: it collects the public addresses in \<open>res\<close>, and returns its argument.\<close>

fun publicAddrs :: "string list \<Rightarrow> string list" where
  "publicAddrs [] = []"
| "publicAddrs (s # src) =
     (if prefix ''/ip6/fd'' s then publicAddrs src
      else if prefix ''/ip4/10.'' s then publicAddrs src
      else if prefix ''/ip4/127.'' s then publicAddrs src
      else if prefix ''/ip4/192.168'' s then publicAddrs src
      else s # publicAddrs src)"

definition addrsFactory :: "string list \<Rightarrow> string list" where
  "addrsFactory src = (let res = publicAddrs src in src)"

section \<open>Identity and mode\<close>

text \<open>The key: the configured one, that of the certificate, whose type must be ECDSA, or a new one.\<close>

datatype privKey = EcdsaKey nat | OtherPrivKey nat | GeneratedKey nat

record ipfsDiscovery =
  id_Key :: "privKey option"
  id_cert :: "privKey option" \<comment> \<open>the private key of \<open>Auth.Cert\<close>, \<open>None\<close> without one\<close>
  id_Domain :: string
  id_Bootstrap :: "string list"

definition ipfsIdentity :: "nat \<Rightarrow> ipfsDiscovery \<Rightarrow> ipfsDiscovery option" where
  "ipfsIdentity generated d = (case id_Key d of
     Some _ \<Rightarrow> Some d
   | None \<Rightarrow> (case id_cert d of
       Some (EcdsaKey n) \<Rightarrow> Some (d\<lparr>id_Key := Some (EcdsaKey n)\<rparr>)
     | Some _ \<Rightarrow> None
     | None \<Rightarrow> Some (d\<lparr>id_Key := Some (GeneratedKey generated)\<rparr>)))"

text \<open>The routing function: DHT mode, concurrency (when set), and whether the validator is replaced. \<open>newErr\<close> is the outcome of
  \<open>dht.New\<close>, which gives a nil DHT with an error.\<close>

datatype dhtMode = ModeClient | ModeServer

record dhtSetup =
  ds_mode :: dhtMode
  ds_Concurrency :: "int option"
  ds_localValidator :: bool

definition ipfsRouting :: "goerr option \<Rightarrow> ipfsDiscovery \<Rightarrow> (goerr + dhtSetup) option" where
  "ipfsRouting newErr d =
     (let setup = (if id_Domain d = [] then \<lparr>ds_mode = ModeClient, ds_Concurrency = None, ds_localValidator = False\<rparr>
                   else \<lparr>ds_mode = ModeServer, ds_Concurrency = Some 3, ds_localValidator = False\<rparr>)
      in case newErr of
        Some e \<Rightarrow> if id_Domain d \<noteq> [] then None else Some (Inl e)
      | None \<Rightarrow> Some (Inr (setup\<lparr>ds_localValidator := (id_Domain d \<noteq> [])\<rparr>)))"

text \<open>The validator for a private DHT accepts every record and takes the first.\<close>

definition validator_Validate :: "string \<Rightarrow> byte list \<Rightarrow> goerr option" where
  "validator_Validate key v = None"

definition validator_Select :: "string \<Rightarrow> byte list list \<Rightarrow> int \<times> goerr option" where
  "validator_Select key vs = (0, None)"

text \<open>\<open>StartDHT\<close> connects to each bootstrap address; the error of parsing it is dropped, and the result used.\<close>

fun startDHT :: "'r ipfsLib \<Rightarrow> string list \<Rightarrow> addrInfo list option" where
  "startDHT lib [] = Some []"
| "startDHT lib (addr # as) = (case ip_AddrInfoFromP2pAddr lib addr of
     Inl _ \<Rightarrow> None
   | Inr pi \<Rightarrow> map_option (\<lambda>cs. pi # cs) (startDHT lib as))"

section \<open>Peers and names\<close>

record peerRecord =
  pr_Schema :: string
  pr_ID :: string
  pr_Addrs :: "string list"

definition SchemaPeer :: string where "SchemaPeer = ''peer''"

text \<open>\<open>peerChanIter\<close>: the channel, whether it was cancelled, and the current peer.\<close>

record peerChanIter =
  it_ch :: "addrInfo list"
  it_cancelled :: bool
  it_next :: "addrInfo option"

definition iter_Next :: "peerChanIter \<Rightarrow> bool \<times> peerChanIter" where
  "iter_Next it = (case it_ch it of
     addr # r \<Rightarrow> (True, it\<lparr>it_ch := r, it_next := Some addr\<rparr>)
   | [] \<Rightarrow> (False, it\<lparr>it_next := None\<rparr>))"

definition recordOf :: "addrInfo \<Rightarrow> peerRecord" where
  "recordOf a = \<lparr>pr_Schema = SchemaPeer, pr_ID = pa_ID a, pr_Addrs = fold (\<lambda>x xs. xs @ [x]) (pa_Addrs a) []\<rparr>"

definition iter_Val :: "peerChanIter \<Rightarrow> peerRecord option" where
  "iter_Val it = map_option recordOf (it_next it)"

definition iter_Close :: "peerChanIter \<Rightarrow> peerChanIter" where
  "iter_Close it = it\<lparr>it_cancelled := True\<rparr>"

definition FindProviders :: "'r ipfsLib \<Rightarrow> string \<Rightarrow> int \<Rightarrow> peerChanIter" where
  "FindProviders lib key limit = \<lparr>it_ch = ip_FindProvidersAsync lib key limit, it_cancelled = False, it_next = None\<rparr>"

definition FindPeers :: "'r ipfsLib \<Rightarrow> string \<Rightarrow> int \<Rightarrow> goerr + peerRecord list" where
  "FindPeers lib pid limit = (case ip_FindPeer lib pid of Inl e \<Rightarrow> Inl e | Inr a \<Rightarrow> Inr [recordOf a])"

text \<open>The values of the DHT, by their key: \<open>get\<close> and \<open>put\<close> stand for \<open>GetValue\<close> and \<open>PutValue\<close> on its state.\<close>

definition GetIPNS :: "'r ipfsLib \<Rightarrow> (string \<Rightarrow> 'd \<Rightarrow> goerr + byte list) \<Rightarrow> string \<Rightarrow> 'd \<Rightarrow> goerr + 'r" where
  "GetIPNS lib get nm dht = (case get (ip_RoutingKey lib nm) dht of Inl e \<Rightarrow> Inl e | Inr raw \<Rightarrow> ip_UnmarshalRecord lib raw)"

definition PutIPNS :: "'r ipfsLib \<Rightarrow> (string \<Rightarrow> byte list \<Rightarrow> 'd \<Rightarrow> goerr option \<times> 'd) \<Rightarrow> string \<Rightarrow> 'r \<Rightarrow> 'd \<Rightarrow> goerr option \<times> 'd" where
  "PutIPNS lib put nm r dht = (case ip_MarshalRecord lib r of
     Inl e \<Rightarrow> (Some e, dht)
   | Inr raw \<Rightarrow> put (ip_RoutingKey lib nm) raw dht)"

section \<open>The connection gater\<close>

text \<open>The counters are globals; a call may log a line. Everything is allowed.\<close>

record gater =
  g_dialCnt :: int
  g_peerDialCnt :: int
  g_securedCnt :: int
  g_logged :: nat

definition InterceptPeerDial :: "gater \<Rightarrow> bool \<times> gater" where
  "InterceptPeerDial g = (True, g\<lparr>g_peerDialCnt := g_peerDialCnt g + 1\<rparr>)"

definition logsAt :: "int \<Rightarrow> bool" where
  "logsAt n \<longleftrightarrow> n < 10 \<or> n mod 50 = 0"

definition InterceptAddrDial :: "gater \<Rightarrow> bool \<times> gater" where
  "InterceptAddrDial g = (let g = g\<lparr>g_dialCnt := g_dialCnt g + 1\<rparr>
     in (True, if logsAt (g_dialCnt g) then g\<lparr>g_logged := g_logged g + 1\<rparr> else g))"

definition InterceptAccept :: "gater \<Rightarrow> bool \<times> gater" where
  "InterceptAccept g = (True, g\<lparr>g_logged := g_logged g + 1\<rparr>)"

definition InterceptSecured :: "gater \<Rightarrow> bool \<times> gater" where
  "InterceptSecured g = (let g = g\<lparr>g_securedCnt := g_securedCnt g + 1\<rparr>
     in (True, if logsAt (g_securedCnt g) then g\<lparr>g_logged := g_logged g + 1\<rparr> else g))"

definition InterceptUpgraded :: "gater \<Rightarrow> bool \<times> int \<times> gater" where
  "InterceptUpgraded g = (True, 0, g)"

section \<open>The handler\<close>

definition P2PAddrFromString :: "'r ipfsLib \<Rightarrow> string \<Rightarrow> goerr + addrInfo" where
  "P2PAddrFromString lib c = (case ip_NewMultiaddr lib c of Inl e \<Rightarrow> Inl e | Inr ma \<Rightarrow> ip_AddrInfoFromP2pAddr lib ma)"

text \<open>What a request makes the node do, in order.\<close>

datatype ipfsAction = ActRouting | ActWrite string | ActGetClosestPeers string | ActFindPeer string | ActConnect addrInfo | ActProvide

definition ipfs_ServeHTTP :: "'r ipfsLib \<Rightarrow> string \<Rightarrow> (string \<Rightarrow> string) \<Rightarrow> ipfsAction list" where
  "ipfs_ServeHTTP lib path form =
     (if prefix ''/routing/'' path then [ActRouting]
      else if form ''q'' \<noteq> [] then
        (case ip_Decode lib (form ''q'') of
           Inl e \<Rightarrow> [ActWrite (err_string e)]
         | Inr pi \<Rightarrow> [ActGetClosestPeers pi, ActFindPeer pi,
             ActWrite (case ip_FindPeer lib pi of Inl e \<Rightarrow> err_string e | Inr d \<Rightarrow> ip_text lib d)])
      else if form ''c'' \<noteq> [] then
        (case P2PAddrFromString lib (form ''c'') of Inl _ \<Rightarrow> [] | Inr pi \<Rightarrow> [ActConnect pi])
      else if form ''p'' \<noteq> [] then [ActProvide]
      else [])"

section \<open>Properties\<close>

text \<open>The loop over an iterator sees every peer that was found, with its addresses, in order, and then nothing.\<close>

fun iterate :: "nat \<Rightarrow> peerChanIter \<Rightarrow> peerRecord option list" where
  "iterate 0 it = []"
| "iterate (Suc n) it = (let (more, it) = iter_Next it in if more then iter_Val it # iterate n it else [])"

lemma recordOf_addrs: "recordOf a = \<lparr>pr_Schema = SchemaPeer, pr_ID = pa_ID a, pr_Addrs = pa_Addrs a\<rparr>"
proof -
  have "fold (\<lambda>x xs. xs @ [x]) as bs = bs @ as" for as bs :: "string list" by (induction as arbitrary: bs) auto
  then show ?thesis by (simp add: recordOf_def)
qed

lemma iterate_all: "length (it_ch it) \<le> n \<Longrightarrow> iterate n it = map (\<lambda>a. Some (recordOf a)) (it_ch it)"
proof (induction n arbitrary: it)
  case (Suc n)
  then show ?case by (cases "it_ch it") (auto simp: iter_Next_def iter_Val_def Let_def)
qed simp

lemma findProviders_all:
  "iterate (length (ip_FindProvidersAsync lib key limit)) (FindProviders lib key limit)
    = map (\<lambda>a. Some \<lparr>pr_Schema = SchemaPeer, pr_ID = pa_ID a, pr_Addrs = pa_Addrs a\<rparr>) (ip_FindProvidersAsync lib key limit)"
  by (simp add: iterate_all FindProviders_def recordOf_addrs)

text \<open>Names. A record that is published under a name is what is then found under it, and other names keep what they had. The
  hypotheses are what is documented of the DHT, that a value which was put is what is got under its key, and of the encodings, that
  a record can be read back and that names have keys of their own.\<close>

lemma ipns_roundtrip:
  assumes "\<And>k v d d'. put k v d = (None, d') \<Longrightarrow> get k d' = Inr v \<and> (\<forall>j. j \<noteq> k \<longrightarrow> get j d' = get j d)"
    and "\<And>r raw. ip_MarshalRecord lib r = Inr raw \<Longrightarrow> ip_UnmarshalRecord lib raw = Inr r" and "inj (ip_RoutingKey lib)"
    and "PutIPNS lib put nm r dht = (None, dht')"
  shows "GetIPNS lib get nm dht' = Inr r" and "other \<noteq> nm \<Longrightarrow> GetIPNS lib get other dht' = GetIPNS lib get other dht"
proof -
  obtain raw where raw: "ip_MarshalRecord lib r = Inr raw" "put (ip_RoutingKey lib nm) raw dht = (None, dht')"
    using assms(4) by (auto simp: PutIPNS_def split: sum.splits)
  note p = assms(1) [OF raw(2)]
  show "GetIPNS lib get nm dht' = Inr r" using p assms(2) [OF raw(1)] by (simp add: GetIPNS_def)
  assume "other \<noteq> nm"
  then have "ip_RoutingKey lib other \<noteq> ip_RoutingKey lib nm" using assms(3) by (meson injD)
  then show "GetIPNS lib get other dht' = GetIPNS lib get other dht" using p by (simp add: GetIPNS_def)
qed

text \<open>A public DHT is only used as a client, with its own validator; a private one is served, and accepts every record.\<close>

lemma routing_mode:
  "ipfsRouting None d = Some (Inr s) \<Longrightarrow> (ds_mode s = ModeServer \<longleftrightarrow> id_Domain d \<noteq> []) \<and> (ds_localValidator s \<longleftrightarrow> id_Domain d \<noteq> [])"
  by (auto simp: ipfsRouting_def Let_def split: if_splits)

text \<open>The filter has no effect: private addresses are announced.\<close>

lemma addrs_not_filtered: "addrsFactory [''/ip4/192.168.1.1/tcp/1''] = [''/ip4/192.168.1.1/tcp/1'']" "publicAddrs [''/ip4/192.168.1.1/tcp/1''] = []"
  by (simp_all add: addrsFactory_def)

text \<open>A bootstrap address that cannot be parsed makes the start panic, and so does an error of a private DHT or a certificate whose
  key is not ECDSA.\<close>

lemma startDHT_panics: "startDHT lib as = None \<longleftrightarrow> (\<exists>a \<in> set as. \<exists>e. ip_AddrInfoFromP2pAddr lib a = Inl e)"
  by (induction as) (auto split: sum.splits)

lemma routing_panics: "id_Domain d \<noteq> [] \<Longrightarrow> ipfsRouting (Some e) d = None"
  by (simp add: ipfsRouting_def)

lemma identity_panics: "id_Key d = None \<Longrightarrow> id_cert d = Some (OtherPrivKey n) \<Longrightarrow> ipfsIdentity g d = None"
  by (simp add: ipfsIdentity_def)

text \<open>A request to connect to an invalid address does nothing, and answers nothing.\<close>

lemma connect_error_silent:
  "\<not> prefix ''/routing/'' path \<Longrightarrow> form ''q'' = [] \<Longrightarrow> form ''c'' \<noteq> [] \<Longrightarrow> P2PAddrFromString lib (form ''c'') = Inl e \<Longrightarrow>
   ipfs_ServeHTTP lib path form = []"
  by (simp add: ipfs_ServeHTTP_def)

text \<open>The log lines of a long run: nine, and then one for every fifty dials.\<close>

fun dials :: "nat \<Rightarrow> gater \<Rightarrow> gater" where
  "dials 0 g = g"
| "dials (Suc n) g = snd (InterceptAddrDial (dials n g))"

lemma dials_logged:
  assumes "g_dialCnt g = 0" "g_logged g = 0"
  shows "g_dialCnt (dials n g) = int n \<and> g_logged (dials n g) = min n 9 + n div 50"
proof (induction n)
  case (Suc n)
  have "logsAt (int n + 1) \<longleftrightarrow> n < 9 \<or> Suc n mod 50 = 0"
    unfolding logsAt_def by presburger
  moreover have "Suc n div 50 = n div 50 + (if Suc n mod 50 = 0 then 1 else 0)" by (simp add: div_Suc)
  ultimately show ?case using Suc by (auto simp: InterceptAddrDial_def Let_def)
qed (use assms in simp)

end
