(* ===== verification/Echo_Check.thy ===== *)
theory Echo_Check
  imports Echo
begin

text \<open>
  \<^verbatim>\<open>src/pkg/test/testing.go\<close>: the client that checks an echo server, used by the tests of each transport. It writes a chunk, reads
  the description of the stream and the chunk back, writes another chunk, reads it back, closes its side and waits for the end.
  \<open>None\<close> is a panic: an output that cannot be closed.
\<close>

section \<open>The client\<close>

definition chunk1 :: "byte list" where "chunk1 = bytes_of ''Hello world''"
definition chunk2 :: "byte list" where "chunk2 = bytes_of ''chunk2''"

text \<open>The result, its error, and the two ends of the connection afterwards.\<close>

type_synonym checked = "(string \<times> goerr option) \<times> reader \<times> writer"

text \<open>The end: the output is closed, and the input must be at its end. A read that gives no error gives the result \<open>("", nil)\<close>.\<close>

definition checkEnd :: "caps \<Rightarrow> string \<Rightarrow> reader \<Rightarrow> writer \<Rightarrow> checked option" where
  "checkEnd outC js r w =
     (if \<not> isCloseWriter outC \<and> \<not> isCloser outC then None
      else let (bs, err, r) = go_read 2048 r in
        if err \<noteq> Some EOF then Some (([], err), r, w) else Some ((js, None), r, w))"

definition checkSecond :: "caps \<Rightarrow> string \<Rightarrow> reader \<Rightarrow> writer \<Rightarrow> checked option" where
  "checkSecond outC js r w =
     (let (_, err, w) = go_write chunk2 w in
      if err \<noteq> None then Some (([], err), r, w)
      else let (bs, err, r) = go_read 2048 r in
        if err \<noteq> None then Some (([], err), r, w)
        else if bs \<noteq> chunk2 then Some ((js, Some (ErrMsg (''miss-matched result '' @ str_of bs))), r, w)
        else checkEnd outC js r w)"

definition checkFirst :: "caps \<Rightarrow> string \<Rightarrow> byte list \<Rightarrow> reader \<Rightarrow> writer \<Rightarrow> checked option" where
  "checkFirst outC js d r w =
     (if d \<noteq> chunk1 then Some ((js, Some (ErrMsg (''miss-matched result1 '' @ str_of d))), r, w)
      else checkSecond outC js r w)"

text \<open>\<open>CheckEcho\<close>. \<open>d\<close> is what the buffer holds after the header line; when it is less than the chunk, one more read goes behind it.\<close>

definition CheckEcho :: "caps \<Rightarrow> reader \<Rightarrow> writer \<Rightarrow> checked option" where
  "CheckEcho outC r w =
     (let (_, err, w) = go_write chunk1 w in
      if err \<noteq> None then Some (([], err), r, w)
      else let (bs, err, r) = go_read 2048 r in
        if err \<noteq> None then Some (([], err), r, w)
        else if 10 \<notin> set bs then Some ((str_of bs, Some (ErrMsg ''missing header'')), r, w)
        else let js = str_of (takeWhile (\<lambda>b. b \<noteq> 10) bs);
                 d = tl (dropWhile (\<lambda>b. b \<noteq> 10) bs) in
          if length d < length chunk1 then
            let (bs2, err, r) = go_read (2048 - length d) r in
            if err \<noteq> None then Some (([], err), r, w) else checkFirst outC js (d @ bs2) r w
          else checkFirst outC js d r w)"

section \<open>What a passed check means\<close>

lemma checkEnd_ok:
  assumes "checkEnd outC js r w = Some ((js', None), r', w')"
  shows "w' = w \<and> (js' = js \<or> js' = []) \<and> (js' \<noteq> [] \<longrightarrow> fst (snd (go_read 2048 r)) = Some EOF)"
  using assms by (auto simp: checkEnd_def split_beta Let_def split: if_splits)

lemma checkSecond_ok:
  assumes "checkSecond outC js r w = Some ((js', None), r', w')"
  shows "\<exists>rest. reader_bytes r = chunk2 @ rest \<and> (js' = js \<or> js' = [])"
proof -
  obtain n err w1 where w: "go_write chunk2 w = (n, err, w1)" by (metis prod_cases3)
  obtain bs e r1 where r: "go_read 2048 r = (bs, e, r1)" by (metis prod_cases3)
  have "err = None \<and> e = None \<and> bs = chunk2 \<and> checkEnd outC js r1 w1 = Some ((js', None), r', w')"
    using assms by (auto simp: checkSecond_def w r split: if_splits)
  then show ?thesis using go_read_bytes [OF r] checkEnd_ok [of outC js r1 w1 js' r' w'] by auto
qed

lemma checkFirst_ok:
  assumes "checkFirst outC js d r w = Some ((js', None), r', w')"
  shows "d = chunk1 \<and> (\<exists>rest. reader_bytes r = chunk2 @ rest \<and> (js' = js \<or> js' = []))"
  using assms checkSecond_ok [of outC js r w js' r' w'] by (auto simp: checkFirst_def split: if_splits)

lemma header_split: "(10 :: byte) \<in> set bs \<Longrightarrow> bs = takeWhile (\<lambda>b. b \<noteq> 10) bs @ 10 # tl (dropWhile (\<lambda>b. b \<noteq> 10) bs)"
proof (induction bs)
  case (Cons b bs)
  then show ?case by (cases "b = 10") auto
qed simp

text \<open>A check that passes has read a line, both chunks and nothing in between.\<close>

lemma checkEcho_sound:
  assumes "CheckEcho outC r w = Some ((js, None), r', w')"
  shows "\<exists>hdr rest. reader_bytes r = hdr @ 10 # chunk1 @ chunk2 @ rest \<and> 10 \<notin> set hdr \<and> (js = str_of hdr \<or> js = [])"
proof -
  obtain n err w1 where w: "go_write chunk1 w = (n, err, w1)" by (metis prod_cases3)
  obtain bs e r1 where r: "go_read 2048 r = (bs, e, r1)" by (metis prod_cases3)
  define hdr where "hdr = takeWhile (\<lambda>b. b \<noteq> 10) bs"
  define d where "d = tl (dropWhile (\<lambda>b. b \<noteq> 10) bs)"
  have g: "err = None" "e = None" "10 \<in> set bs" using assms by (auto simp: CheckEcho_def w r split: if_splits)
  have nl: "10 \<notin> set hdr" unfolding hdr_def using set_takeWhileD by fastforce
  have b: "reader_bytes r = hdr @ 10 # d @ reader_bytes r1"
    using go_read_bytes [OF r] header_split [OF g(3)] unfolding hdr_def d_def by (metis append_Cons append_assoc)
  show ?thesis
  proof (cases "length d < length chunk1")
    case True
    obtain bs2 e2 r2 where r2: "go_read (2048 - length d) r1 = (bs2, e2, r2)" by (metis prod_cases3)
    have "checkFirst outC (str_of hdr) (d @ bs2) r2 w1 = Some ((js, None), r', w')"
      using assms True g unfolding CheckEcho_def by (auto simp: w r r2 Let_def hdr_def [symmetric] d_def [symmetric] split: if_splits)
    from checkFirst_ok [OF this] show ?thesis using b go_read_bytes [OF r2] nl by (metis append_assoc)
  next
    case False
    have "checkFirst outC (str_of hdr) d r1 w1 = Some ((js, None), r', w')"
      using assms False g unfolding CheckEcho_def by (auto simp: w r Let_def hdr_def [symmetric] d_def [symmetric] split: if_splits)
    from checkFirst_ok [OF this] show ?thesis using b nl by auto
  qed
qed

section \<open>The client and the server\<close>

lemma takeWhile_header:
  assumes "(10 :: byte) \<notin> set info"
  shows "takeWhile (\<lambda>b. b \<noteq> 10) (info @ 10 # a) = info" "dropWhile (\<lambda>b. b \<noteq> 10) (info @ 10 # a) = 10 # a"
  using assms by (induction info) auto

lemma checkSecond_passes:
  assumes "isCloseWriter outC \<or> isCloser outC" "w_next w = []"
  shows "checkSecond outC js [(chunk2, None)] w = Some ((js, None), [], w\<lparr>w_out := w_out w @ chunk2\<rparr>)"
proof -
  have "go_read 2048 [(chunk2, None)] = (chunk2, None, [])" by (simp add: chunk2_def)
  then show ?thesis using assms by (simp add: checkSecond_def checkEnd_def go_write_def)
qed

text \<open>The check and the echo server agree. The mesh handler of the echo server, given what the client writes, answers with the
  description of the stream and the two chunks; and the client passes on that answer, with the description as its result, wherever
  the transport splits the first chunk.\<close>

theorem echo_check_passes:
  assumes "10 \<notin> set info" "length info \<le> 2000" "chunk1 = a @ b" "isCloseWriter outC \<or> isCloser outC" "w_next w = []" "w_next s = []"
    and "r = (info @ 10 # a, None) # (if b = [] then [] else [(b, None)]) @ [(chunk2, None)]"
  shows "CheckEcho outC r w = Some ((str_of info, None), [], w\<lparr>w_out := w_out w @ chunk1 @ chunk2\<rparr>) \<and>
    w_out (snd (snd (echo_handle info False [(chunk1, None), (chunk2, None)] s))) = w_out s @ reader_bytes r"
proof
  have len: "length chunk1 = 11" "length chunk2 = 6" by (simp_all add: chunk1_def chunk2_def)
  have ab: "length a + length b = 11" using len(1) by (simp add: assms(3))
  define w1 where "w1 = w\<lparr>w_out := w_out w @ chunk1\<rparr>"
  have wr: "go_write chunk1 w = (11, None, w1)" using assms(5) len by (simp add: go_write_def w1_def)
  have w1: "w_next w1 = []" "w1\<lparr>w_out := w_out w1 @ chunk2\<rparr> = w\<lparr>w_out := w_out w @ chunk1 @ chunk2\<rparr>" using assms(5) by (simp_all add: w1_def)
  define tl1 where "tl1 = (if b = [] then [] else [(b, None)]) @ [(chunk2, None :: goerr option)]"
  have r1: "go_read 2048 r = (info @ 10 # a, None, tl1)" using assms(2,7) ab by (simp add: tl1_def)
  note th = takeWhile_header [OF assms(1), of a]
  have step: "CheckEcho outC r w = (if length a < 11 then
       let (bs2, err, r) = go_read (2048 - length a) tl1 in
       if err \<noteq> None then Some (([], err), r, w1) else checkFirst outC (str_of info) (a @ bs2) r w1
     else checkFirst outC (str_of info) a tl1 w1)"
    by (simp add: CheckEcho_def wr r1 th len)
  show "CheckEcho outC r w = Some ((str_of info, None), [], w\<lparr>w_out := w_out w @ chunk1 @ chunk2\<rparr>)"
  proof (cases "b = []")
    case True
    then have "tl1 = [(chunk2, None)]" "a = chunk1" using assms(3) by (simp_all add: tl1_def)
    then show ?thesis using step ab True checkSecond_passes [OF assms(4) w1(1)] w1(2) by (simp add: checkFirst_def)
  next
    case False
    then have "go_read (2048 - length a) tl1 = (b, None, [(chunk2, None)])" using ab by (simp add: tl1_def)
    moreover have "length a < 11" using False ab by (cases b) auto
    ultimately show ?thesis using step checkSecond_passes [OF assms(4) w1(1)] w1(2) assms(3) by (simp add: checkFirst_def)
  qed
  have "go_read 2048 [(chunk1, None), (chunk2, None)] = (chunk1, None, [(chunk2, None)])" using len by simp
  moreover have "plain_reader [(chunk2, None)]" by (simp add: plain_reader_def)
  moreover define s1 where "s1 = s\<lparr>w_out := w_out s @ info @ [10] @ chunk1\<rparr>"
  ultimately show "w_out (snd (snd (echo_handle info False [(chunk1, None), (chunk2, None)] s))) = w_out s @ reader_bytes r"
    using io_copy_complete [of "[(chunk2, None)]" s1] assms(3,6,7)
    by (auto simp: echo_handle_def go_write_def s1_def io_simps split: prod.splits)
qed

theorem echo_check_passes_witness:
  "CheckEcho tcpCaps [(bytes_of ''{}'' @ 10 # bytes_of ''Hello'', None), (bytes_of '' world'', None), (bytes_of ''chunk2'', None)] \<lparr>w_out = [], w_next = []\<rparr>
    = Some ((''{}'', None), [], \<lparr>w_out = bytes_of ''Hello worldchunk2'', w_next = []\<rparr>)"
proof -
  let ?r = "[(bytes_of ''{}'' @ 10 # bytes_of ''Hello'', None), (bytes_of '' world'', None), (bytes_of ''chunk2'', None)]"
  have "CheckEcho tcpCaps ?r \<lparr>w_out = [], w_next = []\<rparr> = Some ((str_of (bytes_of ''{}''), None), [],
      \<lparr>w_out = [], w_next = []\<rparr>\<lparr>w_out := w_out \<lparr>w_out = [], w_next = []\<rparr> @ chunk1 @ chunk2\<rparr>) \<and>
    w_out (snd (snd (echo_handle (bytes_of ''{}'') False [(chunk1, None), (chunk2, None)] \<lparr>w_out = [], w_next = []\<rparr>)))
      = w_out \<lparr>w_out = [], w_next = []\<rparr> @ reader_bytes ?r"
    by (rule echo_check_passes [where a = "bytes_of ''Hello''" and b = "bytes_of '' world''"])
      (simp_all add: chunk1_def chunk2_def tcpCaps_def)
  then show ?thesis by (simp add: chunk1_def chunk2_def str_of_bytes_of del: bytes_of_Cons) simp
qed

text \<open>Data in place of the end of the stream passes as well, with an empty result.\<close>

lemma check_extra_data:
  assumes "isCloser outC" "bs \<noteq> []" "length bs \<le> 2048"
  shows "checkEnd outC js [(bs, None)] w = Some (([], None), [], w)"
  using assms by (simp add: checkEnd_def)

end
