(* ===== verification/Gotmpl.thy ===== *)
theory Gotmpl
  imports Http_Proxy
begin

text \<open>
  \<^verbatim>\<open>src/pkg/gotmpl/tmpl.go\<close>: Go templates as run books. A template is loaded and compiled once, executed, and its output taken apart:
  YAML between two lines of dashes, then text or JSON. The HTTP functions that templates may call are modelled too.

  The template engine, the file system, YAML and \<open>net/http\<close> are the fields of \<open>tmplLib\<close>, for compiled templates of a type \<open>'t\<close> and
  values of a type \<open>'a\<close>. \<open>None\<close> is a panic.
\<close>

section \<open>Libraries and data\<close>

record tmplReq =
  hr_method :: string
  hr_url :: string
  hr_body :: "byte list"
  hr_Header :: header

record ('t, 'a) tmplLib =
  tl_Open :: "string \<Rightarrow> goerr + reader"
  tl_Parse :: "string \<Rightarrow> string \<Rightarrow> goerr + 't"
  tl_Execute :: "'t \<Rightarrow> string \<Rightarrow> byte list" \<comment> \<open>what the buffer holds, errors included\<close>
  tl_yamlUnmarshal :: "byte list \<Rightarrow> (string \<times> 'a) list \<Rightarrow> goerr option \<times> (string \<times> 'a) list"
  tl_NewRequest :: "string \<Rightarrow> string \<Rightarrow> goerr option"
  tl_Do :: "tmplReq \<Rightarrow> goerr + response"

record 't templateCtx =
  tx_Id :: string
  tx_Template :: string
  tx_template :: "'t option"

record 'a observation =
  ob_Meta :: "(string \<times> 'a) list"
  ob_Observation :: string

section \<open>HTTP functions\<close>

text \<open>The loop over the headers counts \<open>i\<close> by two and then doubles it. \<open>None\<close> is an index out of range.\<close>

function addHeaders :: "nat \<Rightarrow> string list \<Rightarrow> header \<Rightarrow> header option" where
  "addHeaders i headers h =
     (if int i < int (length headers) - 1 then
        if 2 * i + 1 < length headers then addHeaders (i + 2) headers (Header_Add h (headers ! (2 * i)) (headers ! (2 * i + 1)))
        else None
      else Some h)"
  by pat_completeness auto
termination by (relation "measure (\<lambda>(i, headers, h). length headers - i)") auto

declare addHeaders.simps [simp del]

text \<open>\<open>HttpRequest\<close>: the request is used before its error is looked at; with an error it is nil.\<close>

definition HttpRequest :: "('t, 'a) tmplLib \<Rightarrow> string \<Rightarrow> string \<Rightarrow> string \<Rightarrow> string list \<Rightarrow> (goerr + tmplReq) option" where
  "HttpRequest lib method url tmpl headers = (case tl_NewRequest lib method url of
     None \<Rightarrow> map_option (\<lambda>h. Inr \<lparr>hr_method = method, hr_url = url, hr_body = bytes_of tmpl, hr_Header = h\<rparr>) (addHeaders 0 headers [])
   | Some e \<Rightarrow> if int (length headers) - 1 > 0 then None else Some (Inl e))"

definition HttpDo :: "('t, 'a) tmplLib \<Rightarrow> tmplReq \<Rightarrow> goerr + response" where
  "HttpDo lib r = tl_Do lib r"

definition tmplPost :: "('t, 'a) tmplLib \<Rightarrow> string \<Rightarrow> string \<Rightarrow> string list \<Rightarrow> (goerr + response) option" where
  "tmplPost lib url tmpl headers = (case HttpRequest lib ''POST'' url tmpl headers of
     None \<Rightarrow> None
   | Some (Inl e) \<Rightarrow> Some (Inl e)
   | Some (Inr r) \<Rightarrow> Some (HttpDo lib r))"

section \<open>Running a template\<close>

text \<open>\<open>strings.SplitN(s, sep, n)\<close> for a separator that is not empty.\<close>

fun cutAt :: "string \<Rightarrow> string \<Rightarrow> (string \<times> string) option" where
  "cutAt sep [] = None"
| "cutAt sep (c # s) = (if prefix sep (c # s) then Some ([], drop (length sep) (c # s))
     else map_option (\<lambda>(a, b). (c # a, b)) (cutAt sep s))"

fun splitN :: "nat \<Rightarrow> string \<Rightarrow> string \<Rightarrow> string list" where
  "splitN 0 sep s = []"
| "splitN (Suc 0) sep s = [s]"
| "splitN (Suc (Suc n)) sep s = (case cutAt sep s of None \<Rightarrow> [s] | Some (a, b) \<Rightarrow> a # splitN (Suc n) sep b)"

text \<open>The bytes and the error of \<open>io.ReadAll\<close>.\<close>

fun ioReadAll :: "reader \<Rightarrow> byte list \<times> goerr option" where
  "ioReadAll [] = ([], None)"
| "ioReadAll ((bs, None) # r) = (let (cs, e) = ioReadAll r in (bs @ cs, e))"
| "ioReadAll ((bs, Some e) # r) = (bs, if e = EOF then None else Some e)"

definition tmplLoad :: "('t, 'a) tmplLib \<Rightarrow> 't templateCtx \<Rightarrow> goerr option \<times> 't templateCtx" where
  "tmplLoad lib tc =
     (if tx_Template tc = [] then
        (case tl_Open lib (tx_Id tc) of
           Inl e \<Rightarrow> (Some e, tc)
         | Inr f \<Rightarrow> (case ioReadAll f of
             (_, Some e) \<Rightarrow> (Some e, tc)
           | (bd, None) \<Rightarrow> (None, tc\<lparr>tx_Template := str_of bd\<rparr>)))
      else (None, tc))"

definition tmplCompile :: "('t, 'a) tmplLib \<Rightarrow> 't templateCtx \<Rightarrow> (goerr + 't) \<times> 't templateCtx" where
  "tmplCompile lib tc = (case tx_template tc of
     Some t \<Rightarrow> (Inr t, tc)
   | None \<Rightarrow> (case tmplLoad lib tc of
       (Some e, tc) \<Rightarrow> (Inl e, tc)
     | (None, tc) \<Rightarrow> (case tl_Parse lib (tx_Id tc) (tx_Template tc) of
         Inl e \<Rightarrow> (Inl e, tc)
       | Inr t \<Rightarrow> (Inr t, tc\<lparr>tx_template := Some t\<rparr>))))"

text \<open>The output. \<open>json.Unmarshal\<close> into a map, not into a pointer to one, only gives an error, which is dropped: \<open>Meta\<close> stays as it is.\<close>

definition tmplResult :: "('t, 'a) tmplLib \<Rightarrow> string \<Rightarrow> goerr + 'a observation" where
  "tmplResult lib out = (case splitN 3 ''---'' out of
     [_, y, rest] \<Rightarrow> (case tl_yamlUnmarshal lib (bytes_of y) [] of
         (Some e, _) \<Rightarrow> Inl e
       | (None, meta) \<Rightarrow> Inr \<lparr>ob_Meta = meta, ob_Observation = (if prefix ''{'' rest then [] else rest)\<rparr>)
   | _ \<Rightarrow> Inr \<lparr>ob_Meta = [], ob_Observation = (if prefix ''{'' out then [] else out)\<rparr>)"

definition tmplRun :: "('t, 'a) tmplLib \<Rightarrow> 't templateCtx \<Rightarrow> (goerr + 'a observation) \<times> 't templateCtx" where
  "tmplRun lib tc = (case tmplCompile lib tc of
     (Inl e, tc) \<Rightarrow> (Inl e, tc)
   | (Inr t, tc) \<Rightarrow> (tmplResult lib (str_of (tl_Execute lib t (tx_Id tc))), tc))"

section \<open>Splitting\<close>

lemma cutAt_spec:
  assumes "sep \<noteq> []"
  shows "cutAt sep s = Some (a, b) \<longleftrightarrow> s = a @ sep @ b \<and> (\<forall>p q. s = p @ sep @ q \<longrightarrow> length a \<le> length p)"
proof (induction s arbitrary: a b)
  case Nil
  then show ?case using assms by simp
next
  case (Cons c s)
  show ?case
  proof (cases "prefix sep (c # s)")
    case True
    then obtain q where q: "c # s = sep @ q" by (auto simp: prefix_def)
    have "drop (length sep) (c # s) = q" by (simp only: q) simp
    then have "cutAt sep (c # s) = Some ([], q)" by (simp only: cutAt.simps True if_True)
    moreover have "\<forall>p q. c # s = p @ sep @ q \<longrightarrow> length a \<le> length p \<Longrightarrow> a = []" using q by fastforce
    ultimately show ?thesis using q by auto
  next
    case False
    have ne: "p \<noteq> []" if "c # s = p @ sep @ q" for p q using False that by (auto simp: prefix_def)
    have "cutAt sep (c # s) = Some (a, b) \<longleftrightarrow> (\<exists>a'. a = c # a' \<and> cutAt sep s = Some (a', b))"
      using False by auto
    also have "\<dots> \<longleftrightarrow> (\<exists>a'. a = c # a' \<and> s = a' @ sep @ b \<and> (\<forall>p q. s = p @ sep @ q \<longrightarrow> length a' \<le> length p))"
      using Cons.IH by simp
    also have "\<dots> \<longleftrightarrow> c # s = a @ sep @ b \<and> (\<forall>p q. c # s = p @ sep @ q \<longrightarrow> length a \<le> length p)" (is "?L \<longleftrightarrow> ?R")
    proof
      assume ?L
      then obtain a' where a': "a = c # a'" "s = a' @ sep @ b" "\<forall>p q. s = p @ sep @ q \<longrightarrow> length a' \<le> length p" by blast
      have "length a \<le> length p" if pq: "c # s = p @ sep @ q" for p q
        using ne [OF pq] pq a'(1,3) by (cases p) auto
      then show ?R using a'(1,2) by simp
    next
      assume R: ?R
      then obtain a' where a': "a = c # a'" using ne [of a b] by (cases a) auto
      then have "length a' \<le> length p" if "s = p @ sep @ q" for p q using R that by (metis append_Cons length_Cons not_less_eq_eq)
      then show ?L using R a' by auto
    qed
    finally show ?thesis .
  qed
qed

lemma join_splitN: "sep \<noteq> [] \<Longrightarrow> join_with sep (splitN (Suc n) sep s) = s"
proof (induction n arbitrary: s)
  case (Suc n)
  show ?case
  proof (cases "cutAt sep s")
    case (Some ab)
    obtain a b where ab: "ab = (a, b)" by (cases ab)
    have "splitN (Suc n) sep b \<noteq> []" by (cases n) (auto split: option.splits)
    then obtain x xs where x: "splitN (Suc n) sep b = x # xs" by (cases "splitN (Suc n) sep b") auto
    have "s = a @ sep @ b" using cutAt_spec [OF Suc.prems, of s a b] Some ab by simp
    then show ?thesis using Suc.IH [OF Suc.prems, of b] Some ab x by simp
  qed simp
qed simp

section \<open>Properties\<close>

text \<open>A template is compiled once: a second run uses it, whatever the file system then has.\<close>

lemma run_compiled:
  assumes "tmplRun lib tc = (Inr o1, tc1)"
  shows "\<exists>t. tx_template tc1 = Some t \<and> tmplRun lib' tc1 = (tmplResult lib' (str_of (tl_Execute lib' t (tx_Id tc1))), tc1)"
  using assms by (auto simp: tmplRun_def tmplCompile_def split: prod.splits option.splits sum.splits)

text \<open>Output with front matter: the YAML is decoded, and the rest is the observation, dashes included.\<close>

lemma result_front_matter:
  assumes "cutAt ''---'' out = Some (before, r)" "cutAt ''---'' r = Some (y, rest)" "tl_yamlUnmarshal lib (bytes_of y) [] = (None, meta)" "\<not> prefix ''{'' rest"
  shows "tmplResult lib out = Inr \<lparr>ob_Meta = meta, ob_Observation = rest\<rparr>"
  using assms by (simp add: tmplResult_def eval_nat_numeral)

text \<open>Output that is JSON only is lost: it is neither decoded nor kept as text.\<close>

lemma json_output_lost:
  assumes "cutAt ''---'' out = None" "prefix ''{'' out"
  shows "tmplResult lib out = Inr \<lparr>ob_Meta = [], ob_Observation = []\<rparr>"
  using assms by (simp add: tmplResult_def eval_nat_numeral)

lemma addHeaders_end: "int (length hs) - 1 \<le> int i \<Longrightarrow> addHeaders i hs h = Some h"
  by (simp add: addHeaders.simps [of i hs h])

lemma addHeaders_panics: "2 \<le> i \<Longrightarrow> int i < int (length hs) - 1 \<Longrightarrow> addHeaders i hs h = None"
proof (induction i hs h rule: addHeaders.induct)
  case (1 i hs h)
  show ?case
  proof (cases "2 * i + 1 < length hs")
    case True
    then have "int (i + 2) < int (length hs) - 1" using "1.prems" by linarith
    then show ?thesis using "1.IH" "1.prems" True by (simp add: addHeaders.simps [of i hs h])
  next
    case False
    then show ?thesis using "1.prems" by (subst addHeaders.simps) simp
  qed
qed

lemma addHeaders_iff: "addHeaders 0 hs h = None \<longleftrightarrow> 4 \<le> length hs"
proof (cases "2 \<le> length hs")
  case True
  then have step: "addHeaders 0 hs h = addHeaders 2 hs (Header_Add h (hs ! 0) (hs ! 1))" by (subst addHeaders.simps) (simp add: eval_nat_numeral)
  show ?thesis
  proof (cases "4 \<le> length hs")
    case True
    then show ?thesis unfolding step using addHeaders_panics [of 2 hs] by simp
  next
    case False
    then show ?thesis unfolding step using addHeaders_end [of hs 2] by simp
  qed
next
  case False
  then show ?thesis using addHeaders_end [of hs 0] by simp
qed

text \<open>Headers of a request from a template. \<open>HttpRequest\<close> returns exactly when at most one header is given (a name and a value, or a
  left-over name) and, when there is one, the request could be made; then the request has that header. With two or more headers every
  call panics.\<close>

theorem httpRequest_one_header:
  "(HttpRequest lib method url tmpl hs = None \<longleftrightarrow> 4 \<le> length hs \<or> 2 \<le> length hs \<and> tl_NewRequest lib method url \<noteq> None)
   \<and> (\<forall>r. HttpRequest lib method url tmpl hs = Some (Inr r) \<longrightarrow> hr_method r = method \<and> hr_url r = url \<and> hr_body r = bytes_of tmpl
        \<and> hr_Header r = (case hs of k # v # _ \<Rightarrow> [(canonicalKey k, [v])] | _ \<Rightarrow> []))"
proof -
  have hdr: "addHeaders 0 hs [] = Some h \<Longrightarrow> h = (case hs of k # v # _ \<Rightarrow> [(canonicalKey k, [v])] | _ \<Rightarrow> [])" for h
  proof -
    assume a: "addHeaders 0 hs [] = Some h"
    then have l: "length hs < 4" using addHeaders_iff [of hs "[]"] by (cases "4 \<le> length hs") auto
    show ?thesis
    proof (cases "2 \<le> length hs")
      case True
      then obtain k v t where hs: "hs = k # v # t" by (cases hs; cases "tl hs") auto
      have "addHeaders 0 hs [] = addHeaders 2 hs (Header_Add [] k v)" using hs by (subst addHeaders.simps) (simp add: eval_nat_numeral)
      then have "h = Header_Add [] k v" using a addHeaders_end [of hs 2] l by simp
      then show ?thesis by (simp add: hs Header_Add_def)
    next
      case False
      then show ?thesis using a addHeaders_end [of hs 0 "[]"] by (cases hs; cases "tl hs") auto
    qed
  qed
  show ?thesis using addHeaders_iff [of hs "[]"] hdr by (auto simp: HttpRequest_def split: option.splits if_splits)
qed

theorem httpRequest_one_header_witness:
  "HttpRequest \<lparr>tl_Open = (\<lambda>_. Inl EOF), tl_Parse = (\<lambda>_ _. Inr ()), tl_Execute = (\<lambda>_ _. []), tl_yamlUnmarshal = (\<lambda>_ m. (None, m :: (string \<times> nat) list)),
       tl_NewRequest = (\<lambda>_ _. None), tl_Do = (\<lambda>_. Inl EOF)\<rparr> ''POST'' ''u'' ''b'' [''A'', ''1'', ''B'', ''2''] = None"
  using httpRequest_one_header [of "\<lparr>tl_Open = (\<lambda>_. Inl EOF), tl_Parse = (\<lambda>_ _. Inr ()), tl_Execute = (\<lambda>_ _. []), tl_yamlUnmarshal = (\<lambda>_ m. (None, m :: (string \<times> nat) list)),
       tl_NewRequest = (\<lambda>_ _. None), tl_Do = (\<lambda>_. Inl EOF)\<rparr>" "''POST''" "''u''" "''b''" "[''A'', ''1'', ''B'', ''2'']"]
  by simp

end
