(* ===== verification/Tools.thy ===== *)
theory Tools
  imports Http_Proxy
begin

text \<open>
  Small pieces of logic in the commands: the names of clusters (\<^verbatim>\<open>src/cmd/uagent/uagent.go\<close>), the choice of addresses in the network
  plugin (\<^verbatim>\<open>src/cmd/ucni/ucni.go\<close>), tokens (\<^verbatim>\<open>src/cmd/toktool.go\<close>), flags from structures (\<^verbatim>\<open>src/cmd/ucli/parse.go\<close>), and the
  user timeout of TCP sockets (\<^verbatim>\<open>src/nio/syscall/syscall_linux.go\<close>). \<open>None\<close> is a panic.
\<close>

section \<open>Names of clusters\<close>

definition GcpInfo :: "string \<Rightarrow> string \<times> string \<times> string" where
  "GcpInfo cf = (let parts = split_on (CHR ''_'') cf in
     if prefix ''gke_'' cf \<and> length parts > 3 then (parts ! 1, parts ! 2, parts ! 3)
     else if prefix ''connectgateway_'' cf \<and> length parts > 2 then (parts ! 1, [], parts ! 2)
     else ([], [], cf))"

text \<open>Project, location and name are found in the name that \<open>gcloud\<close> gives to a cluster, and project and name in that of a
  connect gateway; any other name is the name itself.\<close>

lemma gcpInfo_gke:
  assumes "CHR ''_'' \<notin> set p" "CHR ''_'' \<notin> set l" "CHR ''_'' \<notin> set c"
  shows "GcpInfo (''gke_'' @ p @ ''_'' @ l @ ''_'' @ c) = (p, l, c)"
  using assms split_on_append [of "CHR ''_''" "''gke''" "p @ ''_'' @ l @ ''_'' @ c"]
  by (simp add: GcpInfo_def Let_def split_on_append split_on_single)

lemma gcpInfo_gateway:
  assumes "CHR ''_'' \<notin> set p" "CHR ''_'' \<notin> set c"
  shows "GcpInfo (''connectgateway_'' @ p @ ''_'' @ c) = (p, [], c)"
  using assms split_on_append [of "CHR ''_''" "''connectgateway''" "p @ ''_'' @ c"]
  by (simp add: GcpInfo_def Let_def split_on_append split_on_single)

lemma gcpInfo_other: "CHR ''_'' \<notin> set cf \<Longrightarrow> GcpInfo cf = ([], [], cf)"
  by (simp add: GcpInfo_def split_on_single)

section \<open>Addresses of a container\<close>

record cniInterface =
  ci_Name :: string
  ci_Sandbox :: string

record cniIP =
  cp_Version :: string
  cp_Interface :: "int option"
  cp_Address :: "byte list option \<times> byte list" \<comment> \<open>\<open>IP\<close>, \<open>None\<close> for nil, and the mask\<close>

record cniConfig =
  cc_ContIPv4 :: "byte list option \<times> byte list"
  cc_ContIPv6 :: "byte list option \<times> byte list"

definition zeroCni :: cniConfig where
  "zeroCni = \<lparr>cc_ContIPv4 = (None, []), cc_ContIPv6 = (None, [])\<rparr>"

text \<open>An interface that is known, and is not the one of the sandbox.\<close>

definition foreignInterface :: "string \<Rightarrow> cniInterface list \<Rightarrow> cniIP \<Rightarrow> bool" where
  "foreignInterface ifName ifs ip = (case cp_Interface ip of
     None \<Rightarrow> False
   | Some i \<Rightarrow> 0 \<le> i \<and> i < int (length ifs) \<and> (ci_Name (ifs ! nat i) \<noteq> ifName \<or> ci_Sandbox (ifs ! nat i) = []))"

fun chooseIPs :: "string \<Rightarrow> cniInterface list \<Rightarrow> cniIP list \<Rightarrow> cniConfig \<Rightarrow> cniConfig" where
  "chooseIPs ifName ifs [] conf = conf"
| "chooseIPs ifName ifs (ip # ips) conf =
     (if cp_Version ip = ''6'' \<and> fst (cc_ContIPv6 conf) \<noteq> None then chooseIPs ifName ifs ips conf
      else if cp_Version ip = ''4'' \<and> fst (cc_ContIPv4 conf) \<noteq> None then chooseIPs ifName ifs ips conf
      else if foreignInterface ifName ifs ip then chooseIPs ifName ifs ips conf
      else if cp_Version ip = ''6'' then chooseIPs ifName ifs ips (conf\<lparr>cc_ContIPv6 := cp_Address ip\<rparr>)
      else if cp_Version ip = ''4'' then chooseIPs ifName ifs ips (conf\<lparr>cc_ContIPv4 := cp_Address ip\<rparr>)
      else chooseIPs ifName ifs ips conf)"

text \<open>\<open>handle\<close>: the configuration is decoded; \<open>prev\<close> is the previous result, \<open>None\<close> without one, an error when it cannot be read.\<close>

definition ucniHandle :: "(byte list \<Rightarrow> goerr + unit) \<Rightarrow> (byte list \<Rightarrow> (goerr + cniIP list \<times> cniInterface list) option) \<Rightarrow> string \<Rightarrow> byte list
    \<Rightarrow> goerr + cniConfig" where
  "ucniHandle unmarshal prev ifName stdin = (case unmarshal stdin of
     Inl e \<Rightarrow> Inl e
   | Inr _ \<Rightarrow> (case prev stdin of
       None \<Rightarrow> Inr zeroCni
     | Some (Inl e) \<Rightarrow> Inl e
     | Some (Inr (ips, ifs)) \<Rightarrow> Inr (chooseIPs ifName ifs ips zeroCni)))"

text \<open>The reference: of each version, the first address that is not on a foreign interface.\<close>

definition firstIP :: "string \<Rightarrow> cniInterface list \<Rightarrow> cniIP list \<Rightarrow> string \<Rightarrow> byte list option \<times> byte list" where
  "firstIP ifName ifs ips v = (case find (\<lambda>ip. cp_Version ip = v \<and> \<not> foreignInterface ifName ifs ip) ips of
     None \<Rightarrow> (None, []) | Some ip \<Rightarrow> cp_Address ip)"

lemma chooseIPs_find:
  assumes "\<forall>ip \<in> set ips. fst (cp_Address ip) \<noteq> None"
  shows "cc_ContIPv4 (chooseIPs ifName ifs ips conf) = (if fst (cc_ContIPv4 conf) \<noteq> None then cc_ContIPv4 conf else
      case find (\<lambda>ip. cp_Version ip = ''4'' \<and> \<not> foreignInterface ifName ifs ip) ips of None \<Rightarrow> cc_ContIPv4 conf | Some ip \<Rightarrow> cp_Address ip) \<and>
    cc_ContIPv6 (chooseIPs ifName ifs ips conf) = (if fst (cc_ContIPv6 conf) \<noteq> None then cc_ContIPv6 conf else
      case find (\<lambda>ip. cp_Version ip = ''6'' \<and> \<not> foreignInterface ifName ifs ip) ips of None \<Rightarrow> cc_ContIPv6 conf | Some ip \<Rightarrow> cp_Address ip)"
  using assms
proof (induction ifName ifs ips conf rule: chooseIPs.induct)
  case (2 ifName ifs ip ips conf)
  then show ?case by (auto cong: option.case_cong split: if_splits)
qed simp

text \<open>Choice of addresses. From a previous result, the plugin takes for each IP version exactly the first address that is not on an
  interface known to be another one (another name, or no sandbox), independently of the other version and of the order in which the
  versions are mixed.\<close>

theorem ucni_first:
  assumes "unmarshal stdin = Inr ()" "prev stdin = Some (Inr (ips, ifs))" "\<forall>ip \<in> set ips. fst (cp_Address ip) \<noteq> None"
  shows "ucniHandle unmarshal prev ifName stdin = Inr \<lparr>cc_ContIPv4 = firstIP ifName ifs ips ''4'', cc_ContIPv6 = firstIP ifName ifs ips ''6''\<rparr>"
proof -
  define c where "c = chooseIPs ifName ifs ips zeroCni"
  have "cc_ContIPv4 c = firstIP ifName ifs ips ''4''" "cc_ContIPv6 c = firstIP ifName ifs ips ''6''"
    using chooseIPs_find [OF assms(3), of ifName ifs zeroCni] by (simp_all add: c_def firstIP_def zeroCni_def split: option.splits)
  then have "c = \<lparr>cc_ContIPv4 = firstIP ifName ifs ips ''4'', cc_ContIPv6 = firstIP ifName ifs ips ''6''\<rparr>" by (cases c) simp
  then show ?thesis using assms(1,2) by (simp add: ucniHandle_def c_def [symmetric])
qed

theorem ucni_first_witness:
  "ucniHandle (\<lambda>_. Inr ()) (\<lambda>_. Some (Inr ([\<lparr>cp_Version = ''4'', cp_Interface = Some 0, cp_Address = (Some [10, 0, 0, 1], [])\<rparr>,
       \<lparr>cp_Version = ''4'', cp_Interface = Some 1, cp_Address = (Some [10, 0, 0, 2], [])\<rparr>], [\<lparr>ci_Name = ''br0'', ci_Sandbox = []\<rparr>, \<lparr>ci_Name = ''eth0'', ci_Sandbox = ''ns''\<rparr>])))
     ''eth0'' [] = Inr \<lparr>cc_ContIPv4 = (Some [10, 0, 0, 2], []), cc_ContIPv6 = (None, [])\<rparr>"
proof -
  let ?ips = "[\<lparr>cp_Version = ''4'', cp_Interface = Some 0, cp_Address = (Some [10, 0, 0, 1], [])\<rparr>,
       \<lparr>cp_Version = ''4'', cp_Interface = Some 1, cp_Address = (Some [10, 0, 0, 2], [])\<rparr>]"
  let ?ifs = "[\<lparr>ci_Name = ''br0'', ci_Sandbox = []\<rparr>, \<lparr>ci_Name = ''eth0'', ci_Sandbox = ''ns''\<rparr>]"
  have "ucniHandle (\<lambda>_. Inr ()) (\<lambda>_. Some (Inr (?ips, ?ifs))) ''eth0'' []
    = Inr \<lparr>cc_ContIPv4 = firstIP ''eth0'' ?ifs ?ips ''4'', cc_ContIPv6 = firstIP ''eth0'' ?ifs ?ips ''6''\<rparr>"
    by (rule ucni_first) simp_all
  then show ?thesis by (simp add: firstIP_def foreignInterface_def)
qed

section \<open>Tokens\<close>

text \<open>\<open>decodeJWT\<close>: what is printed, an empty line of log for an error.\<close>

definition decodeJWT :: "(string \<Rightarrow> goerr + byte list) \<Rightarrow> string \<Rightarrow> (goerr + string) option" where
  "decodeJWT decode jwt = (let parts = split_on (CHR ''.'') jwt in
     if length parts < 2 then None
     else case decode (parts ! 1) of Inl e \<Rightarrow> Some (Inl e) | Inr bs \<Rightarrow> Some (Inr (str_of bs)))"

lemma decodeJWT_panics: "CHR ''.'' \<notin> set jwt \<Longrightarrow> decodeJWT decode jwt = None"
  by (simp add: decodeJWT_def split_on_single)

text \<open>\<open>TokenRequest.Run\<close>. \<open>project\<close> is the project of the default cluster, \<open>None\<close> without a cluster; the sources of tokens are
  parameters: the federated one, with its audience and account, and the cluster itself.\<close>

record tokenRequest =
  tr_Aud :: string
  tr_KSA :: string
  tr_Namespace :: string
  tr_Fed :: bool
  tr_GCPSA :: string

definition tokenRun :: "string option \<Rightarrow> (string \<Rightarrow> string \<Rightarrow> string \<Rightarrow> string \<Rightarrow> string \<Rightarrow> goerr + string) \<Rightarrow> (string \<Rightarrow> string \<Rightarrow> string \<Rightarrow> goerr + string)
    \<Rightarrow> tokenRequest \<Rightarrow> goerr + string" where
  "tokenRun project federated cluster r = (case project of
     None \<Rightarrow> Inr []
   | Some p \<Rightarrow>
       if tr_Fed r then federated (tr_Namespace r) (tr_KSA r) (p @ ''.svc.id.goog'') [] (tr_Aud r)
       else if tr_GCPSA r = [] then cluster (tr_Namespace r) (tr_KSA r) (tr_Aud r)
       else federated (tr_Namespace r) (tr_KSA r) (p @ ''.svc.id.goog'') (tr_GCPSA r) (tr_Aud r))"

lemma tokenRun_no_cluster: "tokenRun None federated cluster r = Inr []"
  by (simp add: tokenRun_def)

section \<open>Flags\<close>

text \<open>\<open>parseStruct\<close>: a flag for each exported (or embedded) field of type string. The library panics when a flag is defined twice.\<close>

record structField =
  sf_Name :: string
  sf_PkgPath :: string
  sf_Anonymous :: bool
  sf_isString :: bool
  sf_def :: string
  sf_usage :: string

definition lowerCase :: "string \<Rightarrow> string" where
  "lowerCase s = map to_lower s"

definition isFlag :: "structField \<Rightarrow> bool" where
  "isFlag f \<longleftrightarrow> \<not> (sf_PkgPath f \<noteq> [] \<and> \<not> sf_Anonymous f) \<and> sf_isString f"

fun parseStruct :: "structField list \<Rightarrow> (string \<times> string \<times> string) list \<Rightarrow> (string \<times> string \<times> string) list option" where
  "parseStruct [] flags = Some flags"
| "parseStruct (f # fs) flags =
     (if sf_PkgPath f \<noteq> [] \<and> \<not> sf_Anonymous f then parseStruct fs flags
      else if sf_isString f then
        if lowerCase (sf_Name f) \<in> fst ` set flags then None
        else parseStruct fs (flags @ [(lowerCase (sf_Name f), sf_def f, sf_usage f)])
      else parseStruct fs flags)"

text \<open>The values that \<open>ParseStruct\<close> is called with.\<close>

datatype cfgValue = CfgNil | CfgPlain | CfgNilPtr | CfgPtrOther | CfgPtrStruct "structField list"

definition ParseStruct :: "cfgValue \<Rightarrow> (string \<times> string \<times> string) list \<Rightarrow> (string \<times> string \<times> string) list option" where
  "ParseStruct cfg flags = (case cfg of CfgPtrStruct fs \<Rightarrow> parseStruct fs flags | _ \<Rightarrow> Some flags)"

definition flagOf :: "structField \<Rightarrow> string \<times> string \<times> string" where
  "flagOf f = (lowerCase (sf_Name f), sf_def f, sf_usage f)"

lemma parseStruct_Cons:
  "parseStruct (f # fs) flags = (if isFlag f then if fst (flagOf f) \<in> fst ` set flags then None else parseStruct fs (flags @ [flagOf f])
     else parseStruct fs flags)"
  by (simp add: isFlag_def flagOf_def)

lemma parseStruct_spec:
  "distinct (map fst flags) \<Longrightarrow> parseStruct fs flags = (let all = flags @ map flagOf (filter isFlag fs) in if distinct (map fst all) then Some all else None)"
proof (induction fs arbitrary: flags)
  case (Cons f fs)
  show ?case
  proof (cases "isFlag f")
    case True
    show ?thesis
    proof (cases "fst (flagOf f) \<in> fst ` set flags")
      case False
      have "distinct (map fst (flags @ [flagOf f]))" using False Cons.prems by simp
      then show ?thesis using Cons.IH [of "flags @ [flagOf f]"] True False by (simp add: parseStruct_Cons del: parseStruct.simps)
    qed (use True in \<open>auto simp: parseStruct_Cons Let_def simp del: parseStruct.simps\<close>)
  next
    case False
    then show ?thesis using Cons.IH [OF Cons.prems] by (simp add: parseStruct_Cons del: parseStruct.simps)
  qed
qed simp

section \<open>Socket options\<close>

text \<open>A connection: TLS over another one, TCP, or something else. \<open>raw\<close> is the outcome of \<open>SyscallConn\<close>, \<open>ctl\<close> that of \<open>Control\<close>
  and \<open>opt\<close> that of the system call in it; both are assigned to the same variable, the system call first.\<close>

datatype sockConn = TlsConn sockConn | TcpConn | OtherConn

fun SetTCPUserTimeout :: "goerr option \<Rightarrow> goerr option \<Rightarrow> goerr option \<Rightarrow> sockConn \<Rightarrow> goerr option" where
  "SetTCPUserTimeout raw ctl opt conn =
     (let conn = (case conn of TlsConn c \<Rightarrow> c | c \<Rightarrow> c) in
      if conn \<noteq> TcpConn then None
      else case raw of
        Some e \<Rightarrow> Some (ErrMsg (''error getting raw connection: '' @ err_string e))
      | None \<Rightarrow> let err = opt; err = ctl in
          (case err of Some e \<Rightarrow> Some (ErrMsg (''error setting option on socket: '' @ err_string e)) | None \<Rightarrow> None))"

fun GetTCPUserTimeout :: "string \<Rightarrow> goerr option \<Rightarrow> goerr option \<Rightarrow> int \<times> goerr option \<Rightarrow> sockConn \<Rightarrow> int \<times> goerr option" where
  "GetTCPUserTimeout typeName raw ctl opt conn =
     (if conn \<noteq> TcpConn then (0, Some (ErrMsg (''conn is not *net.TCPConn. got '' @ typeName)))
      else case raw of
        Some e \<Rightarrow> (0, Some (ErrMsg (''error getting raw connection: '' @ err_string e)))
      | None \<Rightarrow> let err = snd opt; err = ctl in
          (fst opt, map_option (\<lambda>e. ErrMsg (''error getting option on socket: '' @ err_string e)) err))"

text \<open>The error of the system call is lost.\<close>

lemma timeout_error_lost: "SetTCPUserTimeout None None (Some e) TcpConn = None" "GetTCPUserTimeout typeName None None (v, Some e) TcpConn = (v, None)"
  by simp_all

end
