(* ===== verification/Nio_Meta.thy ===== *)
theory Nio_Meta
  imports Nio_Conn Echo
begin

text \<open>
  The metadata of streams: the \<open>Stream\<close> interface of \<^verbatim>\<open>src/nio/streams.go\<close> besides reading and writing, for its four
  implementations and for other connections, and its users in \<^verbatim>\<open>src/pkg/echo/echo.go\<close>: \<open>GetStreamInfo\<close>, which the echo handler calls first, \<open>RemoteID\<close> and the
  choice of the handler.

  An address is its text, \<open>None\<close> for the nil interface; a TLS state has the protocol and the certificates. A call that panics is \<open>None\<close>.
\<close>

section \<open>The implementations\<close>

record tlsState =
  ts_NegotiatedProtocol :: string
  ts_PeerCertificates :: "byte list list"

text \<open>A \<open>net.Conn\<close>, as far as the metadata looks at it: a \<open>*tls.Conn\<close> with its state, or another one.\<close>

datatype transport = TlsConn tlsState | PlainConn

text \<open>What each kind of stream has: an \<open>InOutStream\<close> with the header of its request (\<open>None\<close>: no request), the addresses of its output
  as far as that is a connection, the address of the request as it resolves, and the output as a connection; a \<open>StreamConn\<close>; the two
  HTTP streams, with the header of the request, its remote address, and the header of the response or response writer (\<open>None\<close>: no
  response); and a connection that is not a stream.\<close>

datatype metaConn =
    MetaInOut stream "header option" string string "string option" transport
  | MetaConn string string header header "tlsState option"
  | MetaServer header string header "tlsState option"
  | MetaClient header string "header option" "tlsState option"
  | MetaPlain string string

definition InOutStream_RequestHeader :: "header option \<Rightarrow> header option" where
  "InOutStream_RequestHeader request = request"

definition TransportConn :: "transport \<Rightarrow> stream \<Rightarrow> transport option" where
  "TransportConn out s = (if isConn (st_OutCaps s) then Some out else None)"

definition InOutStream_TLSConnectionState :: "transport \<Rightarrow> stream \<Rightarrow> tlsState option option" where
  "InOutStream_TLSConnectionState out s = do {
     tc \<leftarrow> TransportConn out s;
     Some (case tc of TlsConn cs \<Rightarrow> Some cs | PlainConn \<Rightarrow> None) }"

definition StreamHttpServer_LocalAddr :: "string option option" where
  "StreamHttpServer_LocalAddr = None"

definition StreamHttpClient_LocalAddr :: "string option option" where
  "StreamHttpClient_LocalAddr = None"

text \<open>\<open>resolve\<close> stands for \<open>net.ResolveTCPAddr\<close>.\<close>

definition StreamHttpClient_RemoteAddr :: "(string \<Rightarrow> string option) \<Rightarrow> string \<Rightarrow> string option" where
  "StreamHttpClient_RemoteAddr resolve addr = (if addr \<noteq> [] then resolve addr else None)"

definition StreamHttpClient_Header :: "header option \<Rightarrow> header option" where
  "StreamHttpClient_Header response = response"

section \<open>The interface\<close>

fun meta_LocalAddr :: "metaConn \<Rightarrow> string option option" where
  "meta_LocalAddr (MetaInOut s _ l _ _ _) = Some (stream_LocalAddr l s)"
| "meta_LocalAddr (MetaConn l _ _ _ _) = Some (Some l)"
| "meta_LocalAddr (MetaServer _ _ _ _) = StreamHttpServer_LocalAddr"
| "meta_LocalAddr (MetaClient _ _ _ _) = StreamHttpClient_LocalAddr"
| "meta_LocalAddr (MetaPlain l _) = Some (Some l)"

fun meta_RemoteAddr :: "(string \<Rightarrow> string option) \<Rightarrow> metaConn \<Rightarrow> string option option" where
  "meta_RemoteAddr resolve (MetaInOut s _ _ r a _) = Some (Some (stream_RemoteAddr r a s))"
| "meta_RemoteAddr resolve (MetaConn _ r _ _ _) = Some (Some r)"
| "meta_RemoteAddr resolve (MetaServer _ a _ _) = Some (StreamHttpServer_RemoteAddr resolve (NewStreamServerRequest [] a \<lparr>w_out = [], w_next = []\<rparr> False))"
| "meta_RemoteAddr resolve (MetaClient _ a _ _) = Some (StreamHttpClient_RemoteAddr resolve a)"
| "meta_RemoteAddr resolve (MetaPlain _ r) = Some (Some r)"

text \<open>A connection that is not a stream does not have the methods below; \<open>isStreamMeta\<close> is the type assertion.\<close>

fun isStreamMeta :: "metaConn \<Rightarrow> bool" where
  "isStreamMeta (MetaPlain _ _) = False"
| "isStreamMeta _ = True"

fun meta_RequestHeader :: "metaConn \<Rightarrow> header option" where
  "meta_RequestHeader (MetaInOut _ req _ _ _ _) = InOutStream_RequestHeader req"
| "meta_RequestHeader (MetaConn _ _ h _ _) = Some h"
| "meta_RequestHeader (MetaServer h _ _ _) = Some h"
| "meta_RequestHeader (MetaClient h _ _ _) = Some h"
| "meta_RequestHeader (MetaPlain _ _) = None"

fun meta_Header :: "header \<Rightarrow> metaConn \<Rightarrow> header option" where
  "meta_Header rwHeader (MetaInOut s _ _ _ _ _) = Some (fst (stream_Header rwHeader s))"
| "meta_Header rwHeader (MetaConn _ _ _ h _) = Some h"
| "meta_Header rwHeader (MetaServer _ _ h _) = Some h"
| "meta_Header rwHeader (MetaClient _ _ res _) = StreamHttpClient_Header res"
| "meta_Header rwHeader (MetaPlain _ _) = None"

fun meta_TLSConnectionState :: "metaConn \<Rightarrow> tlsState option option" where
  "meta_TLSConnectionState (MetaInOut s _ _ _ _ t) = InOutStream_TLSConnectionState t s"
| "meta_TLSConnectionState (MetaConn _ _ _ _ t) = Some t"
| "meta_TLSConnectionState (MetaServer _ _ _ t) = Some t"
| "meta_TLSConnectionState (MetaClient _ _ _ t) = Some t"
| "meta_TLSConnectionState (MetaPlain _ _) = None"

section \<open>The echo handler\<close>

record streamInfo =
  si_LocalAddr :: "string option"
  si_RemoteAddr :: "string option"
  si_Meta :: "header option"
  si_RemoteID :: string
  si_ALPN :: string
  si_Dest :: string
  si_Type :: string

definition GetStreamInfo :: "(string \<Rightarrow> string option) \<Rightarrow> metaConn \<Rightarrow> streamInfo option" where
  "GetStreamInfo resolve str = do {
     l \<leftarrow> meta_LocalAddr str;
     r \<leftarrow> meta_RemoteAddr resolve str;
     let si = \<lparr>si_LocalAddr = l, si_RemoteAddr = r, si_Meta = None, si_RemoteID = [], si_ALPN = [], si_Dest = [], si_Type = []\<rparr>;
     if isStreamMeta str then do {
       h \<leftarrow> meta_RequestHeader str;
       let si = si\<lparr>si_Meta := Some h\<rparr>;
       tls \<leftarrow> meta_TLSConnectionState str;
       Some (case tls of None \<Rightarrow> si | Some tc \<Rightarrow> si\<lparr>si_ALPN := ts_NegotiatedProtocol tc\<rparr>) }
     else Some si }"

definition RemoteID :: "(byte list list \<Rightarrow> goerr + byte list) \<Rightarrow> (byte list \<Rightarrow> string) \<Rightarrow> metaConn \<Rightarrow> string option" where
  "RemoteID verifyChain publicKeyID s = map_option (\<lambda>tls. case tls of
       None \<Rightarrow> []
     | Some t \<Rightarrow> if ts_PeerCertificates t = [] then []
         else (case verifyChain (ts_PeerCertificates t) of Inl _ \<Rightarrow> [] | Inr pk \<Rightarrow> publicKeyID pk)) (meta_TLSConnectionState s)"

text \<open>The handler with the description of the stream: \<open>marshal\<close> is \<open>json.Marshal\<close>.\<close>

definition echoStream :: "(streamInfo \<Rightarrow> byte list) \<Rightarrow> (string \<Rightarrow> string option) \<Rightarrow> bool \<Rightarrow> metaConn \<Rightarrow> reader \<Rightarrow> writer
    \<Rightarrow> (goerr option \<times> reader \<times> writer) option" where
  "echoStream marshal resolve serverFirst str r w =
     map_option (\<lambda>si. echo_handle (marshal si) serverFirst r w) (GetStreamInfo resolve str)"

text \<open>\<open>ServeHTTP\<close>: the calls it makes. \<open>port\<close> is \<open>r.URL.Port()\<close>.\<close>

datatype echoCall = CallWriteHeader int | CallFlush | CallHandleStreams | CallHandle bool

definition echoServe :: "string \<Rightarrow> echoCall list" where
  "echoServe port = CallWriteHeader 200 # (if port = ''/raw'' then [CallHandleStreams] else [CallFlush, CallHandle False])"

section \<open>Properties\<close>

text \<open>For which streams the description, and so the echo handler, works: plain and wrapped connections, and an \<open>InOutStream\<close> that has a request
  and a connection as its output. Of the others every call panics, a stream made by \<open>GetStream\<close> among them.\<close>

lemma streamInfo_returns:
  "GetStreamInfo resolve str \<noteq> None \<longleftrightarrow> (case str of MetaConn _ _ _ _ _ \<Rightarrow> True | MetaPlain _ _ \<Rightarrow> True
     | MetaInOut s req _ _ _ _ \<Rightarrow> req \<noteq> None \<and> isConn (st_OutCaps s) | _ \<Rightarrow> False)"
  by (cases str) (auto simp: GetStreamInfo_def Let_def StreamHttpServer_LocalAddr_def StreamHttpClient_LocalAddr_def InOutStream_RequestHeader_def
      InOutStream_TLSConnectionState_def TransportConn_def bind_eq_Some_conv split: option.splits transport.splits)

lemma echoStream_panics:
  "echoStream marshal resolve serverFirst (MetaInOut s None l r' a' t) r w = None" "echoStream marshal resolve serverFirst (MetaServer h a rh u) r w = None"
  using streamInfo_returns [of resolve "MetaInOut s None l r' a' t"] streamInfo_returns [of resolve "MetaServer h a rh u"] by (auto simp: echoStream_def)

text \<open>An identity is reported only for certificates that verify.\<close>

lemma remoteID_verified:
  assumes "RemoteID verifyChain publicKeyID s = Some i" "i \<noteq> []"
  shows "\<exists>t pk. meta_TLSConnectionState s = Some (Some t) \<and> ts_PeerCertificates t \<noteq> [] \<and> verifyChain (ts_PeerCertificates t) = Inr pk \<and> i = publicKeyID pk"
proof -
  obtain tls where t: "meta_TLSConnectionState s = Some tls" using assms(1) by (auto simp: RemoteID_def)
  show ?thesis
  proof (cases tls)
    case (Some u)
    then show ?thesis using assms t by (cases "verifyChain (ts_PeerCertificates u)") (auto simp: RemoteID_def split: if_splits)
  qed (use assms t in \<open>simp add: RemoteID_def\<close>)
qed

text \<open>The raw handler is never chosen: a port has digits only.\<close>

lemma echoServe_never_raw: "list_all is_digit port \<Longrightarrow> echoServe port = [CallWriteHeader 200, CallFlush, CallHandle False]"
  by (auto simp: echoServe_def is_digit_def)

end
