(* ===== verification/Startup.thy ===== *)
theory Startup
  imports Quic Uds Udp_Nat Dns Discovery
begin

text \<open>
  How the listeners start, and what they do outside their handlers: \<open>New\<close>, \<open>Provision\<close> and \<open>Start\<close> of \<^verbatim>\<open>src/pkg/quic/quic.go\<close>,
  \<^verbatim>\<open>src/pkg/dns/dns.go\<close>, \<^verbatim>\<open>src/pkg/smtpd/smtp.go\<close> and \<^verbatim>\<open>src/pkg/uds/uds.go\<close>; the sockets of transparent capture
  (\<^verbatim>\<open>src/pkg/udp/tproxy_udp.go\<close>) and of the UDP listener; the periodic work of \<open>pkg/udp\<close> and \<open>pkg/local_discovery\<close>; sending
  files over a Unix-domain socket.

  Sockets are the entries of a list, and a system call that opens one adds an entry; the outcomes of system calls are parameters.
\<close>

section \<open>Sockets\<close>

record sysSock =
  ss_network :: string
  ss_addr :: string
  ss_opts :: "(int \<times> int \<times> int) list"
  ss_open :: bool

definition newSock :: "string \<Rightarrow> string \<Rightarrow> sysSock" where
  "newSock network addr = \<lparr>ss_network = network, ss_addr = addr, ss_opts = [], ss_open = True\<rparr>"

text \<open>The text of a \<open>net.OpError\<close> without a source.\<close>

definition opError :: "string \<Rightarrow> string \<Rightarrow> string \<Rightarrow> string \<Rightarrow> goerr" where
  "opError op network addr e = ErrMsg (op @ '' '' @ network @ '' '' @ addr @ '': '' @ e)"

section \<open>Transparent capture\<close>

text \<open>\<open>syscall.SetsockoptInt\<close> on a socket, with its outcome.\<close>

definition SetsockoptInt :: "(int \<Rightarrow> int \<Rightarrow> goerr option) \<Rightarrow> nat \<Rightarrow> int \<Rightarrow> int \<Rightarrow> int \<Rightarrow> sysSock list \<Rightarrow> goerr option \<times> sysSock list" where
  "SetsockoptInt setopt fd level name v ss = (case setopt level name of
     Some e \<Rightarrow> (Some e, ss)
   | None \<Rightarrow> (None, ss[fd := (ss ! fd)\<lparr>ss_opts := ss_opts (ss ! fd) @ [(level, name, v)]\<rparr>]))"

text \<open>The options that \<open>StartUDPTProxyListener6\<close> sets, with the text of the error: \<open>IP_TRANSPARENT\<close>, \<open>IP_RECVORIGDSTADDR\<close> and
  \<open>IPV6_ORIGDSTADDR\<close> (74).\<close>

definition tproxyOpts :: "(int \<times> int \<times> string) list" where
  "tproxyOpts = [(0, 19, ''set socket option: IP_TRANSPARENT: ''), (0, 20, ''set socket option: IP_RECVORIGDSTADDR: ''),
     (41, 74, ''set socket option: IP_RECVORIGDSTADDR: '')]"

fun setTproxyOpts :: "(int \<Rightarrow> int \<Rightarrow> goerr option) \<Rightarrow> string \<Rightarrow> nat \<Rightarrow> (int \<times> int \<times> string) list \<Rightarrow> sysSock list \<Rightarrow> goerr option \<times> sysSock list" where
  "setTproxyOpts setopt laddr fd [] ss = (None, ss)"
| "setTproxyOpts setopt laddr fd ((level, name, msg) # os) ss = (case SetsockoptInt setopt fd level name 1 ss of
     (Some e, ss) \<Rightarrow> (Some (opError ''listen'' ''udp'' laddr (msg @ err_string e)), ss)
   | (None, ss) \<Rightarrow> setTproxyOpts setopt laddr fd os ss)"

definition StartUDPTProxyListener6 :: "goerr option \<Rightarrow> goerr option \<Rightarrow> (int \<Rightarrow> int \<Rightarrow> goerr option) \<Rightarrow> int \<Rightarrow> sysSock list
    \<Rightarrow> (goerr + nat) \<times> sysSock list" where
  "StartUDPTProxyListener6 listenErr fileErr setopt port ss =
     (let laddr = CHR '':'' # itoa port in
      case listenErr of
        Some e \<Rightarrow> (Inl e, ss)
      | None \<Rightarrow> let fd = length ss; ss = ss @ [newSock ''udp'' laddr] in
          case fileErr of
            Some e \<Rightarrow> (Inl (opError ''listen'' ''udp'' laddr (''get file descriptor: '' @ err_string e)), ss)
          | None \<Rightarrow> (case setTproxyOpts setopt laddr fd tproxyOpts ss of
              (Some e, ss) \<Rightarrow> (Inl e, ss)
            | (None, ss) \<Rightarrow> (Inr fd, ss)))"

text \<open>\<open>Start\<close> of the capture: the socket that the accept loop reads, if there is one.\<close>

definition tproxy_Start :: "goerr option \<Rightarrow> goerr option \<Rightarrow> (int \<Rightarrow> int \<Rightarrow> goerr option) \<Rightarrow> sysSock list \<Rightarrow> nat option \<times> sysSock list" where
  "tproxy_Start listenErr fileErr setopt ss = (case StartUDPTProxyListener6 listenErr fileErr setopt 15006 ss of
     (Inl e, ss) \<Rightarrow> (None, ss)
   | (Inr fd, ss) \<Rightarrow> (Some fd, ss))"

text \<open>\<open>WriteTo\<close>: the datagrams that leave, with the source address that the control message asks for. \<open>withSrc\<close> and \<open>plain\<close> are
  the outcomes of the two ways to send.\<close>

definition TProxyUDP_WriteTo :: "goerr option \<Rightarrow> goerr option \<Rightarrow> byte list \<Rightarrow> udpAddr \<Rightarrow> udpAddr
    \<Rightarrow> (nat \<times> goerr option) \<times> (byte list \<times> udpAddr \<times> byte list option) list" where
  "TProxyUDP_WriteTo withSrc plain data dstAddr srcAddr = (case withSrc of
     None \<Rightarrow> ((length data, None), [(data, dstAddr, Some (ua_IP srcAddr))])
   | Some _ \<Rightarrow> (case plain of
       None \<Rightarrow> ((length data, None), [(data, dstAddr, None)])
     | Some e \<Rightarrow> ((0, Some e), [])))"

lemma setTproxyOpts_ok:
  "setTproxyOpts setopt laddr fd os ss = (None, ss') \<Longrightarrow> fd < length ss \<Longrightarrow>
     ss' = ss[fd := (ss ! fd)\<lparr>ss_opts := ss_opts (ss ! fd) @ map (\<lambda>(l, n, _). (l, n, 1)) os\<rparr>]"
proof (induction os arbitrary: ss)
  case (Cons o' os)
  obtain l n m where o: "o' = (l, n, m)" by (cases o')
  then have "setopt l n = None" "setTproxyOpts setopt laddr fd os (ss[fd := (ss ! fd)\<lparr>ss_opts := ss_opts (ss ! fd) @ [(l, n, 1)]\<rparr>]) = (None, ss')"
    using Cons.prems(1) by (auto simp: SetsockoptInt_def split: option.splits)
  from Cons.IH [OF this(2)] Cons.prems(2) show ?case by (simp add: o)
qed simp

lemma setTproxyOpts_open:
  "setTproxyOpts setopt laddr fd os ss = (r, ss') \<Longrightarrow> map ss_open ss' = map ss_open ss \<and> (\<forall>i. i \<noteq> fd \<longrightarrow> i < length ss \<longrightarrow> ss' ! i = ss ! i)"
proof (induction os arbitrary: ss)
  case (Cons o' os)
  obtain l n m where o: "o' = (l, n, m)" by (cases o')
  define ss1 where "ss1 = ss[fd := (ss ! fd)\<lparr>ss_opts := ss_opts (ss ! fd) @ [(l, n, 1)]\<rparr>]"
  have s: "map ss_open ss1 = map ss_open ss" by (cases "fd < length ss") (simp_all add: ss1_def map_update list_update_beyond, metis list_update_id nth_map)
  show ?case
  proof (cases "setopt l n")
    case None
    with Cons.prems have "setTproxyOpts setopt laddr fd os ss1 = (r, ss')" by (simp add: o SetsockoptInt_def ss1_def)
    from Cons.IH [OF this] s show ?thesis by (auto simp: ss1_def)
  next
    case (Some e)
    with Cons.prems show ?thesis by (auto simp: o SetsockoptInt_def)
  qed
qed simp

text \<open>A listener that is returned is open and has the three options; an error after the socket was opened leaves it open, though
  nobody has it any more.\<close>

lemma tproxy_listener_ready:
  assumes "StartUDPTProxyListener6 listenErr fileErr setopt port ss = (Inr fd, ss')"
  shows "fd = length ss \<and> ss' = ss @ [(newSock ''udp'' (CHR '':'' # itoa port))\<lparr>ss_opts := [(0, 19, 1), (0, 20, 1), (41, 74, 1)]\<rparr>]"
proof -
  have l: "listenErr = None" "fileErr = None" using assms by (auto simp: StartUDPTProxyListener6_def Let_def split: option.splits)
  define ss1 where "ss1 = ss @ [newSock ''udp'' (CHR '':'' # itoa port)]"
  obtain r ss2 where s: "setTproxyOpts setopt (CHR '':'' # itoa port) (length ss) tproxyOpts ss1 = (r, ss2)" by fastforce
  with assms l have "r = None" "fd = length ss" "ss' = ss2" by (auto simp: StartUDPTProxyListener6_def Let_def ss1_def split: option.splits)
  with setTproxyOpts_ok [OF s [unfolded \<open>r = None\<close>]] show ?thesis by (simp add: ss1_def tproxyOpts_def newSock_def)
qed

lemma tproxy_error_leaks:
  assumes "StartUDPTProxyListener6 None fileErr setopt port ss = (Inl e, ss')"
  shows "map ss_open ss' = map ss_open ss @ [True]"
proof (cases fileErr)
  case None
  define ss1 where "ss1 = ss @ [newSock ''udp'' (CHR '':'' # itoa port)]"
  obtain r ss2 where s: "setTproxyOpts setopt (CHR '':'' # itoa port) (length ss) tproxyOpts ss1 = (r, ss2)" by fastforce
  with assms None have "ss' = ss2" by (auto simp: StartUDPTProxyListener6_def Let_def ss1_def split: option.splits)
  with setTproxyOpts_open [OF s] show ?thesis by (simp add: ss1_def newSock_def)
qed (use assms in \<open>auto simp: StartUDPTProxyListener6_def Let_def newSock_def\<close>)

text \<open>One datagram leaves when there is no error, and none otherwise. It has the source that was asked for only when the first way worked.\<close>

lemma writeTo_once:
  "TProxyUDP_WriteTo withSrc plain data dst src = ((n, err), out) \<Longrightarrow> length out = (if err = None then 1 else 0)
     \<and> (withSrc = None \<longrightarrow> out = [(data, dst, Some (ua_IP src))])"
  by (auto simp: TProxyUDP_WriteTo_def split: option.splits)

section \<open>The UDP listener\<close>

text \<open>\<open>Run\<close>: the port, and whether the read loop starts. \<open>buffer\<close> is the outcome of \<open>SetReceiveBuffer\<close>, which is called before the
  error of listening is looked at; \<open>None\<close> is a panic there.\<close>

definition udp_Run :: "(string \<Rightarrow> string option) \<Rightarrow> goerr option \<Rightarrow> goerr option option \<Rightarrow> string \<Rightarrow> sysSock list
    \<Rightarrow> (nat option \<times> sysSock list) option" where
  "udp_Run splitHostPort listenErr buffer address ss =
     (let p = (case splitHostPort address of None \<Rightarrow> [] | Some p \<Rightarrow> p);
          pp = (case Atoi p of None \<Rightarrow> 0 | Some i \<Rightarrow> i);
          ss' = (if listenErr = None then ss @ [newSock ''udp'' (CHR '':'' # itoa pp)] else ss)
      in do {
        _ \<leftarrow> buffer;
        Some (if listenErr \<noteq> None then (None, ss') else (Some (length ss), ss')) })"

text \<open>\<open>periodic\<close> cleans up, and again every 60 seconds: \<open>ts\<close> are the times at which it runs.\<close>

fun udp_periodic :: "int list \<Rightarrow> udpListener \<Rightarrow> udpListener option" where
  "udp_periodic [] g = Some g"
| "udp_periodic (t # ts) g = do { g \<leftarrow> FreeIdleSockets t g; udp_periodic ts g }"

lemma udp_periodic_spec:
  assumes "nat_wf g"
  shows "\<exists>h. udp_periodic ts g = Some h \<and> nat_wf h \<and> set (l_ActiveUdp h) \<subseteq> set (l_ActiveUdp g)"
  using assms
proof (induction ts arbitrary: g)
  case (Cons t ts)
  obtain g1 where "FreeIdleSockets t g = Some g1" "nat_wf g1" "l_ActiveUdp g1 = filter (\<lambda>(k, n). \<not> idle t g n) (l_ActiveUdp g)"
    using freeIdle_spec [OF Cons.prems] by blast
  with Cons.IH [of g1] show ?case by fastforce
qed auto

section \<open>DNS\<close>

text \<open>The resolver of the process: the function that connects it, \<open>None\<close> for the one of the library; the network and address it dials.\<close>

definition DNSDialer :: "int \<Rightarrow> string \<Rightarrow> string \<Rightarrow> string \<times> string" where
  "DNSDialer port network address = (''udp'', ''127.0.0.1:'' @ itoa port)"

record dnsProcess =
  dp_PreferGo :: bool
  dp_Dial :: "(string \<Rightarrow> string \<Rightarrow> string \<times> string) option"
  dp_serving :: bool

definition dns_Start :: "bool \<Rightarrow> dmDns \<Rightarrow> dnsProcess \<Rightarrow> dnsProcess" where
  "dns_Start capture s p =
     (let p = (if capture then p\<lparr>dp_PreferGo := True, dp_Dial := Some (DNSDialer (d_Port s))\<rparr> else p)
      in if d_Port s > 0 then p\<lparr>dp_serving := True\<rparr> else p)"

text \<open>The server listens on the port that \<open>Provision\<close> chose: 15053 when none is configured, and then it is not started, while a captured
  resolver dials port 0.\<close>

definition dnsListenPort :: "dmDns \<Rightarrow> int" where
  "dnsListenPort d = (if d_Port d = 0 then 15053 else d_Port d)"

lemma dns_default_port:
  assumes "d_Port d = 0"
  shows "dnsListenPort d = 15053" and "dp_serving (dns_Start True d p) = dp_serving p"
    and "map_option (\<lambda>f. f network address) (dp_Dial (dns_Start True d p)) = Some (''udp'', ''127.0.0.1:0'')"
proof -
  have "itoa 0 = ''0''" by code_simp
  with assms show "map_option (\<lambda>f. f network address) (dp_Dial (dns_Start True d p)) = Some (''udp'', ''127.0.0.1:0'')"
    by (simp add: dns_Start_def DNSDialer_def Let_def)
qed (use assms in \<open>simp_all add: dns_Start_def dnsListenPort_def\<close>)

lemma dns_capture_local:
  assumes "d_Port d > 0"
  shows "dp_serving (dns_Start True d p)"
    and "map_option (\<lambda>f. f network address) (dp_Dial (dns_Start True d p)) = Some (''udp'', ''127.0.0.1:'' @ itoa (dnsListenPort d))"
  using assms by (simp_all add: dns_Start_def DNSDialer_def dnsListenPort_def Let_def)

section \<open>SMTP\<close>

text \<open>The server of the library, with the settings that \<open>Start\<close> makes, and the one of this package. The listener is its number.\<close>

record smtpLib =
  sl_Addr :: string
  sl_Domain :: string
  sl_Timeout :: int
  sl_MaxMessageBytes :: int
  sl_MaxRecipients :: int
  sl_AllowInsecureAuth :: bool

record smtpServer =
  sm_Domain :: string
  sm_Addr :: string
  sm_NetListener :: "nat option"
  sm_s :: "smtpLib option"
  sm_dir :: string

definition smtp_New :: smtpServer where
  "smtp_New = \<lparr>sm_Domain = ''localhost'', sm_Addr = '':1025'', sm_NetListener = None, sm_s = None, sm_dir = []\<rparr>"

definition smtp_Start :: "goerr option \<Rightarrow> smtpServer \<Rightarrow> sysSock list \<Rightarrow> goerr option \<times> smtpServer \<times> sysSock list" where
  "smtp_Start listenErr be ss =
     (let s = \<lparr>sl_Addr = [], sl_Domain = [], sl_Timeout = 0, sl_MaxMessageBytes = 0, sl_MaxRecipients = 0, sl_AllowInsecureAuth = False\<rparr>;
          s = s\<lparr>sl_Addr := sl_Addr s, sl_Domain := sm_Domain be, sl_Timeout := 10, sl_MaxMessageBytes := 1024 * 1024,
                sl_MaxRecipients := 50, sl_AllowInsecureAuth := True\<rparr>;
          be = be\<lparr>sm_s := Some s, sm_dir := ''.''\<rparr>
      in case sm_NetListener be of
           Some _ \<Rightarrow> (None, be, ss)
         | None \<Rightarrow> (case listenErr of
             Some e \<Rightarrow> (Some e, be, ss)
           | None \<Rightarrow> (None, be\<lparr>sm_NetListener := Some (length ss)\<rparr>, ss @ [newSock ''tcp'' (sl_Addr s)])))"

text \<open>The configured address is not used: the listener has the empty one, for which the system picks a port.\<close>

lemma smtp_addr_ignored:
  assumes "sm_NetListener be = None"
  shows "\<exists>be'. smtp_Start None be ss = (None, be', ss @ [newSock ''tcp'' []]) \<and> sm_Addr be' = sm_Addr be"
  using assms by (simp add: smtp_Start_def Let_def)

section \<open>Unix-domain sockets\<close>

text \<open>The accept loop: the connections that get a goroutine with \<open>serverStream\<close>, and the error it ends with; \<open>None\<close> while it waits.\<close>

fun uds_Start :: "(goerr + (unixRead list \<times> writer)) list \<Rightarrow> udsServer \<Rightarrow> udsConn list \<times> goerr option" where
  "uds_Start [] s = ([], None)"
| "uds_Start (acc # as) s = (case accept acc s of
     Inl e \<Rightarrow> ([], Some e)
   | Inr inS \<Rightarrow> (let (cs, err) = uds_Start as s in (inS # cs, err)))"

definition enableUnixCredentials :: "goerr option \<Rightarrow> goerr option \<Rightarrow> goerr option" where
  "enableUnixCredentials fileErr optErr = (case fileErr of
     Some e \<Rightarrow> Some (ErrMsg (''UDS convert connection to file descriptor: '' @ err_string e))
   | None \<Rightarrow> optErr)"

text \<open>Files are sent as control messages. A file is its descriptor; \<open>sent\<close> is the outcome of \<open>WriteMsgUnix\<close>. The result has the
  message as the other side reads it, where \<open>dup\<close> gives the descriptors that the kernel makes for the receiver.\<close>

definition unixRights :: "(int \<Rightarrow> int) \<Rightarrow> byte list \<Rightarrow> int list \<Rightarrow> unixRead" where
  "unixRights dup data fds = \<lparr>x_data = data, x_oob = Some (Inr [ScmRights (Some (map dup fds))]), x_err = None\<rparr>"

definition WriteFDs :: "(int \<Rightarrow> int) \<Rightarrow> goerr option \<Rightarrow> byte list \<Rightarrow> int list \<Rightarrow> (nat \<times> goerr option) \<times> unixRead list" where
  "WriteFDs dup sent data file = (let fd = file in
     case sent of Some e \<Rightarrow> ((0, Some e), []) | None \<Rightarrow> ((length data, None), [unixRights dup data fd]))"

definition WriteFD :: "(int \<Rightarrow> int) \<Rightarrow> goerr option \<Rightarrow> byte list \<Rightarrow> int \<Rightarrow> (nat \<times> goerr option) \<times> unixRead list" where
  "WriteFD dup sent data file =
     (case sent of Some e \<Rightarrow> ((0, Some e), []) | None \<Rightarrow> ((length data, None), [unixRights dup data [file]]))"

lemma uds_Start_serves:
  "uds_Start (map Inr conns @ Inl e # rest) s = (map (\<lambda>(inp, out). newUdsConn (s_Name s) [] inp out) conns, Some e)"
  by (induction conns) (auto simp: accept_def)

lemma addFiles_all:
  "0 \<notin> set fds \<Longrightarrow> u_Files (addFiles fds j u) = u_Files u @ map (\<lambda>(i, fd). (fd, u_Name u @ ''-socket-'' @ itoa (int i))) (enumerate j fds)"
  by (induction fds arbitrary: j u) auto

text \<open>files that are sent with a message arrive with it, in their order, and the data of the message is not changed; the receiver
  must not get descriptor 0, which \<open>Read\<close> passes over.\<close>

theorem files_roundtrip:
  assumes "WriteFDs dup sent data files = ((n, None), ms)" and "0 \<notin> dup ` set files" and "length data \<le> m"
    and "u_in u = ms @ rest"
  shows "\<exists>u'. uds_Read m u = (data, None, u') \<and> u_in u' = rest
    \<and> map fst (u_Files u') = map fst (u_Files u) @ map dup files"
proof -
  have ms: "u_in u = unixRights dup data files # rest" using assms(1,4) by (auto simp: WriteFDs_def split: option.splits)
  then have "uds_Read m u = (data, None, addFiles (map dup files) 0 (u\<lparr>u_in := rest\<rparr>))"
    using assms(3) by (simp add: uds_Read_def unixRights_def)
  moreover have "map fst (map (\<lambda>(i, fd). (fd, g i)) (enumerate j xs)) = xs" for g :: "nat \<Rightarrow> string" and j and xs :: "int list"
    by (induction xs arbitrary: j) auto
  ultimately show ?thesis using assms(2) addFiles_all [of "map dup files" 0 "u\<lparr>u_in := rest\<rparr>"] by (simp add: image_image)
qed

theorem files_roundtrip_witness:
  "\<exists>u'. uds_Read 16 (newUdsConn ''t'' [] (snd (WriteFDs (\<lambda>fd. fd + 10) None [7, 8] [3, 4])) \<lparr>w_out = [], w_next = []\<rparr>) = ([7, 8], None, u')
    \<and> u_in u' = [] \<and> map fst (u_Files u') = [13, 14]"
  using files_roundtrip [where dup = "\<lambda>fd. fd + 10" and sent = None and data = "[7, 8]" and files = "[3, 4]" and m = 16
      and u = "newUdsConn ''t'' [] (snd (WriteFDs (\<lambda>fd. fd + 10) None [7, 8] [3, 4])) \<lparr>w_out = [], w_next = []\<rparr>" and rest = "[]"]
  by (simp add: WriteFDs_def newUdsConn_def)

section \<open>Discovery\<close>

text \<open>\<open>IPs\<close>; an address of another type gives a nil one. And the periodic thread: the networks are refreshed at the start and on every
  tick, each time on the interfaces that the system has then.\<close>

definition IPs :: "goerr + netIface list \<Rightarrow> byte list option list" where
  "IPs ifaces = (case ifaces of Inl e \<Rightarrow> []
     | Inr is \<Rightarrow> concat (map (\<lambda>i. case i_Addrs i of Inl _ \<Rightarrow> [] | Inr addrs \<Rightarrow> addrs) is))"

fun PeriodicThread :: "discLib \<Rightarrow> (listenEnv \<times> (goerr + netIface list)) list \<Rightarrow> llDiscovery \<Rightarrow> llDiscovery option" where
  "PeriodicThread lib [] d = Some d"
| "PeriodicThread lib ((le, ifaces) # ticks) d = do {
     (_, d) \<leftarrow> RefreshNetworks lib le ifaces d;
     PeriodicThread lib ticks d }"

section \<open>QUIC\<close>

text \<open>The TLS settings of the server and the server itself; a mux is the list of its paths.\<close>

datatype clientAuth = NoClientCert | RequireAnyClientCert

record tlsServerCfg =
  tc_NextProtos :: "string list"
  tc_ClientAuth :: clientAuth

record quicServer =
  q_Address :: string
  q_Mux :: "string list option"
  q_hasDialer :: bool
  q_tlsServerConfig :: "tlsServerCfg option"

definition quic_New :: quicServer where
  "quic_New = \<lparr>q_Address = '':4443'', q_Mux = None, q_hasDialer = False, q_tlsServerConfig = None\<rparr>"

text \<open>The functions \<open>VerifyPeerCertificate\<close> and \<open>VerifyConnection\<close> that \<open>Provision\<close> sets; both log and accept. \<open>x509\<close> is the parser, whose
  errors are dropped.\<close>

definition quic_VerifyPeerCertificate :: "(byte list \<Rightarrow> goerr + 'c) \<Rightarrow> byte list list \<Rightarrow> 'c option list \<times> goerr option" where
  "quic_VerifyPeerCertificate x509 rawCerts = (map (\<lambda>c. case x509 c of Inl _ \<Rightarrow> None | Inr x \<Rightarrow> Some x) rawCerts, None)"

definition quic_VerifyConnection :: "'s \<Rightarrow> goerr option" where
  "quic_VerifyConnection state = None"

text \<open>\<open>base\<close> is what \<open>GenerateTLSConfigServer\<close> returns.\<close>

definition quic_Provision :: "tlsServerCfg \<Rightarrow> quicServer \<Rightarrow> quicServer" where
  "quic_Provision base qa =
     (let qa = (case q_Mux qa of None \<Rightarrow> qa\<lparr>q_Mux := Some []\<rparr> | Some _ \<Rightarrow> qa);
          qa = qa\<lparr>q_hasDialer := True\<rparr>;
          qa = qa\<lparr>q_Mux := map_option (\<lambda>m. m @ [''/.well-known/webtransport'']) (q_Mux qa)\<rparr>
      in qa\<lparr>q_tlsServerConfig := Some (base\<lparr>tc_NextProtos := [''h3r'', ''h3-34''], tc_ClientAuth := RequireAnyClientCert\<rparr>)\<rparr>)"

record quicCfg =
  qc_HandshakeIdleTimeout :: int
  qc_MaxIncomingStreams :: int
  qc_MaxIncomingUniStreams :: int
  qc_EnableDatagrams :: bool
  qc_InitialStreamReceiveWindow :: int
  qc_MaxStreamReceiveWindow :: int
  qc_InitialConnectionReceiveWindow :: int
  qc_MaxConnectionReceiveWindow :: int

definition quicConfig :: quicCfg where
  "quicConfig = \<lparr>qc_HandshakeIdleTimeout = 4 * 10 ^ 9, qc_MaxIncomingStreams = 30000, qc_MaxIncomingUniStreams = 30000,
     qc_EnableDatagrams = True, qc_InitialStreamReceiveWindow = 4 * 1024 * 1024, qc_MaxStreamReceiveWindow = 16 * 1024 * 1024,
     qc_InitialConnectionReceiveWindow = 4 * 1024 * 1024, qc_MaxConnectionReceiveWindow = 64 * 1024 * 1024\<rparr>"

text \<open>\<open>Start\<close>. A session is the outcomes of receiving datagrams and of accepting streams; for each accepted session the messages that are
  logged, and for each of its streams what \<open>handleRaw\<close> does. The handlers run at the same time and share nothing.\<close>

record quicSession =
  qs_datagrams :: "(goerr + byte list) list"
  qs_streams :: "(goerr + (reader \<times> writer)) list"

definition quic_Serve :: "(reader \<times> writer \<Rightarrow> 'r) \<Rightarrow> (goerr + quicSession) list \<Rightarrow> (byte list list \<times> 'r list) list" where
  "quic_Serve handle sessions = map (\<lambda>s. (handleMessages (qs_datagrams s), map handle (acceptLoop (qs_streams s)))) (acceptLoop sessions)"

definition quic_Start :: "(string \<Rightarrow> string option) \<Rightarrow> goerr option \<Rightarrow> goerr option \<Rightarrow> (reader \<times> writer \<Rightarrow> 'r) \<Rightarrow> (goerr + quicSession) list
    \<Rightarrow> quicServer \<Rightarrow> sysSock list \<Rightarrow> (goerr + (byte list list \<times> 'r list) list) \<times> sysSock list" where
  "quic_Start splitHostPort listenErr quicErr handle sessions qd ss = (case listenErr of
     Some e \<Rightarrow> (Inl e, ss)
   | None \<Rightarrow> let ss = ss @ [newSock ''udp'' (CHR '':'' # itoa (sint (GetPort splitHostPort (q_Address qd) 8443)))] in
       (case quicErr of
          Some e \<Rightarrow> (Inl e, ss)
        | None \<Rightarrow> (Inr (quic_Serve handle sessions), ss)))"

text \<open>Every stream of every session is handled, up to the first error of the session or of the listener. When QUIC does not start, the socket
  stays open.\<close>

lemma quic_serves:
  "quic_Start splitHostPort None None handle (map Inr ses @ Inl e # rest) qd ss
    = (Inr (map (\<lambda>s. (handleMessages (qs_datagrams s), map handle (acceptLoop (qs_streams s)))) ses),
       ss @ [newSock ''udp'' (CHR '':'' # itoa (sint (GetPort splitHostPort (q_Address qd) 8443)))])"
proof -
  have "acceptLoop (map Inr xs @ Inl e # rest) = xs" for xs :: "quicSession list" by (induction xs) auto
  then show ?thesis by (simp add: quic_Start_def quic_Serve_def)
qed

lemma quic_error_leaks:
  "snd (quic_Start splitHostPort None (Some e) handle sessions qd ss) = ss @ [newSock ''udp'' (CHR '':'' # itoa (sint (GetPort splitHostPort (q_Address qd) 8443)))]"
  by (simp add: quic_Start_def)

text \<open>The server asks for a client certificate and then takes any.\<close>

lemma quic_any_certificate:
  "map_option tc_ClientAuth (q_tlsServerConfig (quic_Provision base qa)) = Some RequireAnyClientCert"
  "snd (quic_VerifyPeerCertificate x509 rawCerts) = None" "quic_VerifyConnection state = None"
  by (simp_all add: quic_Provision_def Let_def quic_VerifyPeerCertificate_def quic_VerifyConnection_def)

end
