(* ===== verification/Webrtc.thy ===== *)
theory Webrtc
  imports Nio_Buffer
begin

text \<open>
  \<^verbatim>\<open>src/pkg/webrtc/\<close> \<open>webrtc.go\<close> and \<open>rtc.go\<close>: the signalling for data channels, and the TURN server. The WebRTC and TURN libraries are
  parameters: a peer connection is the outcomes of its calls, and the candidates of ICE arrive as events, in a goroutine of the library.
  A session description is a type \<open>'d\<close>. \<open>None\<close> is a panic.
\<close>

section \<open>Peer connections\<close>

text \<open>What the library answers: the error of \<open>NewPeerConnection\<close> and of each call on the connection, the answer and the offer that it makes, and
  the local description as a function of the description that was set and the candidates gathered so far.\<close>

record 'd rtcLib =
  rl_NewPeerConnection :: "goerr option"
  rl_SetRemoteDescription :: "'d \<Rightarrow> goerr option"
  rl_CreateAnswer :: "goerr + 'd"
  rl_CreateOffer :: "goerr + 'd"
  rl_SetLocalDescription :: "'d \<Rightarrow> goerr option"
  rl_LocalDescription :: "'d \<Rightarrow> string list \<Rightarrow> 'd"
  rl_CreateDataChannel :: "goerr option"

text \<open>The state of a peer connection, as far as this package sets it: \<open>pc1\<close>, the descriptions, the candidates gathered, and the channel on which
  the callback reports the end (\<open>None\<close>: no callback on the answer, that is, the one of \<open>Start\<close>, which only logs).\<close>

record 'd rtConn =
  rt_Name :: string
  rt_pc1 :: bool
  rt_remote :: "'d option"
  rt_local :: "'d option"
  rt_candidates :: "string list"
  rt_notify :: bool
  rt_offer :: "'d option"
  rt_channels :: "string list"

definition rt_new :: "string \<Rightarrow> 'd rtConn" where
  "rt_new name = \<lparr>rt_Name = name, rt_pc1 = False, rt_remote = None, rt_local = None, rt_candidates = [], rt_notify = False, rt_offer = None,
     rt_channels = []\<rparr>"

definition rt_Start :: "'d rtcLib \<Rightarrow> 'd rtConn \<Rightarrow> goerr option \<times> 'd rtConn" where
  "rt_Start lib c = (case rl_NewPeerConnection lib of
     Some e \<Rightarrow> (Some e, c)
   | None \<Rightarrow> (None, c\<lparr>rt_pc1 := True\<rparr>))"

text \<open>A call on \<open>pc1\<close> when there is none follows a nil pointer.\<close>

definition onPc :: "'d rtConn \<Rightarrow> 'a \<Rightarrow> 'a option" where
  "onPc c x = (if rt_pc1 c then Some x else None)"

definition rt_DataChannel :: "'d rtcLib \<Rightarrow> string \<Rightarrow> 'd rtConn \<Rightarrow> (goerr option \<times> 'd rtConn) option" where
  "rt_DataChannel lib n c = do {
     err \<leftarrow> onPc c (rl_CreateDataChannel lib);
     case err of Some e \<Rightarrow> None
     | None \<Rightarrow> Some (None, c\<lparr>rt_channels := rt_channels c @ [n]\<rparr>) }"

section \<open>Accepting\<close>

text \<open>\<open>AcceptPeering\<close> up to the point where it waits for the candidates: an error, or the connection.\<close>

definition acceptSetup :: "'d rtcLib \<Rightarrow> 'd \<Rightarrow> (goerr + 'd rtConn) option" where
  "acceptSetup lib inOffer =
     (let (_, c) = rt_Start lib (rt_new ''accepted'') in do {
        err \<leftarrow> onPc c (rl_SetRemoteDescription lib inOffer);
        case err of Some e \<Rightarrow> Some (Inl e)
        | None \<Rightarrow> let c = c\<lparr>rt_remote := Some inOffer\<rparr> in
          (case rl_CreateAnswer lib of Inl e \<Rightarrow> Some (Inl e)
           | Inr answer \<Rightarrow> let c = c\<lparr>rt_notify := True\<rparr> in
             (case rl_SetLocalDescription lib answer of Some e \<Rightarrow> Some (Inl e)
              | None \<Rightarrow> Some (Inr (c\<lparr>rt_local := Some answer\<rparr>)))) })"

text \<open>The wait. The library calls the callback with each candidate, and with nil (\<open>None\<close>) at the end; the unbuffered channel holds the callback until
  the receive. The state has the goroutine of \<open>AcceptPeering\<close> (waiting, past the receive, or returned with the description), the one of the library (what it
  still reports; whether it is held by the channel), and the candidates.\<close>

datatype 'd waiting = Waiting | Received | Returned "'d option"

record 'd gather =
  ga_conn :: "'d rtConn"
  ga_events :: "string option list"
  ga_sending :: bool
  ga_phase :: "'d waiting"

definition gatherStart :: "'d rtConn \<Rightarrow> string option list \<Rightarrow> 'd gather" where
  "gatherStart c events = \<lparr>ga_conn = c, ga_events = events, ga_sending = False, ga_phase = Waiting\<rparr>"

definition gatherDesc :: "'d rtcLib \<Rightarrow> 'd rtConn \<Rightarrow> 'd option" where
  "gatherDesc lib c = map_option (\<lambda>d. rl_LocalDescription lib d (rt_candidates c)) (rt_local c)"

inductive gather_step :: "'d rtcLib \<Rightarrow> 'd gather \<Rightarrow> 'd gather \<Rightarrow> bool" for lib where
  candidate: "\<lbrakk>\<not> ga_sending g; ga_events g = Some cand # es\<rbrakk> \<Longrightarrow>
    gather_step lib g (g\<lparr>ga_events := es, ga_conn := (ga_conn g)\<lparr>rt_candidates := rt_candidates (ga_conn g) @ [cand]\<rparr>\<rparr>)"
| last: "\<lbrakk>\<not> ga_sending g; ga_events g = None # es\<rbrakk> \<Longrightarrow> gather_step lib g (g\<lparr>ga_events := es, ga_sending := rt_notify (ga_conn g)\<rparr>)"
| receive: "\<lbrakk>ga_sending g; ga_phase g = Waiting\<rbrakk> \<Longrightarrow> gather_step lib g (g\<lparr>ga_sending := False, ga_phase := Received\<rparr>)"
| result: "ga_phase g = Received \<Longrightarrow> gather_step lib g (g\<lparr>ga_phase := Returned (gatherDesc lib (ga_conn g))\<rparr>)"

inductive_cases gather_stepE: "gather_step lib g h"

inductive_simps gather_step_simps: "gather_step lib g h"

text \<open>What the wait comes to: the candidates up to the first nil.\<close>

fun gathered :: "string option list \<Rightarrow> string list option" where
  "gathered [] = None"
| "gathered (None # es) = Some []"
| "gathered (Some c # es) = map_option (Cons c) (gathered es)"

text \<open>\<open>AcceptPeering\<close>; the inner \<open>None\<close> is a call that does not return.\<close>

definition AcceptPeering :: "'d rtcLib \<Rightarrow> string option list \<Rightarrow> 'd \<Rightarrow> (goerr + 'd) option option" where
  "AcceptPeering lib events inOffer = (case acceptSetup lib inOffer of
     None \<Rightarrow> None
   | Some (Inl e) \<Rightarrow> Some (Some (Inl e))
   | Some (Inr c) \<Rightarrow> Some (case gathered events of None \<Rightarrow> None
       | Some cands \<Rightarrow> map_option Inr (gatherDesc lib (c\<lparr>rt_candidates := cands\<rparr>))))"

section \<open>The handler\<close>

record rtcResponse =
  rr_status :: "int option"
  rr_ctype :: "string option"
  rr_body :: "byte list"

text \<open>\<open>RTCDirectHandler\<close>: \<open>body\<close> is what reading the body gives, \<open>unmarshal\<close> and \<open>marshal\<close> are those of JSON.\<close>

definition RTCDirectHandler :: "'d rtcLib \<Rightarrow> (byte list \<Rightarrow> goerr + 'd) \<Rightarrow> ('d \<Rightarrow> goerr + byte list) \<Rightarrow> string option list \<Rightarrow> goerr + byte list
    \<Rightarrow> rtcResponse option option" where
  "RTCDirectHandler lib unmarshal marshal events body =
     (let r = \<lparr>rr_status = None, rr_ctype = None, rr_body = []\<rparr> in case body of
        Inl e \<Rightarrow> Some (Some (r\<lparr>rr_status := Some 501\<rparr>))
      | Inr off \<Rightarrow> (case unmarshal off of
          Inl e \<Rightarrow> Some (Some (r\<lparr>rr_status := Some 501\<rparr>))
        | Inr offer \<Rightarrow> map_option (map_option (\<lambda>res. case res of
              Inl e \<Rightarrow> r\<lparr>rr_status := Some 501\<rparr>
            | Inr ans \<Rightarrow> let r = r\<lparr>rr_ctype := Some ''application/json''\<rparr> in
                (case marshal ans of Inl e \<Rightarrow> r | Inr ansb \<Rightarrow> r\<lparr>rr_body := ansb\<rparr>)))
            (AcceptPeering lib events offer)))"

section \<open>Dialing\<close>

text \<open>\<open>Dial\<close>: the errors of \<open>Start\<close>, \<open>CreateDataChannel\<close> and \<open>CreateOffer\<close> are dropped; a failed offer is the zero description \<open>zero\<close>.
  \<open>done\<close> is whether gathering completes.\<close>

definition rtc_Dial :: "'d rtcLib \<Rightarrow> 'd \<Rightarrow> bool \<Rightarrow> 'd rtConn \<Rightarrow> (goerr option \<times> 'd rtConn) option option" where
  "rtc_Dial lib zero complete c =
     (let (_, c) = rt_Start lib c in do {
        (_, c) \<leftarrow> rt_DataChannel lib ''dc0'' c;
        let offer = (case rl_CreateOffer lib of Inl _ \<Rightarrow> zero | Inr d \<Rightarrow> d);
        let c = c\<lparr>rt_offer := Some offer\<rparr>;
        case rl_SetLocalDescription lib offer of Some e \<Rightarrow> Some (Some (Some e, c))
        | None \<Rightarrow> Some (if complete then Some (None, c\<lparr>rt_local := Some offer\<rparr>) else None) })"

section \<open>TURN\<close>

text \<open>\<open>InitTURN\<close>: the listeners that are open at the end, and its \<open>AuthHandler\<close>.\<close>

definition turn_AuthHandler :: "string \<Rightarrow> string \<Rightarrow> string \<Rightarrow> byte list \<times> bool" where
  "turn_AuthHandler username realm srcAddr = (map of_char ''key'', True)"

definition InitTURN :: "goerr option \<Rightarrow> goerr option \<Rightarrow> goerr option \<Rightarrow> goerr option \<times> string list" where
  "InitTURN tcpErr udpErr turnErr = (case tcpErr of Some e \<Rightarrow> (Some e, [])
     | None \<Rightarrow> (case udpErr of Some e \<Rightarrow> (Some e, [''tcp4 0.0.0.0:3478''])
       | None \<Rightarrow> (case turnErr of Some e \<Rightarrow> (Some e, [''tcp4 0.0.0.0:3478'', ''udp4 0.0.0.0:3478''])
         | None \<Rightarrow> (None, [''tcp4 0.0.0.0:3478'', ''udp4 0.0.0.0:3478'']))))"

section \<open>Properties\<close>

text \<open>The library reports nil once, after the last candidate.\<close>

definition gather_inv :: "'d \<Rightarrow> string list \<Rightarrow> 'd rtcLib \<Rightarrow> 'd gather \<Rightarrow> bool" where
  "gather_inv a cands lib g \<longleftrightarrow> rt_local (ga_conn g) = Some a \<and> rt_notify (ga_conn g) \<and>
     (case ga_phase g of
        Waiting \<Rightarrow> (if ga_sending g then rt_candidates (ga_conn g) = cands \<and> ga_events g = []
          else \<exists>es. rt_candidates (ga_conn g) @ es = cands \<and> ga_events g = map Some es @ [None])
      | Received \<Rightarrow> \<not> ga_sending g \<and> rt_candidates (ga_conn g) = cands \<and> ga_events g = []
      | Returned d \<Rightarrow> \<not> ga_sending g \<and> ga_events g = [] \<and> d = Some (rl_LocalDescription lib a cands))"

lemma events_Some: "Some c # r = map Some es @ [None] \<longleftrightarrow> (\<exists>es'. es = c # es' \<and> r = map Some es' @ [None])"
  by (cases es) auto

lemma events_None: "None # r = map Some es @ [None] \<longleftrightarrow> es = [] \<and> r = []"
  by (cases es) auto

lemma gather_inv_step: "gather_step lib g h \<Longrightarrow> gather_inv a cands lib g \<Longrightarrow> gather_inv a cands lib h"
proof (induction rule: gather_step.induct)
  case (candidate g cand es)
  then show ?case by (auto simp: gather_inv_def events_Some split: waiting.splits)
next
  case (last g es)
  then show ?case by (auto simp: gather_inv_def events_None split: waiting.splits)
qed (auto simp: gather_inv_def gatherDesc_def split: waiting.splits)

lemma gather_inv_reach:
  assumes "(gather_step lib)\<^sup>*\<^sup>* g h" "gather_inv a cands lib g"
  shows "gather_inv a cands lib h"
  using assms by (induction rule: rtranclp_induct) (auto intro: gather_inv_step)

lemma gather_inv_final:
  assumes "gather_inv a cands lib g" "\<nexists>h. gather_step lib g h"
  shows "ga_phase g = Returned (Some (rl_LocalDescription lib a cands))"
proof (cases "ga_phase g")
  case Waiting
  show ?thesis
  proof (cases "ga_sending g")
    case False
    then obtain es where "ga_events g = map Some es @ [None]" using assms(1) Waiting by (auto simp: gather_inv_def)
    then obtain x r where "ga_events g = x # r" by (cases es) auto
    then show ?thesis using assms(2) False gather_step.candidate gather_step.last by (cases x) blast+
  qed (use assms(2) Waiting gather_step.receive in blast)
next
  case Received
  then show ?thesis using assms(2) gather_step.result by blast
qed (use assms(1) in \<open>simp add: gather_inv_def\<close>)

lemma gather_terminates: "wfP (\<lambda>h g. gather_step lib g h)"
proof -
  define m where "m g = 3 * length (ga_events g) + (if ga_sending g then 1 else 0) + (case ga_phase g of Waiting \<Rightarrow> 2 | Received \<Rightarrow> 1 | Returned _ \<Rightarrow> 0)"
    for g :: "'a gather"
  have "m h < m g" if "gather_step lib g h" for g h :: "'a gather"
    using that by (induction rule: gather_step.induct) (auto simp: m_def)
  then show ?thesis unfolding wfp_def by (intro wf_subset [OF wf_measure [of m]]) auto
qed

lemma gather_ends: "\<exists>h. (gather_step lib)\<^sup>*\<^sup>* g h \<and> (\<nexists>k. gather_step lib h k)"
proof (induction g rule: wfp_induct_rule [OF gather_terminates [of lib]])
  case (1 g)
  show ?case
  proof (cases "\<exists>k. gather_step lib g k")
    case True
    then obtain k where k: "gather_step lib g k" ..
    from 1 [OF this] obtain h where "(gather_step lib)\<^sup>*\<^sup>* k h" "\<nexists>k. gather_step lib h k" by blast
    then show ?thesis using converse_rtranclp_into_rtranclp [where r = "gather_step lib", OF k] by blast
  qed blast
qed

lemma gathered_all: "gathered (map Some cands @ None # rest) = Some cands"
  by (induction cands) auto

lemma acceptSetup_Inr:
  assumes "acceptSetup lib inOffer = Some (Inr c)"
  obtains answer where "rl_CreateAnswer lib = Inr answer" "rt_local c = Some answer" "rt_notify c" "rt_candidates c = []"
  using assms by (auto simp: acceptSetup_def onPc_def rt_Start_def rt_new_def Let_def split: option.splits sum.splits if_splits)

lemma gather_start_inv:
  assumes "rt_local c = Some a" "rt_notify c" "rt_candidates c = []"
  shows "gather_inv a cands lib (gatherStart c (map Some cands @ [None]))"
  using assms by (simp add: gather_inv_def gatherStart_def)

text \<open>A peer connection that cannot be made panics, since its error is dropped; no other failure does.\<close>

lemma accept_panics: "AcceptPeering lib events inOffer = None \<longleftrightarrow> rl_NewPeerConnection lib \<noteq> None"
  by (auto simp: AcceptPeering_def acceptSetup_def onPc_def rt_Start_def rt_new_def Let_def split: option.splits sum.splits if_splits)

text \<open>Without a report that gathering ended, the goroutine of \<open>AcceptPeering\<close> waits in every state.\<close>

lemma gather_waits_step:
  "gather_step lib g h \<Longrightarrow> None \<notin> set (ga_events g) \<and> \<not> ga_sending g \<and> ga_phase g = Waiting \<Longrightarrow>
     None \<notin> set (ga_events h) \<and> \<not> ga_sending h \<and> ga_phase h = Waiting"
  by (induction rule: gather_step.induct) auto

lemma gather_waits:
  assumes "(gather_step lib)\<^sup>*\<^sup>* (gatherStart c events) h" "None \<notin> set events"
  shows "ga_phase h = Waiting"
proof -
  have "None \<notin> set (ga_events h) \<and> \<not> ga_sending h \<and> ga_phase h = Waiting"
    using assms(1) by (induction rule: rtranclp_induct) (use assms(2) gather_waits_step in \<open>auto simp: gatherStart_def\<close>)
  then show ?thesis by blast
qed

lemma gathered_None: "None \<notin> set events \<Longrightarrow> gathered events = None"
  by (induction events rule: gathered.induct) auto

lemma gather_no_infinite: "\<not> (\<forall>i. gather_step lib (f i) (f (Suc i)))"
  using gather_terminates [of lib] unfolding wfp_def wf_iff_no_infinite_down_chain by auto

text \<open>C16: Accepting a peer, in all cases. The call panics exactly when no peer connection can be made; an error of the setup is returned.
  Otherwise it waits, while the goroutine of the library reports candidates. No run of the two goroutines goes on for ever. If the end of
  gathering is never reported, the call waits in every state of every run, and does not return. If it is reported after the last candidate,
  as the library documents, every run that has come to its end has returned the answer with all candidates, which is what \<open>AcceptPeering\<close> as a function
  says.\<close>

theorem accept_refines:
  "(AcceptPeering lib events inOffer = None \<longleftrightarrow> rl_NewPeerConnection lib \<noteq> None) \<and>
   (\<forall>e. acceptSetup lib inOffer = Some (Inl e) \<longrightarrow> AcceptPeering lib events inOffer = Some (Some (Inl e))) \<and>
   (\<forall>c. acceptSetup lib inOffer = Some (Inr c) \<longrightarrow>
      (\<nexists>f. f 0 = gatherStart c events \<and> (\<forall>i. gather_step lib (f i) (f (Suc i)))) \<and>
      (None \<notin> set events \<longrightarrow> AcceptPeering lib events inOffer = Some None \<and>
         (\<forall>h. (gather_step lib)\<^sup>*\<^sup>* (gatherStart c events) h \<longrightarrow> ga_phase h = Waiting)) \<and>
      (\<forall>cands. events = map Some cands @ [None] \<longrightarrow>
         (\<exists>answer ans. rl_CreateAnswer lib = Inr answer \<and> ans = rl_LocalDescription lib answer cands \<and>
            AcceptPeering lib events inOffer = Some (Some (Inr ans)) \<and>
            (\<forall>h. (gather_step lib)\<^sup>*\<^sup>* (gatherStart c events) h \<longrightarrow> (\<nexists>k. gather_step lib h k) \<longrightarrow> ga_phase h = Returned (Some ans)))))"
proof -
  have ended: "\<exists>answer ans. rl_CreateAnswer lib = Inr answer \<and> ans = rl_LocalDescription lib answer cands \<and>
      AcceptPeering lib events inOffer = Some (Some (Inr ans)) \<and>
      (\<forall>h. (gather_step lib)\<^sup>*\<^sup>* (gatherStart c events) h \<longrightarrow> (\<nexists>k. gather_step lib h k) \<longrightarrow> ga_phase h = Returned (Some ans))"
    if c: "acceptSetup lib inOffer = Some (Inr c)" and ev: "events = map Some cands @ [None]" for c cands
  proof -
    obtain a where a: "rl_CreateAnswer lib = Inr a" "rt_local c = Some a" "rt_notify c" "rt_candidates c = []" using acceptSetup_Inr [OF c] .
    have inv: "gather_inv a cands lib (gatherStart c events)" using gather_start_inv [OF a(2-4)] by (simp add: ev)
    have fin: "ga_phase h = Returned (Some (rl_LocalDescription lib a cands))"
      if "(gather_step lib)\<^sup>*\<^sup>* (gatherStart c events) h" "\<nexists>k. gather_step lib h k" for h
      using gather_inv_final [OF gather_inv_reach [OF that(1) inv] that(2)] .
    have "AcceptPeering lib events inOffer = Some (Some (Inr (rl_LocalDescription lib a cands)))"
      using c ev a by (simp add: AcceptPeering_def gathered_all gatherDesc_def)
    with a(1) fin show ?thesis by (intro exI [of _ a] exI [of _ "rl_LocalDescription lib a cands"]) simp
  qed
  have waits: "AcceptPeering lib events inOffer = Some None"
    if "acceptSetup lib inOffer = Some (Inr c)" "None \<notin> set events" for c
    using that by (simp add: AcceptPeering_def gathered_None)
  have "AcceptPeering lib events inOffer = Some (Some (Inl e))" if "acceptSetup lib inOffer = Some (Inl e)" for e
    using that by (simp add: AcceptPeering_def)
  moreover have "\<nexists>f. f 0 = gatherStart c events \<and> (\<forall>i. gather_step lib (f i) (f (Suc i)))" for c
    using gather_no_infinite [of lib] by metis
  ultimately show ?thesis
    by (intro conjI allI impI accept_panics) (assumption | rule ended waits gather_waits | simp only:)+
qed

definition exLib :: "string rtcLib" where
  "exLib = \<lparr>rl_NewPeerConnection = None, rl_SetRemoteDescription = \<lambda>_. None, rl_CreateAnswer = Inr ''a'', rl_CreateOffer = Inr ''o'',
     rl_SetLocalDescription = \<lambda>_. None, rl_LocalDescription = (\<lambda>d cs. d @ concat cs), rl_CreateDataChannel = None\<rparr>"

theorem accept_refines_witness:
  "\<exists>c. acceptSetup exLib ''o'' = Some (Inr c) \<and> AcceptPeering exLib [Some ''x'', Some ''y'', None] ''o'' = Some (Some (Inr ''axy''))
     \<and> AcceptPeering exLib [Some ''x''] ''o'' = Some None
     \<and> (\<exists>h. (gather_step exLib)\<^sup>*\<^sup>* (gatherStart c [Some ''x'', Some ''y'', None]) h \<and> ga_phase h = Returned (Some ''axy''))"
proof -
  define c :: "string rtConn" where "c = (rt_new ''accepted'')\<lparr>rt_pc1 := True, rt_remote := Some ''o'', rt_notify := True, rt_local := Some ''a''\<rparr>"
  have c: "acceptSetup exLib ''o'' = Some (Inr c)" by (simp add: acceptSetup_def exLib_def rt_Start_def rt_new_def onPc_def Let_def c_def)
  have ev: "[Some ''x'', Some ''y'', None] = map Some [''x'', ''y''] @ [None]" by simp
  note all = accept_refines [of exLib "[Some ''x'', Some ''y'', None]" "''o''", THEN conjunct2, THEN conjunct2, rule_format, OF c]
  have "AcceptPeering exLib [Some ''x''] ''o'' = Some None"
    using accept_refines [of exLib "[Some ''x'']" "''o''", THEN conjunct2, THEN conjunct2, rule_format, OF c] by simp
  moreover obtain answer ans where ans: "rl_CreateAnswer exLib = Inr answer" "ans = rl_LocalDescription exLib answer [''x'', ''y'']"
    "AcceptPeering exLib [Some ''x'', Some ''y'', None] ''o'' = Some (Some (Inr ans))"
    "\<forall>h. (gather_step exLib)\<^sup>*\<^sup>* (gatherStart c [Some ''x'', Some ''y'', None]) h \<longrightarrow> (\<nexists>k. gather_step exLib h k) \<longrightarrow> ga_phase h = Returned (Some ans)"
    using all [THEN conjunct2, THEN conjunct2, rule_format, OF ev] by (elim exE conjE)
  have axy: "ans = ''axy''" using ans(1,2) by (simp add: exLib_def)
  obtain h where "(gather_step exLib)\<^sup>*\<^sup>* (gatherStart c [Some ''x'', Some ''y'', None]) h" "\<nexists>k. gather_step exLib h k"
    using gather_ends [of exLib "gatherStart c [Some ''x'', Some ''y'', None]"] by (elim exE conjE)
  then have "(gather_step exLib)\<^sup>*\<^sup>* (gatherStart c [Some ''x'', Some ''y'', None]) h" "ga_phase h = Returned (Some ''axy'')"
    using ans(4) axy by simp_all
  ultimately show ?thesis using c ans(3) unfolding axy by (intro exI [of _ c] conjI exI [of _ h])
qed

text \<open>The handler: the peer gets the marshalled answer, and 501 for every error of the setup.\<close>

lemma direct_answers:
  assumes "unmarshal off = Inr offer" "AcceptPeering lib events offer = Some (Some (Inr ans))" "marshal ans = Inr b"
  shows "RTCDirectHandler lib unmarshal marshal events (Inr off) = Some (Some \<lparr>rr_status = None, rr_ctype = Some ''application/json'', rr_body = b\<rparr>)"
  using assms by (simp add: RTCDirectHandler_def)

lemma direct_error:
  assumes "unmarshal off = Inr offer" "AcceptPeering lib events offer = Some (Some (Inl e))"
  shows "RTCDirectHandler lib unmarshal marshal events (Inr off) = Some (Some \<lparr>rr_status = Some 501, rr_ctype = None, rr_body = []\<rparr>)"
  using assms by (simp add: RTCDirectHandler_def)

text \<open>The request is held until gathering ends; nothing limits it.\<close>

lemma direct_waits:
  assumes "unmarshal off = Inr offer" "acceptSetup lib offer = Some (Inr c)"
  shows "RTCDirectHandler lib unmarshal marshal (map Some cands) (Inr off) = Some None"
proof -
  have "gathered (map Some cands) = None" by (induction cands) auto
  then show ?thesis using assms by (simp add: RTCDirectHandler_def AcceptPeering_def)
qed

text \<open>\<open>Dial\<close> goes on with an empty offer when none could be made, and every user of the TURN server has the same key.\<close>

lemma dial_offer_error_dropped:
  assumes "rl_NewPeerConnection lib = None" "rl_CreateDataChannel lib = None" "rl_CreateOffer lib = Inl e" "rl_SetLocalDescription lib zero = None"
  shows "\<exists>c'. rtc_Dial lib zero True c = Some (Some (None, c')) \<and> rt_offer c' = Some zero"
  using assms by (simp add: rtc_Dial_def rt_Start_def rt_DataChannel_def onPc_def Let_def)

lemma turn_any_user: "turn_AuthHandler u r a = turn_AuthHandler u' r' a'"
  by (simp add: turn_AuthHandler_def)

end
