(* ===== verification/Ns9p.thy ===== *)
theory Ns9p
  imports Nio_Buffer
begin

text \<open>
  \<^verbatim>\<open>src/pkg/fs/ns9p/ns9p.go\<close>: a small file server, whose files record in the file \<open>events\<close> how they are used. The library \<open>go9p\<close> is a
  parameter: a file has a name, a state, and the four operations that a client can call.
\<close>

section \<open>Files\<close>

record 's file9 =
  f_Name :: string
  f_Open :: "u64 \<Rightarrow> byte \<Rightarrow> 's \<Rightarrow> goerr option \<times> 's"
  f_Read :: "u64 \<Rightarrow> u64 \<Rightarrow> u64 \<Rightarrow> 's \<Rightarrow> (goerr + byte list) \<times> 's"
  f_Write :: "u64 \<Rightarrow> u64 \<Rightarrow> byte list \<Rightarrow> 's \<Rightarrow> (goerr + u32) \<times> 's"
  f_Close :: "u64 \<Rightarrow> 's \<Rightarrow> goerr option \<times> 's"

definition addEvent :: "string \<Rightarrow> string \<Rightarrow> string" where
  "addEvent data s = data @ s @ [CHR 0x0A]"

definition itoa_w :: "'a::len word \<Rightarrow> string" where
  "itoa_w w = itoa (uint w)"

text \<open>The lines that \<open>WrapEvents\<close> writes.\<close>

definition openLine :: "string \<Rightarrow> byte \<Rightarrow> string" where
  "openLine fname omode = ''Open '' @ fname @ '': mode: '' @ itoa_w omode"

definition readLine :: "string \<Rightarrow> u64 \<Rightarrow> u64 \<Rightarrow> string" where
  "readLine fname offset count = ''Read '' @ fname @ '': offset '' @ itoa_w offset @ '', count '' @ itoa_w count"

definition writeLine :: "string \<Rightarrow> u64 \<Rightarrow> byte list \<Rightarrow> string" where
  "writeLine fname offset data = ''Write '' @ fname @ '': offset '' @ itoa_w offset @ '', data '' @ itoa (int (length data)) @ '' bytes''"

definition closeLine :: "string \<Rightarrow> string" where
  "closeLine fname = ''Close '' @ fname"

text \<open>A wrapped file has the text of \<open>events\<close> beside the state of the file.\<close>

definition WrapEvents :: "'s file9 \<Rightarrow> ('s \<times> string) file9" where
  "WrapEvents f = (let fname = f_Name f in
     \<lparr>f_Name = fname,
      f_Open = (\<lambda>fid omode (s, ev). let ev = addEvent ev (openLine fname omode); (r, s) = f_Open f fid omode s in (r, (s, ev))),
      f_Read = (\<lambda>fid offset count (s, ev). let ev = addEvent ev (readLine fname offset count); (r, s) = f_Read f fid offset count s in (r, (s, ev))),
      f_Write = (\<lambda>fid offset data (s, ev). let ev = addEvent ev (writeLine fname offset data); (r, s) = f_Write f fid offset data s in (r, (s, ev))),
      f_Close = (\<lambda>fid (s, ev). let ev = addEvent ev (closeLine fname); (r, s) = f_Close f fid s in (r, (s, ev)))\<rparr>)"

section \<open>Uses of a file\<close>

datatype op9 = Open9 u64 byte | Read9 u64 u64 u64 | Write9 u64 u64 "byte list" | Close9 u64

datatype res9 = Done9 "goerr option" | Data9 "goerr + byte list" | Count9 "goerr + u32"

fun use9 :: "'s file9 \<Rightarrow> op9 \<Rightarrow> 's \<Rightarrow> res9 \<times> 's" where
  "use9 f (Open9 fid m) s = apfst Done9 (f_Open f fid m s)"
| "use9 f (Read9 fid off n) s = apfst Data9 (f_Read f fid off n s)"
| "use9 f (Write9 fid off d) s = apfst Count9 (f_Write f fid off d s)"
| "use9 f (Close9 fid) s = apfst Done9 (f_Close f fid s)"

fun uses9 :: "'s file9 \<Rightarrow> op9 list \<Rightarrow> 's \<Rightarrow> res9 list \<times> 's" where
  "uses9 f [] s = ([], s)"
| "uses9 f (x # xs) s = (let (r, s) = use9 f x s; (rs, s) = uses9 f xs s in (r # rs, s))"

fun eventLine :: "string \<Rightarrow> op9 \<Rightarrow> string" where
  "eventLine n (Open9 fid m) = openLine n m"
| "eventLine n (Read9 fid off c) = readLine n off c"
| "eventLine n (Write9 fid off d) = writeLine n off d"
| "eventLine n (Close9 fid) = closeLine n"

lemma use9_wrap: "use9 (WrapEvents f) x (s, ev) = (let (r, s') = use9 f x s in (r, (s', addEvent ev (eventLine (f_Name f) x))))"
  by (cases x) (simp_all add: WrapEvents_def Let_def split: prod.splits)

text \<open>a wrapped file gives the same results as the file, for every sequence of operations, and \<open>events\<close> gets one line for each of them, in
  their order and whatever their outcome.\<close>

theorem wrap_refines:
  "uses9 (WrapEvents f) xs (s, ev) = (case uses9 f xs s of (rs, s') \<Rightarrow> (rs, (s', ev @ concat (map (\<lambda>x. eventLine (f_Name f) x @ [CHR 0x0A]) xs))))"
proof (induction xs arbitrary: s ev)
  case (Cons x xs)
  then show ?case by (simp add: use9_wrap addEvent_def Let_def split: prod.splits)
qed simp

section \<open>The server\<close>

text \<open>\<open>InitNS9PS\<close>: the identity it sets, and the files of the root with their owners. \<open>UID\<close> and \<open>GID\<close> are set and not used.\<close>

record ns9p =
  n_UID :: string
  n_GID :: string
  n_Address :: string

definition InitNS9PS :: "ns9p \<Rightarrow> ns9p \<times> (string \<times> string) list" where
  "InitNS9PS p =
     (let p = (if n_UID p = [] then p\<lparr>n_UID := ''build''\<rparr> else p);
          p = (if n_GID p = [] then p\<lparr>n_GID := n_UID p\<rparr> else p)
      in (p, [(''events'', ''build''), (''time'', ''glenda''), (''random'', ''glenda'')]))"

lemma init_identity:
  "n_UID (fst (InitNS9PS p)) \<noteq> [] \<and> n_GID (fst (InitNS9PS p)) \<noteq> [] \<and> n_Address (fst (InitNS9PS p)) = n_Address p"
  by (simp add: InitNS9PS_def Let_def)

lemma init_owner_ignored: "snd (InitNS9PS p) = snd (InitNS9PS q)"
  by (simp add: InitNS9PS_def Let_def)

end
