(* ===== verification/Relays.thy ===== *)
theory Relays
  imports Gateway Quic Echo
begin

text \<open>
  Relays in general: what the three gateways that end in \<open>Proxy\<close> have in common, the SNI listener (\<^verbatim>\<open>src/pkg/sni/sni.go\<close>), \<open>CONNECT\<close>
  (\<^verbatim>\<open>src/pkg/http_proxy/httpproxy_capture.go\<close>) and the raw streams of QUIC (\<^verbatim>\<open>src/pkg/quic/quic.go\<close>). The locale \<open>relay\<close> is their contract:
  which bytes reach the server, and what the client gets. Two relays in a row are a relay again (\<open>relay_chain\<close>), and a service behind a
  relay is seen through it.
\<close>

section \<open>The contract\<close>

text \<open>A server as the relays need it: it ends its stream normally, takes what is written to it, and can be closed.\<close>

definition server_ok :: "endpoint \<Rightarrow> bool" where
  "server_ok nc \<longleftrightarrow> plain_reader (e_in nc) \<and> w_next (e_out nc) = [] \<and> closable (e_caps nc)"

text \<open>The bytes that the two sides of a proxy have at the end: those of the server and those of the client.\<close>

definition relayed :: "proxyState \<Rightarrow> byte list \<times> byte list" where
  "relayed ps = (w_out (Out (p1 ps)), w_out (Out (p2 ps)))"

text \<open>A network in which one address is served.\<close>

definition route :: "string \<Rightarrow> endpoint \<Rightarrow> string \<Rightarrow> goerr + endpoint" where
  "route addr nc a = (if a = addr then Inr nc else Inl (ErrMsg ''no route to host''))"

text \<open>\<open>run c nc\<close> is the handler for the client \<open>c\<close>, with the server \<open>nc\<close> at the address that \<open>c\<close> asks for; \<open>arrives\<close> is what comes in from the
  client, \<open>up\<close> the part of it for the server, and \<open>down\<close> what the client gets ahead of the bytes of the server.\<close>

locale relay =
  fixes run :: "'c \<Rightarrow> endpoint \<Rightarrow> (byte list \<times> byte list) option"
    and ok :: "'c \<Rightarrow> bool" and arrives :: "'c \<Rightarrow> byte list" and up :: "'c \<Rightarrow> byte list" and down :: "'c \<Rightarrow> byte list"
  assumes relays: "ok c \<Longrightarrow> server_ok nc \<Longrightarrow> run c nc = Some (w_out (e_out nc) @ up c, down c @ reader_bytes (e_in nc))"
    and up_arrives: "ok c \<Longrightarrow> suffix (up c) (arrives c)"
begin

text \<open>A service: a server that starts with nothing received, and answers what it is sent with \<open>serve\<close>.\<close>

lemma service:
  assumes "ok c" "server_ok nc" "w_out (e_out nc) = []" "reader_bytes (e_in nc) = serve (up c)"
  shows "run c nc = Some (up c, down c @ serve (up c))"
  using relays [OF assms(1,2)] assms(3,4) by simp

text \<open>What the server receives depends on the client only, and what the client receives on the server only by its bytes.\<close>

lemma same_bytes:
  assumes "ok c" "server_ok nc" "server_ok nc'" "w_out (e_out nc) = w_out (e_out nc')" "reader_bytes (e_in nc) = reader_bytes (e_in nc')"
  shows "run c nc = run c nc'"
  using relays [OF assms(1,2)] relays [OF assms(1,3)] assms(4,5) by simp

end

section \<open>Relays in a row\<close>

text \<open>The connection between two relays, as the first one dials it: \<open>deliver\<close> says how the bytes of the second one arrive.\<close>

definition between :: "(byte list \<Rightarrow> reader) \<Rightarrow> byte list \<Rightarrow> endpoint" where
  "between deliver bs = \<lparr>e_in = deliver bs, e_out = \<lparr>w_out = [], w_next = []\<rparr>, e_caps = tcpCaps\<rparr>"

definition delivers :: "(byte list \<Rightarrow> reader) \<Rightarrow> bool" where
  "delivers deliver \<longleftrightarrow> (\<forall>bs. plain_reader (deliver bs) \<and> reader_bytes (deliver bs) = bs)"

text \<open>The first relay, for the client \<open>c\<close>, dials the second one, for which the connection is the client \<open>d\<close>. The result is \<open>None\<close> also
  when what the first one sends is not what arrives from \<open>d\<close>.\<close>

definition chainRun :: "('c \<Rightarrow> endpoint \<Rightarrow> (byte list \<times> byte list) option) \<Rightarrow> ('d \<Rightarrow> endpoint \<Rightarrow> (byte list \<times> byte list) option)
    \<Rightarrow> ('d \<Rightarrow> byte list) \<Rightarrow> 'c \<times> (byte list \<Rightarrow> reader) \<times> 'd \<Rightarrow> endpoint \<Rightarrow> (byte list \<times> byte list) option" where
  "chainRun runa runb arrivesb x nc = (case x of (c, deliver, d) \<Rightarrow> do {
     (toServer, toFirst) \<leftarrow> runb d nc;
     (toSecond, toClient) \<leftarrow> runa c (between deliver toFirst);
     if toSecond = arrivesb d then Some (toServer, toClient) else None })"

locale relay_chain = a: relay runa oka arrivesa upa downa + b: relay runb okb arrivesb upb downb
  for runa :: "'c \<Rightarrow> endpoint \<Rightarrow> (byte list \<times> byte list) option" and oka arrivesa upa downa
    and runb :: "'d \<Rightarrow> endpoint \<Rightarrow> (byte list \<times> byte list) option" and okb arrivesb upb downb
begin

lemma chain_relays:
  assumes "oka c" "delivers deliver" "okb d" "arrivesb d = upa c" "server_ok nc"
  shows "chainRun runa runb arrivesb (c, deliver, d) nc = Some (w_out (e_out nc) @ upb d, downa c @ downb d @ reader_bytes (e_in nc))"
proof -
  have "server_ok (between deliver bs)" "reader_bytes (e_in (between deliver bs)) = bs" "w_out (e_out (between deliver bs)) = []" for bs
    using assms(2) by (simp_all add: server_ok_def between_def delivers_def closable_def tcpCaps_def)
  then show ?thesis using a.relays [OF assms(1)] b.relays [OF assms(3,5)] assms(4) by (simp add: chainRun_def)
qed

end

sublocale relay_chain \<subseteq> chain: relay "chainRun runa runb arrivesb" "\<lambda>(c, deliver, d). oka c \<and> delivers deliver \<and> okb d \<and> arrivesb d = upa c"
  "\<lambda>(c, _, _). arrivesa c" "\<lambda>(_, _, d). upb d" "\<lambda>(c, _, d). downa c @ downb d"
proof
  fix x :: "'c \<times> (byte list \<Rightarrow> reader) \<times> 'd" and nc
  obtain c deliver d where x: "x = (c, deliver, d)" by (cases x) auto
  assume "case x of (c, deliver, d) \<Rightarrow> oka c \<and> delivers deliver \<and> okb d \<and> arrivesb d = upa c"
  then have k: "oka c" "delivers deliver" "okb d" "arrivesb d = upa c" by (simp_all add: x)
  show "suffix (case x of (_, _, d) \<Rightarrow> upb d) (case x of (c, _, _) \<Rightarrow> arrivesa c)"
    using a.up_arrives [OF k(1)] b.up_arrives [OF k(3)] k(4) suffix_order.trans by (simp add: x)
  assume "server_ok nc"
  from chain_relays [OF k this] show "chainRun runa runb arrivesb x nc
      = Some (w_out (e_out nc) @ (case x of (_, _, d) \<Rightarrow> upb d), (case x of (c, _, d) \<Rightarrow> downa c @ downb d) @ reader_bytes (e_in nc))"
    by (simp add: x)
qed

section \<open>The gateways\<close>

text \<open>The client of the SNI listener: the connection and the name that it asks for.\<close>

definition sniRelay :: "(nat option) \<Rightarrow> bool \<Rightarrow> nio_pools \<Rightarrow> u32 \<times> u32 \<Rightarrow> endpoint \<times> string \<Rightarrow> endpoint \<Rightarrow> (byte list \<times> byte list) option" where
  "sniRelay choice first p cnt c nc = (case c of (conn, name) \<Rightarrow> do {
     r \<leftarrow> sni_HandleConn choice (route (name @ '':443'') nc) first conn p cnt;
     map_option relayed (sr_proxy r) })"

definition sniOk :: "endpoint \<times> string \<Rightarrow> bool" where
  "sniOk c \<longleftrightarrow> (case c of (conn, name) \<Rightarrow>
     (\<exists>v h rest pre post. reader_bytes (e_in conn) = tlsRecord v (helloBody h) @ rest \<and> partsOk h \<and> length (helloBody h) \<le> 16 * 1024
        \<and> h_extensions h = pre @ [serverNameExt name] @ post \<and> (\<forall>x \<in> set (pre @ post). fst x \<noteq> extensionServerName))
     \<and> \<not> suffix ''.'' name \<and> \<not> prefix ''outbound_.'' name
     \<and> plain_reader (e_in conn) \<and> w_next (e_out conn) = [] \<and> closable (e_caps conn))"

interpretation snr: relay "sniRelay choice first p cnt" sniOk "\<lambda>(conn, _). reader_bytes (e_in conn)" "\<lambda>(conn, _). reader_bytes (e_in conn)"
  "\<lambda>(conn, _). w_out (e_out conn)" for choice first p cnt
proof
  fix c :: "endpoint \<times> string" and nc
  obtain conn name where c: "c = (conn, name)" by (cases c)
  assume "sniOk c" "server_ok nc"
  then obtain v h rest pre post where k: "plain_reader (e_in conn)" "reader_bytes (e_in conn) = tlsRecord v (helloBody h) @ rest" "partsOk h"
      "length (helloBody h) \<le> 16 * 1024" "h_extensions h = pre @ [serverNameExt name] @ post" "\<forall>x \<in> set (pre @ post). fst x \<noteq> extensionServerName"
      "\<not> suffix ''.'' name" "\<not> prefix ''outbound_.'' name" "w_next (e_out conn) = []" "closable (e_caps conn)"
      "plain_reader (e_in nc)" "w_next (e_out nc) = []" "closable (e_caps nc)"
    unfolding sniOk_def server_ok_def c by (simp only: prod.case) blast
  have a: "sniAddr name = Some (name @ '':443'')" using k(8) by (auto simp: sniAddr_def)
  have d: "route (name @ '':443'') nc (name @ '':443'') = Inr nc" by (simp add: route_def)
  from sni_run [where dial = "route (name @ '':443'') nc" and choice = choice and first = first and p = p and cnt = cnt, OF k(1-7) a d k(11,12,9,13,10)]
  obtain r ps where "sni_HandleConn choice (route (name @ '':443'') nc) first conn p cnt = Some r" "sr_proxy r = Some ps"
    "w_out (Out (p1 ps)) = w_out (e_out nc) @ reader_bytes (e_in conn)" "w_out (Out (p2 ps)) = w_out (e_out conn) @ reader_bytes (e_in nc)"
    by blast
  then show "sniRelay choice first p cnt c nc = Some (w_out (e_out nc) @ (case c of (conn, _) \<Rightarrow> reader_bytes (e_in conn)),
      (case c of (conn, _) \<Rightarrow> w_out (e_out conn)) @ reader_bytes (e_in nc))"
    by (simp add: sniRelay_def c relayed_def)
qed simp

text \<open>The client of a \<open>CONNECT\<close> tunnel: its connection, what the HTTP server had read ahead, and the request.\<close>

definition connectRelay :: "bool \<Rightarrow> nio_pools \<Rightarrow> u32 \<times> u32 \<Rightarrow> responseWriter \<Rightarrow> endpoint \<times> byte list \<times> proxyReq \<Rightarrow> endpoint
    \<Rightarrow> (byte list \<times> byte list) option" where
  "connectRelay first p cnt w c nc = (case c of (client, buffered, r) \<Rightarrow> do {
     res \<leftarrow> handleConnect (Some (Inr (client, buffered))) (route (connectHost (hq_URLHost r)) nc) first p cnt w r;
     map_option relayed (cr_proxy res) })"

definition connectOk :: "endpoint \<times> byte list \<times> proxyReq \<Rightarrow> bool" where
  "connectOk c \<longleftrightarrow> (case c of (client, _, _) \<Rightarrow> plain_reader (e_in client) \<and> w_next (e_out client) = [])"

interpretation cor: relay "connectRelay first p cnt w" connectOk "\<lambda>(client, buffered, _). buffered @ reader_bytes (e_in client)"
  "\<lambda>(client, _, _). reader_bytes (e_in client)" "\<lambda>(client, _, _). w_out (e_out client) @ bytes_of okLine" for first p cnt w
proof
  fix c :: "endpoint \<times> byte list \<times> proxyReq" and nc
  obtain client buffered r where c: "c = (client, buffered, r)" by (cases c)
  assume k: "connectOk c" "server_ok nc"
  have d: "route (connectHost (hq_URLHost r)) nc (connectHost (hq_URLHost r)) = Inr nc" by (simp add: route_def)
  from connect_run [where dial = "route (connectHost (hq_URLHost r)) nc" and first = first and p = p and cnt = cnt and w = w and buffered = buffered and client = client, OF d]
  show "connectRelay first p cnt w c nc = Some (w_out (e_out nc) @ (case c of (client, _, _) \<Rightarrow> reader_bytes (e_in client)),
      (case c of (client, _, _) \<Rightarrow> w_out (e_out client) @ bytes_of okLine) @ reader_bytes (e_in nc))"
    using k by (auto simp: connectRelay_def c relayed_def connectOk_def server_ok_def)
qed (auto simp: suffix_def)

text \<open>The client of a raw stream of QUIC: its two directions and the header that it starts with.\<close>

definition rawRelay :: "(byte list \<Rightarrow> header) \<Rightarrow> bool \<Rightarrow> nio_pools \<Rightarrow> u32 \<times> u32 \<Rightarrow> reader \<times> writer \<times> byte list \<Rightarrow> endpoint
    \<Rightarrow> (byte list \<times> byte list) option" where
  "rawRelay parse first p cnt c nc = (case c of (inp, out, hdr) \<Rightarrow> do {
     res \<leftarrow> handleRaw parse (route (Header_Get (parse hdr) ''dest'') nc) first p cnt inp out;
     map_option (\<lambda>(_, ps). relayed ps) (rr_proxy res) })"

definition rawOk :: "reader \<times> writer \<times> byte list \<Rightarrow> bool" where
  "rawOk c \<longleftrightarrow> (case c of (inp, out, hdr) \<Rightarrow> plain_reader inp \<and> w_next out = [] \<and> length hdr \<le> 32768
     \<and> (\<exists>t rest. reader_bytes inp = t # le32_bytes (of_nat (length hdr)) @ hdr @ rest))"

definition rawRest :: "reader \<times> writer \<times> byte list \<Rightarrow> byte list" where
  "rawRest c = (case c of (inp, out, hdr) \<Rightarrow> drop (5 + length hdr) (reader_bytes inp))"

interpretation rar: relay "rawRelay parse first p cnt" rawOk "\<lambda>(inp, _, _). reader_bytes inp" rawRest "\<lambda>(_, out, _). w_out out @ rawReply"
  for parse first p cnt
proof
  fix c :: "reader \<times> writer \<times> byte list" and nc
  obtain inp out hdr where c: "c = (inp, out, hdr)" by (cases c)
  assume "rawOk c" "server_ok nc"
  then obtain t rest where k: "plain_reader inp" "reader_bytes inp = t # le32_bytes (of_nat (length hdr)) @ hdr @ rest" "length hdr \<le> 32768"
      "w_next out = []" "plain_reader (e_in nc)" "w_next (e_out nc) = []" "closable (e_caps nc)"
    unfolding rawOk_def server_ok_def c by auto
  have d: "route (Header_Get (parse hdr) ''dest'') nc (Header_Get (parse hdr) ''dest'') = Inr nc" by (simp add: route_def)
  have r: "rawRest c = rest" by (simp add: rawRest_def c k(2) le32_bytes_def eval_nat_numeral)
  from raw_run [where dial = "route (Header_Get (parse hdr) ''dest'') nc" and parse = parse and first = first and p = p and cnt = cnt and out = out, OF k(1-3) d k(5-7,4)]
  show "rawRelay parse first p cnt c nc
      = Some (w_out (e_out nc) @ rawRest c, (case c of (_, out, _) \<Rightarrow> w_out out @ rawReply) @ reader_bytes (e_in nc))"
    unfolding r by (auto simp: rawRelay_def c relayed_def)
qed (auto simp: rawRest_def suffix_drop)

section \<open>Services behind the gateways\<close>

text \<open>The client of the SNI listener that a \<open>CONNECT\<close> tunnel leads to.\<close>

interpretation cos: relay_chain "connectRelay first p cnt w" connectOk "\<lambda>(client, buffered, _). buffered @ reader_bytes (e_in client)"
  "\<lambda>(client, _, _). reader_bytes (e_in client)" "\<lambda>(client, _, _). w_out (e_out client) @ bytes_of okLine"
  "sniRelay choice first' p' cnt'" sniOk "\<lambda>(conn, _). reader_bytes (e_in conn)" "\<lambda>(conn, _). reader_bytes (e_in conn)"
  "\<lambda>(conn, _). w_out (e_out conn)" for first p cnt w choice first' p' cnt'
  by unfold_locales

text \<open>C17: TLS through a tunnel: a client asks the HTTP proxy for a tunnel to a node that runs the SNI listener, and then starts TLS with a ClientHello
  that names a server. The server receives every byte of the client from the ClientHello on, and the client receives the \<open>200 OK\<close> line
  of the proxy and then every byte of the server; what the proxy wrote to the node is what the node read.\<close>

theorem tls_through_connect:
  assumes "plain_reader (e_in client)" "w_next (e_out client) = []" "sniOk (conn, name)" "reader_bytes (e_in conn) = reader_bytes (e_in client)"
    and "w_out (e_out conn) = []" "delivers deliver" "server_ok nc"
  shows "chainRun (connectRelay first p cnt w) (sniRelay choice first' p' cnt') (\<lambda>(conn, _). reader_bytes (e_in conn))
      ((client, buffered, r), deliver, (conn, name)) nc
    = Some (w_out (e_out nc) @ reader_bytes (e_in client), w_out (e_out client) @ bytes_of okLine @ reader_bytes (e_in nc))"
  using cos.chain_relays [of "(client, buffered, r)" deliver "(conn, name)" nc] assms by (simp add: connectOk_def)

theorem tls_through_connect_witness:
  "chainRun (connectRelay True noPools (0, 0) exampleWriter) (sniRelay None True noPools (0, 0)) (\<lambda>(conn, _). reader_bytes (e_in conn))
      ((\<lparr>e_in = [(reader_bytes (e_in (exampleConn ''a.b'')), None)], e_out = \<lparr>w_out = [], w_next = []\<rparr>, e_caps = tcpCaps\<rparr>, [], exampleReq),
        (\<lambda>bs. [(bs, None)]), (exampleConn ''a.b'', ''a.b''))
      \<lparr>e_in = [([7, 8], None)], e_out = \<lparr>w_out = [], w_next = []\<rparr>, e_caps = tcpCaps\<rparr>
    = Some (tlsRecord 0x301 (helloBody (exampleHello ''a.b'')) @ [5], bytes_of okLine @ [7, 8])"
proof -
  have len: "length ''a.b'' \<le> 100" by simp
  note c = exampleConn_hello [OF len]
  have ok: "sniOk (exampleConn ''a.b'', ''a.b'')"
    unfolding sniOk_def prod.case
    by (intro conjI exI [of _ "0x301"] exI [of _ "exampleHello ''a.b''"] exI [of _ "[5]"] exI [of _ "[(10, [0, 2, 0, 29])]"] exI [of _ "[]"] c)
      (simp_all add: suffix_def exampleConn_def closable_def tcpCaps_def)
  show ?thesis
    by (subst tls_through_connect) (use ok c(2) in \<open>simp_all add: exampleConn_def delivers_def plain_reader_def io_simps server_ok_def closable_def tcpCaps_def\<close>)
qed

text \<open>The echo server as a service: what it sends back for what it received.\<close>

lemma echo_serves:
  assumes "plain_reader r" "isCloseWriter caps \<Longrightarrow> 0 \<notin> set (reader_bytes r) \<and> (r = [] \<or> fst (hd r) \<noteq> [])"
  shows "w_out (er_out (handleStreams False n (r, incaps) (\<lparr>w_out = [], w_next = []\<rparr>, caps))) = reader_bytes r"
proof -
  define s where "s = \<lparr>er_in = r, er_out = \<lparr>w_out = [], w_next = []\<rparr>, er_Received = n, er_first = 0, er_writeClosed = False, er_events = []\<rparr>"
  have "handleStreams False n (r, incaps) (\<lparr>w_out = [], w_next = []\<rparr>, caps) = echoLoop False incaps caps s"
    by (simp add: handleStreams_def s_def Let_def)
  moreover have "noStop caps s" using assms(2) by (simp add: noStop_def s_def)
  ultimately show ?thesis using echoLoop_complete [of s caps False incaps] assms(1) by (simp add: s_def Let_def)
qed

text \<open>A connection to the echo server, which reads with \<open>r\<close> what was sent to it and sends back what \<open>handleStreams\<close> writes. Zero bytes, and an empty
  first read, ask it to close when it can.\<close>

definition echo_conn :: "byte list \<Rightarrow> endpoint \<Rightarrow> bool" where
  "echo_conn sent nc \<longleftrightarrow> server_ok nc \<and> w_out (e_out nc) = [] \<and> (\<exists>r n incaps caps. plain_reader r \<and> reader_bytes r = sent
     \<and> (isCloseWriter caps \<longrightarrow> 0 \<notin> set sent \<and> (r = [] \<or> fst (hd r) \<noteq> []))
     \<and> reader_bytes (e_in nc) = w_out (er_out (handleStreams False n (r, incaps) (\<lparr>w_out = [], w_next = []\<rparr>, caps))))"

lemma echo_conn_bytes: "echo_conn sent nc \<Longrightarrow> server_ok nc \<and> w_out (e_out nc) = [] \<and> reader_bytes (e_in nc) = sent"
  unfolding echo_conn_def by (elim conjE exE) (simp add: echo_serves)

text \<open>C19: An echo server behind a gateway answers through it: over a raw stream of QUIC, and over a tunnel of the HTTP proxy, the client gets the answer of
  the gateway and then exactly the bytes that it sent for the server.\<close>

theorem echo_through_gateways:
  assumes "rawOk (inp, out, hdr)" "echo_conn (rawRest (inp, out, hdr)) nc"
    and "connectOk (client, buffered, r)" "echo_conn (reader_bytes (e_in client)) nc'"
  shows "rawRelay parse first p cnt (inp, out, hdr) nc
      = Some (rawRest (inp, out, hdr), w_out out @ rawReply @ rawRest (inp, out, hdr))
    \<and> connectRelay first' p' cnt' w (client, buffered, r) nc'
      = Some (reader_bytes (e_in client), w_out (e_out client) @ bytes_of okLine @ reader_bytes (e_in client))"
proof
  show "rawRelay parse first p cnt (inp, out, hdr) nc = Some (rawRest (inp, out, hdr), w_out out @ rawReply @ rawRest (inp, out, hdr))"
    using rar.service [OF assms(1), of nc "\<lambda>x. x"] echo_conn_bytes [OF assms(2)] by simp
  show "connectRelay first' p' cnt' w (client, buffered, r) nc'
      = Some (reader_bytes (e_in client), w_out (e_out client) @ bytes_of okLine @ reader_bytes (e_in client))"
    using cor.service [OF assms(3), of nc' "\<lambda>x. x"] echo_conn_bytes [OF assms(4)] by simp
qed

theorem echo_through_gateways_witness:
  "rawRelay (\<lambda>bs. [(''Dest'', [str_of bs])]) True noPools (0, 0)
      ([([2, 3, 0], None), (0 # 0 # bytes_of ''h:'', None), (bytes_of ''1'' @ [5, 6], None)], \<lparr>w_out = [], w_next = []\<rparr>, bytes_of ''h:1'')
      \<lparr>e_in = [([5], None), ([6], None)], e_out = \<lparr>w_out = [], w_next = []\<rparr>, e_caps = tcpCaps\<rparr>
    = Some ([5, 6], rawReply @ [5, 6])
  \<and> connectRelay True noPools (0, 0) exampleWriter (\<lparr>e_in = [([1], None)], e_out = \<lparr>w_out = [], w_next = []\<rparr>, e_caps = tcpCaps\<rparr>, [], exampleReq)
      \<lparr>e_in = [([1], None)], e_out = \<lparr>w_out = [], w_next = []\<rparr>, e_caps = tcpCaps\<rparr>
    = Some ([1], bytes_of okLine @ [1])"
proof -
  define inp :: reader where "inp = [([2, 3, 0], None), (0 # 0 # bytes_of ''h:'', None), (bytes_of ''1'' @ [5, 6], None)]"
  define out where "out = \<lparr>w_out = [] :: byte list, w_next = []\<rparr>"
  have b: "reader_bytes inp = 2 # le32_bytes (of_nat (length (bytes_of ''h:1''))) @ bytes_of ''h:1'' @ [5, 6]"
    by (simp add: inp_def io_simps le32_bytes_def)
  then have rest: "rawRest (inp, out, bytes_of ''h:1'') = [5, 6]" by (simp add: rawRest_def le32_bytes_def)
  have ok: "rawOk (inp, out, bytes_of ''h:1'')"
    unfolding rawOk_def prod.case by (intro conjI exI [of _ 2] exI [of _ "[5, 6]"] b) (simp_all add: inp_def out_def plain_reader_def)
  have echo: "echo_conn sent \<lparr>e_in = r, e_out = \<lparr>w_out = [], w_next = []\<rparr>, e_caps = tcpCaps\<rparr>"
    if "plain_reader r" "reader_bytes r = sent" "0 \<notin> set sent" "r \<noteq> []" "fst (hd r) \<noteq> []" for r sent
    unfolding echo_conn_def
    by (intro conjI exI [of _ r] exI [of _ 0] exI [of _ tcpCaps])
      (use that echo_serves [of r tcpCaps 0 tcpCaps] in \<open>simp_all add: server_ok_def closable_def tcpCaps_def\<close>)
  have "echo_conn (rawRest (inp, out, bytes_of ''h:1'')) \<lparr>e_in = [([5], None), ([6], None)], e_out = \<lparr>w_out = [], w_next = []\<rparr>, e_caps = tcpCaps\<rparr>"
    unfolding rest by (rule echo) (simp_all add: plain_reader_def io_simps)
  moreover have "echo_conn (reader_bytes (e_in \<lparr>e_in = [([1], None)], e_out = \<lparr>w_out = [], w_next = []\<rparr>, e_caps = tcpCaps\<rparr>))
      \<lparr>e_in = [([1], None)], e_out = \<lparr>w_out = [], w_next = []\<rparr>, e_caps = tcpCaps\<rparr>"
    by (rule echo) (simp_all add: plain_reader_def io_simps)
  ultimately show ?thesis
    using echo_through_gateways [OF ok, of _ "\<lparr>e_in = [([1], None)], e_out = \<lparr>w_out = [], w_next = []\<rparr>, e_caps = tcpCaps\<rparr>" "[]" exampleReq]
    unfolding rest by (simp add: inp_def out_def connectOk_def plain_reader_def io_simps)
qed

end
