(* ===== verification/Pubsub.thy ===== *)
theory Pubsub
  imports Uds
begin

text \<open>
  The message bus end to end: the mux of \<^verbatim>\<open>src/pkg/webpush/mux.go\<close> with connections of \<^verbatim>\<open>src/pkg/uds/uds.go\<close>. \<open>Dial\<close> and \<open>accept\<close> set
  \<open>SendMessageToRemote\<close> of a connection to its \<open>SendMessage\<close>, so that what the mux sends on a connection is framed and written to its socket,
  and read at the other end.
\<close>

section \<open>Connections of the mux\<close>

text \<open>What a connection writes for the messages that the mux sends on it, in their order.\<close>

definition udsDeliver :: "(string \<times> message) list \<Rightarrow> string \<Rightarrow> udsConn \<Rightarrow> udsConn" where
  "udsDeliver ss k u = fold (\<lambda>(k', ev) u. if k' = k then snd (uds_SendMessage ev u) else u) ss u"

fun publish :: "(int \<times> message) list \<Rightarrow> mux \<Rightarrow> mux option" where
  "publish [] m = Some m"
| "publish ((now, ev) # evs) m = do { m \<leftarrow> SendMessage now ev m; publish evs m }"

definition topicOf :: "message \<Rightarrow> string" where
  "topicOf ev = split_on (CHR ''/'') (To ev) ! 1"

definition broadcast :: "message \<Rightarrow> bool" where
  "broadcast ev \<longleftrightarrow> 2 \<le> length (split_on (CHR ''/'') (To ev)) \<and> hd (split_on (CHR ''/'') (To ev)) = ''*''"

text \<open>The content of a message, as the other end of a connection sees it.\<close>

definition content :: "message \<Rightarrow> string \<times> meta \<times> byte list" where
  "content ev = (To ev, Meta ev, case Binary ev of Some b \<Rightarrow> b | None \<Rightarrow> [])"

definition wanted :: "string \<Rightarrow> msgConnection \<Rightarrow> message \<Rightarrow> bool" where
  "wanted k c ev \<longleftrightarrow> k \<noteq> From ev \<and> subscribed (topicOf ev) c"

section \<open>Sending\<close>

lemma broadcast_parts:
  assumes "broadcast ev"
  obtains rest where "split_on (CHR ''/'') (To ev) = ''*'' # topicOf ev # rest"
proof -
  obtain a b rest where p: "split_on (CHR ''/'') (To ev) = a # b # rest"
    using assms by (auto simp: broadcast_def numeral_2_eq_2 Suc_le_length_iff)
  then have "a = ''*''" "b = topicOf ev" using assms by (simp_all add: broadcast_def topicOf_def)
  with p that show thesis by simp
qed

text \<open>What is sent on a connection is what was published for it, once and in order.\<close>

lemma filter_key:
  assumes "distinct (map fst xs)" and "(k, c) \<in> set xs"
  shows "filter (\<lambda>j. j = k) (map fst (filter (\<lambda>(j, d). P j d) xs)) = (if P k c then [k] else [])"
  using assms
proof (induction xs)
  case (Cons x xs)
  obtain a b where x: "x = (a, b)" by (cases x)
  have none: "filter (\<lambda>j. j = a) (map fst (filter (\<lambda>(j, d). P j d) xs)) = []"
    using Cons.prems(1) by (force simp: x filter_empty_conv)
  show ?case
  proof (cases "a = k")
    case True
    then have "c = b" using Cons.prems by (force simp: x)
    then show ?thesis using none True by (simp add: x)
  next
    case False
    then show ?thesis using Cons by (simp add: x)
  qed
qed simp

lemma publish_spec:
  assumes "\<forall>(now, ev) \<in> set evs. broadcast ev" and "ServeMux m = None" and "\<forall>x\<in>set (connections m). mc_hasSend (snd x)"
    and "distinct (map fst (connections m))"
  shows "\<exists>m' ss. publish evs m = Some m' \<and> connections m' = connections m \<and> sends m' = sends m @ ss
    \<and> (\<forall>(k, c) \<in> set (connections m). map (\<lambda>s. content (snd s)) (filter (\<lambda>s. fst s = k) ss) = map content (filter (wanted k c) (map snd evs)))"
  using assms
proof (induction evs arbitrary: m)
  case (Cons e evs)
  obtain now ev where e: "e = (now, ev)" by (cases e)
  have "broadcast ev" using Cons.prems(1) by (simp add: e)
  then obtain rest where p: "split_on (CHR ''/'') (To ev) = ''*'' # topicOf ev # rest" by (rule broadcast_parts)
  define s1 where "s1 = map (\<lambda>k. (k, outgoing now ev m)) (receivers (topicOf ev) ev m)"
  obtain m1 where m1: "SendMessage now ev m = Some m1" "connections m1 = connections m" "ServeMux m1 = None" "sends m1 = sends m @ s1"
    using sendMessage_spec [OF p Cons.prems(2,3), of now] by (auto simp: directTo_def s1_def)
  have "\<exists>m' ss. publish evs m1 = Some m' \<and> connections m' = connections m1 \<and> sends m' = sends m1 @ ss
    \<and> (\<forall>(k, c) \<in> set (connections m1). map (\<lambda>s. content (snd s)) (filter (\<lambda>s. fst s = k) ss) = map content (filter (wanted k c) (map snd evs)))"
    by (rule Cons.IH) (use Cons.prems m1 in auto)
  then obtain m' ss where m': "publish evs m1 = Some m'" "connections m' = connections m" "sends m' = sends m1 @ ss"
    "\<forall>(k, c) \<in> set (connections m). map (\<lambda>s. content (snd s)) (filter (\<lambda>s. fst s = k) ss) = map content (filter (wanted k c) (map snd evs))"
    unfolding m1(2) by blast
  have "map (\<lambda>s. content (snd s)) (filter (\<lambda>s. fst s = k) s1) = (if wanted k c ev then [content ev] else [])" if "(k, c) \<in> set (connections m)" for k c
  proof -
    have "filter (\<lambda>s. fst s = k) s1 = map (\<lambda>k. (k, outgoing now ev m)) (filter (\<lambda>j. j = k) (receivers (topicOf ev) ev m))"
      by (simp add: s1_def filter_map comp_def)
    also have "\<dots> = (if wanted k c ev then [(k, outgoing now ev m)] else [])"
      unfolding receivers_def filter_key [OF Cons.prems(4) that] by (simp add: wanted_def)
    finally show ?thesis by (simp add: content_def)
  qed
  then show ?case using m1 m' by (intro exI [of _ m'] exI [of _ "s1 @ ss"]) (fastforce simp: e)
qed simp

lemma uds_SendMessage_out:
  assumes "w_next (u_out u) = []"
  shows "snd (uds_SendMessage ev u) = u\<lparr>u_out := (u_out u)\<lparr>w_out := w_out (u_out u) @ udsFrame (case content ev of (c, me, d) \<Rightarrow> payload c me d)\<rparr>\<rparr>"
  using sendMessageDirect_out [OF assms, of "To ev" "Meta ev"] by (simp add: uds_SendMessage_def SendMessageDirect_def content_def)

lemma udsDeliver_out:
  assumes "w_next (u_out u) = []"
  shows "w_out (u_out (udsDeliver ss k u)) = w_out (u_out u)
    @ concat (map (\<lambda>(c, me, d). udsFrame (payload c me d)) (map (\<lambda>s. content (snd s)) (filter (\<lambda>s. fst s = k) ss)))"
  using assms
proof (induction ss arbitrary: u)
  case (Cons s ss)
  obtain k' ev where s: "s = (k', ev)" by (cases s)
  show ?case
  proof (cases "k' = k")
    case True
    define v where "v = snd (uds_SendMessage ev u)"
    have v: "w_next (u_out v) = []" "w_out (u_out v) = w_out (u_out u) @ udsFrame (case content ev of (c, me, d) \<Rightarrow> payload c me d)"
      using uds_SendMessage_out [OF Cons.prems, of ev] Cons.prems by (simp_all add: v_def)
    have "udsDeliver (s # ss) k u = udsDeliver ss k v" by (simp add: udsDeliver_def s True v_def)
    then show ?thesis using Cons.IH [OF v(1)] v(2) True by (simp add: s case_prod_unfold)
  qed (use Cons in \<open>simp add: udsDeliver_def s\<close>)
qed (simp add: udsDeliver_def)

section \<open>Publishing and reading back\<close>

text \<open>C18: Publish and subscribe over Unix-domain sockets. Messages are broadcast through the mux, one after the other. The other end of each connection then
  reads, however the kernel cuts the bytes, exactly the messages on the topics that the connection is subscribed to and that did not come
  from it: each of them once, in the order in which they were published, with their address, metadata and data, and nothing else.\<close>

theorem pubsub_fifo:
  assumes "\<forall>(now, ev) \<in> set evs. broadcast ev" and "ServeMux m = None" and "\<forall>x\<in>set (connections m). mc_hasSend (snd x)"
    and "distinct (map fst (connections m))" and "sends m = []" and "(k, c) \<in> set (connections m)" and "u_out u = \<lparr>w_out = [], w_next = []\<rparr>"
    and "ms = map content (filter (wanted k c) (map snd evs))" and "\<forall>(cmd, me, d) \<in> set ms. msgOk cmd me \<and> length (payload cmd me d) + 5 \<le> n" and "n < 2 ^ 32"
  shows "\<exists>m'. publish evs m = Some m' \<and> (\<forall>v. unix_bytes (u_in v) = w_out (u_out (udsDeliver (sends m') k u)) \<longrightarrow>
    wf_uds v \<longrightarrow> u_leftoverSize v = 0 \<longrightarrow> length (u_buffer v) = n \<longrightarrow>
    (\<exists>v'. recvMessages (length ms) v = Some (map (\<lambda>(cmd, me, d). (cmd, me, if d = [] then None else Some d)) ms, v') \<and> pending v' = []))"
proof -
  obtain m' ss where m': "publish evs m = Some m'" "sends m' = ss" "map (\<lambda>s. content (snd s)) (filter (\<lambda>s. fst s = k) ss) = ms"
    using publish_spec [OF assms(1-4)] assms(5,6) unfolding assms(8) by fastforce
  have out: "w_out (u_out (udsDeliver ss k u)) = concat (map (\<lambda>(c, me, d). udsFrame (payload c me d)) ms)"
    using udsDeliver_out [of u ss k] assms(7) unfolding m'(3) by simp
  have "\<exists>v'. recvMessages (length ms) v = Some (map (\<lambda>(cmd, me, d). (cmd, me, if d = [] then None else Some d)) ms, v') \<and> pending v' = []"
    if "unix_bytes (u_in v) = w_out (u_out (udsDeliver ss k u))" "wf_uds v" "u_leftoverSize v = 0" "length (u_buffer v) = n" for v
    by (rule recvMessages_payloads) (use that out assms(9,10) in \<open>simp_all add: pending_def\<close>)
  then show ?thesis using m'(1,2) by auto
qed

theorem pubsub_fifo_witness:
  "let c = \<lparr>mc_Name = ''b'', mc_Subs = Some [''t''], mc_hasSend = True, mc_gate = True\<rparr>;
       ev = \<lambda>topic from x. \<lparr>Id = [], To = ''*/'' @ topic, Meta = [(''a'', ''1'')], From = from, Time = 0, Data = DataBytes [x]\<rparr>;
       evs = [(1, ev ''t'' ''a'' 7), (2, ev ''s'' ''a'' 8), (3, ev ''t'' ''b'' 9), (4, ev ''t'' [] 10)];
       m = NewMux\<lparr>connections := [(''a'', c\<lparr>mc_Subs := None\<rparr>), (''b'', c)]\<rparr>;
       u = newUdsConn ''b'' [] [] \<lparr>w_out = [], w_next = []\<rparr>
   in \<exists>m'. publish evs m = Some m' \<and> (\<forall>v. unix_bytes (u_in v) = w_out (u_out (udsDeliver (sends m') ''b'' u)) \<longrightarrow>
    wf_uds v \<longrightarrow> u_leftoverSize v = 0 \<longrightarrow> length (u_buffer v) = 32768 \<longrightarrow>
    (\<exists>v'. recvMessages 2 v = Some ([(''*/t'', [(''a'', ''1'')], Some [7]), (''*/t'', [(''a'', ''1'')], Some [10])], v') \<and> pending v' = []))"
proof -
  define c where "c = \<lparr>mc_Name = ''b'', mc_Subs = Some [''t''], mc_hasSend = True, mc_gate = True\<rparr>"
  define ev where "ev = (\<lambda>topic from x. \<lparr>Id = [], To = ''*/'' @ topic, Meta = [(''a'', ''1'')], From = from, Time = 0, Data = DataBytes [x]\<rparr>)"
  define evs where "evs = [(1 :: int, ev ''t'' ''a'' 7), (2, ev ''s'' ''a'' 8), (3, ev ''t'' ''b'' 9), (4, ev ''t'' [] 10)]"
  define m where "m = NewMux\<lparr>connections := [(''a'', c\<lparr>mc_Subs := None\<rparr>), (''b'', c)]\<rparr>"
  define u where "u = newUdsConn ''b'' [] [] \<lparr>w_out = [], w_next = []\<rparr>"
  have ms: "[(''*/t'', [(''a'', ''1'')], [7 :: byte]), (''*/t'', [(''a'', ''1'')], [10])] = map content (filter (wanted ''b'' c) (map snd evs))"
    by (simp add: evs_def ev_def c_def wanted_def topicOf_def subscribed_def content_def Binary_def)
  have b: "\<forall>(now, ev) \<in> set evs. broadcast ev" by (simp add: evs_def ev_def broadcast_def)
  have k: "(''b'', c) \<in> set (connections m)" "sends m = []" "ServeMux m = None" "\<forall>x\<in>set (connections m). mc_hasSend (snd x)"
    "distinct (map fst (connections m))" by (simp_all add: m_def c_def NewMux_def)
  have ok: "msgOk ''*/t'' [(''a'', ''1'')]" by (simp add: msgOk_def headerOk_def)
  have u: "u_out u = \<lparr>w_out = [], w_next = []\<rparr>" by (simp add: u_def newUdsConn_def)
  have fit: "\<forall>(cmd, me, d) \<in> set [(''*/t'', [(''a'', ''1'')], [7 :: byte]), (''*/t'', [(''a'', ''1'')], [10])].
      msgOk cmd me \<and> length (payload cmd me d) + 5 \<le> 32768" using ok by (simp add: payload_def packMeta_def)
  have two: "length [(''*/t'', [(''a'', ''1'')], [7 :: byte]), (''*/t'', [(''a'', ''1'')], [10])] = 2" by simp
  show ?thesis
    unfolding Let_def c_def [symmetric] ev_def [symmetric] evs_def [symmetric] m_def [symmetric] u_def [symmetric]
    using pubsub_fifo [OF b k(3-5,2,1) u ms fit] unfolding two by simp
qed

end
