(* ===== verification/Modules.thy ===== *)
theory Modules
  imports Startup Quiche Echo_Check
begin

text \<open>
  Modules that join libraries, as far as they have logic of their own: the MQTT broker (\<^verbatim>\<open>src/cmd/mqtt.go\<close>), the report on clusters
  (\<^verbatim>\<open>src/cmd/gcp.go\<close>), the ACME server (\<^verbatim>\<open>src/pkg/acme/stepca.go\<close>), the module for caddy (\<^verbatim>\<open>src/pkg/ugatecaddy/ugate_caddy.go\<close>), the
  HTTP/2 transports (\<^verbatim>\<open>src/pkg/h2c/h2c.go\<close>), the events of libp2p (\<^verbatim>\<open>src/pkg/ipfs/watch.go\<close>), and the
  sockets and settings of \<open>cfquiche\<close>, \<open>pkg/udp\<close> and the tests. The libraries are parameters; \<open>None\<close> is a panic.
\<close>

section \<open>MQTT\<close>

record mqttPacket =
  mq_TopicName :: string
  mq_Payload :: "byte list"
  mq_AllowClients :: "string list"

definition mqtt_OnMessage :: "mqttPacket \<Rightarrow> mqttPacket" where
  "mqtt_OnMessage pk =
     (let pkx = pk;
          pkx = (if mq_Payload pk = bytes_of ''hello'' then pkx\<lparr>mq_Payload := bytes_of ''hello world''\<rparr> else pkx)
      in if mq_TopicName pkx = ''a/b/restricted'' then pkx\<lparr>mq_AllowClients := [''allowed-client'']\<rparr> else pkx)"

text \<open>The broker: the inflight time, whether the listener was added, whether the hook above is set, and the messages published.\<close>

record mqttServer =
  mq_Address :: string
  mq_InflightTTL :: int
  mq_listener :: "string option"
  mq_hook :: bool
  mq_published :: "(string \<times> byte list \<times> bool) list"
  mq_serving :: bool

definition mqtt_Provision :: "goerr option \<Rightarrow> mqttServer \<Rightarrow> goerr option \<times> mqttServer" where
  "mqtt_Provision addErr m =
     (let m = m\<lparr>mq_InflightTTL := 60 * 15, mq_listener := None, mq_hook := False, mq_published := [], mq_serving := False\<rparr> in
      case addErr of
        Some e \<Rightarrow> (Some e, m)
      | None \<Rightarrow> (None, m\<lparr>mq_listener := Some (mq_Address m), mq_hook := True\<rparr>))"

definition mqtt_Start :: "mqttServer \<Rightarrow> mqttServer" where
  "mqtt_Start m = m\<lparr>mq_published := mq_published m @ [(''direct/publish'', bytes_of ''scheduled message'', True)], mq_serving := True\<rparr>"

text \<open>The hook restricts a topic, keeps the topic of every message, changes one payload only, and is idempotent.\<close>

lemma mqtt_onMessage_spec:
  "mq_TopicName (mqtt_OnMessage pk) = mq_TopicName pk"
  "mq_TopicName pk = ''a/b/restricted'' \<Longrightarrow> mq_AllowClients (mqtt_OnMessage pk) = [''allowed-client'']"
  "mq_TopicName pk \<noteq> ''a/b/restricted'' \<Longrightarrow> mq_AllowClients (mqtt_OnMessage pk) = mq_AllowClients pk"
  "mq_Payload pk \<noteq> bytes_of ''hello'' \<Longrightarrow> mq_Payload (mqtt_OnMessage pk) = mq_Payload pk"
  by (simp_all add: mqtt_OnMessage_def Let_def)

lemma mqtt_onMessage_idem: "mqtt_OnMessage (mqtt_OnMessage pk) = mqtt_OnMessage pk"
proof -
  have "bytes_of ''hello world'' \<noteq> bytes_of ''hello''"
    using str_of_bytes_of by (metis list.inject list.distinct(1))
  then show ?thesis by (simp add: mqtt_OnMessage_def Let_def)
qed

section \<open>Clusters\<close>

text \<open>\<open>DumpGKE\<close>. A goroutine for each cluster asks for its version and then sends on a channel of capacity 8; the function receives once for
  each cluster. \<open>dk_todo\<close> has the goroutines that have not sent, with what they will send.\<close>

record dumpState =
  dk_todo :: "bool list"
  dk_chan :: "bool list"
  dk_left :: nat

definition dumpStart :: "bool list \<Rightarrow> dumpState" where
  "dumpStart answers = \<lparr>dk_todo = answers, dk_chan = [], dk_left = length answers\<rparr>"

inductive dump_step :: "dumpState \<Rightarrow> dumpState \<Rightarrow> bool" where
  send: "\<lbrakk>dk_todo s = xs @ b # ys; length (dk_chan s) < 8\<rbrakk> \<Longrightarrow> dump_step s (s\<lparr>dk_todo := xs @ ys, dk_chan := dk_chan s @ [b]\<rparr>)"
| recv: "\<lbrakk>dk_chan s = b # r; 0 < dk_left s\<rbrakk> \<Longrightarrow> dump_step s (s\<lparr>dk_chan := r, dk_left := dk_left s - 1\<rparr>)"

text \<open>The function up to its wait, and its result: the error of the last request for a token, whatever happened before. \<open>hasDefault\<close> is
  whether a default cluster is known then; without one \<open>GetToken\<close> is called on a nil pointer.\<close>

definition DumpGKE :: "goerr option \<Rightarrow> goerr option \<Rightarrow> bool \<Rightarrow> goerr option \<Rightarrow> goerr option \<Rightarrow> goerr option option" where
  "DumpGKE clustersErr hubErr hasDefault gcpTokenErr k8sTokenErr =
     (if clustersErr \<noteq> None then Some clustersErr
      else if hubErr \<noteq> None then Some hubErr
      else if \<not> hasDefault then None
      else Some k8sTokenErr)"

definition dump_inv :: "dumpState \<Rightarrow> bool" where
  "dump_inv s \<longleftrightarrow> dk_left s = length (dk_todo s) + length (dk_chan s) \<and> length (dk_chan s) \<le> 8"

lemma dump_inv_step: "dump_step s t \<Longrightarrow> dump_inv s \<Longrightarrow> dump_inv t"
  by (induction rule: dump_step.induct) (auto simp: dump_inv_def)

lemma dump_inv_reach: "dump_step\<^sup>*\<^sup>* s t \<Longrightarrow> dump_inv s \<Longrightarrow> dump_inv t"
  by (induction rule: rtranclp_induct) (auto intro: dump_inv_step)

lemma dump_inv_final:
  assumes "dump_inv s" "\<nexists>t. dump_step s t"
  shows "dk_left s = 0 \<and> dk_todo s = []"
proof (cases "dk_chan s")
  case Nil
  show ?thesis
  proof (cases "dk_todo s")
    case (Cons b ys)
    then have "dump_step s (s\<lparr>dk_todo := [] @ ys, dk_chan := dk_chan s @ [b]\<rparr>)" by (intro dump_step.send) (simp_all add: Nil)
    then show ?thesis using assms(2) by blast
  qed (use assms(1) Nil in \<open>simp add: dump_inv_def\<close>)
next
  case (Cons b r)
  then have "dump_step s (s\<lparr>dk_chan := r, dk_left := dk_left s - 1\<rparr>)" using assms(1) by (intro dump_step.recv) (simp_all add: dump_inv_def)
  then show ?thesis using assms(2) by blast
qed

lemma dump_terminates: "wfP (\<lambda>t s. dump_step s t)"
proof -
  define m where "m s = 2 * length (dk_todo s) + length (dk_chan s)" for s :: dumpState
  have "m t < m s" if "dump_step s t" for s t using that by (induction rule: dump_step.induct) (auto simp: m_def)
  then show ?thesis unfolding wfp_def by (intro wf_subset [OF wf_measure [of m]]) auto
qed

text \<open>With any number of clusters and in any order, the goroutines and the function finish: nobody is left waiting on the channel.\<close>

theorem dump_waits:
  "wfP (\<lambda>t s. dump_step s t) \<and> (\<forall>s. dump_step\<^sup>*\<^sup>* (dumpStart answers) s \<longrightarrow> (\<nexists>t. dump_step s t) \<longrightarrow> dk_left s = 0 \<and> dk_todo s = [])"
  using dump_terminates dump_inv_final dump_inv_reach [of "dumpStart answers"] by (auto simp: dump_inv_def dumpStart_def)

lemma dumpGKE_drops_error: "DumpGKE None None True (Some e) None = Some None"
  by (simp add: DumpGKE_def)

lemma dumpGKE_panics: "DumpGKE None None False g k = None"
  by (simp add: DumpGKE_def)

section \<open>ACME\<close>

text \<open>What the authority is configured with: the provisioner with its lifetimes in seconds, and the certificates, given by their names.\<close>

record acmeConfig =
  ac_Name :: string
  ac_Challenges :: "string list option"
  ac_MinTLSDur :: int
  ac_MaxTLSDur :: int
  ac_DefaultTLSDur :: int
  ac_signer :: string
  ac_roots :: "string list"

record acmeHandler =
  ah_CA :: string
  ah_PathPrefix :: string
  ah_Challenges :: "string list"
  ah_Host :: string
  ah_auth :: "acmeConfig option"
  ah_db :: bool
  ah_linkerPrefix :: "string option"
  ah_endpoints :: "string option"

text \<open>\<open>openDatabase\<close>: the error of making the folder, and what the library gives for the configuration, \<open>None\<close> for nil. A database is whether it is a
  \<open>nosql.DB\<close>.\<close>

definition acme_openDatabase :: "goerr option \<Rightarrow> ((string \<times> string) option \<Rightarrow> goerr + bool) \<Rightarrow> string \<Rightarrow> goerr + bool" where
  "acme_openDatabase mkdirErr dbNew path =
     (if path = [] then dbNew None
      else case mkdirErr of
        Some e \<Rightarrow> Inl (ErrMsg (''making folder for CA database: '' @ err_string e))
      | None \<Rightarrow> dbNew (Some (''bbolt'', path)))"

definition toSmallstepType :: "string list \<Rightarrow> string list option" where
  "toSmallstepType c = (if length c = 0 then None else Some c)"

text \<open>Which certificate signs: the root, or the intermediate one with the same key.\<close>

definition acme_signer :: "string \<Rightarrow> string option \<Rightarrow> string" where
  "acme_signer rootCert interm = (case interm of None \<Rightarrow> rootCert | Some i \<Rightarrow> i)"

definition trimSlashes :: "string \<Rightarrow> string" where
  "trimSlashes s = rev (dropWhile ((=) (CHR ''/'')) (rev (dropWhile ((=) (CHR ''/'')) s)))"

definition acme_Provision :: "goerr + bool \<Rightarrow> goerr option \<Rightarrow> goerr option \<Rightarrow> string \<Rightarrow> string option \<Rightarrow> acmeHandler
    \<Rightarrow> (goerr option \<times> acmeHandler) option" where
  "acme_Provision database authErr noSQLErr rootCert interm ash =
     (let ash = (if ah_CA ash = [] then ash\<lparr>ah_CA := ''local''\<rparr> else ash);
          ash = (if ah_PathPrefix ash = [] then ash\<lparr>ah_PathPrefix := ''/acme/''\<rparr> else ash);
          ash = ash\<lparr>ah_Challenges := [''http-01'', ''dns-01'', ''tls-alpn-01'']\<rparr>
      in case database of
        Inl e \<Rightarrow> Some (Some e, ash)
      | Inr isNosql \<Rightarrow> let cfg = \<lparr>ac_Name = ah_CA ash, ac_Challenges = toSmallstepType (ah_Challenges ash), ac_MinTLSDur = 5 * 60,
            ac_MaxTLSDur = 24 * 3600 * 365, ac_DefaultTLSDur = 24 * 3600, ac_signer = acme_signer rootCert interm, ac_roots = [rootCert]\<rparr> in
         (case authErr of
          Some e \<Rightarrow> Some (Some e, ash\<lparr>ah_auth := None\<rparr>)
        | None \<Rightarrow> let ash = ash\<lparr>ah_auth := Some cfg\<rparr> in
            if \<not> isNosql then None
            else (case noSQLErr of
              Some e \<Rightarrow> Some (Some (ErrMsg (''configuring ACME DB: '' @ err_string e)), ash)
            | None \<Rightarrow> Some (None, ash\<lparr>ah_db := True, ah_linkerPrefix := Some (trimSlashes (ah_PathPrefix ash)),
                ah_endpoints := Some (ah_PathPrefix ash)\<rparr>))))"

text \<open>A handler that was provisioned has a database, an authority and endpoints under a prefix, which is the default one when none is configured. The
  authority signs with the intermediate certificate when there is one, for at most a year. The configured challenges are not used.\<close>

lemma acme_provisioned:
  assumes "acme_Provision database authErr noSQLErr rootCert interm ash = Some (None, h)"
  obtains cfg where "ah_auth h = Some cfg" "ah_db h" "ah_endpoints h = Some (if ah_PathPrefix ash = [] then ''/acme/'' else ah_PathPrefix ash)"
    "ac_Name cfg \<noteq> []" "ac_signer cfg = acme_signer rootCert interm" "ac_DefaultTLSDur cfg \<le> ac_MaxTLSDur cfg"
  using assms by (auto simp: acme_Provision_def Let_def split: sum.splits option.splits if_splits)

lemma acme_challenges_ignored:
  assumes "acme_Provision database authErr noSQLErr rootCert interm ash = Some (e, h)"
  shows "ah_Challenges h = [''http-01'', ''dns-01'', ''tls-alpn-01'']"
  using assms by (auto simp: acme_Provision_def Let_def split: sum.splits option.splits if_splits)

lemma acme_simple_db_panics: "acme_Provision (Inr False) None noSQLErr rootCert interm ash = None"
  by (simp add: acme_Provision_def Let_def)

section \<open>Caddy\<close>

record caddyApp =
  ca_ID :: string
  ca_events :: bool
  ca_subscribed :: "string list"
  ca_emitted :: "string list"

definition caddy_ModuleID :: "caddyApp \<Rightarrow> string" where
  "caddy_ModuleID c = (if ca_ID c = [] then ''ugate'' else ca_ID c)"

text \<open>\<open>Start\<close>: \<open>eventsErr\<close> is the error of looking up the app for events, after which \<open>events\<close> stays nil; \<open>store\<close> is the result of starting the
  resources.\<close>

definition caddy_Start :: "goerr option \<Rightarrow> goerr option \<Rightarrow> caddyApp \<Rightarrow> (goerr option \<times> caddyApp) option" where
  "caddy_Start eventsErr store g =
     (let g = (case eventsErr of Some _ \<Rightarrow> g | None \<Rightarrow> g\<lparr>ca_events := True, ca_subscribed := ca_subscribed g @ [''ugate.start'']\<rparr>)
      in if \<not> ca_events g then None
         else Some (store, g\<lparr>ca_emitted := ca_emitted g @ [''ugate.start'']\<rparr>))"

lemma caddy_start_panics: "\<not> ca_events g \<Longrightarrow> caddy_Start eventsErr store g = None \<longleftrightarrow> eventsErr \<noteq> None"
  by (auto simp: caddy_Start_def Let_def split: option.splits)

text \<open>The module is subscribed to its own start event before the event is emitted.\<close>

lemma caddy_start_subscribed:
  assumes "caddy_Start None store g = Some (r, g')"
  shows "r = store \<and> ''ugate.start'' \<in> set (ca_subscribed g') \<and> ''ugate.start'' \<in> set (ca_emitted g')"
  using assms by (auto simp: caddy_Start_def Let_def)

section \<open>HTTP/2 without TLS\<close>

record h2cd =
  hd_Address :: string
  hd_Mux :: bool

definition h2cd_Provision :: "h2cd \<Rightarrow> h2cd" where
  "h2cd_Provision h = (let h = (if hd_Address h = [] then h\<lparr>hd_Address := '':15082''\<rparr> else h) in if \<not> hd_Mux h then h\<lparr>hd_Mux := True\<rparr> else h)"

definition h2cd_Start :: "goerr option \<Rightarrow> h2cd \<Rightarrow> sysSock list \<Rightarrow> goerr option \<times> sysSock list" where
  "h2cd_Start listenErr h ss = (case listenErr of Some e \<Rightarrow> (Some e, ss) | None \<Rightarrow> (None, ss @ [newSock ''tcp'' (hd_Address h)]))"

text \<open>The client: \<open>DialTLSContext\<close> dials without TLS.\<close>

record h2cClient =
  hc2_AllowHTTP :: bool
  hc2_ReadIdleTimeout :: int
  hc2_StrictMax :: bool

definition h2c_Provision :: "h2cClient \<Rightarrow> h2cClient" where
  "h2c_Provision h = h\<lparr>hc2_AllowHTTP := True, hc2_ReadIdleTimeout := 10000 * 10 ^ 9, hc2_StrictMax := False\<rparr>"

lemma h2cd_listens:
  "\<exists>a. h2cd_Start None (h2cd_Provision h) ss = (None, ss @ [newSock ''tcp'' a]) \<and> a \<noteq> [] \<and> (hd_Address h \<noteq> [] \<longrightarrow> a = hd_Address h)"
  by (intro exI [of _ "hd_Address (h2cd_Provision h)"]) (simp add: h2cd_Start_def h2cd_Provision_def Let_def)

section \<open>Events of libp2p\<close>

datatype p2pEvent = EvPeerID | EvLocalAddresses | EvReachability | EvPeerProtocols nat nat | EvIdentFailed | EvIdentCompleted | EvConnectedness | EvOther

text \<open>The loop of \<open>InitEvent\<close>: the counter of changes, and which events are logged.\<close>

fun p2pLogs :: "p2pEvent \<Rightarrow> nat \<Rightarrow> bool \<times> nat" where
  "p2pLogs (EvPeerProtocols added removed) n = (added > 0 \<or> removed > 0, n)"
| "p2pLogs EvIdentFailed n = (False, n)"
| "p2pLogs EvIdentCompleted n = (False, n)"
| "p2pLogs EvConnectedness n = (Suc n mod 50 = 0, Suc n)"
| "p2pLogs _ n = (True, n)"

fun p2pRun :: "p2pEvent list \<Rightarrow> nat \<Rightarrow> p2pEvent list \<times> nat" where
  "p2pRun [] n = ([], n)"
| "p2pRun (e # es) n = (let (l, n) = p2pLogs e n; (out, n) = p2pRun es n in (if l then e # out else out, n))"

text \<open>Of the changes of connectedness every fiftieth is logged.\<close>

lemma p2pRun_fiftieth:
  "count_list (fst (p2pRun es n)) EvConnectedness = (n + count_list es EvConnectedness) div 50 - n div 50
    \<and> snd (p2pRun es n) = n + count_list es EvConnectedness"
proof (induction es arbitrary: n)
  case (Cons e es)
  show ?case
  proof (cases "e = EvConnectedness")
    case True
    have d: "Suc n div 50 = (if Suc n mod 50 = 0 then Suc (n div 50) else n div 50)" by (simp add: div_Suc)
    have le: "Suc n div 50 \<le> (Suc n + count_list es EvConnectedness) div 50" by (rule div_le_mono) simp
    show ?thesis using Cons.IH [of "Suc n"] True d le by (auto simp: Let_def Suc_diff_le [symmetric] split: prod.splits if_splits)
  next
    case False
    then obtain l where l: "p2pLogs e n = (l, n)" by (cases e) auto
    show ?thesis using Cons.IH [of n] False l by (auto simp: Let_def split: prod.splits)
  qed
qed simp

section \<open>Sockets and settings of quiche\<close>

record quicheConfig =
  qg_Protos :: "byte list"
  qg_IdleTimeout :: int
  qg_MaxPacketSize :: nat
  qg_InitialMaxData :: nat
  qg_MaxStreamDataBidiLocal :: nat
  qg_MaxStreamDataBidiRemote :: nat
  qg_MaxStreamsBidi :: nat
  qg_MaxStreamsUni :: nat
  qg_DisableMigration :: bool
  qg_VerifyPeer :: bool

text \<open>\<open>newConfig\<close>: the error of \<open>SetApplicationProtos\<close> frees the configuration.\<close>

definition newConfig :: "quicheErr option \<Rightarrow> quicheErr + quicheConfig" where
  "newConfig protosErr = (case protosErr of
     Some e \<Rightarrow> Inl e
   | None \<Rightarrow> Inr \<lparr>qg_Protos = 5 # bytes_of ''hq-20'' @ 8 # bytes_of ''http/0.9'', qg_IdleTimeout = 5 * 10 ^ 9, qg_MaxPacketSize = maxDatagramSize,
       qg_InitialMaxData = 10000000, qg_MaxStreamDataBidiLocal = 1000000, qg_MaxStreamDataBidiRemote = 1000000, qg_MaxStreamsBidi = 100,
       qg_MaxStreamsUni = 100, qg_DisableMigration = True, qg_VerifyPeer = False\<rparr>)"

text \<open>The list of protocols is a sequence of names with their lengths, as ALPN has it.\<close>

fun alpnNames :: "byte list \<Rightarrow> nat \<Rightarrow> byte list list option" where
  "alpnNames [] fuel = Some []"
| "alpnNames (n # bs) 0 = None"
| "alpnNames (n # bs) (Suc fuel) = (if n = 0 \<or> length bs < unat n then None else map_option ((#) (take (unat n) bs)) (alpnNames (drop (unat n) bs) fuel))"

lemma newConfig_protos: "newConfig None = Inr c \<Longrightarrow> alpnNames (qg_Protos c) 2 = Some [bytes_of ''hq-20'', bytes_of ''http/0.9'']"
proof -
  assume "newConfig None = Inr c"
  then have "qg_Protos c = 5 # bytes_of ''hq-20'' @ 8 # bytes_of ''http/0.9''" by (auto simp: newConfig_def)
  moreover have "alpnNames (5 # bytes_of ''hq-20'' @ 8 # bytes_of ''http/0.9'') 2 = Some [bytes_of ''hq-20'', bytes_of ''http/0.9'']" by code_simp
  ultimately show ?thesis by simp
qed

text \<open>\<open>dialUDP\<close> and \<open>listenUDP\<close>, with the outcomes of resolving addresses and of the socket.\<close>

definition dialUDP :: "goerr option \<Rightarrow> (string \<Rightarrow> goerr option) \<Rightarrow> goerr + 's \<Rightarrow> string \<Rightarrow> goerr + 's" where
  "dialUDP localErr resolve dial addr = (case localErr of Some e \<Rightarrow> Inl e | None \<Rightarrow> (case resolve addr of Some e \<Rightarrow> Inl e | None \<Rightarrow> dial))"

definition listenUDP :: "(string \<Rightarrow> goerr option) \<Rightarrow> goerr + 's \<Rightarrow> string \<Rightarrow> goerr + 's" where
  "listenUDP resolve lst addr = (case resolve addr of Some e \<Rightarrow> Inl e | None \<Rightarrow> lst)"

section \<open>UDP\<close>

text \<open>\<open>inspectReadBuffer\<close>: what the connection is, the errors of getting at its descriptor, and the result of the system call.\<close>

definition inspectReadBuffer :: "bool \<Rightarrow> goerr option \<Rightarrow> goerr option \<Rightarrow> goerr option \<times> int \<Rightarrow> int \<times> goerr option" where
  "inspectReadBuffer hasSyscallConn rawErr controlErr opt =
     (if \<not> hasSyscallConn then (0, Some (ErrMsg ''doesn't have a SyscallConn''))
      else case rawErr of
        Some e \<Rightarrow> (0, Some (ErrMsg (''couldn't get syscall.RawConn: '' @ err_string e)))
      | None \<Rightarrow> (case controlErr of Some e \<Rightarrow> (0, Some e) | None \<Rightarrow> (snd opt, fst opt)))"

definition asOutcome :: "int \<times> goerr option \<Rightarrow> goerr + int" where
  "asOutcome r = (case snd r of Some e \<Rightarrow> Inl e | None \<Rightarrow> Inr (fst r))"

text \<open>A buffer that is large enough already is left alone, and one that cannot be looked at is an error.\<close>

lemma setReceiveBuffer_enough:
  assumes "minSize \<le> n"
  shows "SetReceiveBuffer True (asOutcome (inspectReadBuffer True None None (None, n))) setErr size2 minSize = None"
  using assms by (simp add: SetReceiveBuffer_def inspectReadBuffer_def asOutcome_def)

lemma setReceiveBuffer_unknown:
  "SetReceiveBuffer True (asOutcome (inspectReadBuffer False rawErr controlErr opt)) setErr size2 minSize \<noteq> None"
  by (simp add: SetReceiveBuffer_def inspectReadBuffer_def asOutcome_def)

section \<open>A client for tests\<close>

text \<open>\<open>EchoClient2\<close>: \<open>Some True\<close> when the test goes on without an error, \<open>Some False\<close> when \<open>t.Error\<close> is called, and \<open>None\<close> for \<open>t.Fatal\<close>.\<close>

definition EchoClient2 :: "bool \<Rightarrow> reader \<Rightarrow> writer \<Rightarrow> bool option \<times> writer" where
  "EchoClient2 serverFirst lin lout =
     (let (hello, err, lin') = (if serverFirst then go_read 1024 lin else ([1], None, lin)) in
      if hello = [] \<or> err \<noteq> None then (None, lout)
      else let (_, _, lout) = go_write (bytes_of ''Ping'') lout; (bs, err, _) = go_read 1024 lin'
        in (Some (length bs = 4), lout))"

text \<open>The client passes on the bytes that the echo server sends for its request when they arrive in one piece, and fails when the transport splits them:
  a single read is taken for the whole answer.\<close>

lemma echoClient2_passes:
  assumes "w_out (er_out (handleStreams False 0 ([(bytes_of ''Ping'', None)], tcpCaps) (\<lparr>w_out = [], w_next = []\<rparr>, tcpCaps))) = ans"
  shows "fst (EchoClient2 False [(ans, None)] \<lparr>w_out = [], w_next = []\<rparr>) = Some True"
proof -
  have "0 \<notin> set (bytes_of ''Ping'')" by code_simp
  then have "ans = bytes_of ''Ping''"
    using assms echoLoop_complete [of "\<lparr>er_in = [(bytes_of ''Ping'', None)], er_out = \<lparr>w_out = [], w_next = []\<rparr>, er_Received = 0, er_first = 0,
        er_writeClosed = False, er_events = []\<rparr>" tcpCaps False tcpCaps]
    by (simp add: handleStreams_def noStop_def plain_reader_def Let_def io_simps)
  then show ?thesis by (simp add: EchoClient2_def go_write_def)
qed

lemma echoClient2_split: "fst (EchoClient2 False [(take 2 (bytes_of ''Ping''), None), (drop 2 (bytes_of ''Ping''), None)] w) = Some False"
  by (simp add: EchoClient2_def split: prod.splits)

end
