(* ===== verification/Spec2Isabelle.thy ===== *)
theory Spec2Isabelle
  imports Nio_RecvBuf Nio_Sni Nio_Conn Http_Proxy Uds Nat_Threads Dns Discovery Gateway Echo Reverse Watcher Quiche Quic Passkey Oidc Ipfs Echo_Check Gotmpl Tools Nio_Meta Startup Webrtc Ns9p Relays Pubsub Modules
begin

text \<open>
  A verification development for ugate (\<^verbatim>\<open>src/\<close>), a small mesh gateway in Go.

  \<^bold>\<open>The program.\<close> ugate accepts connections, packets and messages, finds out where they belong, and relays them.

  \<^item> The package \<open>nio\<close> (\<^verbatim>\<open>src/nio/\<close>; \<^verbatim>\<open>src/nio2/\<close> is the same code under another name) has the byte-level work:
    pooled chunks, a buffer in front of a reader, the parser of the TLS ClientHello, a copy loop, a proxy made of two copies, a
    receive queue, streams with framing, and the helpers of an HTTP proxy.
  \<^item> Listeners put these together: the SNI router, the HTTP and \<open>CONNECT\<close> proxy, the echo server.
  \<^item> Messages (\<open>pkg/webpush\<close>) go through a mux to handlers and connections; \<open>pkg/uds\<close> is the transport over Unix-domain
    sockets. \<open>pkg/h2r\<close> keeps reverse HTTP/2 connections.
  \<^item> \<open>pkg/udp\<close> is a NAT for UDP with transparent capture; captured DNS goes to \<open>pkg/dns\<close>; \<open>pkg/local_discovery\<close> finds
    nodes on the local network.
  \<^item> Other transports and services: QUIC (\<open>pkg/quic\<close>, and \<open>pkg/ext/cfquiche\<close> on another library), WebRTC (\<open>pkg/webrtc\<close>), IPFS
    (\<open>pkg/ipfs\<close>), passkeys and OIDC tokens (\<open>pkg/passkey\<close>, \<open>pkg/oidc\<close>), templates (\<open>pkg/gotmpl\<close>), a 9p file server, and
    commands (\<open>cmd\<close>).

  \<^bold>\<open>Theories, sources and state.\<close>

  \<^item> \<open>Go_Prelude\<close>: the parts of Go that are used everywhere. Slices with capacity, byte order, strings, errors, readers and writers,
    \<open>io.Copy\<close>, and the rules \<open>sat\<close> for partial correctness of \<open>do\<close> blocks.
  \<^item> \<open>Nio_Pool\<close> (\<open>nio/pool.go\<close>): record \<open>chunk_pools\<close>; chunks have the size of their class (\<open>chunk_size\<close>).
  \<^item> \<open>Nio_Buffer\<close> (\<open>nio/buf.go\<close>): records \<open>buffer\<close>, \<open>bufferReader\<close>, \<open>bufConn\<close>, one definition for each method. Looking
    ahead and reading through a buffer is invisible; reads return; varints are read back; where writes overflow.
  \<^item> \<open>Nio_RecvBuf\<close> (\<open>nio/recvbuf.go\<close>): the queue between a frame reader and the user of a stream, with the two goroutines as
    steps; it is first in, first out, and nothing is lost.
  \<^item> \<open>Nio_Sni\<close> (\<open>nio/sni.go\<close>): the parser on checked slices; it finds the name of every well-formed ClientHello and leaves the
    stream as it was.
  \<^item> \<open>Nio_Copy\<close> (\<open>nio/streams.go\<close>, \<open>nio/proxy.go\<close>): record \<open>copier\<close>, \<open>Copy\<close> and \<open>Proxy\<close>; both directions relay every byte and
    close what they must.
  \<^item> \<open>Nio_Stream\<close> (\<open>nio/stream_in_out.go\<close>): record \<open>stream\<close>; transparent reading; frames that \<open>Send\<close> writes are what \<open>Recv\<close> parses, on a stream
    whose \<open>rtCh\<close> is set, which no code does.
  \<^item> \<open>Nio_Conn\<close> (\<open>nio/stream_conn.go\<close>, \<open>stream_h2_server.go\<close>, \<open>stream_h2_client.go\<close>): the other streams and the tunnel over HTTP/2, which
    carries the bytes of both ends, flushed as they are written.
  \<^item> \<open>Http_Proxy\<close> (\<open>nio/http_proxy.go\<close>): headers as maps with canonical keys; which values of which headers reach the backend,
    and what reaches the client.
  \<^item> \<open>Gateway\<close> (\<open>pkg/sni/sni.go\<close>, \<open>pkg/http_proxy/httpproxy_capture.go\<close>): the handlers, composed from the models above. A
    \<open>BufferReader\<close> is handed to the proxy as the reader that it simulates.
  \<^item> \<open>Echo\<close> (\<open>pkg/echo/echo.go\<close>); \<open>Reverse\<close> (\<open>pkg/h2r/h2r.go\<close>, with concurrent handlers as steps, whose table of peers no
    code makes, and the session of \<open>pkg/smtpd/smtp.go\<close>).
  \<^item> \<open>Msg_Mux\<close> (\<open>pkg/webpush/\<close> \<open>message.go\<close>, \<open>mux.go\<close>, \<open>gate.go\<close>, \<open>http.go\<close>): record \<open>mux\<close>; who gets a message, and what is
    registered after any sequence of connections that come and go.
  \<^item> \<open>Uds\<close> (\<open>pkg/uds/\<close> \<open>stream.go\<close>, \<open>uds.go\<close>): frames and their parser on one buffer; what is sent is received; what
    \<open>serverStream\<close> does with a client that passes or fails the group check. The call \<open>conn.Mesh.Mux.HandleMessageForNode\<close> needs a field that does not
    exist, and is a parameter.
  \<^item> \<open>Udp_Oob\<close> (\<open>pkg/udp/conn_oob.go\<close>, \<open>tproxy_udp.go\<close>): control messages byte by byte; \<open>Udp_Nat\<close> (\<open>udpproxy.go\<close>): the table of
    clients, with packets, read loops and cleanup as operations, and that packets find their way back; \<open>Nat_Threads\<close>: the same code as goroutines,
    one for each captured packet, which run in any order between the sections under the lock, with the invariant of all reachable states.
  \<^item> \<open>Dns\<close> (\<open>pkg/dns/\<close> \<open>dns.go\<close>, \<open>dns_http.go\<close>): queries, names of addresses, DNS over TCP and HTTP with the pooled buffers that
    answers are written from.
  \<^item> \<open>Discovery\<close> (\<open>pkg/local_discovery/udp_discovery.go\<close>): announcements with their signatures, receivers, interfaces; steps of
    the node; only signed announcements change anything, the table of nodes is well formed; as it is wired the node never announces itself.
  \<^item> \<open>Watcher\<close> (\<open>cmd/watcher.go\<close>): the crawler of the mesh, with every order of visits; it ends and finds what can be reached.
  \<^item> \<open>Nio_Meta\<close> (the metadata of the streams of \<open>nio\<close>, and its users in \<open>pkg/echo/echo.go\<close>): for which streams the description of a
    connection returns.
  \<^item> \<open>Quiche\<close> (\<open>pkg/ext/cfquiche/quiche.go\<close>): record \<open>server\<close>, the table of connections with stateless retry, and the client with its
    goroutines. What a token must look like to open a connection (it is not protected, and can be made up), a client that follows the retry is served, the
    server survives every packet.
  \<^item> \<open>Quic\<close> (\<open>pkg/quic/\<close> \<open>quic.go\<close>, \<open>mux.go\<close>): the handler of raw streams, composed from \<open>ReadHeader\<close>, \<open>SendHeader\<close> and \<open>Proxy\<close>; a
    stream reaches the destination that its header names, and both directions are relayed.
  \<^item> \<open>Passkey\<close> (\<open>pkg/passkey/passkey_server.go\<close>): record \<open>passkeyState\<close> and all handlers, one after the other and as concurrent steps;
    what a login needs, and that an assertion cannot be used twice one after the other. \<open>Oidc\<close> (\<open>pkg/oidc/gooidc.go\<close>): which
    tokens are accepted.
  \<^item> \<open>Webrtc\<close> (\<open>pkg/webrtc/\<close> \<open>webrtc.go\<close>, \<open>rtc.go\<close>): signalling, with the goroutine that gathers candidates as steps that refine
    \<open>AcceptPeering\<close>, when it panics, fails, waits or returns.
  \<^item> \<open>Ipfs\<close> (\<open>pkg/ipfs/dht.go\<close>): addresses, modes, bootstrap, the iterator of peers, the connection gater and the HTTP handler.
  \<^item> \<open>Startup\<close>: how the listeners of \<open>pkg/quic\<close>, \<open>pkg/dns\<close>, \<open>pkg/smtpd\<close>, \<open>pkg/uds\<close> and \<open>pkg/udp\<close> start, with their sockets; periodic
    work; files over Unix-domain sockets, which arrive in order.
  \<^item> \<open>Echo_Check\<close> (\<open>pkg/test/testing.go\<close>): the check of an echo server, composed with \<open>Echo\<close>; \<open>Gotmpl\<close> (\<open>pkg/gotmpl/tmpl.go\<close>): running a
    template and its HTTP functions; \<open>Ns9p\<close> (\<open>pkg/fs/ns9p/ns9p.go\<close>): files that record their use; \<open>Tools\<close> (\<open>cmd/\<close> \<open>uagent\<close>, \<open>ucni\<close>,
    \<open>toktool.go\<close>, \<open>ucli/parse.go\<close>, and \<open>nio/syscall\<close>): names, the choice of addresses, tokens, flags, the user timeout.
  \<^item> \<open>Modules\<close> (\<open>cmd/mqtt.go\<close>, \<open>cmd/gcp.go\<close>, \<open>pkg/acme/stepca.go\<close>, \<open>pkg/ugatecaddy\<close>, \<open>pkg/h2c/h2c.go\<close>, \<open>pkg/ipfs/watch.go\<close>, and the
    sockets and settings of \<open>cfquiche\<close>): the logic of modules that join libraries.
  \<^item> \<open>Relays\<close>: compositions of \<open>Gateway\<close>, \<open>Quic\<close> and \<open>Echo\<close>. A gateway behind a gateway relays both directions, and a service behind a gateway
    is seen through it. \<open>Pubsub\<close>: \<open>Msg_Mux\<close> with the connections of \<open>Uds\<close>; a subscriber reads the messages of its topic, in order.

  \<^bold>\<open>Conventions.\<close> A struct is a record, a pointer that is shared is an index or a key, and what goes to the outside is logged in the
  state. A call that panics, blocks for ever or loops for ever is \<open>None\<close>; loops that may not end are \<open>partial_function (option)\<close>, all
  other loops are proved to terminate; there is no fuel. Machine integers are words where they can wrap (counters, lengths in
  frames, ports in control messages) and natural numbers where the code is bounded by the size of a buffer. Concurrency is a step
  relation (\<open>Nio_RecvBuf\<close>, \<open>Nat_Threads\<close>, \<open>Discovery\<close>, \<open>Reverse\<close>, \<open>Watcher\<close>, \<open>Passkey\<close>, \<open>Webrtc\<close>, \<open>Modules\<close>), or an order of events that is a parameter
  (\<open>Proxy\<close>). Packages outside of \<^verbatim>\<open>src/\<close> (\<open>meshauth\<close>, \<open>miekg/dns\<close>, \<open>net/http\<close> transports, the libraries for QUIC, WebRTC, libp2p, passkeys and OIDC) and the system are parameters;
  what a theorem needs of them is one of its hypotheses, and its witness has an instance.

  \<^bold>\<open>Interfaces.\<close> The locale \<open>byte_stream\<close> is looking ahead and reading as users of buffers see it, interpreted for \<open>BufferReader\<close> and
  \<open>InOutStream\<close>; \<open>net_conn\<close> is a duplex connection, interpreted for all four streams; \<open>msg_queue\<close> is the queue of \<open>Nio_RecvBuf\<close>; \<open>as_reader\<close> is
  what \<open>Proxy\<close> needs of the values that it reads from, interpreted for \<open>BufferReader\<close> and \<open>InOutStream\<close>; \<open>relay\<close> is a handler
  that ends in \<open>Proxy\<close>, interpreted for the SNI listener, \<open>CONNECT\<close> and the raw streams of QUIC, and \<open>relay_chain\<close> is two of them in a row, which is a
  \<open>relay\<close> again. Their lemmas give \<open>bufferReader_transparent\<close>, \<open>stream_transparent\<close>, \<open>tunnel_end_to_end\<close>, \<open>recv_fifo\<close>, \<open>readers_simulate\<close>,
  \<open>tls_through_connect\<close> and \<open>echo_through_gateways\<close>.

  \<^bold>\<open>What the theorems found.\<close> Some theorems and lemmas state what the code does although its comments or its purpose say otherwise:
  panics on input of a peer (a record of 38 bytes, a short \<open>outbound_\<close> name, a DNS message over TCP that claims more than the
  buffer), calls that never return, bytes that are dropped, tables that are never made or never stored, a buffer that is recycled
  twice, checks that are dropped or never made (client certificates of QUIC, users of TURN, the user of a passkey, the group of a client), retry tokens that
  anyone can make up, hop-by-hop headers that pass, buffers that are written or reused while others need them, a connection that is lost when an older one of
  its name closes. They are named in the text before them.

  \<^bold>\<open>Not modelled.\<close> Code that only configures and calls libraries (Noise, FUSE, WebDAV, rclone, watermill, the options of
  libp2p, the clients in \<^verbatim>\<open>src/cmd/\<close> for DNS providers, language models and telemetry), since nothing of its behaviour is in
  \<^verbatim>\<open>src/\<close>; commands, which read flags and start components; \<open>nio2\<close>, a copy of \<open>nio\<close> that differs only in the name of the package; code that is
  commented out (\<open>webpush/push.go\<close>, \<open>h2r/h2raw.go\<close>, \<open>nio/sniff.go\<close>, most of \<open>quic_raw.go\<close>). CPU times are floating point numbers
  and left out. Time is a parameter of the operations that read the clock; log output is left out.
\<close>

end
